(* ===== verification/Mosq_Prelude.thy ===== *)
theory Mosq_Prelude
  imports Main "HOL-Library.Word"
begin

text \<open>
  What every component theory shares: the integer widths of the C code, the return codes of
  \<open>mosquitto.h\<close>, the outcome type of a modelled C function, the allocator, the NUL-terminated
  strings, the insertion-ordered hash table that stands for the \<open>uthash\<close> macros, and the
  collections of simplification rules the component proofs use.
\<close>

unbundle bit_operations_syntax

section \<open>Machine integers\<close>

type_synonym u8 = "8 word"
type_synonym u16 = "16 word"
type_synonym u32 = "32 word"

lemma u8_less [simp]: "unat (b :: u8) < 256"
  by (rule less_le_trans [OF unsigned_less]) simp

lemma u16_less [simp]: "unat (w :: u16) < 65536"
  by (rule less_le_trans [OF unsigned_less]) simp

lemma u32_less [simp]: "unat (w :: u32) < 4294967296"
  by (rule less_le_trans [OF unsigned_less]) simp

section \<open>Return codes (enum mosq\_err\_t)\<close>

datatype mosq_err =
    MOSQ_ERR_AUTH_CONTINUE | MOSQ_ERR_NO_SUBSCRIBERS | MOSQ_ERR_SUB_EXISTS
  | MOSQ_ERR_CONN_PENDING | MOSQ_ERR_SUCCESS | MOSQ_ERR_NOMEM | MOSQ_ERR_PROTOCOL
  | MOSQ_ERR_INVAL | MOSQ_ERR_NO_CONN | MOSQ_ERR_CONN_REFUSED | MOSQ_ERR_NOT_FOUND
  | MOSQ_ERR_CONN_LOST | MOSQ_ERR_TLS | MOSQ_ERR_PAYLOAD_SIZE | MOSQ_ERR_NOT_SUPPORTED
  | MOSQ_ERR_AUTH | MOSQ_ERR_ACL_DENIED | MOSQ_ERR_UNKNOWN | MOSQ_ERR_ERRNO | MOSQ_ERR_EAI
  | MOSQ_ERR_PROXY | MOSQ_ERR_PLUGIN_DEFER | MOSQ_ERR_MALFORMED_UTF8 | MOSQ_ERR_KEEPALIVE
  | MOSQ_ERR_LOOKUP | MOSQ_ERR_MALFORMED_PACKET | MOSQ_ERR_DUPLICATE_PROPERTY
  | MOSQ_ERR_TLS_HANDSHAKE | MOSQ_ERR_QOS_NOT_SUPPORTED | MOSQ_ERR_OVERSIZE_PACKET
  | MOSQ_ERR_OCSP | MOSQ_ERR_TIMEOUT | MOSQ_ERR_RETAIN_NOT_SUPPORTED
  | MOSQ_ERR_TOPIC_ALIAS_INVALID | MOSQ_ERR_ADMINISTRATIVE_ACTION | MOSQ_ERR_ALREADY_EXISTS

section \<open>Outcomes of a C function\<close>

text \<open>
  A function that returns an \<open>int\<close> code and otherwise produces a value is modelled with a
  result in \<open>'a res\<close>: \<open>Inr v\<close> is \<open>MOSQ_ERR_SUCCESS\<close> with its output values, \<open>Inl (Rc e)\<close>
  the return of another code. The remaining constructors of \<open>stop\<close> are the ways in which the
  C execution does not return at all: a failed \<open>assert\<close>, an access outside of a buffer and the
  use of a null pointer. They are values of the model so that "this never happens" is a
  theorem.
\<close>

datatype stop = Rc mosq_err | Assert_fail | Oob | Null_deref

type_synonym 'a res = "stop + 'a"

definition rc_fail :: "mosq_err \<Rightarrow> 'a res" where
  [simp]: "rc_fail e = Inl (Rc e)"

text \<open>A C \<open>int\<close> that a caller only tests for being zero.\<close>

definition rc_ok :: "'a res \<Rightarrow> bool" where
  "rc_ok r = (case r of Inl _ \<Rightarrow> False | Inr _ \<Rightarrow> True)"

lemma rc_ok_simps [simp]: "rc_ok (Inr v)" "\<not> rc_ok (Inl e)"
  by (simp_all add: rc_ok_def)

section \<open>Allocation\<close>

text \<open>
  Every call of \<open>mosquitto__malloc\<close>, \<open>calloc\<close>, \<open>realloc\<close> or \<open>strdup\<close> may fail. The outcomes
  of the calls still to come are a list of booleans that each call consumes; an empty list
  means that every later call succeeds. A theorem about an arbitrary list covers every pattern
  of failures, one about \<open>[]\<close> the run without any.
\<close>

type_synonym mem = "bool list"

fun malloc_ok :: "mem \<Rightarrow> bool \<times> mem" where
  "malloc_ok [] = (True, [])"
| "malloc_ok (b # m) = (b, m)"

section \<open>Buffers\<close>

definition rd8 :: "u8 list \<Rightarrow> nat \<Rightarrow> u8 res" where
  "rd8 buf i = (if i < length buf then Inr (buf ! i) else Inl Oob)"

lemma rd8_append [simp]: "rd8 (pre @ b # rest) (length pre) = Inr b"
  by (simp add: rd8_def)

lemma rd8_append_off: "rd8 (pre @ xs) (length pre + k) = rd8 xs k"
  by (simp add: rd8_def nth_append)

section \<open>Insertion-ordered hash tables (uthash)\<close>

text \<open>
  \<open>HASH_ADD_KEYPTR\<close> appends to the application order that \<open>HASH_ITER\<close> follows, \<open>HASH_FIND\<close>
  looks a key up, \<open>HASH_DELETE\<close> unlinks the element. The model is the association list in
  application order; the buckets are not represented. The keys of a table are expected to differ:
  uthash leaves it to its buckets which of two elements with one key is found, the model finds the
  first in application order.
\<close>

type_synonym ('k, 'v) ht = "('k \<times> 'v) list"

fun ht_find :: "'k \<Rightarrow> ('k, 'v) ht \<Rightarrow> 'v option" where
  "ht_find k [] = None"
| "ht_find k ((k', v) # t) = (if k = k' then Some v else ht_find k t)"

definition ht_add :: "'k \<Rightarrow> 'v \<Rightarrow> ('k, 'v) ht \<Rightarrow> ('k, 'v) ht" where
  "ht_add k v t = t @ [(k, v)]"

text \<open>Writing through the pointer that \<open>HASH_FIND\<close> returned changes the element in place.\<close>

fun ht_set :: "'k \<Rightarrow> 'v \<Rightarrow> ('k, 'v) ht \<Rightarrow> ('k, 'v) ht" where
  "ht_set k v [] = []"
| "ht_set k v ((k', v') # t) = (if k = k' then (k, v) # t else (k', v') # ht_set k v t)"

fun ht_del :: "'k \<Rightarrow> ('k, 'v) ht \<Rightarrow> ('k, 'v) ht" where
  "ht_del k [] = []"
| "ht_del k ((k', v) # t) = (if k = k' then t else (k', v) # ht_del k t)"

definition ht_keys :: "('k, 'v) ht \<Rightarrow> 'k list" where
  "ht_keys t = map fst t"

definition ht_wf :: "('k, 'v) ht \<Rightarrow> bool" where
  "ht_wf t \<longleftrightarrow> distinct (map fst t)"

lemma ht_find_None_iff: "ht_find k t = None \<longleftrightarrow> k \<notin> fst ` set t"
  by (induction k t rule: ht_find.induct) auto

lemma ht_find_Some_in: "ht_find k t = Some v \<Longrightarrow> (k, v) \<in> set t"
  by (induction k t rule: ht_find.induct) (auto split: if_splits)

lemma ht_find_in_set: "ht_wf t \<Longrightarrow> (k, v) \<in> set t \<longleftrightarrow> ht_find k t = Some v"
  by (induction k t rule: ht_find.induct) (force simp: ht_wf_def)+

lemma ht_find_append: "ht_find k (s @ t) = (case ht_find k s of None \<Rightarrow> ht_find k t | Some v \<Rightarrow> Some v)"
  by (induction k s rule: ht_find.induct) auto

lemma ht_find_add: "ht_find k t = None \<Longrightarrow> ht_find k' (ht_add k v t) = (if k' = k then Some v else ht_find k' t)"
  by (auto simp: ht_add_def ht_find_append split: option.splits)

lemma ht_find_set: "ht_find k' (ht_set k v t) = (if k' = k \<and> ht_find k t \<noteq> None then Some v else ht_find k' t)"
  by (induction k v t rule: ht_set.induct) auto

lemma ht_find_del_other: "k' \<noteq> k \<Longrightarrow> ht_find k' (ht_del k t) = ht_find k' t"
  by (induction k t rule: ht_del.induct) auto

lemma ht_find_del_same: "ht_wf t \<Longrightarrow> ht_find k (ht_del k t) = None"
  by (induction k t rule: ht_del.induct) (auto simp: ht_wf_def ht_find_None_iff)

lemma ht_find_del: "ht_wf t \<Longrightarrow> ht_find k' (ht_del k t) = (if k' = k then None else ht_find k' t)"
  by (simp add: ht_find_del_other ht_find_del_same)

lemma keys_ht_set [simp]: "map fst (ht_set k v t) = map fst t"
  by (induction k v t rule: ht_set.induct) auto

lemma keys_ht_del: "set (map fst (ht_del k t)) \<subseteq> set (map fst t)"
  by (induction k t rule: ht_del.induct) auto

lemma ht_wf_Nil [simp]: "ht_wf []"
  by (simp add: ht_wf_def)

lemma ht_wf_add: "ht_wf t \<Longrightarrow> ht_find k t = None \<Longrightarrow> ht_wf (ht_add k v t)"
  by (simp add: ht_wf_def ht_add_def ht_find_None_iff)

lemma ht_wf_set [simp]: "ht_wf (ht_set k v t) \<longleftrightarrow> ht_wf t"
  by (simp add: ht_wf_def)

lemma ht_wf_del: "ht_wf t \<Longrightarrow> ht_wf (ht_del k t)"
proof (induction k t rule: ht_del.induct)
  case (2 k k' v t)
  then show ?case using keys_ht_del [of k t] by (auto simp: ht_wf_def)
qed simp

lemma ht_set_id: "ht_find k t = Some v \<Longrightarrow> ht_set k v t = t"
  by (induction k v t rule: ht_set.induct) (auto split: if_splits)

lemma set_ht_set: "x \<in> set (ht_set k v t) \<Longrightarrow> x = (k, v) \<or> x \<in> set t"
  by (induction k v t rule: ht_set.induct) (auto split: if_splits)

lemma set_ht_del: "x \<in> set (ht_del k t) \<Longrightarrow> x \<in> set t"
  by (induction k t rule: ht_del.induct) (auto split: if_splits)

text \<open>\<open>HASH_ITER\<close>: visiting every element in order; \<open>f\<close> may change the element and a state.\<close>

primrec ht_iter :: "('v \<Rightarrow> 's \<Rightarrow> 'v \<times> 's) \<Rightarrow> ('k, 'v) ht \<Rightarrow> 's \<Rightarrow> ('k, 'v) ht \<times> 's" where
  "ht_iter f [] s = ([], s)"
| "ht_iter f (kv # t) s =
     (case f (snd kv) s of (v, s) \<Rightarrow> (case ht_iter f t s of (t, s) \<Rightarrow> ((fst kv, v) # t, s)))"

lemma keys_ht_iter [simp]: "map fst (fst (ht_iter f t s)) = map fst t"
  by (induction t arbitrary: s) (simp_all add: split_beta)

text \<open>The interface a client of the hash tables relies on.\<close>

locale hash_table =
  fixes find :: "'k \<Rightarrow> 't \<Rightarrow> 'v option"
    and add :: "'k \<Rightarrow> 'v \<Rightarrow> 't \<Rightarrow> 't"
    and set_at :: "'k \<Rightarrow> 'v \<Rightarrow> 't \<Rightarrow> 't"
    and del :: "'k \<Rightarrow> 't \<Rightarrow> 't"
    and wf :: "'t \<Rightarrow> bool"
  assumes find_add: "find k t = None \<Longrightarrow> find k' (add k v t) = (if k' = k then Some v else find k' t)"
    and find_set: "find k' (set_at k v t) = (if k' = k \<and> find k t \<noteq> None then Some v else find k' t)"
    and find_del: "wf t \<Longrightarrow> find k' (del k t) = (if k' = k then None else find k' t)"
    and wf_add: "wf t \<Longrightarrow> find k t = None \<Longrightarrow> wf (add k v t)"
    and wf_set: "wf t \<Longrightarrow> wf (set_at k v t)"
    and wf_del: "wf t \<Longrightarrow> wf (del k t)"
begin

text \<open>Find the element of a key, creating it when it is missing, and change it.\<close>

definition upsert :: "'k \<Rightarrow> 'v \<Rightarrow> ('v \<Rightarrow> 'v) \<Rightarrow> 't \<Rightarrow> 't" where
  "upsert k d f t = (case find k t of None \<Rightarrow> add k (f d) t | Some v \<Rightarrow> set_at k (f v) t)"

lemma find_upsert:
  "find k' (upsert k d f t) =
     (if k' = k then Some (f (case find k t of None \<Rightarrow> d | Some v \<Rightarrow> v)) else find k' t)"
  by (auto simp: upsert_def find_add find_set split: option.splits)

lemma wf_upsert: "wf t \<Longrightarrow> wf (upsert k d f t)"
  by (auto simp: upsert_def wf_add wf_set split: option.splits)

lemma upsert_upsert:
  "find k (upsert k d g (upsert k d f t)) = Some (g (f (case find k t of None \<Rightarrow> d | Some v \<Rightarrow> v)))"
  by (simp add: find_upsert)

lemma del_upsert: "wf t \<Longrightarrow> find k' (del k (upsert k d f t)) = find k' (del k t)"
  by (simp add: find_del find_upsert wf_upsert)

end

interpretation uthash: hash_table ht_find ht_add ht_set ht_del ht_wf
  by unfold_locales (auto simp: ht_find_add ht_find_set ht_find_del ht_wf_add ht_wf_del)

section \<open>Collections\<close>

named_theorems word_simps \<open>reading machine words as natural numbers\<close>
named_theorems codec_simps \<open>one step of a packet reader or writer\<close>
named_theorems trie_simps \<open>lookups after an update of a topic tree\<close>
named_theorems queue_simps \<open>counters of the message queues after an operation\<close>

lemmas [word_simps] = unat_word_ariths word_le_nat_alt word_less_nat_alt

end
