(* ===== verification/Utf8.thy ===== *)
theory Utf8
  imports Mosq_Prelude
begin

text \<open>
  \<open>lib/utf8_mosq.c\<close>: the validator of MQTT strings. \<open>mosquitto_validate_utf8\<close> is the code's loop
  over a buffer and a length; \<open>utf8_enc\<close> and \<open>utf8_allowed\<close> are the reference: the UTF-8 encoding
  of a code point and the code points MQTT admits. The buffer is the memory behind the C
  pointer, which may be longer than \<open>len\<close>: a read beyond it is the outcome \<open>Oob\<close>.
\<close>

section \<open>The code\<close>

text \<open>The classification of the first byte: the length of the sequence and its first bits.\<close>

definition utf8_lead :: "u8 \<Rightarrow> (nat \<times> int) option" where
  "utf8_lead b =
     (if b = 0 then None
      else if b \<le> 0x7f then Some (1, uint b)
      else if b AND 0xE0 = 0xC0 then
        (if b = 0xC0 \<or> b = 0xC1 then None else Some (2, uint (b AND 0x1F)))
      else if b AND 0xF0 = 0xE0 then Some (3, uint (b AND 0x0F))
      else if b AND 0xF8 = 0xF0 then
        (if 0xF4 < b then None else Some (4, uint (b AND 0x07)))
      else None)"

text \<open>The inner loop over the continuation bytes, with its index \<open>i\<close> and code point.\<close>

fun utf8_cont :: "u8 list \<Rightarrow> nat \<Rightarrow> nat \<Rightarrow> int \<Rightarrow> (nat \<times> int) res" where
  "utf8_cont buf 0 i cp = Inr (i, cp)"
| "utf8_cont buf (Suc n) i cp =
     (case rd8 buf (Suc i) of
        Inl e \<Rightarrow> Inl e
      | Inr b \<Rightarrow>
          if b AND 0xC0 \<noteq> 0x80 then rc_fail MOSQ_ERR_MALFORMED_UTF8
          else utf8_cont buf n (Suc i) (push_bit 6 cp OR uint (b AND 0x3F)))"

text \<open>The checks on the code point that has been put together.\<close>

definition utf8_bad_codepoint :: "nat \<Rightarrow> int \<Rightarrow> bool" where
  "utf8_bad_codepoint codelen cp \<longleftrightarrow>
     (0xD800 \<le> cp \<and> cp \<le> 0xDFFF)
   \<or> (codelen = 3 \<and> cp < 0x0800)
   \<or> (codelen = 4 \<and> (cp < 0x10000 \<or> cp > 0x10FFFF))
   \<or> (0xFDD0 \<le> cp \<and> cp \<le> 0xFDEF)
   \<or> cp AND 0xFFFF = 0xFFFE \<or> cp AND 0xFFFF = 0xFFFF
   \<or> cp \<le> 0x001F \<or> (0x007F \<le> cp \<and> cp \<le> 0x009F)"

lemma utf8_cont_pos: "utf8_cont buf n i cp = Inr (j, cp') \<Longrightarrow> j = i + n"
  by (induction buf n i cp rule: utf8_cont.induct) (auto split: sum.splits if_splits)

function utf8_loop :: "u8 list \<Rightarrow> nat \<Rightarrow> nat \<Rightarrow> unit res" where
  "utf8_loop buf len i =
     (if i < len then
        (case rd8 buf i of
           Inl e \<Rightarrow> Inl e
         | Inr b \<Rightarrow>
             (case utf8_lead b of
                None \<Rightarrow> rc_fail MOSQ_ERR_MALFORMED_UTF8
              | Some (codelen, cp) \<Rightarrow>
                  if int i = int len - int codelen + 1 then rc_fail MOSQ_ERR_MALFORMED_UTF8
                  else
                    (case utf8_cont buf (codelen - 1) i cp of
                       Inl e \<Rightarrow> Inl e
                     | Inr (j, cp') \<Rightarrow>
                         if utf8_bad_codepoint codelen cp' then rc_fail MOSQ_ERR_MALFORMED_UTF8
                         else utf8_loop buf len (Suc j))))
      else Inr ())"
  by pat_completeness auto
termination
  by (relation "measure (\<lambda>(buf, len, i). len - i)") (auto dest: utf8_cont_pos)

declare utf8_loop.simps [simp del]

definition mosquitto_validate_utf8 :: "u8 list option \<Rightarrow> int \<Rightarrow> unit res" where
  "mosquitto_validate_utf8 str len =
     (case str of
        None \<Rightarrow> rc_fail MOSQ_ERR_INVAL
      | Some ustr \<Rightarrow>
          if len < 0 \<or> len > 65536 then rc_fail MOSQ_ERR_INVAL
          else utf8_loop ustr (nat len) 0)"

section \<open>The reference\<close>

definition utf8_enc :: "nat \<Rightarrow> u8 list" where
  "utf8_enc c =
     (if c < 0x80 then [of_nat c]
      else if c < 0x800 then [of_nat (0xC0 + c div 64), of_nat (0x80 + c mod 64)]
      else if c < 0x10000 then
        [of_nat (0xE0 + c div 4096), of_nat (0x80 + c div 64 mod 64), of_nat (0x80 + c mod 64)]
      else
        [of_nat (0xF0 + c div 262144), of_nat (0x80 + c div 4096 mod 64),
         of_nat (0x80 + c div 64 mod 64), of_nat (0x80 + c mod 64)])"

text \<open>Unicode scalar values that are neither control characters nor noncharacters.\<close>

definition utf8_allowed :: "nat \<Rightarrow> bool" where
  "utf8_allowed c \<longleftrightarrow>
     c \<le> 0x10FFFF \<and> \<not> (0xD800 \<le> c \<and> c \<le> 0xDFFF) \<and> \<not> (0xFDD0 \<le> c \<and> c \<le> 0xFDEF)
     \<and> c mod 0x10000 < 0xFFFE \<and> \<not> c \<le> 0x1F \<and> \<not> (0x7F \<le> c \<and> c \<le> 0x9F)"

definition utf8_wf :: "u8 list \<Rightarrow> bool" where
  "utf8_wf bs \<longleftrightarrow> (\<exists>cs. (\<forall>c \<in> set cs. utf8_allowed c) \<and> bs = concat (map utf8_enc cs))"

section \<open>Bytes\<close>

lemma and_high_bits:
  assumes "k \<le> 8"
  shows "unat ((b :: u8) AND push_bit k (mask (8 - k))) = unat b div 2 ^ k * 2 ^ k"
proof -
  have "b AND push_bit k (mask (8 - k)) = push_bit k (drop_bit k b)"
    using assms by (intro bit_word_eqI) (auto simp: bit_simps)
  moreover have "unat (push_bit k (drop_bit k b)) = unat b div 2 ^ k * 2 ^ k"
  proof -
    have "unat b div 2 ^ k * 2 ^ k \<le> unat b" by (rule div_times_less_eq_dividend)
    then have "unat b div 2 ^ k * 2 ^ k < 256" using u8_less [of b] by linarith
    then show ?thesis
      by (simp add: unsigned_push_bit_eq unsigned_drop_bit_eq push_bit_eq_mult [where 'a = nat]
          drop_bit_eq_div [where 'a = nat] take_bit_eq_mod [where 'a = nat])
  qed
  ultimately show ?thesis by simp
qed

lemma and_low_bits: "unat ((b :: u8) AND mask k) = unat b mod 2 ^ k"
proof -
  have "unat (take_bit k b) = take_bit k (unat b)" by (simp add: unsigned_take_bit_eq)
  then show ?thesis by (simp only: take_bit_eq_mask [symmetric] take_bit_eq_mod [where 'a = nat])
qed

lemma byte_masks:
  "unat ((b :: u8) AND 0xC0) = unat b div 64 * 64"
  "unat (b AND 0xE0) = unat b div 32 * 32"
  "unat (b AND 0xF0) = unat b div 16 * 16"
  "unat (b AND 0xF8) = unat b div 8 * 8"
  "unat (b AND 0x3F) = unat b mod 64"
  "unat (b AND 0x1F) = unat b mod 32"
  "unat (b AND 0x0F) = unat b mod 16"
  "unat (b AND 0x07) = unat b mod 8"
proof -
  note m = push_bit_eq_mult mask_eq_exp_minus_1
  show "unat (b AND 0xC0) = unat b div 64 * 64" using and_high_bits [of 6 b] by (simp add: m)
  show "unat (b AND 0xE0) = unat b div 32 * 32" using and_high_bits [of 5 b] by (simp add: m)
  show "unat (b AND 0xF0) = unat b div 16 * 16" using and_high_bits [of 4 b] by (simp add: m)
  show "unat (b AND 0xF8) = unat b div 8 * 8" using and_high_bits [of 3 b] by (simp add: m)
  show "unat (b AND 0x3F) = unat b mod 64" using and_low_bits [of b 6] by (simp add: m)
  show "unat (b AND 0x1F) = unat b mod 32" using and_low_bits [of b 5] by (simp add: m)
  show "unat (b AND 0x0F) = unat b mod 16" using and_low_bits [of b 4] by (simp add: m)
  show "unat (b AND 0x07) = unat b mod 8" using and_low_bits [of b 3] by (simp add: m)
qed

lemma cont_byte: "(b AND 0xC0 \<noteq> (0x80::u8)) = (unat b < 128 \<or> 192 \<le> unat b)"
  using byte_masks(1)[of b] u8_less [of b]
  by (simp add: word_unat_eq_iff) linarith

lemma cont_bits: "uint ((b::u8) AND 0x3F) = int (unat b mod 64)"
  using byte_masks(5)[of b] by (metis uint_nat)

lemma utf8_lead_eq:
  "utf8_lead b = (let n = unat b in
     if n = 0 then None else if n < 128 then Some (1, int n) else if n < 194 then None
     else if n < 224 then Some (2, int (n - 192)) else if n < 240 then Some (3, int (n - 224))
     else if n < 245 then Some (4, int (n - 240)) else None)"
proof -
  let ?n = "unat b"
  have n: "?n < 256" by simp
  have u: "uint w = int (unat w)" for w :: u8 by simp
  have c: "b = 0 \<longleftrightarrow> ?n = 0" "b \<le> 0x7f \<longleftrightarrow> ?n \<le> 127"
    "b AND 0xE0 = 0xC0 \<longleftrightarrow> ?n div 32 * 32 = 192" "b AND 0xF0 = 0xE0 \<longleftrightarrow> ?n div 16 * 16 = 224"
    "b AND 0xF8 = 0xF0 \<longleftrightarrow> ?n div 8 * 8 = 240" "b = 0xC0 \<longleftrightarrow> ?n = 192" "b = 0xC1 \<longleftrightarrow> ?n = 193"
    "0xF4 < b \<longleftrightarrow> 244 < ?n"
    by (simp_all add: word_unat_eq_iff word_le_nat_alt word_less_nat_alt byte_masks)
  have dm: "n div k * k = c * k \<longleftrightarrow> c * k \<le> n \<and> n < c * k + k" if "0 < k" for n k c :: nat
  proof -
    have "n div k * k = c * k \<longleftrightarrow> c \<le> n div k \<and> n div k < Suc c" using that by auto
    then show ?thesis
      using that by (simp add: less_eq_div_iff_mult_less_eq div_less_iff_less_mult add.commute)
  qed
  have d: "?n div 32 * 32 = 192 \<longleftrightarrow> 192 \<le> ?n \<and> ?n < 224" "?n div 16 * 16 = 224 \<longleftrightarrow> 224 \<le> ?n \<and> ?n < 240"
    "?n div 8 * 8 = 240 \<longleftrightarrow> 240 \<le> ?n \<and> ?n < 248"
    using dm [of 32 ?n 6] dm [of 16 ?n 14] dm [of 8 ?n 30] by simp_all
  have m: "?n mod 32 = ?n - ?n div 32 * 32" "?n mod 16 = ?n - ?n div 16 * 16" "?n mod 8 = ?n - ?n div 8 * 8"
    by (simp_all add: minus_div_mult_eq_mod)
  consider "?n = 0" | "0 < ?n" "?n < 128" | "128 \<le> ?n" "?n < 192" | "?n = 192" | "?n = 193" | "194 \<le> ?n" "?n < 224"
    | "224 \<le> ?n" "?n < 240" | "240 \<le> ?n" "?n < 245" | "245 \<le> ?n" "?n < 248" | "248 \<le> ?n"
    using n by linarith
  then show ?thesis
    unfolding utf8_lead_def Let_def c d u byte_masks
    by cases (simp_all add: m d)
qed

section \<open>One character\<close>

lemma push_or: "0 \<le> cp \<Longrightarrow> push_bit 6 cp OR int (n mod 64) = cp * 64 + int (n mod 64)"
proof -
  have t: "take_bit 6 (int (n mod 64)) = int (n mod 64)"
    by (simp add: take_bit_eq_mod zmod_int)
  show ?thesis
    using concat_bit_eq [of 6 "int (n mod 64)" cp] concat_bit_def [of 6 "int (n mod 64)" cp]
    by (simp add: t push_bit_eq_mult or.commute)
qed

lemma and_FFFF: "(cp :: int) AND 0xFFFF = cp mod 0x10000"
  using take_bit_eq_mask [of 16 cp] by (simp add: mask_eq_exp_minus_1 take_bit_eq_mod)

lemma bad_codepoint_eq:
  "utf8_bad_codepoint codelen (int n) \<longleftrightarrow>
     codelen = 3 \<and> n < 0x800 \<or> codelen = 4 \<and> n < 0x10000 \<or> codelen = 4 \<and> n > 0x10FFFF
     \<or> \<not> utf8_allowed n \<and> n \<le> 0x10FFFF \<or> n > 0x10FFFF \<and> utf8_bad_codepoint codelen (int n)"
proof -
  have a: "int n AND 0xFFFF = int (n mod 65536)" by (simp add: and_FFFF zmod_int)
  have b: "int m = 0xFFFE \<or> int m = 0xFFFF \<longleftrightarrow> \<not> m < 0xFFFE" if "m < 65536" for m using that by linarith
  have c: "int n AND 0xFFFF = 0xFFFE \<or> int n AND 0xFFFF = 0xFFFF \<longleftrightarrow> \<not> n mod 0x10000 < 0xFFFE"
    unfolding a by (rule b) simp
  have i: "int n \<le> numeral k \<longleftrightarrow> n \<le> numeral k" "numeral k \<le> int n \<longleftrightarrow> numeral k \<le> n"
    "int n < numeral k \<longleftrightarrow> n < numeral k" "numeral k < int n \<longleftrightarrow> numeral k < n" for k
    by simp_all
  show ?thesis unfolding utf8_bad_codepoint_def utf8_allowed_def i using c unfolding not_le [symmetric] by blast
qed

lemma dm64: "k < 64 \<Longrightarrow> (q * 64 + k) div 64 = q" "k < 64 \<Longrightarrow> (q * 64 + k) mod 64 = k" for q k :: nat
  by simp_all

lemma enc2:
  assumes "unat b0 = 192 + a" "unat b1 = 128 + x" "2 \<le> a" "a < 32" "x < 64"
  shows "utf8_enc (a * 64 + x) = [b0, b1]"
proof -
  let ?c = "a * 64 + x"
  have "\<not> ?c < 128" "?c < 2048" "192 + ?c div 64 = unat b0" "128 + ?c mod 64 = unat b1"
    using assms by auto
  then show ?thesis unfolding utf8_enc_def by (simp del: of_nat_add)
qed

lemma enc3:
  assumes "unat b0 = 224 + a" "unat b1 = 128 + x" "unat b2 = 128 + y" "a < 16" "x < 64" "y < 64"
    and "2048 \<le> (a * 64 + x) * 64 + y"
  shows "utf8_enc ((a * 64 + x) * 64 + y) = [b0, b1, b2]"
proof -
  let ?c = "(a * 64 + x) * 64 + y"
  have d: "?c div 64 = a * 64 + x" "?c mod 64 = y" "(a * 64 + x) div 64 = a" "(a * 64 + x) mod 64 = x"
    using assms by (simp_all only: dm64)
  have e: "?c div 4096 = a" using d(1,3) div_mult2_eq [of ?c 64 64] by simp
  have "\<not> ?c < 128" "\<not> ?c < 2048" "?c < 65536" "224 + ?c div 4096 = unat b0"
    "128 + ?c div 64 mod 64 = unat b1" "128 + ?c mod 64 = unat b2"
    unfolding d e using assms by auto
  then show ?thesis unfolding utf8_enc_def by (simp del: of_nat_add)
qed

lemma enc4:
  assumes "unat b0 = 240 + a" "unat b1 = 128 + x" "unat b2 = 128 + y" "unat b3 = 128 + z"
    and "x < 64" "y < 64" "z < 64" and "65536 \<le> ((a * 64 + x) * 64 + y) * 64 + z"
  shows "utf8_enc (((a * 64 + x) * 64 + y) * 64 + z) = [b0, b1, b2, b3]"
proof -
  let ?c = "((a * 64 + x) * 64 + y) * 64 + z"
  have d: "?c div 64 = (a * 64 + x) * 64 + y" "?c mod 64 = z" "((a * 64 + x) * 64 + y) div 64 = a * 64 + x"
     "((a * 64 + x) * 64 + y) mod 64 = y" "(a * 64 + x) div 64 = a" "(a * 64 + x) mod 64 = x"
    using assms by (simp_all only: dm64)
  have e: "?c div 4096 = a * 64 + x" using d(1,3) div_mult2_eq [of ?c 64 64] by simp
  have f: "?c div 262144 = a" using d(5) e div_mult2_eq [of ?c 4096 64] by simp
  have "\<not> ?c < 128" "\<not> ?c < 2048" "\<not> ?c < 65536" "240 + ?c div 262144 = unat b0"
    "128 + ?c div 4096 mod 64 = unat b1" "128 + ?c div 64 mod 64 = unat b2" "128 + ?c mod 64 = unat b3"
    unfolding d e f using assms by auto
  then show ?thesis unfolding utf8_enc_def by (simp only: if_False of_nat_unat ucast_id)
qed

definition utf8_char :: "u8 list \<Rightarrow> nat \<Rightarrow> nat res" where
  "utf8_char ys m =
     (case rd8 ys 0 of
        Inl e \<Rightarrow> Inl e
      | Inr b \<Rightarrow>
          (case utf8_lead b of
             None \<Rightarrow> rc_fail MOSQ_ERR_MALFORMED_UTF8
           | Some (codelen, cp) \<Rightarrow>
               if Suc m = codelen then rc_fail MOSQ_ERR_MALFORMED_UTF8
               else
                 (case utf8_cont ys (codelen - 1) 0 cp of
                    Inl e \<Rightarrow> Inl e
                  | Inr (j, cp') \<Rightarrow>
                      if utf8_bad_codepoint codelen cp' then rc_fail MOSQ_ERR_MALFORMED_UTF8
                      else Inr codelen)))"

lemma utf8_cont_shift:
  "utf8_cont (pre @ ys) n (length pre + k) cp =
     (case utf8_cont ys n k cp of Inl e \<Rightarrow> Inl e | Inr (j, cp') \<Rightarrow> Inr (length pre + j, cp'))"
proof (induction ys n k cp rule: utf8_cont.induct)
  case (2 buf n i cp)
  then show ?case using rd8_append_off [of pre buf "Suc i"] by (auto split: sum.splits)
qed simp

lemma utf8_lead_pos: "utf8_lead b = Some (k, cp) \<Longrightarrow> 0 < k"
  by (auto simp: utf8_lead_eq Let_def split: if_splits)

lemma utf8_loop_char:
  "utf8_loop (pre @ ys) (length pre + m) (length pre) =
     (if m = 0 then Inr ()
      else case utf8_char ys m of
        Inl e \<Rightarrow> Inl e
      | Inr k \<Rightarrow> utf8_loop (pre @ ys) (length pre + m) (length pre + k))"
proof (cases "m = 0")
  case True
  then show ?thesis by (simp add: utf8_loop.simps)
next
  case False
  have *: "int (length pre) = int (length pre + m) - int k + 1 \<longleftrightarrow> Suc m = k" for k by auto
  have next_i: "Suc (length pre + j) = length pre + k"
    if "utf8_lead b = Some (k, cp)" "utf8_cont ys (k - 1) 0 cp = Inr (j, cp')" for b k cp j cp'
    using utf8_cont_pos [OF that(2)] utf8_lead_pos [OF that(1)] by simp
  show ?thesis
    using False rd8_append_off [of pre ys 0] utf8_cont_shift [of pre ys _ 0]
    unfolding utf8_loop.simps [of "pre @ ys" "length pre + m" "length pre"] utf8_char_def *
    by (simp split: sum.splits option.splits prod.splits add: next_i)
qed

lemma rd8_Cons [simp]: "rd8 (b # bs) 0 = Inr b" "rd8 (b # bs) (Suc n) = rd8 bs n"
  by (simp_all add: rd8_def)

lemma cont_obtain:
  assumes "\<not> (b AND 0xC0 \<noteq> (0x80::u8))"
  obtains x where "unat b = 128 + x" "x < 64" "uint (b AND 0x3F) = int x"
proof -
  have "128 \<le> unat b" "unat b < 192" using assms unfolding cont_byte by simp_all
  then obtain x where x: "unat b = 128 + x" "x < 64" using le_Suc_ex by fastforce
  then have "unat b mod 64 = x" using dm64(2) [of x 2] by simp
  with x cont_bits [of b] that show thesis by metis
qed

lemma zero_not_cont: "(0 :: u8) AND 0xC0 \<noteq> 0x80" by simp

lemma utf8_lead_cases:
  obtains "utf8_lead b = None" | n where "unat b = n" "n < 128" "0 < n" "utf8_lead b = Some (1, int n)"
  | a where "unat b = 192 + a" "2 \<le> a" "a < 32" "utf8_lead b = Some (2, int a)"
  | a where "unat b = 224 + a" "a < 16" "utf8_lead b = Some (3, int a)"
  | a where "unat b = 240 + a" "a < 5" "utf8_lead b = Some (4, int a)"
proof -
  consider "unat b = 0 \<or> 128 \<le> unat b \<and> unat b < 194 \<or> 245 \<le> unat b" | "0 < unat b" "unat b < 128"
    | "194 \<le> unat b" "unat b < 224" | "224 \<le> unat b" "unat b < 240" | "240 \<le> unat b" "unat b < 245"
    by linarith
  then show thesis
  proof cases
    case 1 then show thesis using that(1) by (auto simp: utf8_lead_eq Let_def)
  next
    case 2 then show thesis using that(2) [of "unat b"] by (simp add: utf8_lead_eq Let_def)
  next
    case 3 then show thesis using that(3) [of "unat b - 192"] by (simp add: utf8_lead_eq Let_def)
  next
    case 4 then show thesis using that(4) [of "unat b - 224"] by (simp add: utf8_lead_eq Let_def)
  next
    case 5 then show thesis using that(5) [of "unat b - 240"] by (simp add: utf8_lead_eq Let_def)
  qed
qed

text \<open>One continuation byte: either it is refused, or its six bits are appended.\<close>

lemma utf8_cont_step:
  assumes "rd8 buf (Suc i) = Inr b"
  obtains "\<forall>n cp. utf8_cont buf (Suc n) i cp = Inl (Rc MOSQ_ERR_MALFORMED_UTF8)"
  | x where "unat b = 128 + x" "x < 64" "\<forall>n cp. utf8_cont buf (Suc n) i (int cp) = utf8_cont buf n (Suc i) (int (cp * 64 + x))"
proof (cases "b AND 0xC0 \<noteq> 0x80")
  case True
  then show thesis using that(1) assms by simp
next
  case False
  then obtain x where x: "unat b = 128 + x" "x < 64" "uint (b AND 0x3F) = int x" by (rule cont_obtain)
  then have "push_bit 6 (int cp) OR int x = int (cp * 64 + x)" for cp using push_or [of "int cp" x] by simp
  then show thesis using that(2) [OF x(1,2)] assms False x(3) by simp
qed

lemma utf8_cont_zero: "rd8 buf (Suc i) = Inr 0 \<Longrightarrow> utf8_cont buf (Suc n) i cp = Inl (Rc MOSQ_ERR_MALFORMED_UTF8)"
  using zero_not_cont by simp

definition utf8_char_post :: "u8 list \<Rightarrow> nat res \<Rightarrow> bool" where
  "utf8_char_post bs r \<longleftrightarrow> r = Inl (Rc MOSQ_ERR_MALFORMED_UTF8)
     \<or> (\<exists>c rest. r = Inr (length (utf8_enc c)) \<and> utf8_allowed c \<and> bs = utf8_enc c @ rest)"

lemma utf8_char_postI:
  assumes "\<not> utf8_bad_codepoint k (int c) \<Longrightarrow> utf8_allowed c \<and> utf8_enc c = take k bs \<and> k \<le> length bs"
  shows "utf8_char_post bs (if utf8_bad_codepoint k (int c) then rc_fail MOSQ_ERR_MALFORMED_UTF8 else Inr k)"
proof (cases "utf8_bad_codepoint k (int c)")
  case False
  with assms have "utf8_allowed c" "utf8_enc c = take k bs" "k \<le> length bs" by auto
  then have "bs = utf8_enc c @ drop k bs" "k = length (utf8_enc c)" by simp_all
  with False \<open>utf8_allowed c\<close> show ?thesis unfolding utf8_char_post_def by auto
qed (simp add: utf8_char_post_def)

declare utf8_cont.simps(2) [simp del]

lemma utf8_char_multi:
  assumes "utf8_lead b0 = Some (l, cp)" "Suc m \<noteq> l"
  shows "utf8_char (b0 # ys) m =
    (case utf8_cont (b0 # ys) (l - 1) 0 cp of Inl e \<Rightarrow> Inl e
     | Inr (j, cp') \<Rightarrow> if utf8_bad_codepoint l cp' then rc_fail MOSQ_ERR_MALFORMED_UTF8 else Inr l)"
  using assms by (simp add: utf8_char_def)

lemma bad2: "\<not> utf8_bad_codepoint k (int n) \<Longrightarrow> n \<le> 0x10FFFF \<or> k = 4 \<Longrightarrow> utf8_allowed n"
  using bad_codepoint_eq [of k n] by auto

lemma utf8_char_sound1:
  assumes "unat b0 = n" "n < 128" "0 < n" "utf8_lead b0 = Some (1, int n)"
  shows "utf8_char_post (b0 # bs1) (utf8_char ((b0 # bs1) @ 0 # mem) (length (b0 # bs1)))"
proof -
  have "utf8_enc n = [b0]" using assms by (auto simp: utf8_enc_def)
  then show ?thesis
    using assms utf8_char_postI [of 1 n "b0 # bs1"] bad2 [of 1 n]
    by (simp add: utf8_char_def split: if_splits)
qed

lemma utf8_char_post_mal [simp]: "utf8_char_post bs (Inl (Rc MOSQ_ERR_MALFORMED_UTF8))"
  by (simp add: utf8_char_post_def)

lemma utf8_char_sound2:
  assumes lead: "unat b0 = 192 + a" "2 \<le> a" "a < 32" "utf8_lead b0 = Some (2, int a)"
  shows "utf8_char_post (b0 # bs1) (utf8_char ((b0 # bs1) @ 0 # mem) (length (b0 # bs1)))"
proof (cases bs1)
  case Nil
  then show ?thesis using lead by (simp add: utf8_char_def)
next
  case (Cons b1 bs2)
  let ?ys = "b0 # b1 # bs2 @ 0 # mem"
  have eq: "utf8_char ?ys (length (b0 # bs1)) = (case utf8_cont ?ys 1 0 (int a) of Inl e \<Rightarrow> Inl e
     | Inr (j, cp') \<Rightarrow> if utf8_bad_codepoint 2 cp' then rc_fail MOSQ_ERR_MALFORMED_UTF8 else Inr 2)"
    using utf8_char_multi [of b0 2 "int a" "length (b0 # bs1)"] lead(4) Cons by simp
  have r: "rd8 ?ys (Suc 0) = Inr b1" by simp
  show ?thesis
  proof (rule utf8_cont_step [OF r])
    fix x assume x: "unat b1 = 128 + x" "x < 64"
       "\<forall>n cp. utf8_cont ?ys (Suc n) 0 (int cp) = utf8_cont ?ys n (Suc 0) (int (cp * 64 + x))"
    have "utf8_enc (a * 64 + x) = [b0, b1]" using lead x by (intro enc2)
    then show ?thesis using Cons eq x lead utf8_char_postI [of 2 "a * 64 + x" "b0 # b1 # bs2"] bad2 [of 2 "a * 64 + x"] by simp
  qed (use Cons eq in simp)
qed

lemma utf8_char_sound3:
  assumes lead: "unat b0 = 224 + a" "a < 16" "utf8_lead b0 = Some (3, int a)"
  shows "utf8_char_post (b0 # bs1) (utf8_char ((b0 # bs1) @ 0 # mem) (length (b0 # bs1)))"
proof -
  let ?ys = "b0 # bs1 @ 0 # mem"
  have eq: "utf8_char ?ys (length (b0 # bs1)) = (case utf8_cont ?ys 2 0 (int a) of Inl e \<Rightarrow> Inl e
     | Inr (j, cp') \<Rightarrow> if utf8_bad_codepoint 3 cp' then rc_fail MOSQ_ERR_MALFORMED_UTF8 else Inr 3)" if "length bs1 \<noteq> 1"
    using utf8_char_multi [of b0 3 "int a" "length (b0 # bs1)"] lead(3) that by simp
  consider "bs1 = []" | b1 where "bs1 = [b1]" | b1 b2 bs2 where "bs1 = b1 # b2 # bs2"
    by (metis neq_Nil_conv)
  then show ?thesis
  proof cases
    case 1
    then show ?thesis using eq by (simp add: numeral_2_eq_2 utf8_cont_zero)
  next
    case (2 b1)
    then show ?thesis using lead by (simp add: utf8_char_def)
  next
    case (3 b1 b2 bs2)
    have r: "rd8 ?ys (Suc 0) = Inr b1" "rd8 ?ys (Suc (Suc 0)) = Inr b2" using 3 by simp_all
    show ?thesis
    proof (rule utf8_cont_step [OF r(1)])
      fix x assume x: "unat b1 = 128 + x" "x < 64"
        "\<forall>n cp. utf8_cont ?ys (Suc n) 0 (int cp) = utf8_cont ?ys n (Suc 0) (int (cp * 64 + x))"
      show ?thesis
      proof (rule utf8_cont_step [OF r(2)])
        fix y assume y: "unat b2 = 128 + y" "y < 64"
          "\<forall>n cp. utf8_cont ?ys (Suc n) (Suc 0) (int cp) = utf8_cont ?ys n (Suc (Suc 0)) (int (cp * 64 + y))"
        let ?c = "(a * 64 + x) * 64 + y"
        have "\<not> utf8_bad_codepoint 3 (int ?c) \<Longrightarrow> utf8_enc ?c = [b0, b1, b2]"
          using lead x y bad_codepoint_eq [of 3 ?c] by (intro enc3) auto
        then show ?thesis using 3 eq x(3) y(3) lead utf8_char_postI [of 3 ?c "b0 # bs1"] bad2 [of 3 ?c] x(2) y(2)
          by (simp add: numeral_2_eq_2 del: of_nat_add of_nat_mult)
      qed (use 3 eq x in \<open>simp add: numeral_2_eq_2\<close>)
    qed (use 3 eq in \<open>simp add: numeral_2_eq_2\<close>)
  qed
qed

lemma utf8_char_sound4:
  assumes lead: "unat b0 = 240 + a" "a < 5" "utf8_lead b0 = Some (4, int a)"
  shows "utf8_char_post (b0 # bs1) (utf8_char ((b0 # bs1) @ 0 # mem) (length (b0 # bs1)))"
proof -
  let ?ys = "b0 # bs1 @ 0 # mem"
  have eq: "utf8_char ?ys (length (b0 # bs1)) = (case utf8_cont ?ys 3 0 (int a) of Inl e \<Rightarrow> Inl e
     | Inr (j, cp') \<Rightarrow> if utf8_bad_codepoint 4 cp' then rc_fail MOSQ_ERR_MALFORMED_UTF8 else Inr 4)" if "length bs1 \<noteq> 2"
    using utf8_char_multi [of b0 4 "int a" "length (b0 # bs1)"] lead(3) that by simp
  consider "bs1 = []" | b1 where "bs1 = [b1]" | b1 b2 where "bs1 = [b1, b2]" | b1 b2 b3 bs2 where "bs1 = b1 # b2 # b3 # bs2"
    by (metis neq_Nil_conv)
  then show ?thesis
  proof cases
    case 1
    then show ?thesis using eq by (simp add: numeral_3_eq_3 utf8_cont_zero)
  next
    case (2 b1)
    have r: "rd8 ?ys (Suc 0) = Inr b1" using 2 by simp
    have z: "rd8 ?ys (Suc (Suc 0)) = Inr 0" using 2 by simp
    show ?thesis
      by (rule utf8_cont_step [OF r]) (use 2 eq utf8_cont_zero [OF z] in \<open>simp_all add: numeral_3_eq_3\<close>)
  next
    case (3 b1 b2)
    then show ?thesis using lead by (simp add: utf8_char_def)
  next
    case (4 b1 b2 b3 bs2)
    have r: "rd8 ?ys (Suc 0) = Inr b1" "rd8 ?ys (Suc (Suc 0)) = Inr b2" "rd8 ?ys (Suc (Suc (Suc 0))) = Inr b3"
      using 4 by simp_all
    have eq': "utf8_char ?ys (length (b0 # bs1)) = (case utf8_cont ?ys (Suc (Suc (Suc 0))) 0 (int a) of Inl e \<Rightarrow> Inl e
     | Inr (j, cp') \<Rightarrow> if utf8_bad_codepoint 4 cp' then rc_fail MOSQ_ERR_MALFORMED_UTF8 else Inr 4)"
      using eq 4 by (simp add: numeral_3_eq_3)
    show ?thesis
    proof (rule utf8_cont_step [OF r(1)])
      fix x assume x: "unat b1 = 128 + x" "x < 64"
        "\<forall>n cp. utf8_cont ?ys (Suc n) 0 (int cp) = utf8_cont ?ys n (Suc 0) (int (cp * 64 + x))"
      show ?thesis
      proof (rule utf8_cont_step [OF r(2)])
        fix y assume y: "unat b2 = 128 + y" "y < 64"
          "\<forall>n cp. utf8_cont ?ys (Suc n) (Suc 0) (int cp) = utf8_cont ?ys n (Suc (Suc 0)) (int (cp * 64 + y))"
        show ?thesis
        proof (rule utf8_cont_step [OF r(3)])
          fix z assume z: "unat b3 = 128 + z" "z < 64"
            "\<forall>n cp. utf8_cont ?ys (Suc n) (Suc (Suc 0)) (int cp) = utf8_cont ?ys n (Suc (Suc (Suc 0))) (int (cp * 64 + z))"
          let ?c = "((a * 64 + x) * 64 + y) * 64 + z"
          have "\<not> utf8_bad_codepoint 4 (int ?c) \<Longrightarrow> utf8_enc ?c = [b0, b1, b2, b3]"
            using lead x y z bad_codepoint_eq [of 4 ?c] by (intro enc4) auto
          moreover have "\<not> utf8_bad_codepoint 4 (int ?c) \<Longrightarrow> utf8_allowed ?c" by (rule bad2 [of 4]) simp_all
          ultimately show ?thesis using 4 eq' x(3) y(3) z(3) utf8_char_postI [of 4 ?c "b0 # bs1"]
            by (simp del: of_nat_add of_nat_mult)
        qed (use eq' x(3) y(3) in \<open>simp del: of_nat_add of_nat_mult\<close>)
      qed (use eq' x(3) in \<open>simp del: of_nat_add of_nat_mult\<close>)
    qed (use eq' in simp)
  qed
qed

lemma utf8_char_sound:
  assumes "bs \<noteq> []"
  shows "utf8_char_post bs (utf8_char (bs @ 0 # mem) (length bs))"
proof -
  obtain b0 bs1 where b0: "bs = b0 # bs1" using assms by (cases bs) auto
  show ?thesis unfolding b0
  proof (rule utf8_lead_cases [of b0])
    assume "utf8_lead b0 = None"
    then show "utf8_char_post (b0 # bs1) (utf8_char ((b0 # bs1) @ 0 # mem) (length (b0 # bs1)))"
      by (simp add: utf8_char_def)
  qed (fact utf8_char_sound1 utf8_char_sound2 utf8_char_sound3 utf8_char_sound4)+
qed

lemma utf8_cont_fwd:
  assumes "rd8 buf (Suc i) = Inr (of_nat (128 + x))" "x < 64"
  shows "utf8_cont buf (Suc n) i (int cp) = utf8_cont buf n (Suc i) (int (cp * 64 + x))"
proof -
  have u: "unat (of_nat (128 + x) :: u8) = 128 + x" using assms(2) by (simp add: unat_of_nat del: of_nat_add)
  show ?thesis
  proof (rule utf8_cont_step [OF assms(1)])
    assume "\<forall>n cp. utf8_cont buf (Suc n) i cp = Inl (Rc MOSQ_ERR_MALFORMED_UTF8)"
    then have "utf8_cont buf (Suc 0) i 0 = Inl (Rc MOSQ_ERR_MALFORMED_UTF8)" by blast
    then have "(of_nat (128 + x) :: u8) AND 0xC0 \<noteq> 0x80"
      using assms by (simp add: utf8_cont.simps split: if_splits del: of_nat_add)
    then show ?thesis using u assms(2) unfolding cont_byte by simp
  next
    fix x' assume "unat (of_nat (128 + x) :: u8) = 128 + x'"
      "\<forall>n cp. utf8_cont buf (Suc n) i (int cp) = utf8_cont buf n (Suc i) (int (cp * 64 + x'))"
    then show ?thesis using u by simp
  qed
qed

lemma unat_small: "n < 256 \<Longrightarrow> unat (of_nat n :: u8) = n"
  by (simp add: unat_of_nat)

lemma utf8_char_enc:
  assumes "utf8_allowed c"
  shows "utf8_char (utf8_enc c @ rest) (length (utf8_enc c) + n) = Inr (length (utf8_enc c))"
proof -
  have ok: "\<not> utf8_bad_codepoint k (int c)" if "k = 3 \<Longrightarrow> 0x800 \<le> c" "k = 4 \<Longrightarrow> 0x10000 \<le> c" for k
    using assms that bad_codepoint_eq [of k c] by (auto simp: utf8_allowed_def)
  have cp: "1 \<le> c" "c \<le> 0x10FFFF" using assms by (auto simp: utf8_allowed_def)
  consider "c < 0x80" | "0x80 \<le> c" "c < 0x800" | "0x800 \<le> c" "c < 0x10000" | "0x10000 \<le> c" by linarith
  then show ?thesis
  proof cases
    case 1
    then have "utf8_lead (of_nat c) = Some (1, int c)" using cp by (simp add: utf8_lead_eq unat_small Let_def)
    with 1 show ?thesis using ok [of 1] by (simp add: utf8_enc_def utf8_char_def)
  next
    case 2
    let ?x = "c mod 64" and ?b = "192 + c div 64"
    have "?b < 224" "194 \<le> ?b" using 2 by auto
    then have "utf8_lead (of_nat ?b) = Some (2, int (c div 64))" by (simp add: utf8_lead_eq unat_small Let_def del: of_nat_add)
    moreover have "utf8_cont (of_nat ?b # of_nat (128 + ?x) # rest) (Suc 0) 0 (int (c div 64)) = Inr (1, int c)"
      using utf8_cont_fwd [of "of_nat ?b # of_nat (128 + ?x) # rest" 0 ?x 0 "c div 64"] by simp
    ultimately show ?thesis using 2 ok [of 2] by (simp add: utf8_enc_def utf8_char_def del: of_nat_add)
  next
    case 3
    let ?d = "c div 64"
    let ?b = "224 + c div 4096" and ?x = "?d mod 64" and ?y = "c mod 64"
    have de: "?d div 64 = c div 4096" using div_mult2_eq [of c 64 64] by simp
    have cs: "(c div 4096 * 64 + ?x) * 64 + ?y = c" using de by (metis div_mult_mod_eq)
    have "?b < 240" using 3 by auto
    then have "utf8_lead (of_nat ?b) = Some (3, int (c div 4096))" by (simp add: utf8_lead_eq unat_small Let_def del: of_nat_add)
    moreover have "utf8_cont (of_nat ?b # of_nat (128 + ?x) # of_nat (128 + ?y) # rest) 2 0 (int (c div 4096)) = Inr (2, int c)"
      using utf8_cont_fwd [of "of_nat ?b # of_nat (128 + ?x) # of_nat (128 + ?y) # rest" 0 ?x 1 "c div 4096"]
        utf8_cont_fwd [of "of_nat ?b # of_nat (128 + ?x) # of_nat (128 + ?y) # rest" 1 ?y 0 "c div 4096 * 64 + ?x"] cs
      by (simp add: numeral_2_eq_2 del: of_nat_add of_nat_mult)
    ultimately show ?thesis using 3 ok [of 3] by (simp add: utf8_enc_def utf8_char_def del: of_nat_add)
  next
    case 4
    let ?e = "c div 4096" and ?d = "c div 64"
    let ?b = "240 + c div 262144" and ?x = "?e mod 64" and ?y = "?d mod 64" and ?z = "c mod 64"
    let ?bs = "of_nat ?b # of_nat (128 + ?x) # of_nat (128 + ?y) # of_nat (128 + ?z) # rest"
    have de: "?d div 64 = ?e" "?e div 64 = c div 262144" using div_mult2_eq [of c 64 64] div_mult2_eq [of c 4096 64] by simp_all
    have cs: "((c div 262144 * 64 + ?x) * 64 + ?y) * 64 + ?z = c" using de by (metis div_mult_mod_eq)
    have "?b < 245" using cp by auto
    then have "utf8_lead (of_nat ?b) = Some (4, int (c div 262144))" by (simp add: utf8_lead_eq unat_small Let_def del: of_nat_add)
    moreover have "utf8_cont ?bs 3 0 (int (c div 262144)) = Inr (3, int c)"
    proof -
      have "utf8_cont ?bs (Suc 2) 0 (int (c div 262144)) = utf8_cont ?bs 2 (Suc 0) (int (c div 262144 * 64 + ?x))"
        by (rule utf8_cont_fwd) simp_all
      moreover have "utf8_cont ?bs (Suc 1) (Suc 0) (int (c div 262144 * 64 + ?x))
          = utf8_cont ?bs 1 (Suc (Suc 0)) (int ((c div 262144 * 64 + ?x) * 64 + ?y))"
        by (rule utf8_cont_fwd) simp_all
      moreover have "utf8_cont ?bs (Suc 0) (Suc (Suc 0)) (int ((c div 262144 * 64 + ?x) * 64 + ?y))
          = utf8_cont ?bs 0 (Suc (Suc (Suc 0))) (int c)"
        using utf8_cont_fwd [of ?bs "Suc (Suc 0)" ?z 0 "(c div 262144 * 64 + ?x) * 64 + ?y"] unfolding cs by simp
      ultimately show ?thesis by (simp only: numeral_3_eq_3 numeral_2_eq_2 One_nat_def utf8_cont.simps(1))
    qed
    ultimately show ?thesis using 4 ok [of 4] by (simp add: utf8_enc_def utf8_char_def del: of_nat_add)
  qed
qed

lemma utf8_enc_nonempty [simp]: "utf8_enc c \<noteq> []"
  by (simp add: utf8_enc_def)

lemma utf8_prefix_free:
  assumes "utf8_allowed c" "utf8_allowed d" "utf8_enc c @ xs = utf8_enc d @ ys"
  shows "length (utf8_enc c) = length (utf8_enc d)"
proof -
  have "length (utf8_enc c) + length xs = length (utf8_enc d) + length ys"
    using arg_cong [OF assms(3), of length] by simp
  then have "utf8_char (utf8_enc c @ xs) (length (utf8_enc c) + length xs)
      = utf8_char (utf8_enc d @ ys) (length (utf8_enc d) + length ys)"
    by (simp only: assms(3))
  then show ?thesis unfolding utf8_char_enc [OF assms(1)] utf8_char_enc [OF assms(2)] by simp
qed

lemma utf8_wf_Nil [simp]: "utf8_wf []"
  unfolding utf8_wf_def by (intro exI [of _ "[]"]) simp

lemma utf8_wf_enc: "utf8_allowed c \<Longrightarrow> utf8_wf bs \<Longrightarrow> utf8_wf (utf8_enc c @ bs)"
proof -
  assume c: "utf8_allowed c" and "utf8_wf bs"
  then obtain cs where "\<forall>c \<in> set cs. utf8_allowed c" "bs = concat (map utf8_enc cs)"
    by (auto simp: utf8_wf_def)
  with c show ?thesis unfolding utf8_wf_def by (intro exI [of _ "c # cs"]) simp
qed

lemma utf8_loop_suffix:
  "utf8_loop (pre @ bs @ 0 # mem) (length pre + length bs) (length pre) =
     (if utf8_wf bs then Inr () else Inl (Rc MOSQ_ERR_MALFORMED_UTF8))"
proof (induction bs arbitrary: pre rule: length_induct)
  case (1 bs)
  show ?case
  proof (cases "bs = []")
    case True
    then show ?thesis using utf8_loop_char [of pre "0 # mem" 0] by simp
  next
    case False
    note step = utf8_loop_char [of pre "bs @ 0 # mem" "length bs"]
    show ?thesis
    proof (cases "\<exists>c rest. utf8_allowed c \<and> bs = utf8_enc c @ rest")
      case True
      then obtain c rest where c: "utf8_allowed c" "bs = utf8_enc c @ rest" by blast
      have wf: "utf8_wf bs \<longleftrightarrow> utf8_wf rest"
      proof
        assume "utf8_wf bs"
        then obtain cs where cs: "\<forall>c\<in>set cs. utf8_allowed c" "bs = concat (map utf8_enc cs)" by (auto simp: utf8_wf_def)
        with False obtain d ds where d: "cs = d # ds" by (cases cs) auto
        have "length (utf8_enc d) = length (utf8_enc c)"
          using utf8_prefix_free [of d c "concat (map utf8_enc ds)" rest] cs d c by simp
        then have "rest = concat (map utf8_enc ds)" using cs(2) d c(2) by simp
        then show "utf8_wf rest" using cs(1) d unfolding utf8_wf_def by auto
      qed (simp add: c utf8_wf_enc)
      have "length rest < length bs" using c(2) by simp
      then have "utf8_loop ((pre @ utf8_enc c) @ rest @ 0 # mem) (length (pre @ utf8_enc c) + length rest) (length (pre @ utf8_enc c))
          = (if utf8_wf rest then Inr () else Inl (Rc MOSQ_ERR_MALFORMED_UTF8))"
        using "1.IH" by blast
      then show ?thesis
        using step False wf utf8_char_enc [OF c(1), of "rest @ 0 # mem" "length rest"] by (simp add: c(2) add.assoc)
    next
      case nc: False
      then have "utf8_char (bs @ 0 # mem) (length bs) = Inl (Rc MOSQ_ERR_MALFORMED_UTF8)"
        using utf8_char_sound [OF False, of mem] unfolding utf8_char_post_def by blast
      moreover have "\<not> utf8_wf bs"
      proof
        assume "utf8_wf bs"
        then obtain cs where cs: "\<forall>c\<in>set cs. utf8_allowed c" "bs = concat (map utf8_enc cs)" by (auto simp: utf8_wf_def)
        with False obtain d ds where "cs = d # ds" by (cases cs) auto
        with cs nc show False by auto
      qed
      ultimately show ?thesis using step False by simp
    qed
  qed
qed

lemma utf8_loop_wf_prefix:
  assumes "utf8_wf bs"
  shows "utf8_loop (pre @ bs @ rest) (length pre + length bs + n) (length pre)
       = utf8_loop (pre @ bs @ rest) (length pre + length bs + n) (length pre + length bs)"
proof -
  obtain cs where "\<forall>c \<in> set cs. utf8_allowed c" "bs = concat (map utf8_enc cs)"
    using assms by (auto simp: utf8_wf_def)
  then show ?thesis
  proof (induction cs arbitrary: pre bs)
    case (Cons c cs)
    let ?r = "concat (map utf8_enc cs)"
    have "utf8_loop ((pre @ utf8_enc c) @ ?r @ rest) (length (pre @ utf8_enc c) + length ?r + n) (length (pre @ utf8_enc c))
        = utf8_loop ((pre @ utf8_enc c) @ ?r @ rest) (length (pre @ utf8_enc c) + length ?r + n)
            (length (pre @ utf8_enc c) + length ?r)"
      using Cons.IH [of ?r "pre @ utf8_enc c"] Cons.prems(1) by simp
    then show ?case
      using Cons.prems utf8_char_enc [of c "?r @ rest" "length ?r + n"]
        utf8_loop_char [of pre "utf8_enc c @ ?r @ rest" "length (utf8_enc c) + (length ?r + n)"]
      by (simp add: add.assoc)
  qed simp
qed

lemma utf8_cont_oob: "rd8 buf (Suc i) = Inl Oob \<Longrightarrow> 0 < n \<Longrightarrow> utf8_cont buf n i cp = Inl Oob"
  by (cases n) (simp_all add: utf8_cont.simps)

section \<open>Properties\<close>

text \<open>
  C24: For a string of at most 65536 bytes that is followed by its NUL terminator,
  \<open>mosquitto_validate_utf8\<close> returns success exactly when the bytes are the UTF-8 encoding of a
  sequence of admitted code points, returns \<open>MOSQ_ERR_MALFORMED_UTF8\<close> otherwise, and never reads
  outside of the buffer, whatever lies behind the terminator.
\<close>

theorem validate_utf8_correct:
  assumes "length bs \<le> 65536"
  shows "mosquitto_validate_utf8 (Some (bs @ 0 # mem)) (int (length bs)) =
     (if utf8_wf bs then Inr () else Inl (Rc MOSQ_ERR_MALFORMED_UTF8))"
  using utf8_loop_suffix [of "[]" bs mem] assms by (simp add: mosquitto_validate_utf8_def)

theorem validate_utf8_correct_witness:
  "length [0xC3 :: u8, 0xA9] \<le> 65536
   \<and> mosquitto_validate_utf8 (Some ([0xC3, 0xA9] @ 0 # [])) (int (length [0xC3 :: u8, 0xA9])) = Inr ()"
proof -
  have "utf8_wf [0xC3, 0xA9]"
    unfolding utf8_wf_def by (rule exI [of _ "[0xE9]"]) (simp add: utf8_allowed_def utf8_enc_def)
  then show ?thesis using validate_utf8_correct [of "[0xC3, 0xA9]" "[]"] by simp
qed

text \<open>
  C26: The terminator is needed. The test for missing bytes compares the index with the one
  position at which exactly one byte is missing, so when the buffer ends right behind the first
  byte of a three- or four-byte sequence, the code reads one byte behind the buffer, after any
  well-formed text.
\<close>

theorem validate_utf8_overread:
  assumes "utf8_wf bs" "length bs < 65536" "224 \<le> unat b" "unat b < 245"
  shows "mosquitto_validate_utf8 (Some (bs @ [b])) (int (length (bs @ [b]))) = Inl Oob"
proof -
  have "utf8_char [b] 1 = Inl Oob"
    using assms(3,4) by (simp add: utf8_char_def utf8_lead_eq Let_def utf8_cont_oob rd8_def)
  then have "utf8_loop (bs @ [b]) (length bs + 1) (length bs) = Inl Oob"
    using utf8_loop_char [of bs "[b]" 1] by simp
  then show ?thesis
    using utf8_loop_wf_prefix [OF assms(1), of "[]" "[b]" 1] assms(2)
    by (simp add: mosquitto_validate_utf8_def nat_add_distrib)
qed

theorem validate_utf8_overread_witness:
  "utf8_wf [] \<and> mosquitto_validate_utf8 (Some [0xE2]) 1 = Inl Oob"
  using validate_utf8_overread [of "[]" "0xE2"] by simp

end
