(* ===== verification/Topics.thy ===== *)
theory Topics
  imports Mosq_Prelude
begin

text \<open>
  \<open>lib/util_topic.c\<close> (built for the broker): the checks of topic names and of topic filters and
  the match of a name against a filter. A C string is the list of its characters without the
  terminating NUL, \<open>None\<close> the null pointer. The reference cuts a topic into its levels.
\<close>

section \<open>The code\<close>

definition TOPIC_HIERARCHY_LIMIT :: int where
  [simp]: "TOPIC_HIERARCHY_LIMIT = 200"

text \<open>The character at an index of a C string; the terminator behind the last one.\<close>

definition char_at :: "string \<Rightarrow> nat \<Rightarrow> char" where
  "char_at s i = (if i < length s then s ! i else CHR 0x00)"

definition is_wild :: "char \<Rightarrow> bool" where
  "is_wild c \<longleftrightarrow> c = CHR ''+'' \<or> c = CHR ''#''"

primrec pub_topic_loop :: "string \<Rightarrow> int \<Rightarrow> int \<Rightarrow> unit res" where
  "pub_topic_loop [] len hier_count =
     (if len > 65535 then rc_fail MOSQ_ERR_INVAL
      else if hier_count > TOPIC_HIERARCHY_LIMIT then rc_fail MOSQ_ERR_INVAL
      else Inr ())"
| "pub_topic_loop (c # str) len hier_count =
     (if is_wild c then rc_fail MOSQ_ERR_INVAL
      else pub_topic_loop str (len + 1) (if c = CHR ''/'' then hier_count + 1 else hier_count))"

definition mosquitto_pub_topic_check :: "string option \<Rightarrow> unit res" where
  "mosquitto_pub_topic_check str =
     (case str of None \<Rightarrow> rc_fail MOSQ_ERR_INVAL | Some s \<Rightarrow> pub_topic_loop s 0 0)"

text \<open>The variants with an explicit length read a buffer that need not be terminated.\<close>

primrec pub_topic_loop2 :: "string \<Rightarrow> nat \<Rightarrow> nat \<Rightarrow> int \<Rightarrow> unit res" where
  "pub_topic_loop2 buf 0 i hier_count =
     (if hier_count > TOPIC_HIERARCHY_LIMIT then rc_fail MOSQ_ERR_INVAL else Inr ())"
| "pub_topic_loop2 buf (Suc n) i hier_count =
     (if length buf \<le> i then Inl Oob
      else if is_wild (buf ! i) then rc_fail MOSQ_ERR_INVAL
      else pub_topic_loop2 buf n (Suc i) (if buf ! i = CHR ''/'' then hier_count + 1 else hier_count))"

definition mosquitto_pub_topic_check2 :: "string option \<Rightarrow> nat \<Rightarrow> unit res" where
  "mosquitto_pub_topic_check2 str len =
     (case str of
        None \<Rightarrow> rc_fail MOSQ_ERR_INVAL
      | Some buf \<Rightarrow> if len > 65535 then rc_fail MOSQ_ERR_INVAL else pub_topic_loop2 buf len 0 0)"

text \<open>\<open>c\<close> is the previous character, NUL at the start.\<close>

primrec sub_topic_loop :: "char \<Rightarrow> string \<Rightarrow> int \<Rightarrow> int \<Rightarrow> unit res" where
  "sub_topic_loop c [] len hier_count =
     (if len > 65535 then rc_fail MOSQ_ERR_INVAL
      else if hier_count > TOPIC_HIERARCHY_LIMIT then rc_fail MOSQ_ERR_INVAL
      else Inr ())"
| "sub_topic_loop c (s # str) len hier_count =
     (if s = CHR ''+'' \<and> (c \<noteq> CHR 0x00 \<and> c \<noteq> CHR ''/''
           \<or> char_at str 0 \<noteq> CHR 0x00 \<and> char_at str 0 \<noteq> CHR ''/'') then rc_fail MOSQ_ERR_INVAL
      else if s = CHR ''#'' \<and> (c \<noteq> CHR 0x00 \<and> c \<noteq> CHR ''/'' \<or> char_at str 0 \<noteq> CHR 0x00)
      then rc_fail MOSQ_ERR_INVAL
      else sub_topic_loop s str (len + 1) (if s = CHR ''/'' then hier_count + 1 else hier_count))"

definition mosquitto_sub_topic_check :: "string option \<Rightarrow> unit res" where
  "mosquitto_sub_topic_check str =
     (case str of None \<Rightarrow> rc_fail MOSQ_ERR_INVAL | Some s \<Rightarrow> sub_topic_loop (CHR 0x00) s 0 0)"

primrec sub_topic_loop2 :: "string \<Rightarrow> nat \<Rightarrow> nat \<Rightarrow> char \<Rightarrow> int \<Rightarrow> unit res" where
  "sub_topic_loop2 buf 0 i c hier_count =
     (if hier_count > TOPIC_HIERARCHY_LIMIT then rc_fail MOSQ_ERR_INVAL else Inr ())"
| "sub_topic_loop2 buf (Suc n) i c hier_count =
     (if length buf \<le> i \<or> 0 < n \<and> buf ! i = CHR ''+'' \<and> length buf \<le> Suc i then Inl Oob
      else if buf ! i = CHR ''+'' \<and> (c \<noteq> CHR 0x00 \<and> c \<noteq> CHR ''/'' \<or> 0 < n \<and> buf ! Suc i \<noteq> CHR ''/'')
      then rc_fail MOSQ_ERR_INVAL
      else if buf ! i = CHR ''#'' \<and> (c \<noteq> CHR 0x00 \<and> c \<noteq> CHR ''/'' \<or> 0 < n) then rc_fail MOSQ_ERR_INVAL
      else sub_topic_loop2 buf n (Suc i) (buf ! i)
             (if buf ! i = CHR ''/'' then hier_count + 1 else hier_count))"

definition mosquitto_sub_topic_check2 :: "string option \<Rightarrow> nat \<Rightarrow> unit res" where
  "mosquitto_sub_topic_check2 str len =
     (case str of
        None \<Rightarrow> rc_fail MOSQ_ERR_INVAL
      | Some buf \<Rightarrow> if len > 65535 then rc_fail MOSQ_ERR_INVAL else sub_topic_loop2 buf len 0 (CHR 0x00) 0)"

text \<open>
  \<open>mosquitto_topic_matches_sub2\<close>. The arguments of the loop are the character before the current
  one of the filter (\<open>sub[-1]\<close>), its position, and the rests of both strings. \<open>skip_level\<close> is
  the inner loop that passes over one level of the topic for a \<open>+\<close>.
\<close>

definition has_wild :: "string \<Rightarrow> bool" where
  "has_wild s \<longleftrightarrow> list_ex is_wild s"

fun skip_level :: "string \<Rightarrow> string option" where
  "skip_level [] = Some []"
| "skip_level (t # topic) =
     (if t = CHR ''/'' then Some (t # topic) else if is_wild t then None else skip_level topic)"

fun misplaced_hash :: "string \<Rightarrow> bool" where
  "misplaced_hash [] = False"
| "misplaced_hash (s # sub) = (s = CHR ''#'' \<and> sub \<noteq> [] \<or> misplaced_hash sub)"

fun topic_match_loop :: "char \<Rightarrow> nat \<Rightarrow> string \<Rightarrow> string \<Rightarrow> bool res" where
  "topic_match_loop p spos [] topic =
     (if has_wild topic then rc_fail MOSQ_ERR_INVAL else Inr False)"
| "topic_match_loop p spos (s # sub) topic =
     (if is_wild (char_at topic 0) then rc_fail MOSQ_ERR_INVAL
      else if s \<noteq> char_at topic 0 \<or> topic = [] then
        (if s = CHR ''+'' then
           (if spos > 0 \<and> p \<noteq> CHR ''/'' then rc_fail MOSQ_ERR_INVAL
            else if sub \<noteq> [] \<and> char_at sub 0 \<noteq> CHR ''/'' then rc_fail MOSQ_ERR_INVAL
            else (case skip_level topic of
                    None \<Rightarrow> rc_fail MOSQ_ERR_INVAL
                  | Some topic' \<Rightarrow>
                      if topic' = [] \<and> sub = [] then Inr True
                      else topic_match_loop s (Suc spos) sub topic'))
         else if s = CHR ''#'' then
           (if spos > 0 \<and> p \<noteq> CHR ''/'' then rc_fail MOSQ_ERR_INVAL
            else if sub \<noteq> [] then rc_fail MOSQ_ERR_INVAL
            else if has_wild topic then rc_fail MOSQ_ERR_INVAL
            else Inr True)
         else if topic = [] \<and> spos > 0 \<and> p = CHR ''+'' \<and> s = CHR ''/'' \<and> char_at sub 0 = CHR ''#''
         then Inr True
         else if misplaced_hash (s # sub) then rc_fail MOSQ_ERR_INVAL
         else Inr False)
      else
        (if tl topic = [] \<and> sub = ''/#'' then Inr True
         else if sub = [] \<and> tl topic = [] then Inr True
         else if tl topic = [] \<and> sub = ''+'' then
           (if s \<noteq> CHR ''/'' then rc_fail MOSQ_ERR_INVAL else Inr True)
         else topic_match_loop s (Suc spos) sub (tl topic)))"

definition mosquitto_topic_matches_sub2 ::
    "string option \<Rightarrow> nat \<Rightarrow> string option \<Rightarrow> nat \<Rightarrow> bool \<Rightarrow> bool res" where
  "mosquitto_topic_matches_sub2 sub sublen topic topiclen result =
     (if \<not> result then rc_fail MOSQ_ERR_INVAL
      else case (sub, topic) of
        (Some s, Some t) \<Rightarrow>
          if s = [] \<or> t = [] then rc_fail MOSQ_ERR_INVAL
          else if (char_at s 0 = CHR ''$'' \<and> char_at t 0 \<noteq> CHR ''$'')
                  \<or> (char_at t 0 = CHR ''$'' \<and> char_at s 0 \<noteq> CHR ''$'') then Inr False
          else topic_match_loop (CHR 0x00) 0 s t
      | _ \<Rightarrow> rc_fail MOSQ_ERR_INVAL)"

definition mosquitto_topic_matches_sub :: "string option \<Rightarrow> string option \<Rightarrow> bool \<Rightarrow> bool res" where
  "mosquitto_topic_matches_sub sub topic result = mosquitto_topic_matches_sub2 sub 0 topic 0 result"

section \<open>The reference: levels\<close>

fun levels :: "string \<Rightarrow> string list" where
  "levels [] = [[]]"
| "levels (c # cs) =
     (if c = CHR ''/'' then [] # levels cs
      else case levels cs of [] \<Rightarrow> [[c]] | l # ls \<Rightarrow> (c # l) # ls)"

definition topic_valid :: "string \<Rightarrow> bool" where
  "topic_valid t \<longleftrightarrow> length t \<le> 65535 \<and> length (levels t) \<le> 201 \<and> (\<forall>c \<in> set t. \<not> is_wild c)"

text \<open>A wildcard stands alone in its level, and \<open>#\<close> only in the last one.\<close>

fun filter_levels_ok :: "string list \<Rightarrow> bool" where
  "filter_levels_ok [] = True"
| "filter_levels_ok (l # ls) =
     ((CHR ''+'' \<in> set l \<longrightarrow> l = ''+'') \<and> (CHR ''#'' \<in> set l \<longrightarrow> l = ''#'' \<and> ls = []) \<and> filter_levels_ok ls)"

definition sub_valid :: "string \<Rightarrow> bool" where
  "sub_valid s \<longleftrightarrow> length s \<le> 65535 \<and> length (levels s) \<le> 201 \<and> filter_levels_ok (levels s)"

text \<open>The match of MQTT: level by level, \<open>+\<close> for one level, \<open>#\<close> for the parent and all below it.\<close>

fun match_levels :: "string list \<Rightarrow> string list \<Rightarrow> bool" where
  "match_levels [] ts = (ts = [])"
| "match_levels (f # fs) ts =
     (f = ''#'' \<or> (case ts of [] \<Rightarrow> False | t # ts' \<Rightarrow> (f = ''+'' \<or> f = t) \<and> match_levels fs ts'))"

definition filter_matches :: "string \<Rightarrow> string \<Rightarrow> bool" where
  "filter_matches s t \<longleftrightarrow>
     (char_at s 0 = CHR ''$'') = (char_at t 0 = CHR ''$'') \<and> match_levels (levels s) (levels t)"

lemma levels_nonempty [simp]: "levels s \<noteq> []"
  by (cases s) (auto split: list.splits)

lemma levels_slash: "levels (CHR ''/'' # cs) = [] # levels cs"
  by simp

lemma levels_char: "c \<noteq> CHR ''/'' \<Longrightarrow> levels (c # cs) = (c # hd (levels cs)) # tl (levels cs)"
  by (cases "levels cs") simp_all

declare levels.simps(2) [simp del]

lemma length_levels: "length (levels s) = Suc (length (filter (\<lambda>c. c = CHR ''/'') s))"
proof (induction s)
  case (Cons c s)
  then show ?case by (cases "c = CHR ''/''") (simp_all add: levels_slash levels_char)
qed simp

section \<open>Checks\<close>

fun filter_ok :: "bool \<Rightarrow> string \<Rightarrow> bool" where
  "filter_ok start [] = True"
| "filter_ok start (c # cs) =
     (if c = CHR ''+'' then start \<and> (cs = [] \<or> hd cs = CHR ''/'') \<and> filter_ok False cs
      else if c = CHR ''#'' then start \<and> cs = []
      else filter_ok (c = CHR ''/'') cs)"

lemma levels_hd_tl: "levels s = hd (levels s) # tl (levels s)"
  by simp

lemma hd_levels_start: "s = [] \<or> hd s = CHR ''/'' \<longleftrightarrow> hd (levels s) = []"
  by (cases s) (auto simp: levels.simps split: list.splits)

definition first_level_plain :: "string list \<Rightarrow> bool" where
  "first_level_plain ls \<longleftrightarrow> CHR ''+'' \<notin> set (hd ls) \<and> CHR ''#'' \<notin> set (hd ls) \<and> filter_levels_ok (tl ls)"

lemma filter_ok_levels:
  "(filter_ok True s \<longleftrightarrow> filter_levels_ok (levels s)) \<and> (filter_ok False s \<longleftrightarrow> first_level_plain (levels s))"
proof (induction s)
  case Nil
  then show ?case by (simp add: first_level_plain_def)
next
  case (Cons c cs)
  show ?case
  proof (cases "c = CHR ''/''")
    case True
    then show ?thesis using Cons.IH by (simp add: levels_slash first_level_plain_def)
  next
    case False
    obtain l ls where l: "levels cs = l # ls" using levels_hd_tl [of cs] by blast
    have lc: "levels (c # cs) = (c # l) # ls" using False l by (simp add: levels_char)
    have st: "cs = [] \<or> hd cs = CHR ''/'' \<longleftrightarrow> l = []" using hd_levels_start [of cs] l by simp
    have nil: "cs = [] \<longleftrightarrow> l = [] \<and> ls = []"
      using l by (cases cs) (auto simp: levels.simps split: list.splits if_splits)
    show ?thesis using Cons.IH False st nil
      by (auto simp: lc l first_level_plain_def)
  qed
qed

lemma sub_topic_loop_eq:
  assumes "CHR 0x00 \<notin> set s"
  shows "sub_topic_loop c s len h =
    (if filter_ok (c = CHR 0x00 \<or> c = CHR ''/'') s \<and> len + int (length s) \<le> 65535
        \<and> h + int (length (filter (\<lambda>c. c = CHR ''/'') s)) \<le> 200
     then Inr () else Inl (Rc MOSQ_ERR_INVAL))"
  using assms
proof (induction s arbitrary: c len h)
  case (Cons x s)
  have nx: "char_at s 0 \<noteq> CHR 0x00 \<longleftrightarrow> s \<noteq> []" "s \<noteq> [] \<Longrightarrow> char_at s 0 = hd s"
    using Cons.prems by (cases s; auto simp: char_at_def)+
  have x: "x \<noteq> CHR 0x00" and ih: "CHR 0x00 \<notin> set s" using Cons.prems by auto
  note IH = Cons.IH [OF ih]
  have arith: "len + 1 + int (length s) \<le> 65535 \<longleftrightarrow> len + int (length (x # s)) \<le> 65535" by auto
  consider (plus) "x = CHR ''+''" | (hash) "x = CHR ''#''" | (slash) "x = CHR ''/''"
    | (other) "x \<noteq> CHR ''+''" "x \<noteq> CHR ''#''" "x \<noteq> CHR ''/''" by blast
  then show ?case
  proof cases
    case plus
    show ?thesis
    proof (cases "s = []")
      case True
      then show ?thesis using plus nx by (simp add: TOPIC_HIERARCHY_LIMIT_def)
    next
      case False
      then show ?thesis using plus nx IH [of "CHR ''+''" "len + 1" h] arith by simp
    qed
  next
    case hash
    then show ?thesis using nx by (cases "s = []") simp_all
  next
    case slash
    then show ?thesis using IH [of "CHR ''/''" "len + 1" "h + 1"] arith by (simp add: add.assoc)
  next
    case other
    then show ?thesis using IH [of x "len + 1" h] arith x by simp
  qed
qed (simp add: algebra_simps)

lemma pub_topic_loop_eq:
  "pub_topic_loop s len h =
    (if (\<forall>c \<in> set s. \<not> is_wild c) \<and> len + int (length s) \<le> 65535
        \<and> h + int (length (filter (\<lambda>c. c = CHR ''/'') s)) \<le> 200
     then Inr () else Inl (Rc MOSQ_ERR_INVAL))"
  by (induction s arbitrary: len h) (auto simp: algebra_simps)

lemma sub_check_valid:
  assumes "CHR 0x00 \<notin> set s"
  shows "mosquitto_sub_topic_check (Some s) = (if sub_valid s then Inr () else Inl (Rc MOSQ_ERR_INVAL))"
  using sub_topic_loop_eq [OF assms, of "CHR 0x00" 0 0] filter_ok_levels [of s]
  by (simp add: mosquitto_sub_topic_check_def sub_valid_def length_levels)

lemma pub_check_valid:
  "mosquitto_pub_topic_check (Some s) = (if topic_valid s then Inr () else Inl (Rc MOSQ_ERR_INVAL))"
  using pub_topic_loop_eq [of s 0 0] by (simp add: mosquitto_pub_topic_check_def topic_valid_def length_levels)

lemma pub_topic_loop2_eq:
  "len + int (length s) \<le> 65535 \<Longrightarrow>
   pub_topic_loop2 (pre @ s @ rest) (length s) (length pre) h = pub_topic_loop s len h"
proof (induction s arbitrary: pre len h)
  case (Cons x s)
  then show ?case using Cons.IH [of "len + 1" "pre @ [x]"] by (simp add: nth_append)
qed simp

lemma sub_topic_loop2_eq:
  "CHR 0x00 \<notin> set s \<Longrightarrow> len + int (length s) \<le> 65535 \<Longrightarrow>
   sub_topic_loop2 (pre @ s @ rest) (length s) (length pre) c h = sub_topic_loop c s len h"
proof (induction s arbitrary: pre len h c)
  case (Cons x s)
  have "(pre @ x # s @ rest) ! Suc (length pre) = char_at s 0" if "s \<noteq> []"
    using that by (cases s) (simp_all add: nth_append char_at_def)
  moreover have "(char_at s 0 = CHR 0x00) = (s = [])"
    using Cons.prems by (cases s) (auto simp: char_at_def)
  ultimately show ?case using Cons.IH [of "len + 1" "pre @ [x]"] Cons.prems
    by (cases "s = []") (auto simp: nth_append)
qed simp

lemma has_wild_valid: "(\<forall>c \<in> set t. \<not> is_wild c) \<Longrightarrow> \<not> has_wild t"
  by (auto simp: has_wild_def list_ex_iff)

lemma skip_level_valid:
  "(\<forall>c \<in> set t. \<not> is_wild c) \<Longrightarrow> \<exists>t'. skip_level t = Some t' \<and> levels t' = [] # tl (levels t)
     \<and> (t' = [] \<or> hd t' = CHR ''/'') \<and> set t' \<subseteq> set t"
proof (induction t)
  case (Cons c t)
  then show ?case
    by (cases "c = CHR ''/''") (auto simp: levels_slash levels_char)
qed simp

lemma misplaced_hash_ok: "filter_ok st s \<Longrightarrow> \<not> misplaced_hash s"
  by (induction st s rule: filter_ok.induct) (auto split: if_splits)

text \<open>How one step of the filter changes the levels that are left.\<close>

lemma match_same_char:
  assumes "\<not> is_wild c" "filter_ok (c = CHR ''/'') sub"
  shows "match_levels (levels (c # sub)) (levels (c # ts)) = match_levels (levels sub) (levels ts)"
proof (cases "c = CHR ''/''")
  case False
  obtain l ls where l: "levels sub = l # ls" using levels_hd_tl [of sub] by blast
  obtain m ms where m: "levels ts = m # ms" using levels_hd_tl [of ts] by blast
  have "CHR ''+'' \<notin> set l" "CHR ''#'' \<notin> set l"
    using assms(2) False filter_ok_levels [of sub] l by (auto simp: first_level_plain_def)
  then have "l \<noteq> ''+''" "l \<noteq> ''#''" by auto
  then show ?thesis using False assms(1) by (simp add: levels_char l m is_wild_def)
qed (simp add: levels_slash)

lemma match_other_char:
  assumes "\<not> is_wild s" "s \<noteq> t"
  shows "\<not> match_levels (levels (s # sub)) (levels (t # ts))"
  using assms
  by (cases "s = CHR ''/''"; cases "t = CHR ''/''") (auto simp: levels_slash levels_char is_wild_def)

lemma match_topic_end:
  assumes "\<not> is_wild s" "filter_ok (s = CHR ''/'') sub"
  shows "match_levels (levels (s # sub)) (levels []) \<longleftrightarrow> s = CHR ''/'' \<and> sub = ''#''"
proof (cases "s = CHR ''/''")
  case True
  show ?thesis
  proof (cases sub)
    case (Cons c cs)
    then show ?thesis using True assms(2)
      by (cases "c = CHR ''/''"; cases "c = CHR ''#''") (auto simp: levels_slash levels_char)
  qed (use True in \<open>simp add: levels_slash\<close>)
next
  case False
  then show ?thesis using assms(1) by (simp add: levels_char is_wild_def)
qed

lemma match_plus:
  assumes "sub = [] \<or> hd sub = CHR ''/''" "levels t' = [] # tl (levels topic)"
  shows "match_levels (levels (CHR ''+'' # sub)) (levels topic) = match_levels (levels sub) (levels t')"
proof -
  have h: "hd (levels sub) = []" using assms(1) hd_levels_start by blast
  obtain m ms where m: "levels topic = m # ms" using levels_hd_tl [of topic] by blast
  obtain ls where ls: "levels sub = [] # ls" using h levels_hd_tl [of sub] by metis
  show ?thesis using assms(2) by (simp add: levels_char ls m)
qed

definition match_inv :: "char \<Rightarrow> nat \<Rightarrow> string \<Rightarrow> string \<Rightarrow> bool" where
  "match_inv p spos sub topic \<longleftrightarrow>
     filter_ok (spos = 0 \<or> p = CHR ''/'') sub \<and> (\<forall>c \<in> set topic. \<not> is_wild c)
     \<and> \<not> (sub = [] \<and> topic = [])
     \<and> (topic = [] \<and> sub = ''/#'' \<longrightarrow> p = CHR ''+'' \<and> spos > 0)
     \<and> (p = CHR ''+'' \<and> spos > 0 \<longrightarrow> sub = [] \<or> hd sub = CHR ''/'')"

lemma not_wild_NUL [simp]: "\<not> is_wild (CHR 0x00)"
  by (simp add: is_wild_def)

lemma topic_match_loop_eq:
  "match_inv p spos sub topic \<Longrightarrow>
   topic_match_loop p spos sub topic = Inr (match_levels (levels sub) (levels topic))"
proof (induction sub arbitrary: p spos topic)
  case Nil
  then obtain c t where "topic = c # t" by (cases topic) (auto simp: match_inv_def)
  then show ?case using Nil has_wild_valid [of topic]
    by (cases "c = CHR ''/''") (auto simp: levels_slash levels_char match_inv_def)
next
  case (Cons s sub)
  have ok: "filter_ok (spos = 0 \<or> p = CHR ''/'') (s # sub)" and nw: "\<forall>c \<in> set topic. \<not> is_wild c"
    using Cons.prems unfolding match_inv_def by blast+
  have nw0: "\<not> is_wild (char_at topic 0)" using nw by (cases topic) (simp_all add: char_at_def)
  show ?case
  proof (cases "is_wild s")
    case True
    then have mism: "s \<noteq> char_at topic 0" using nw0 by auto
    show ?thesis
    proof (cases "s = CHR ''+''")
      case plus: True
      then have f: "spos = 0 \<or> p = CHR ''/''" "sub = [] \<or> hd sub = CHR ''/''" "filter_ok False sub"
        using ok by simp_all
      obtain t' where t': "skip_level topic = Some t'" "levels t' = [] # tl (levels topic)"
        "t' = [] \<or> hd t' = CHR ''/''" "set t' \<subseteq> set topic"
        using skip_level_valid [OF nw] by blast
      have c0: "sub = [] \<or> char_at sub 0 = CHR ''/''" using f(2) by (cases sub) (auto simp: char_at_def)
      have m: "match_levels (levels (s # sub)) (levels topic) = match_levels (levels sub) (levels t')"
        using match_plus [OF f(2) t'(2)] plus by simp
      have "match_inv s (Suc spos) sub t'" if "\<not> (t' = [] \<and> sub = [])"
        using that f t' nw plus by (auto simp: match_inv_def)
      then show ?thesis using nw0 mism plus f(1) c0 t'(1) m Cons.IH [of s "Suc spos" t']
        by (cases "t' = [] \<and> sub = []") auto
    next
      case False
      then have "s = CHR ''#''" using True by (simp add: is_wild_def)
      then show ?thesis using nw0 mism ok has_wild_valid [OF nw] by (auto simp: levels_char)
    qed
  next
    case False
    then have ns: "s \<noteq> CHR ''+''" "s \<noteq> CHR ''#''" by (auto simp: is_wild_def)
    then have sok: "filter_ok (s = CHR ''/'') sub" using ok by simp
    have nh: "\<not> misplaced_hash (s # sub)" using misplaced_hash_ok [OF ok] .
    show ?thesis
    proof (cases topic)
      case Nil
      have m: "match_levels (levels (s # sub)) (levels topic) \<longleftrightarrow> s = CHR ''/'' \<and> sub = ''#''"
        using match_topic_end [OF False sok] Nil by simp
      have c: "char_at sub 0 = CHR ''#'' \<longleftrightarrow> sub = ''#''" if "s = CHR ''/''"
        using that sok by (cases sub) (auto simp: char_at_def)
      have "p = CHR ''+'' \<and> spos > 0" if "s = CHR ''/''" "sub = ''#''"
        using that Nil Cons.prems by (simp add: match_inv_def)
      then show ?thesis using Nil nw0 ns nh m c by auto
    next
      case topic: (Cons t ts)
      have t: "char_at topic 0 = t" by (simp add: topic char_at_def)
      show ?thesis
      proof (cases "s = t")
        case True
        have m: "match_levels (levels (s # sub)) (levels topic) = match_levels (levels sub) (levels ts)"
          using match_same_char [OF False sok] topic True by simp
        consider "ts = []" "sub = ''/#''" | "ts = []" "sub = []" | "ts = []" "sub = ''+''"
          | "\<not> (ts = [] \<and> sub = ''/#'')" "\<not> (ts = [] \<and> sub = [])" "\<not> (ts = [] \<and> sub = ''+'')" by blast
        then show ?thesis
        proof cases
          case 4
          have "match_inv s (Suc spos) sub ts"
            using 4 sok ns nw topic by (auto simp: match_inv_def)
          then show ?thesis using 4 Cons.IH [of s "Suc spos" ts] nw0 t topic True m by auto
        qed (use nw0 t topic True m ns sok in \<open>auto simp: levels.simps\<close>)
      next
        case neq: False
        then show ?thesis using match_other_char [OF False neq] nw0 t topic ns nh by simp
      qed
    qed
  qed
qed

lemma topic_matches_valid:
  assumes "sub_valid s" "topic_valid t" "s \<noteq> []" "t \<noteq> []"
  shows "mosquitto_topic_matches_sub (Some s) (Some t) True = Inr (filter_matches s t)"
proof -
  have "filter_ok True s" using assms(1) filter_ok_levels [of s] by (simp add: sub_valid_def)
  then have "match_inv (CHR 0x00) 0 s t" using assms by (simp add: match_inv_def topic_valid_def)
  then show ?thesis using topic_match_loop_eq [of "CHR 0x00" 0 s t] assms
    by (auto simp: mosquitto_topic_matches_sub_def mosquitto_topic_matches_sub2_def filter_matches_def)
qed

section \<open>Properties\<close>

text \<open>
  C25: \<open>mosquitto_sub_topic_check\<close> accepts a filter exactly when it is short enough, has no more
  than the allowed levels, and every wildcard stands alone in its level, \<open>#\<close> only in the last.
\<close>

theorem sub_topic_check_valid:
  assumes "CHR 0x00 \<notin> set s"
  shows "mosquitto_sub_topic_check (Some s) = (if sub_valid s then Inr () else Inl (Rc MOSQ_ERR_INVAL))"
  using assms by (rule sub_check_valid)

theorem sub_topic_check_valid_witness:
  "CHR 0x00 \<notin> set ''a/+/#'' \<and> mosquitto_sub_topic_check (Some ''a/+/#'') = Inr ()
   \<and> mosquitto_sub_topic_check (Some ''a/#/c'') = Inl (Rc MOSQ_ERR_INVAL)"
  using sub_topic_check_valid [of "''a/+/#''"] sub_topic_check_valid [of "''a/#/c''"]
  by (simp add: sub_valid_def levels.simps)

text \<open>
  \<open>mosquitto_pub_topic_check\<close> accepts a topic name exactly when it is short enough, has no
  more than the allowed levels and contains no wildcard.
\<close>

theorem pub_topic_check_valid:
  "mosquitto_pub_topic_check (Some s) = (if topic_valid s then Inr () else Inl (Rc MOSQ_ERR_INVAL))"
  by (rule pub_check_valid)

text \<open>
  The checks with an explicit length, on a buffer that goes on behind the topic and is not
  terminated, read nothing behind the topic and give the answer of the checks of a C string.
\<close>

theorem topic_check2_agree:
  assumes "CHR 0x00 \<notin> set s"
  shows "mosquitto_sub_topic_check2 (Some (s @ rest)) (length s) = mosquitto_sub_topic_check (Some s)
    \<and> mosquitto_pub_topic_check2 (Some (s @ rest)) (length s) = mosquitto_pub_topic_check (Some s)"
proof (rule conjI)
  have long: "mosquitto_sub_topic_check (Some s) = Inl (Rc MOSQ_ERR_INVAL)"
    "mosquitto_pub_topic_check (Some s) = Inl (Rc MOSQ_ERR_INVAL)" if "length s > 65535"
    using that sub_check_valid [OF assms] pub_check_valid [of s]
    by (simp_all add: sub_valid_def topic_valid_def)
  show "mosquitto_sub_topic_check2 (Some (s @ rest)) (length s) = mosquitto_sub_topic_check (Some s)"
    using long(1) sub_topic_loop2_eq [OF assms, of 0 "[]"]
    by (simp add: mosquitto_sub_topic_check2_def mosquitto_sub_topic_check_def)
  show "mosquitto_pub_topic_check2 (Some (s @ rest)) (length s) = mosquitto_pub_topic_check (Some s)"
    using long(2) pub_topic_loop2_eq [of 0 s "[]"]
    by (simp add: mosquitto_pub_topic_check2_def mosquitto_pub_topic_check_def)
qed

theorem topic_check2_agree_witness:
  "CHR 0x00 \<notin> set ''a/+'' \<and> mosquitto_sub_topic_check2 (Some (''a/+'' @ ''b'')) (length ''a/+'')
     = mosquitto_sub_topic_check (Some ''a/+'')"
  using topic_check2_agree [of "''a/+''" "''b''"] by simp

text \<open>
  C23: For a valid filter and a valid topic name, \<open>mosquitto_topic_matches_sub\<close> returns success
  and its result is the match of MQTT, level by level, with \<open>+\<close> for one level, \<open>#\<close> for the
  parent level and everything below, and names that start with \<open>$\<close> kept apart.
\<close>

theorem topic_matches_sub_correct:
  assumes "sub_valid s" "topic_valid t" "s \<noteq> []" "t \<noteq> []"
  shows "mosquitto_topic_matches_sub (Some s) (Some t) True = Inr (filter_matches s t)"
  using assms by (rule topic_matches_valid)

theorem topic_matches_sub_correct_witness:
  "sub_valid ''a/+/#'' \<and> topic_valid ''a/b''
   \<and> mosquitto_topic_matches_sub (Some ''a/+/#'') (Some ''a/b'') True = Inr True"
proof -
  have "sub_valid ''a/+/#''" "topic_valid ''a/b''"
    by (simp_all add: sub_valid_def topic_valid_def is_wild_def levels.simps)
  then show ?thesis
    using topic_matches_sub_correct [of "''a/+/#''" "''a/b''"]
    by (simp add: filter_matches_def char_at_def levels.simps)
qed

end
