(* ===== verification/Packet.thy ===== *)
theory Packet
  imports Utf8
begin

text \<open>
  \<open>lib/packet_datatypes.c\<close>: reading and writing the data types of MQTT in a packet. The counters of
  \<open>struct mosquitto__packet\<close> keep their widths, so that \<open>pos + count\<close> wraps as in C. A reader
  returns its outcome and the packet it leaves behind, also on an error; the readers that
  allocate take and return the outcomes of the allocations to come. A writer either gives the
  new packet or says why the C code stops (a failed \<open>assert\<close>, a write behind the buffer).
\<close>

section \<open>The packet\<close>

text \<open>The fields carry the prefix \<open>p_\<close>; queue links and the socket state of a packet are not represented.\<close>

record mosquitto__packet =
  p_payload :: "u8 list"
  p_remaining_mult :: u32
  p_remaining_length :: u32
  p_packet_length :: u32
  p_to_process :: u32
  p_pos :: u32
  p_mid :: u16
  p_command :: u8
  p_remaining_count :: int

section \<open>Readers\<close>

definition packet__read_byte :: "mosquitto__packet \<Rightarrow> u8 res \<times> mosquitto__packet" where
  "packet__read_byte packet =
     (if p_pos packet + 1 > p_remaining_length packet then (rc_fail MOSQ_ERR_PROTOCOL, packet)
      else case rd8 (p_payload packet) (unat (p_pos packet)) of
        Inl e \<Rightarrow> (Inl e, packet)
      | Inr byte \<Rightarrow> (Inr byte, packet\<lparr>p_pos := p_pos packet + 1\<rparr>))"

text \<open>\<open>memcpy\<close> of \<open>n\<close> bytes from an index.\<close>

definition rd_bytes :: "u8 list \<Rightarrow> nat \<Rightarrow> nat \<Rightarrow> u8 list res" where
  "rd_bytes buf i n = (if i + n \<le> length buf then Inr (take n (drop i buf)) else Inl Oob)"

definition packet__read_bytes :: "mosquitto__packet \<Rightarrow> u32 \<Rightarrow> u8 list res \<times> mosquitto__packet" where
  "packet__read_bytes packet count =
     (if p_pos packet + count > p_remaining_length packet then (rc_fail MOSQ_ERR_PROTOCOL, packet)
      else case rd_bytes (p_payload packet) (unat (p_pos packet)) (unat count) of
        Inl e \<Rightarrow> (Inl e, packet)
      | Inr bytes \<Rightarrow> (Inr bytes, packet\<lparr>p_pos := p_pos packet + count\<rparr>))"

definition packet__read_uint16 :: "mosquitto__packet \<Rightarrow> u16 res \<times> mosquitto__packet" where
  "packet__read_uint16 packet =
     (if p_pos packet + 2 > p_remaining_length packet then (rc_fail MOSQ_ERR_PROTOCOL, packet)
      else case (rd8 (p_payload packet) (unat (p_pos packet)), rd8 (p_payload packet) (unat (p_pos packet + 1))) of
        (Inr msb, Inr lsb) \<Rightarrow>
          (Inr (word_of_int (push_bit 8 (uint msb) + uint lsb)), packet\<lparr>p_pos := p_pos packet + 1 + 1\<rparr>)
      | _ \<Rightarrow> (Inl Oob, packet))"

primrec read_uint32_loop :: "nat \<Rightarrow> u32 \<Rightarrow> mosquitto__packet \<Rightarrow> u32 res \<times> mosquitto__packet" where
  "read_uint32_loop 0 val packet = (Inr val, packet)"
| "read_uint32_loop (Suc n) val packet =
     (case rd8 (p_payload packet) (unat (p_pos packet)) of
        Inl e \<Rightarrow> (Inl e, packet)
      | Inr byte \<Rightarrow> read_uint32_loop n (push_bit 8 val + ucast byte) (packet\<lparr>p_pos := p_pos packet + 1\<rparr>))"

definition packet__read_uint32 :: "mosquitto__packet \<Rightarrow> u32 res \<times> mosquitto__packet" where
  "packet__read_uint32 packet =
     (if p_pos packet + 4 > p_remaining_length packet then (rc_fail MOSQ_ERR_PROTOCOL, packet)
      else read_uint32_loop 4 0 packet)"

text \<open>The result is the value and the number of its bytes (\<open>*bytes\<close>).\<close>

primrec read_varint_loop ::
    "nat \<Rightarrow> u32 \<Rightarrow> u32 \<Rightarrow> u8 \<Rightarrow> mosquitto__packet \<Rightarrow> (u32 \<times> u8) res \<times> mosquitto__packet" where
  "read_varint_loop 0 mult lword lbytes packet = (rc_fail MOSQ_ERR_PROTOCOL, packet)"
| "read_varint_loop (Suc n) mult lword lbytes packet =
     (if p_pos packet < p_remaining_length packet then
        (case rd8 (p_payload packet) (unat (p_pos packet)) of
           Inl e \<Rightarrow> (Inl e, packet)
         | Inr byte \<Rightarrow>
             let lbytes = lbytes + 1;
                 lword = lword + ucast (byte AND 127) * mult;
                 packet = packet\<lparr>p_pos := p_pos packet + 1\<rparr>
             in if byte AND 128 = 0 then
                  (if lbytes > 1 \<and> byte = 0 then (rc_fail MOSQ_ERR_PROTOCOL, packet)
                   else (Inr (lword, lbytes), packet))
                else read_varint_loop n (mult * 128) lword lbytes packet)
      else (rc_fail MOSQ_ERR_PROTOCOL, packet))"

definition packet__read_varint :: "mosquitto__packet \<Rightarrow> (u32 \<times> u8) res \<times> mosquitto__packet" where
  "packet__read_varint packet = read_varint_loop 4 1 0 0 packet"

text \<open>
  Binary data: the pointer (null for no data) with the NUL the code puts behind the copy, and
  the length.
\<close>

definition packet__read_binary ::
    "mosquitto__packet \<Rightarrow> mem \<Rightarrow> (u8 list option \<times> u16) res \<times> mosquitto__packet \<times> mem" where
  "packet__read_binary packet mem =
     (case packet__read_uint16 packet of
        (Inl e, packet) \<Rightarrow> (Inl e, packet, mem)
      | (Inr slen, packet) \<Rightarrow>
          if slen = 0 then (Inr (None, 0), packet, mem)
          else if p_pos packet + ucast slen > p_remaining_length packet
          then (rc_fail MOSQ_ERR_PROTOCOL, packet, mem)
          else
            (case malloc_ok mem of
               (False, mem) \<Rightarrow> (rc_fail MOSQ_ERR_NOMEM, packet, mem)
             | (True, mem) \<Rightarrow>
                 (case rd_bytes (p_payload packet) (unat (p_pos packet)) (unat slen) of
                    Inl e \<Rightarrow> (Inl e, packet, mem)
                  | Inr data \<Rightarrow>
                      (Inr (Some (data @ [0]), slen), packet\<lparr>p_pos := p_pos packet + ucast slen\<rparr>, mem))))"

definition packet__read_string ::
    "mosquitto__packet \<Rightarrow> mem \<Rightarrow> (u8 list option \<times> u16) res \<times> mosquitto__packet \<times> mem" where
  "packet__read_string packet mem =
     (case packet__read_binary packet mem of
        (Inl e, packet, mem) \<Rightarrow> (Inl e, packet, mem)
      | (Inr (str, slen), packet, mem) \<Rightarrow>
          if slen = 0 then (Inr (str, slen), packet, mem)
          else
            (case mosquitto_validate_utf8 str (uint slen) of
               Inl (Rc e) \<Rightarrow> (rc_fail MOSQ_ERR_MALFORMED_UTF8, packet, mem)
             | Inl e \<Rightarrow> (Inl e, packet, mem)
             | Inr _ \<Rightarrow> (Inr (str, slen), packet, mem)))"

section \<open>Writers\<close>

definition packet__write_byte :: "mosquitto__packet \<Rightarrow> u8 \<Rightarrow> mosquitto__packet res" where
  "packet__write_byte packet byte =
     (if \<not> p_pos packet + 1 \<le> p_packet_length packet then Inl Assert_fail
      else if length (p_payload packet) \<le> unat (p_pos packet) then Inl Oob
      else Inr (packet\<lparr>p_payload := (p_payload packet)[unat (p_pos packet) := byte], p_pos := p_pos packet + 1\<rparr>))"

definition packet__write_bytes :: "mosquitto__packet \<Rightarrow> u8 list \<Rightarrow> u32 \<Rightarrow> mosquitto__packet res" where
  "packet__write_bytes packet bytes count =
     (if \<not> p_pos packet + count \<le> p_packet_length packet then Inl Assert_fail
      else if length bytes < unat count \<or> length (p_payload packet) < unat (p_pos packet) + unat count then Inl Oob
      else Inr (packet\<lparr>p_payload := take (unat (p_pos packet)) (p_payload packet) @ take (unat count) bytes
                        @ drop (unat (p_pos packet) + unat count) (p_payload packet),
                      p_pos := p_pos packet + count\<rparr>))"

definition packet__write_uint16 :: "mosquitto__packet \<Rightarrow> u16 \<Rightarrow> mosquitto__packet res" where
  "packet__write_uint16 packet word =
     (case packet__write_byte packet (ucast (drop_bit 8 (word AND 0xFF00))) of
        Inl e \<Rightarrow> Inl e
      | Inr packet \<Rightarrow> packet__write_byte packet (ucast (word AND 0x00FF)))"

definition packet__write_uint32 :: "mosquitto__packet \<Rightarrow> u32 \<Rightarrow> mosquitto__packet res" where
  "packet__write_uint32 packet word =
     (case packet__write_byte packet (ucast (drop_bit 24 (word AND 0xFF000000))) of
        Inl e \<Rightarrow> Inl e
      | Inr packet \<Rightarrow>
     (case packet__write_byte packet (ucast (drop_bit 16 (word AND 0x00FF0000))) of
        Inl e \<Rightarrow> Inl e
      | Inr packet \<Rightarrow>
     (case packet__write_byte packet (ucast (drop_bit 8 (word AND 0x0000FF00))) of
        Inl e \<Rightarrow> Inl e
      | Inr packet \<Rightarrow> packet__write_byte packet (ucast (word AND 0x000000FF)))))"

text \<open>A null pointer as the source of a copy of no bytes is the empty buffer.\<close>

definition packet__write_string :: "mosquitto__packet \<Rightarrow> u8 list \<Rightarrow> u16 \<Rightarrow> mosquitto__packet res" where
  "packet__write_string packet str slen =
     (case packet__write_uint16 packet slen of
        Inl e \<Rightarrow> Inl e
      | Inr packet \<Rightarrow> packet__write_bytes packet str (ucast slen))"

text \<open>The \<open>do ... while\<close> loop of \<open>packet__write_varint\<close>; it returns the final \<open>count\<close>.\<close>

function write_varint_loop :: "mosquitto__packet \<Rightarrow> u32 \<Rightarrow> nat \<Rightarrow> (nat \<times> mosquitto__packet) res" where
  "write_varint_loop packet word count =
     (let byte = ucast (word mod 128) :: u8;
          word = word div 128;
          byte = (if word > 0 then byte OR 0x80 else byte)
      in case packet__write_byte packet byte of
           Inl e \<Rightarrow> Inl e
         | Inr packet \<Rightarrow>
             if word > 0 \<and> Suc count < 5 then write_varint_loop packet word (Suc count)
             else Inr (Suc count, packet))"
  by pat_completeness auto
termination
  by (relation "measure (\<lambda>(packet, word, count). 5 - count)") auto

declare write_varint_loop.simps [simp del]

definition packet__write_varint :: "mosquitto__packet \<Rightarrow> u32 \<Rightarrow> unit res \<times> mosquitto__packet" where
  "packet__write_varint packet word =
     (case write_varint_loop packet word 0 of
        Inl e \<Rightarrow> (Inl e, packet)
      | Inr (count, packet) \<Rightarrow> if count = 5 then (rc_fail MOSQ_ERR_PROTOCOL, packet) else (Inr (), packet))"

definition packet__varint_bytes :: "u32 \<Rightarrow> nat" where
  "packet__varint_bytes word =
     (if word < 128 then 1
      else if word < 16384 then 2
      else if word < 2097152 then 3
      else if word < 268435456 then 4
      else 5)"

section \<open>Writing as an update of the payload\<close>

definition put :: "mosquitto__packet \<Rightarrow> u8 list \<Rightarrow> mosquitto__packet" where
  "put p bs = p\<lparr>p_payload := take (unat (p_pos p)) (p_payload p) @ bs
                   @ drop (unat (p_pos p) + length bs) (p_payload p),
                 p_pos := p_pos p + of_nat (length bs)\<rparr>"

text \<open>\<open>n\<close> more bytes fit into the packet, and the allocated payload has its announced length.\<close>

definition fits :: "mosquitto__packet \<Rightarrow> nat \<Rightarrow> bool" where
  "fits p n \<longleftrightarrow> unat (p_pos p) + n \<le> unat (p_packet_length p)
              \<and> unat (p_packet_length p) \<le> length (p_payload p)"

lemma unat_add_fits: "unat (a :: u32) + n \<le> unat (b :: u32) \<Longrightarrow> unat (a + of_nat n) = unat a + n"
  using u32_less [of b] by (simp add: unat_word_ariths unat_of_nat take_bit_eq_mod mod_simps del: u32_less)

lemma put_select [simp]:
  "p_pos (put p bs) = p_pos p + of_nat (length bs)"
  "p_packet_length (put p bs) = p_packet_length p"
  "p_remaining_length (put p bs) = p_remaining_length p"
  by (simp_all add: put_def)

lemma fits_le: "fits p n \<Longrightarrow> m \<le> n \<Longrightarrow> fits p m"
  by (simp add: fits_def)

lemma length_put [simp]: "fits p (length bs) \<Longrightarrow> length (p_payload (put p bs)) = length (p_payload p)"
  by (simp add: put_def fits_def)

lemma unat_pos_put [simp]: "fits p (length bs) \<Longrightarrow> unat (p_pos (put p bs)) = unat (p_pos p) + length bs"
  by (simp add: fits_def unat_add_fits [of _ _ "p_packet_length p"])

lemma fits_put [simp]: "fits p (length bs + n) \<Longrightarrow> fits (put p bs) n"
proof -
  assume f: "fits p (length bs + n)"
  then have "fits p (length bs)" by (rule fits_le) simp
  from unat_pos_put [OF this] f show ?thesis by (simp add: fits_def put_def)
qed

lemma put_Nil [simp]: "fits p 0 \<Longrightarrow> put p [] = p"
  by (simp add: put_def)

lemma put_put: "fits p (length as) \<Longrightarrow> put (put p as) bs = put p (as @ bs)"
  using unat_pos_put [of p as] by (simp add: put_def fits_def add.assoc add.commute add.left_commute)

lemma write_byte [codec_simps]: "fits p 1 \<Longrightarrow> packet__write_byte p b = Inr (put p [b])"
  using unat_add_fits [of "p_pos p" 1 "p_packet_length p"]
  by (simp add: packet__write_byte_def put_def fits_def word_le_nat_alt upd_conv_take_nth_drop)

lemma write_bytes [codec_simps]:
  assumes "fits p (unat n)" "unat n \<le> length bs"
  shows "packet__write_bytes p bs n = Inr (put p (take (unat n) bs))"
proof -
  have "unat (p_pos p + n) = unat (p_pos p) + unat n"
    using unat_add_fits [of "p_pos p" "unat n" "p_packet_length p"] assms by (simp add: fits_def)
  with assms show ?thesis
    by (simp add: packet__write_bytes_def put_def fits_def word_le_nat_alt)
qed

lemma write_byte_put [codec_simps]:
  "fits p (length bs + 1) \<Longrightarrow> packet__write_byte (put p bs) b = Inr (put p (bs @ [b]))"
  using write_byte [of "put p bs"] fits_put [of p bs 1] fits_le [of p "length bs + 1" "length bs"]
  by (simp add: put_put)

definition be16 :: "u16 \<Rightarrow> u8 list" where
  "be16 w = [ucast (drop_bit 8 w), ucast w]"

definition be32 :: "u32 \<Rightarrow> u8 list" where
  "be32 w = [ucast (drop_bit 24 w), ucast (drop_bit 16 w), ucast (drop_bit 8 w), ucast w]"

lemma length_be [simp]: "length (be16 w) = 2" "length (be32 v) = 4"
  by (simp_all add: be16_def be32_def)

lemma mask_consts:
  "(0xFF :: u16) = mask 8" "(0xFF :: u32) = mask 8"
  "(0xFF00 :: u16) = push_bit 8 (mask 8)" "(0xFF00 :: u32) = push_bit 8 (mask 8)"
  "(0xFF0000 :: u32) = push_bit 16 (mask 8)" "(0xFF000000 :: u32) = push_bit 24 (mask 8)"
  by (simp_all add: mask_eq_exp_minus_1 push_bit_eq_mult)

lemma mask_byte:
  "ucast (drop_bit 8 (w AND 0xFF00)) = (ucast (drop_bit 8 (w :: u16)) :: u8)"
  "ucast (w AND 0xFF) = (ucast (w :: u16) :: u8)"
  "ucast (drop_bit 24 (v AND 0xFF000000)) = (ucast (drop_bit 24 (v :: u32)) :: u8)"
  "ucast (drop_bit 16 (v AND 0xFF0000)) = (ucast (drop_bit 16 (v :: u32)) :: u8)"
  "ucast (drop_bit 8 (v AND 0xFF00)) = (ucast (drop_bit 8 (v :: u32)) :: u8)"
  "ucast (v AND 0xFF) = (ucast (v :: u32) :: u8)"
  unfolding mask_consts by (rule bit_word_eqI, auto simp: bit_simps)+

lemma fits_smaller:
  "fits p 2 \<Longrightarrow> fits p (Suc 0) \<and> fits p (Suc (Suc 0))"
  "fits p 4 \<Longrightarrow> fits p (Suc 0) \<and> fits p (Suc (Suc 0)) \<and> fits p (Suc (Suc (Suc 0)))
     \<and> fits p (Suc (Suc (Suc (Suc 0))))"
  by (auto intro: fits_le)

lemma write_uint16 [codec_simps]: "fits p 2 \<Longrightarrow> packet__write_uint16 p w = Inr (put p (be16 w))"
  using fits_smaller(1) [of p]
  by (simp add: packet__write_uint16_def mask_byte be16_def write_byte write_byte_put put_put)

lemma write_uint32 [codec_simps]: "fits p 4 \<Longrightarrow> packet__write_uint32 p w = Inr (put p (be32 w))"
  using fits_smaller(2) [of p]
  by (simp add: packet__write_uint32_def mask_byte be32_def write_byte write_byte_put put_put)

section \<open>Reading as the bytes that remain\<close>

definition unread :: "mosquitto__packet \<Rightarrow> u8 list" where
  "unread p = take (unat (p_remaining_length p) - unat (p_pos p)) (drop (unat (p_pos p)) (p_payload p))"

definition adv :: "mosquitto__packet \<Rightarrow> nat \<Rightarrow> mosquitto__packet" where
  "adv p n = p\<lparr>p_pos := p_pos p + of_nat n\<rparr>"

text \<open>
  A received packet: the position is inside of it, the payload is there, and the length is one
  the fixed header can announce.
\<close>

definition rd_wf :: "mosquitto__packet \<Rightarrow> bool" where
  "rd_wf p \<longleftrightarrow> unat (p_pos p) \<le> unat (p_remaining_length p)
             \<and> unat (p_remaining_length p) \<le> length (p_payload p)
             \<and> unat (p_remaining_length p) \<le> 268435455"

lemma adv_select [simp]:
  "p_pos (adv p n) = p_pos p + of_nat n" "p_payload (adv p n) = p_payload p"
  "p_remaining_length (adv p n) = p_remaining_length p"
  by (simp_all add: adv_def)

lemma adv_0 [simp]: "adv p 0 = p"
  by (simp add: adv_def)

lemma adv_adv [simp]: "adv (adv p m) n = adv p (m + n)"
  by (simp add: adv_def add.assoc)

lemma length_unread: "rd_wf p \<Longrightarrow> length (unread p) = unat (p_remaining_length p) - unat (p_pos p)"
  by (auto simp: unread_def rd_wf_def)

lemma unat_pos_adv: "rd_wf p \<Longrightarrow> n \<le> length (unread p) \<Longrightarrow> unat (p_pos (adv p n)) = unat (p_pos p) + n"
  using unat_add_fits [of "p_pos p" n "p_remaining_length p"] by (auto simp: length_unread rd_wf_def)

lemma rd_wf_adv [simp]: "rd_wf p \<Longrightarrow> n \<le> length (unread p) \<Longrightarrow> rd_wf (adv p n)"
  using unat_pos_adv [of p n] by (auto simp: rd_wf_def length_unread)

lemma unread_adv [simp]: "rd_wf p \<Longrightarrow> n \<le> length (unread p) \<Longrightarrow> unread (adv p n) = drop n (unread p)"
  using unat_pos_adv [of p n] by (simp add: unread_def drop_take add.commute)

lemma unread_nth:
  "rd_wf p \<Longrightarrow> k < length (unread p) \<Longrightarrow> rd8 (p_payload p) (unat (p_pos p + of_nat k)) = Inr (unread p ! k)"
  using unat_pos_adv [of p k] by (auto simp: rd8_def unread_def rd_wf_def)

lemma within: "rd_wf p \<Longrightarrow> n < 268435456 \<Longrightarrow>
    p_pos p + of_nat n > p_remaining_length p \<longleftrightarrow> length (unread p) < n"
  by (auto simp: length_unread rd_wf_def word_less_nat_alt unat_word_ariths unat_of_nat take_bit_eq_mod)

lemma read_byte [codec_simps]:
  "rd_wf p \<Longrightarrow> packet__read_byte p =
     (case unread p of [] \<Rightarrow> (Inl (Rc MOSQ_ERR_PROTOCOL), p) | b # _ \<Rightarrow> (Inr b, adv p 1))"
  using within [of p 1] unread_nth [of p 0]
  by (auto simp: packet__read_byte_def adv_def split: list.split)

definition un16 :: "u8 \<Rightarrow> u8 \<Rightarrow> u16" where
  "un16 msb lsb = word_of_int (push_bit 8 (uint msb) + uint lsb)"

lemma read_uint16 [codec_simps]:
  "rd_wf p \<Longrightarrow> packet__read_uint16 p =
     (case unread p of a # b # _ \<Rightarrow> (Inr (un16 a b), adv p 2) | _ \<Rightarrow> (Inl (Rc MOSQ_ERR_PROTOCOL), p))"
  using within [of p 2] unread_nth [of p 0] unread_nth [of p 1]
  by (auto simp: packet__read_uint16_def adv_def un16_def add.assoc split: list.split)

lemma read_uint32_loop:
  "rd_wf p \<Longrightarrow> n \<le> length (unread p) \<Longrightarrow>
   read_uint32_loop n v p = (Inr (foldl (\<lambda>v b. push_bit 8 v + ucast b) v (take n (unread p))), adv p n)"
proof (induction n arbitrary: v p)
  case (Suc n)
  obtain b r where r: "unread p = b # r" using Suc.prems by (cases "unread p") auto
  have "rd8 (p_payload p) (unat (p_pos p)) = Inr b"
    using unread_nth [of p 0] Suc.prems r by simp
  moreover have "p\<lparr>p_pos := p_pos p + 1\<rparr> = adv p 1" by (simp add: adv_def)
  ultimately show ?case using Suc.IH [of "adv p 1"] Suc.prems r by simp
qed simp

definition un32 :: "u8 \<Rightarrow> u8 \<Rightarrow> u8 \<Rightarrow> u8 \<Rightarrow> u32" where
  "un32 a b c d = push_bit 8 (push_bit 8 (push_bit 8 (ucast a) + ucast b) + ucast c) + ucast d"

lemma read_uint32 [codec_simps]:
  "rd_wf p \<Longrightarrow> packet__read_uint32 p =
     (case unread p of a # b # c # d # _ \<Rightarrow> (Inr (un32 a b c d), adv p 4)
      | _ \<Rightarrow> (Inl (Rc MOSQ_ERR_PROTOCOL), p))"
  using within [of p 4] read_uint32_loop [of p 4 0]
  by (auto simp: packet__read_uint32_def un32_def split: list.split)

lemma un16_be16 [simp]: "un16 (ucast (drop_bit 8 w)) (ucast w) = w"
proof -
  have "un16 (ucast (drop_bit 8 w)) (ucast w) = push_bit 8 (ucast (ucast (drop_bit 8 w) :: u8)) + ucast (ucast w :: u8)"
    by (simp add: un16_def push_bit_eq_mult)
  also have "\<dots> = push_bit 8 (ucast (ucast (drop_bit 8 w) :: u8)) OR ucast (ucast w :: u8)"
    by (rule disjunctive_add_eq_or, rule bit_word_eqI) (auto simp: bit_simps)
  also have "\<dots> = w" by (rule bit_word_eqI) (auto simp: bit_simps)
  finally show ?thesis .
qed

lemma un32_be32 [simp]:
  "un32 (ucast (drop_bit 24 w)) (ucast (drop_bit 16 w)) (ucast (drop_bit 8 w)) (ucast w) = w"
proof -
  have *: "push_bit 8 v + ucast (b :: u8) = push_bit 8 v OR ucast b" for v :: u32 and b
    by (rule disjunctive_add_eq_or, rule bit_word_eqI) (auto simp: bit_simps dest: bit_imp_le_length)
  show ?thesis unfolding un32_def *
  proof (rule bit_word_eqI)
    fix n assume "n < LENGTH(32)"
    then consider "n < 8" | "8 \<le> n" "n < 16" | "16 \<le> n" "n < 24" | "24 \<le> n" "n < 32" by fastforce
    then show "bit (push_bit 8 (push_bit 8 (push_bit 8 (ucast (ucast (drop_bit 24 w) :: u8))
        OR ucast (ucast (drop_bit 16 w) :: u8)) OR ucast (ucast (drop_bit 8 w) :: u8))
        OR ucast (ucast w :: u8) :: u32) n = bit w n"
      by cases (auto simp: bit_simps)
  qed
qed

section \<open>Variable byte integers\<close>

text \<open>The shortest encoding: seven bits per byte, least significant first, the top bit set on all but the last.\<close>

fun venc :: "nat \<Rightarrow> u8 list" where
  "venc n = (if n < 128 then [of_nat n] else of_nat (n mod 128 + 128) # venc (n div 128))"

declare venc.simps [simp del]

lemma venc_small: "n < 128 \<Longrightarrow> venc n = [of_nat n]"
  by (simp add: venc.simps)

lemma venc_big: "128 \<le> n \<Longrightarrow> venc n = of_nat (n mod 128 + 128) # venc (n div 128)"
  by (simp add: venc.simps)

lemma byte_low: "unat ((b :: u8) AND 127) = unat b mod 128"
proof -
  have "(127 :: u8) = mask 7" by (simp add: mask_eq_exp_minus_1)
  then show ?thesis using and_low_bits [of b 7] by (simp only: power_numeral_reduce) simp
qed

lemma byte_high: "(b :: u8) AND 128 = 0 \<longleftrightarrow> unat b < 128"
proof -
  have "(128 :: u8) = push_bit 7 (mask (8 - 7))" by (simp add: push_bit_eq_mult mask_eq_exp_minus_1)
  then have "unat (b AND 128) = unat b div 128 * 128" using and_high_bits [of 7 b] by simp
  then show ?thesis by (auto simp: unat_eq_0 [symmetric] div_eq_0_iff)
qed

lemma venc_last:
  assumes "n < 128"
  shows "(of_nat n :: u8) AND 128 = 0" "ucast ((of_nat n :: u8) AND 127) = (of_nat n :: u32)"
proof -
  have u: "unat (of_nat n :: u8) = n" using assms by (simp add: unat_of_nat take_bit_eq_mod)
  show "(of_nat n :: u8) AND 128 = 0" using assms u by (simp add: byte_high)
  have "ucast ((of_nat n :: u8) AND 127) = (of_nat (unat ((of_nat n :: u8) AND 127)) :: u32)" by simp
  then show "ucast ((of_nat n :: u8) AND 127) = (of_nat n :: u32)"
    using assms u by (simp only: byte_low) simp
qed

lemma venc_cont:
  "(of_nat (n mod 128 + 128) :: u8) AND 128 \<noteq> 0"
  "ucast ((of_nat (n mod 128 + 128) :: u8) AND 127) = (of_nat (n mod 128) :: u32)"
proof -
  let ?b = "of_nat (n mod 128 + 128) :: u8"
  have u: "unat ?b = n mod 128 + 128" by (simp add: unat_of_nat take_bit_eq_mod del: of_nat_add)
  then show "?b AND 128 \<noteq> 0" by (simp only: byte_high)
  have "ucast (?b AND 127) = (of_nat (unat (?b AND 127)) :: u32)" by simp
  then show "ucast (?b AND 127) = (of_nat (n mod 128) :: u32)" by (simp only: byte_low u) simp
qed

lemma length_venc: "length (venc n) =
    (if n < 128 then 1 else if n < 16384 then 2 else if n < 2097152 then 3 else if n < 268435456 then 4
     else length (venc (n div 268435456)) + 4)"
proof -
  note d = div_mult2_eq [symmetric] div_less_iff_less_mult less_eq_div_iff_mult_less_eq
  consider "n < 128" | "128 \<le> n" "n < 16384" | "16384 \<le> n" "n < 2097152"
    | "2097152 \<le> n" "n < 268435456" | "268435456 \<le> n" by linarith
  then show ?thesis by cases (simp_all add: venc_small venc_big d)
qed

lemma read_varint_step:
  assumes "rd_wf p"
  shows "read_varint_loop (Suc n) mult lword lbytes p =
     (case unread p of
        [] \<Rightarrow> (Inl (Rc MOSQ_ERR_PROTOCOL), p)
      | b # _ \<Rightarrow>
          if b AND 128 = 0 then
            (if lbytes + 1 > 1 \<and> b = 0 then (Inl (Rc MOSQ_ERR_PROTOCOL), adv p 1)
             else (Inr (lword + ucast (b AND 127) * mult, lbytes + 1), adv p 1))
          else read_varint_loop n (mult * 128) (lword + ucast (b AND 127) * mult) (lbytes + 1) (adv p 1))"
  using assms within [of p "Suc 0"] unread_nth [of p 0] length_unread [of p]
  by (cases "unread p") (auto simp: adv_def Let_def word_less_nat_alt)

declare read_varint_loop.simps(2) [simp del]

lemma lbytes_step: "n + m \<le> 4 \<Longrightarrow> ((of_nat n :: u8) + 1 > 1) \<longleftrightarrow> 0 < n"
  by (auto simp: word_less_nat_alt unat_word_ariths unat_of_nat take_bit_eq_mod mod_simps)

lemma read_varint_fwd:
  "rd_wf p \<Longrightarrow> unread p = venc w @ r \<Longrightarrow> w < 128 ^ n \<Longrightarrow> i + n \<le> 4 \<Longrightarrow> i = 0 \<or> w \<noteq> 0 \<Longrightarrow> 0 < n \<or> w \<noteq> 0 \<Longrightarrow>
   read_varint_loop n mult lword (of_nat i) p =
     (Inr (lword + of_nat w * mult, of_nat (i + length (venc w))), adv p (length (venc w)))"
proof (induction n arbitrary: p w i mult lword)
  case (Suc n)
  show ?case
  proof (cases "w < 128")
    case True
    have "(of_nat w :: u8) = 0 \<longleftrightarrow> w = 0"
      using True by (simp add: word_unat_eq_iff unat_of_nat take_bit_eq_mod)
    then show ?thesis
      using Suc.prems True lbytes_step [of i n] venc_last [OF True]
      by (simp add: read_varint_step venc_small add.commute)
  next
    case False
    let ?b = "of_nat (w mod 128 + 128) :: u8"
    have r: "unread p = ?b # venc (w div 128) @ r" using Suc.prems(2) False by (simp add: venc_big)
    have q: "w div 128 < 128 ^ n" "w div 128 \<noteq> 0"
      using Suc.prems(3) False by (simp_all add: div_less_iff_less_mult mult.commute div_eq_0_iff)
    have "(of_nat w :: u32) = of_nat (w mod 128 + 128 * (w div 128))" by simp
    then have w: "(of_nat w :: u32) = of_nat (w mod 128) + 128 * of_nat (w div 128)"
      by (simp only: of_nat_add of_nat_mult) simp
    have "read_varint_loop (Suc n) mult lword (of_nat i) p =
        read_varint_loop n (mult * 128) (lword + of_nat (w mod 128) * mult) (of_nat (Suc i)) (adv p 1)"
      using Suc.prems(1) r venc_cont [of w] by (simp add: read_varint_step add.commute del: of_nat_add)
    also have "\<dots> = (Inr (lword + of_nat (w mod 128) * mult + of_nat (w div 128) * (mult * 128),
        of_nat (Suc i + length (venc (w div 128)))), adv p (1 + length (venc (w div 128))))"
      using Suc.prems r q by (subst Suc.IH) auto
    finally show ?thesis using False w by (simp add: venc_big algebra_simps)
  qed
qed simp

lemma byte_div: "(b :: u8) AND 128 \<noteq> 0 \<Longrightarrow> b = of_nat (unat b mod 128 + 128)"
  using u8_less [of b] unfolding byte_high
  by (simp add: word_unat_eq_iff unat_of_nat take_bit_eq_mod mod_simps le_mod_geq del: of_nat_add u8_less)

lemma read_varint_inv:
  "rd_wf p \<Longrightarrow> read_varint_loop n mult lword (of_nat i) p = (Inr (v, k), p') \<Longrightarrow> i + n \<le> 4 \<Longrightarrow>
   \<exists>w r. w < 128 ^ n \<and> unread p = venc w @ r \<and> (i = 0 \<or> w \<noteq> 0)
       \<and> v = lword + of_nat w * mult \<and> k = of_nat (i + length (venc w)) \<and> p' = adv p (length (venc w))"
proof (induction n arbitrary: p i mult lword)
  case (Suc n)
  obtain b bs where r: "unread p = b # bs"
    using Suc.prems by (auto simp: read_varint_step split: list.splits)
  have ub: "ucast (b AND 127) = (of_nat (unat b mod 128) :: u32)"
    by (simp add: byte_low [symmetric])
  show ?case
  proof (cases "b AND 128 = 0")
    case True
    then have b: "unat b < 128" by (simp add: byte_high)
    then have "venc (unat b) = [b]" by (simp add: venc_small)
    moreover have "i = 0 \<or> unat b \<noteq> 0" and "v = lword + of_nat (unat b) * mult"
      and "k = of_nat (i + 1)" "p' = adv p 1"
      using Suc.prems True r lbytes_step [of i n] ub b
      by (auto simp: read_varint_step add.commute unat_eq_0 split: if_splits)
    moreover have "unat b < 128 ^ Suc n" by (rule order_less_le_trans [OF b]) simp
    ultimately show ?thesis using r by (intro exI [of _ "unat b"] exI [of _ bs]) auto
  next
    case False
    then have "read_varint_loop n (mult * 128) (lword + ucast (b AND 127) * mult) (of_nat (Suc i)) (adv p 1)
        = (Inr (v, k), p')"
      using Suc.prems r by (simp add: read_varint_step add.commute)
    moreover have "rd_wf (adv p 1)" "unread (adv p 1) = bs" using Suc.prems(1) r by simp_all
    ultimately obtain w r' where w: "w < 128 ^ n" "bs = venc w @ r'" "w \<noteq> 0"
      "v = lword + ucast (b AND 127) * mult + of_nat w * (mult * 128)"
      "k = of_nat (Suc i + length (venc w))" "p' = adv (adv p 1) (length (venc w))"
      using Suc.IH [of "adv p 1" "mult * 128" "lword + ucast (b AND 127) * mult" "Suc i"] Suc.prems by auto
    let ?w = "unat b mod 128 + 128 * w"
    have e: "venc ?w = b # venc w"
      using w(3) byte_div [OF False] by (simp add: venc_big)
    have "?w < 128 ^ Suc n" using w(1) mod_less_divisor [of 128 "unat b"] by (simp del: mod_less_divisor)
    moreover have "v = lword + of_nat ?w * mult" using w(4) ub by (simp add: algebra_simps)
    ultimately show ?thesis using w e r by (intro exI [of _ ?w] exI [of _ r']) (simp add: add.commute)
  qed
qed simp

lemma read_varint_err:
  "rd_wf p \<Longrightarrow> read_varint_loop n mult lword l p = (Inl e, p') \<Longrightarrow>
   e = Rc MOSQ_ERR_PROTOCOL \<and> (\<exists>k \<le> length (unread p). p' = adv p k)"
proof (induction n arbitrary: p l mult lword)
  case (Suc n)
  show ?case
  proof (cases "unread p")
    case (Cons b bs)
    show ?thesis
    proof (cases "b AND 128 = 0")
      case True
      then show ?thesis using Suc.prems Cons by (auto simp: read_varint_step split: if_splits)
    next
      case False
      then obtain k where "k \<le> length bs" "p' = adv (adv p 1) k" "e = Rc MOSQ_ERR_PROTOCOL"
        using Suc.IH [of "adv p 1"] Suc.prems Cons by (force simp: read_varint_step)
      then show ?thesis using Cons by (intro conjI exI [of _ "Suc k"]) auto
    qed
  qed (use Suc.prems in \<open>auto simp: read_varint_step\<close>)
qed (auto intro: exI [of _ 0])

lemma write_varint_byte:
  fixes w :: u32
  shows "unat w < 128 \<Longrightarrow> (ucast (w mod 128) :: u8) = of_nat (unat w)"
    and "(ucast (w mod 128) :: u8) OR 0x80 = of_nat (unat w mod 128 + 128)"
proof -
  have m: "unat (ucast (w mod 128) :: u8) = unat w mod 128"
    by (simp add: unsigned_ucast_eq unat_mod take_bit_eq_mod)
  show "unat w < 128 \<Longrightarrow> (ucast (w mod 128) :: u8) = of_nat (unat w)"
    using m by (metis mod_less of_nat_unat ucast_id)
  have "(ucast (w mod 128) :: u8) AND 128 = 0" by (simp add: byte_high m)
  then have "(ucast (w mod 128) :: u8) OR 0x80 = ucast (w mod 128) + 128"
    by (simp add: disjunctive_add_eq_or)
  also have "\<dots> = of_nat (unat (ucast (w mod 128) :: u8) + 128)" by simp
  finally show "(ucast (w mod 128) :: u8) OR 0x80 = of_nat (unat w mod 128 + 128)" by (simp only: m)
qed

lemma write_varint_loop:
  "fits p (length (venc (unat w))) \<Longrightarrow> n < 5 \<Longrightarrow> unat w < 128 ^ (5 - n) \<Longrightarrow>
   write_varint_loop p w n = Inr (n + length (venc (unat w)), put p (venc (unat w)))"
proof (induction p w n rule: write_varint_loop.induct)
  case (1 p w n)
  have d: "unat (w div 128) = unat w div 128" by (simp add: unat_div)
  then have z: "w div 128 > 0 \<longleftrightarrow> 128 \<le> unat w" by (simp add: word_less_nat_alt div_greater_zero_iff)
  show ?case
  proof (cases "unat w < 128")
    case True
    then show ?thesis using 1 z write_varint_byte(1) [OF True]
      by (simp add: write_varint_loop.simps [of p w n] venc_small write_byte Let_def)
  next
    case False
    let ?b = "ucast (w mod 128) OR 0x80 :: u8" and ?v = "venc (unat w div 128)"
    have v: "venc (unat w) = ?b # ?v" using False by (simp add: venc_big write_varint_byte(2))
    have n: "unat w div 128 < 128 ^ (5 - Suc n)" "Suc n < 5"
    proof -
      have s: "5 - n = Suc (5 - Suc n)" using 1(3) by simp
      show "unat w div 128 < 128 ^ (5 - Suc n)" using 1(4) s by (simp add: div_less_iff_less_mult mult.commute)
      show "Suc n < 5" using 1(3,4) s False by (cases "Suc n = 5") auto
    qed
    have f: "fits p 1" "fits (put p [?b]) (length ?v)"
      using 1(2) v fits_le [of p "length (venc (unat w))" 1] fits_put [of p "[?b]" "length ?v"] by simp_all
    then have "write_varint_loop (put p [?b]) (w div 128) (Suc n) = Inr (Suc n + length ?v, put (put p [?b]) ?v)"
      using 1(1) [OF refl refl refl, of "put p [?b]"] n z False d by (simp add: write_byte)
    then show ?thesis using f v z False n by (simp add: write_varint_loop.simps [of p w n] write_byte Let_def put_put)
  qed
qed

lemma write_varint [codec_simps]:
  assumes "fits p (length (venc (unat w)))"
  shows "packet__write_varint p w =
     (if unat w < 268435456 then Inr () else Inl (Rc MOSQ_ERR_PROTOCOL), put p (venc (unat w)))"
proof -
  have "unat w < 128 ^ (5 - 0)" by (rule order_less_trans [OF u32_less]) simp
  then have "write_varint_loop p w 0 = Inr (length (venc (unat w)), put p (venc (unat w)))"
    using write_varint_loop [OF assms, of 0] by simp
  moreover have "unat w div 268435456 < 128"
    by (simp add: div_less_iff_less_mult order_less_trans [OF u32_less])
  ultimately show ?thesis
    by (simp add: packet__write_varint_def length_venc [of "unat w"] venc_small)
qed

lemma varint_bytes: "packet__varint_bytes w = length (venc (unat w))"
proof -
  have "unat w div 268435456 < 128" by (simp add: div_less_iff_less_mult order_less_trans [OF u32_less])
  then show ?thesis
    by (simp add: packet__varint_bytes_def length_venc [of "unat w"] word_less_nat_alt venc_small)
qed

lemma read_varint [codec_simps]:
  "rd_wf p \<Longrightarrow> unread p = venc w @ r \<Longrightarrow> w < 268435456 \<Longrightarrow>
   packet__read_varint p = (Inr (of_nat w, of_nat (length (venc w))), adv p (length (venc w)))"
  using read_varint_fwd [of p w r 4 0 1 0] by (simp add: packet__read_varint_def)

lemma read_varint_ok:
  assumes "rd_wf p" "packet__read_varint p = (Inr (v, k), p')"
  shows "unat v < 268435456 \<and> (\<exists>r. unread p = venc (unat v) @ r)
       \<and> unat k = length (venc (unat v)) \<and> p' = adv p (length (venc (unat v)))"
proof -
  obtain w r where w: "w < 268435456" "unread p = venc w @ r" "v = of_nat w" "k = of_nat (length (venc w))"
    "p' = adv p (length (venc w))"
    using read_varint_inv [of p 4 1 0 0 v k p'] assms by (auto simp: packet__read_varint_def)
  then have u: "unat v = w" by (simp add: unat_of_nat take_bit_eq_mod)
  have "length (venc w) < 256" using w(1) by (simp add: length_venc)
  then have "unat k = length (venc w)" using w(4) by (simp add: unat_of_nat take_bit_eq_mod)
  with w u show ?thesis by auto
qed

lemma read_varint_fail:
  "rd_wf p \<Longrightarrow> packet__read_varint p = (Inl e, p') \<Longrightarrow>
   e = Rc MOSQ_ERR_PROTOCOL \<and> (\<exists>k \<le> length (unread p). p' = adv p k)"
  using read_varint_err [of p 4 1 0 0 e p'] by (simp add: packet__read_varint_def)

section \<open>Strings and binary data\<close>

lemma be16_cases: "unread p = be16 w @ r \<Longrightarrow> rd_wf p \<Longrightarrow> packet__read_uint16 p = (Inr w, adv p 2)"
  by (simp add: read_uint16 be16_def)

lemma be32_cases: "unread p = be32 w @ r \<Longrightarrow> rd_wf p \<Longrightarrow> packet__read_uint32 p = (Inr w, adv p 4)"
  by (simp add: read_uint32 be32_def)

lemma rd_bytes_unread:
  "rd_wf p \<Longrightarrow> n \<le> length (unread p) \<Longrightarrow> rd_bytes (p_payload p) (unat (p_pos p)) n = Inr (take n (unread p))"
  by (auto simp: rd_bytes_def unread_def rd_wf_def)

lemma read_bytes [codec_simps]:
  "rd_wf p \<Longrightarrow> unat n < 268435456 \<Longrightarrow> packet__read_bytes p n =
     (if length (unread p) < unat n then (Inl (Rc MOSQ_ERR_PROTOCOL), p)
      else (Inr (take (unat n) (unread p)), adv p (unat n)))"
  using within [of p "unat n"] rd_bytes_unread [of p "unat n"]
  by (simp add: packet__read_bytes_def adv_def)

lemma read_binary [codec_simps]:
  "rd_wf p \<Longrightarrow> packet__read_binary p mem =
     (case unread p of
        a # b # bs \<Rightarrow>
          (let n = un16 a b in
           if n = 0 then (Inr (None, 0), adv p 2, mem)
           else if length bs < unat n then (Inl (Rc MOSQ_ERR_PROTOCOL), adv p 2, mem)
           else if fst (malloc_ok mem)
           then (Inr (Some (take (unat n) bs @ [0]), n), adv p (2 + unat n), snd (malloc_ok mem))
           else (Inl (Rc MOSQ_ERR_NOMEM), adv p 2, snd (malloc_ok mem)))
      | _ \<Rightarrow> (Inl (Rc MOSQ_ERR_PROTOCOL), p, mem))"
proof -
  assume w: "rd_wf p"
  show ?thesis
  proof (cases "2 \<le> length (unread p)")
    case True
    then obtain a b bs where r: "unread p = a # b # bs" by (cases "unread p"; cases "tl (unread p)") auto
    let ?n = "un16 a b"
    have "unat ?n < 268435456" by (rule order_less_trans [OF u16_less]) simp
    then have "p_remaining_length (adv p 2) < p_pos (adv p 2) + ucast ?n \<longleftrightarrow> length bs < unat ?n"
      using within [of "adv p 2" "unat ?n"] w r by simp
    moreover have "unat ?n \<le> length bs \<Longrightarrow>
        rd_bytes (p_payload p) (unat (p_pos p + 2)) (unat ?n) = Inr (take (unat ?n) bs)"
      using rd_bytes_unread [of "adv p 2" "unat ?n"] w r by simp
    moreover have "(adv p 2)\<lparr>p_pos := p_pos (adv p 2) + ucast ?n\<rparr> = adv p (2 + unat ?n)"
      by (simp add: adv_def add.assoc)
    ultimately show ?thesis
      using w r by (auto simp: packet__read_binary_def read_uint16 Let_def split: prod.splits bool.splits)
  next
    case False
    then show ?thesis using w
      by (auto simp: packet__read_binary_def read_uint16 split: list.splits)
  qed
qed

lemma read_binary_shape:
  assumes "rd_wf p" "packet__read_binary p mem = (Inr (s, n), p', mem')"
  shows "s = None \<and> n = 0 \<or> n \<noteq> 0 \<and> (\<exists>bs. s = Some (bs @ [0]) \<and> length bs = unat n)"
proof -
  obtain a b bs where r: "unread p = a # b # bs"
    using assms by (auto simp: read_binary split: list.splits)
  show ?thesis
    using assms r by (auto simp: read_binary Let_def not_less split: if_splits)
qed

lemma read_string [codec_simps]:
  "rd_wf p \<Longrightarrow> packet__read_string p mem =
     (case packet__read_binary p mem of
        (Inr (Some s, n), p', mem') \<Rightarrow>
          (if utf8_wf (butlast s) then Inr (Some s, n) else Inl (Rc MOSQ_ERR_MALFORMED_UTF8), p', mem')
      | res \<Rightarrow> res)"
proof -
  assume w: "rd_wf p"
  have v: "mosquitto_validate_utf8 (Some (bs @ [0])) (int (length bs)) =
      (if utf8_wf bs then Inr () else Inl (Rc MOSQ_ERR_MALFORMED_UTF8))" if "length bs < 65536" for bs
    using utf8_loop_suffix [of "[]" bs "[]"] that by (simp add: mosquitto_validate_utf8_def)
  obtain r p' mem' where e: "packet__read_binary p mem = (r, p', mem')" by (metis prod_cases3)
  show ?thesis
  proof (cases r)
    case (Inr sn)
    obtain s n where [simp]: "sn = (s, n)" by fastforce
    from read_binary_shape [OF w, of mem s n p' mem'] e Inr
    consider "s = None" "n = 0" | bs where "n \<noteq> 0" "s = Some (bs @ [0])" "length bs = unat n" by auto
    then show ?thesis
    proof cases
      case 2
      from v [of bs] 2(3) have "mosquitto_validate_utf8 (Some (bs @ [0])) (uint n) =
          (if utf8_wf bs then Inr () else Inl (Rc MOSQ_ERR_MALFORMED_UTF8))" by simp
      with 2(1,2) show ?thesis unfolding packet__read_string_def e Inr by simp
    qed (simp add: packet__read_string_def e Inr)
  qed (simp add: packet__read_string_def e)
qed

lemma write_string [codec_simps]:
  assumes "fits p (2 + length bs)" "length bs < 65536"
  shows "packet__write_string p bs (of_nat (length bs)) = Inr (put p (be16 (of_nat (length bs)) @ bs))"
proof -
  have u: "unat (of_nat (length bs) :: u16) = length bs"
    using assms by (simp add: unat_of_nat take_bit_eq_mod)
  then have u': "unat (ucast (of_nat (length bs) :: u16) :: u32) = length bs"
    using assms(2) by (simp add: unsigned_ucast_eq take_bit_eq_mod)
  have "fits p 2" "fits (put p (be16 (of_nat (length bs)))) (length bs)"
    using assms fits_le [OF assms(1), of 2] fits_put [of p "be16 (of_nat (length bs))" "length bs"] by simp_all
  then show ?thesis
    using write_bytes [of "put p (be16 (of_nat (length bs)))" "ucast (of_nat (length bs) :: u16)" bs] u'
    by (simp add: packet__write_string_def write_uint16 put_put)
qed

text \<open>What a reader of a string leaves for its caller: the bytes and the packet behind them.\<close>

lemma read_binary_enc:
  assumes "rd_wf p" "unread p = be16 (of_nat (length bs)) @ bs @ r" "length bs < 65536"
  shows "packet__read_binary p [] =
     (Inr (if bs = [] then None else Some (bs @ [0]), of_nat (length bs)), adv p (2 + length bs), [])"
proof -
  have u: "unat (of_nat (length bs) :: u16) = length bs"
    using assms by (simp add: unat_of_nat take_bit_eq_mod)
  then have "(of_nat (length bs) :: u16) = 0 \<longleftrightarrow> bs = []"
    unfolding word_unat_eq_iff by simp
  with u show ?thesis using assms by (simp add: read_binary be16_def numeral_2_eq_2)
qed

lemma read_string_enc:
  assumes "rd_wf p" "unread p = be16 (of_nat (length bs)) @ bs @ r" "length bs < 65536" "utf8_wf bs"
  shows "packet__read_string p [] =
     (Inr (if bs = [] then None else Some (bs @ [0]), of_nat (length bs)), adv p (2 + length bs), [])"
  using assms by (simp add: read_string read_binary_enc)

section \<open>The interface of a field codec\<close>

text \<open>
  \<open>rewind p p'\<close> is the packet as its receiver sees it: the bytes written between the positions
  of \<open>p\<close> and \<open>p'\<close>, with the position at the first of them.
\<close>

definition rewind :: "mosquitto__packet \<Rightarrow> mosquitto__packet \<Rightarrow> mosquitto__packet" where
  "rewind p p' = p'\<lparr>p_pos := p_pos p, p_remaining_length := p_pos p'\<rparr>"

lemma unread_rewind [simp]:
  assumes "fits p (length bs)"
  shows "unread (rewind p (put p bs)) = bs"
proof -
  have "unat (p_pos p + of_nat (length bs)) = unat (p_pos p) + length bs"
    using assms unat_pos_put [OF assms] by simp
  then show ?thesis using assms by (simp add: unread_def rewind_def fits_def put_def)
qed

lemma rd_wf_rewind [simp]:
  assumes "fits p (length bs)" "unat (p_pos p) + length bs \<le> 268435455"
  shows "rd_wf (rewind p (put p bs))"
proof -
  have "unat (p_pos p + of_nat (length bs)) = unat (p_pos p) + length bs"
    using assms unat_pos_put [OF assms(1)] by simp
  then show ?thesis using assms by (auto simp: rd_wf_def rewind_def fits_def put_def)
qed

locale field_codec =
  fixes enc :: "'a \<Rightarrow> u8 list"
    and wr :: "mosquitto__packet \<Rightarrow> 'a \<Rightarrow> mosquitto__packet res"
    and rd :: "mosquitto__packet \<Rightarrow> 'a res \<times> mosquitto__packet"
    and ok :: "'a \<Rightarrow> bool"
  assumes wr_enc: "ok x \<Longrightarrow> fits p (length (enc x)) \<Longrightarrow> wr p x = Inr (put p (enc x))"
    and rd_enc: "ok x \<Longrightarrow> rd_wf p \<Longrightarrow> unread p = enc x @ r \<Longrightarrow> rd p = (Inr x, adv p (length (enc x)))"
begin

lemma roundtrip:
  "ok x \<Longrightarrow> fits p (length (enc x)) \<Longrightarrow> unat (p_pos p) + length (enc x) \<le> 268435455 \<Longrightarrow>
   \<exists>p'. wr p x = Inr p' \<and> unread (rewind p p') = enc x
      \<and> rd (rewind p p') = (Inr x, adv (rewind p p') (length (enc x)))"
  using rd_enc [of x "rewind p (put p (enc x))" "[]"] by (simp add: wr_enc)

text \<open>No encoding is a proper prefix of another: a reader never confuses two fields.\<close>

lemma enc_prefix_free:
  assumes "ok x" "ok y" "enc x @ r = enc y @ s" "length (enc x) + length r \<le> 268435455"
  shows "x = y \<and> r = s"
proof -
  let ?p = "\<lparr>p_payload = enc x @ r, p_remaining_mult = 0, p_remaining_length = of_nat (length (enc x @ r)),
      p_packet_length = 0, p_to_process = 0, p_pos = 0, p_mid = 0, p_command = 0, p_remaining_count = 0\<rparr>"
  have u: "unat (of_nat (length (enc x @ r)) :: u32) = length (enc x @ r)"
    using assms(4) by (simp add: unat_of_nat take_bit_eq_mod del: of_nat_add)
  then have "rd_wf ?p" "unread ?p = enc x @ r"
    using assms(4) by (simp_all add: rd_wf_def unread_def del: of_nat_add)
  then show ?thesis
    using rd_enc [of x ?p r] rd_enc [of y ?p s] assms by auto
qed

lemma rd_wr_seq:
  "ok x \<Longrightarrow> ok y \<Longrightarrow> rd_wf p \<Longrightarrow> unread p = enc x @ enc y @ r \<Longrightarrow>
   fst (rd p) = Inr x \<and> fst (rd (snd (rd p))) = Inr y \<and> unread (snd (rd (snd (rd p)))) = r"
  using rd_enc [of x p "enc y @ r"] rd_enc [of y "adv p (length (enc x))" r] by simp

end

interpretation byte_codec: field_codec "\<lambda>b. [b]" packet__write_byte packet__read_byte "\<lambda>_. True"
  by unfold_locales (simp_all add: write_byte read_byte)

interpretation uint16_codec: field_codec be16 packet__write_uint16 packet__read_uint16 "\<lambda>_. True"
  by unfold_locales (simp_all add: write_uint16 be16_cases)

interpretation uint32_codec: field_codec be32 packet__write_uint32 packet__read_uint32 "\<lambda>_. True"
  by unfold_locales (simp_all add: write_uint32 be32_cases)

text \<open>The varint writer reports a value that is too large after writing it; the caller sees both.\<close>

definition write_varint_checked :: "mosquitto__packet \<Rightarrow> u32 \<Rightarrow> mosquitto__packet res" where
  "write_varint_checked p w = (case packet__write_varint p w of (Inl e, _) \<Rightarrow> Inl e | (Inr _, p') \<Rightarrow> Inr p')"

definition read_varint_value :: "mosquitto__packet \<Rightarrow> u32 res \<times> mosquitto__packet" where
  "read_varint_value p = (case packet__read_varint p of (r, p') \<Rightarrow> (map_sum id fst r, p'))"

interpretation varint_codec: field_codec "\<lambda>w. venc (unat w)" write_varint_checked read_varint_value
  "\<lambda>w. unat w < 268435456"
  by unfold_locales (simp_all add: write_varint_checked_def read_varint_value_def write_varint read_varint)

definition string_bytes :: "(u8 list option \<times> u16) \<Rightarrow> u8 list" where
  "string_bytes sn = (case sn of (None, _) \<Rightarrow> [] | (Some s, n) \<Rightarrow> take (unat n) s)"

definition read_string_bytes :: "mosquitto__packet \<Rightarrow> u8 list res \<times> mosquitto__packet" where
  "read_string_bytes p = (case packet__read_string p [] of (r, p', _) \<Rightarrow> (map_sum id string_bytes r, p'))"

definition write_string_bytes :: "mosquitto__packet \<Rightarrow> u8 list \<Rightarrow> mosquitto__packet res" where
  "write_string_bytes p bs = packet__write_string p bs (of_nat (length bs))"

lemma unat_len16: "length bs < 65536 \<Longrightarrow> unat (of_nat (length bs) :: u16) = length bs"
  by (simp add: unat_of_nat take_bit_eq_mod)

interpretation string_codec: field_codec "\<lambda>bs. be16 (of_nat (length bs)) @ bs" write_string_bytes
  read_string_bytes "\<lambda>bs. length bs < 65536 \<and> utf8_wf bs"
  by unfold_locales
    (simp_all add: write_string_bytes_def read_string_bytes_def write_string read_string_enc string_bytes_def unat_len16)

section \<open>Readers stay inside of the packet\<close>

definition rd_safe :: "mosquitto__packet \<Rightarrow> 'a res \<Rightarrow> mosquitto__packet \<Rightarrow> bool" where
  "rd_safe p r p' \<longleftrightarrow> (\<forall>e. r = Inl e \<longrightarrow> (\<exists>c. e = Rc c)) \<and> (\<exists>k \<le> length (unread p). p' = adv p k)"

lemma rd_safe_Rc [simp]: "rd_safe p (Inl (Rc e)) p"
  by (auto simp: rd_safe_def intro: exI [of _ 0])

lemma rd_safe_adv: "k \<le> length (unread p) \<Longrightarrow> rd_safe p (Inr v) (adv p k)"
  by (auto simp: rd_safe_def)

lemma rd_safe_adv_Rc: "k \<le> length (unread p) \<Longrightarrow> rd_safe p (Inl (Rc e)) (adv p k)"
  by (auto simp: rd_safe_def)

lemma rd_safe_trans: "rd_wf p \<Longrightarrow> rd_safe p r p' \<Longrightarrow> rd_safe p' s p'' \<Longrightarrow> rd_safe p s p''"
proof -
  assume w: "rd_wf p" and r: "rd_safe p r p'" and s: "rd_safe p' s p''"
  from r obtain k where k: "k \<le> length (unread p)" "p' = adv p k" by (auto simp: rd_safe_def)
  from s obtain l where l: "l \<le> length (unread p')" "p'' = adv p' l" by (auto simp: rd_safe_def)
  have "k + l \<le> length (unread p)" "p'' = adv p (k + l)" using k l w by simp_all
  with s show ?thesis by (auto simp: rd_safe_def)
qed

lemma rd_safe_wf: "rd_wf p \<Longrightarrow> rd_safe p r p' \<Longrightarrow> rd_wf p'"
  by (auto simp: rd_safe_def)

lemma safe_byte: "rd_wf p \<Longrightarrow> packet__read_byte p = (r, p') \<Longrightarrow> rd_safe p r p'"
  by (auto simp: read_byte rd_safe_adv split: list.splits)

lemma safe_uint16: "rd_wf p \<Longrightarrow> packet__read_uint16 p = (r, p') \<Longrightarrow> rd_safe p r p'"
  by (auto simp: read_uint16 rd_safe_adv split: list.splits)

lemma safe_uint32: "rd_wf p \<Longrightarrow> packet__read_uint32 p = (r, p') \<Longrightarrow> rd_safe p r p'"
  by (auto simp: read_uint32 rd_safe_adv split: list.splits)

lemma safe_varint:
  assumes "rd_wf p" "packet__read_varint p = (r, p')"
  shows "rd_safe p r p'"
proof (cases r)
  case (Inl e)
  then show ?thesis using read_varint_fail [of p e p'] assms by (auto simp: rd_safe_def)
next
  case (Inr vk)
  then obtain s where "unread p = venc (unat (fst vk)) @ s" "p' = adv p (length (venc (unat (fst vk))))"
    using read_varint_ok [of p "fst vk" "snd vk" p'] assms by auto
  then show ?thesis using Inr by (auto simp: rd_safe_def intro: exI [of _ "length (venc (unat (fst vk)))"])
qed

lemma safe_binary: "rd_wf p \<Longrightarrow> packet__read_binary p mem = (r, p', mem') \<Longrightarrow> rd_safe p r p'"
  by (auto simp: read_binary Let_def rd_safe_adv rd_safe_adv_Rc split: list.splits if_splits)

lemma rd_safe_change: "rd_safe p r p' \<Longrightarrow> (\<And>e. s = Inl e \<Longrightarrow> \<exists>c. e = Rc c) \<Longrightarrow> rd_safe p s p'"
  by (auto simp: rd_safe_def)

lemma safe_string: 
  assumes "rd_wf p" "packet__read_string p mem = (r, p', mem')"
  shows "rd_safe p r p'"
proof -
  obtain b q m where b: "packet__read_binary p mem = (b, q, m)" by (metis prod_cases3)
  then have "rd_safe p b q" by (rule safe_binary [OF assms(1)])
  then show ?thesis
    using assms b by (auto simp: read_string rd_safe_def split: sum.splits prod.splits option.splits if_splits)
qed

section \<open>Properties\<close>

text \<open>
  C28: the reader of a variable byte integer accepts exactly the shortest encodings of the
  values below \<open>2\<^sup>28\<close>, returns the value with the number of its bytes and moves the position
  behind them; every other input is a protocol error.
\<close>

theorem varint_reader_exact:
  assumes "rd_wf p"
  shows "(packet__read_varint p = (Inr (v, k), p') \<longleftrightarrow>
           unat v < 268435456 \<and> (\<exists>r. unread p = venc (unat v) @ r)
           \<and> k = of_nat (length (venc (unat v))) \<and> p' = adv p (length (venc (unat v))))
       \<and> (fst (packet__read_varint p) = Inl e \<longrightarrow> e = Rc MOSQ_ERR_PROTOCOL)" (is "(?l \<longleftrightarrow> ?r) \<and> ?e")
proof -
  have "?r" if ?l
  proof -
    from read_varint_ok [OF assms that] have "?r \<longleftrightarrow> k = of_nat (unat k)" by auto
    then show ?thesis by simp
  qed
  moreover have ?l if ?r
  proof -
    from that obtain r where "unread p = venc (unat v) @ r" by blast
    with that show ?thesis using read_varint [OF assms, of "unat v" r] by simp
  qed
  moreover have ?e
    using read_varint_fail [OF assms, of e "snd (packet__read_varint p)"] by (cases "packet__read_varint p") auto
  ultimately show ?thesis by blast
qed

text \<open>A received packet with the given bytes, positioned at the first, for the witnesses.\<close>

definition received :: "u8 list \<Rightarrow> mosquitto__packet" where
  "received bs = \<lparr>p_payload = bs, p_remaining_mult = 1, p_remaining_length = of_nat (length bs),
     p_packet_length = 0, p_to_process = 0, p_pos = 0, p_mid = 0, p_command = 0, p_remaining_count = 0\<rparr>"

lemma received_wf [simp]:
  "length bs \<le> 268435455 \<Longrightarrow> rd_wf (received bs) \<and> unread (received bs) = bs"
  by (simp add: rd_wf_def unread_def received_def unat_of_nat take_bit_eq_mod)

text \<open>An empty outgoing packet of a given size.\<close>

definition blank :: "nat \<Rightarrow> mosquitto__packet" where
  "blank n = \<lparr>p_payload = replicate n 0, p_remaining_mult = 1, p_remaining_length = 0,
     p_packet_length = of_nat n, p_to_process = 0, p_pos = 0, p_mid = 0, p_command = 0, p_remaining_count = 0\<rparr>"

lemma blank_fits [simp]: "n \<le> 268435455 \<Longrightarrow> fits (blank n) k \<longleftrightarrow> k \<le> n"
  by (simp add: fits_def blank_def unat_of_nat take_bit_eq_mod)

lemma blank_pos [simp]: "p_pos (blank n) = 0"
  by (simp add: blank_def)

theorem varint_reader_exact_witness:
  "rd_wf (received [0x80, 1, 7]) \<and>
   packet__read_varint (received [0x80, 1, 7]) = (Inr (128, 2), adv (received [0x80, 1, 7]) 2)"
proof -
  have v: "length (venc 128) = 2" "\<exists>r. [0x80, 1, 7] = venc 128 @ r" by (simp_all add: venc_big venc_small)
  have w: "rd_wf (received [0x80, 1, 7])" "unread (received [0x80, 1, 7]) = [0x80, 1, 7]"
    using received_wf [of "[0x80, 1, 7]"] by simp_all
  then show ?thesis
    using varint_reader_exact [OF w(1), of 128 2 "adv (received [0x80, 1, 7]) 2"] v by simp
qed

text \<open>
  the writer of a variable byte integer writes the shortest encoding, whose length
  \<open>packet__varint_bytes\<close> predicts; a value of \<open>2\<^sup>28\<close> or more is still written, in five bytes, and
  reported as a protocol error.
\<close>

theorem varint_writer_exact:
  assumes "fits p (packet__varint_bytes w)"
  shows "packet__write_varint p w =
           (if unat w < 268435456 then Inr () else Inl (Rc MOSQ_ERR_PROTOCOL), put p (venc (unat w)))
         \<and> length (venc (unat w)) = packet__varint_bytes w
         \<and> (packet__varint_bytes w = 5 \<longleftrightarrow> 268435456 \<le> unat w)"
proof -
  have "packet__varint_bytes w = 5 \<longleftrightarrow> 268435456 \<le> unat w"
    by (simp add: packet__varint_bytes_def word_less_nat_alt)
  then show ?thesis using assms by (simp add: varint_bytes write_varint)
qed

theorem varint_writer_exact_witness:
  "fits (blank 5) (packet__varint_bytes 0xFFFFFFFF)
   \<and> fst (packet__write_varint (blank 5) 0xFFFFFFFF) = Inl (Rc MOSQ_ERR_PROTOCOL)"
  using varint_writer_exact [of "blank 5" "0xFFFFFFFF"] by (simp add: packet__varint_bytes_def)

text \<open>Exactly \<open>n\<close> more bytes are asked of the packet, within the size that a header can announce.\<close>

definition room :: "mosquitto__packet \<Rightarrow> nat \<Rightarrow> bool" where
  "room p n \<longleftrightarrow> fits p n \<and> unat (p_pos p) + n \<le> 268435455"

text \<open>
  C27: every data type of the protocol that is written into a packet with just the room for it is
  read back by its reader, which then stands behind the bytes the writer produced: a byte, the two
  integer widths, a variable byte integer, binary data and a well-formed string of up to 65535
  bytes. The empty binary or string comes back as the null pointer with length 0, every other one
  with a NUL behind it.
\<close>

theorem packet_fields_roundtrip:
   "(room p 1 \<longrightarrow> (\<exists>p'. packet__write_byte p b = Inr p' \<and>
       packet__read_byte (rewind p p') = (Inr b, adv (rewind p p') 1)))
  \<and> (room p 2 \<longrightarrow> (\<exists>p'. packet__write_uint16 p h = Inr p' \<and>
       packet__read_uint16 (rewind p p') = (Inr h, adv (rewind p p') 2)))
  \<and> (room p 4 \<longrightarrow> (\<exists>p'. packet__write_uint32 p w = Inr p' \<and>
       packet__read_uint32 (rewind p p') = (Inr w, adv (rewind p p') 4)))
  \<and> (unat w < 268435456 \<and> room p (packet__varint_bytes w) \<longrightarrow>
       (\<exists>p'. packet__write_varint p w = (Inr (), p') \<and> (\<exists>k. packet__read_varint (rewind p p') =
          (Inr (w, k), adv (rewind p p') (packet__varint_bytes w)))))
  \<and> (length s < 65536 \<and> room p (2 + length s) \<longrightarrow>
       (\<exists>p'. packet__write_string p s (of_nat (length s)) = Inr p' \<and>
          packet__read_binary (rewind p p') [] =
            (Inr (if s = [] then None else Some (s @ [0]), of_nat (length s)), adv (rewind p p') (2 + length s), [])
        \<and> (utf8_wf s \<longrightarrow> packet__read_string (rewind p p') [] =
            (Inr (if s = [] then None else Some (s @ [0]), of_nat (length s)), adv (rewind p p') (2 + length s), []))))"
proof -
  have b: "\<exists>p'. packet__write_byte p b = Inr p' \<and> packet__read_byte (rewind p p') = (Inr b, adv (rewind p p') 1)"
    if "room p 1" using byte_codec.roundtrip [of p b] that by (auto simp: room_def)
  have h: "\<exists>p'. packet__write_uint16 p h = Inr p' \<and> packet__read_uint16 (rewind p p') = (Inr h, adv (rewind p p') 2)"
    if "room p 2" using uint16_codec.roundtrip [of p h] that by (auto simp: room_def)
  have w: "\<exists>p'. packet__write_uint32 p w = Inr p' \<and> packet__read_uint32 (rewind p p') = (Inr w, adv (rewind p p') 4)"
    if "room p 4" using uint32_codec.roundtrip [of p w] that by (auto simp: room_def)
  have v: "\<exists>p'. packet__write_varint p w = (Inr (), p') \<and> (\<exists>k. packet__read_varint (rewind p p') =
          (Inr (w, k), adv (rewind p p') (packet__varint_bytes w)))"
    if "unat w < 268435456 \<and> room p (packet__varint_bytes w)"
    using that read_varint [of "rewind p (put p (venc (unat w)))" "unat w" "[]"]
    by (simp add: write_varint varint_bytes room_def)
  have s: "\<exists>p'. packet__write_string p s (of_nat (length s)) = Inr p' \<and>
          packet__read_binary (rewind p p') [] =
            (Inr (if s = [] then None else Some (s @ [0]), of_nat (length s)), adv (rewind p p') (2 + length s), [])
        \<and> (utf8_wf s \<longrightarrow> packet__read_string (rewind p p') [] =
            (Inr (if s = [] then None else Some (s @ [0]), of_nat (length s)), adv (rewind p p') (2 + length s), []))"
    if a: "length s < 65536 \<and> room p (2 + length s)"
  proof -
    let ?bs = "be16 (of_nat (length s)) @ s"
    have k: "rd_wf (rewind p (put p ?bs))" "unread (rewind p (put p ?bs)) = be16 (of_nat (length s)) @ s @ []"
      using a by (simp_all add: room_def)
    show ?thesis
      using a read_binary_enc [OF k] read_string_enc [OF k] by (simp add: write_string room_def del: if_split)
  qed
  from b h w v s show ?thesis by blast
qed

theorem packet_fields_roundtrip_witness:
  "(\<exists>p'. packet__write_uint16 (blank 2) 0x1234 = Inr p' \<and>
      packet__read_uint16 (rewind (blank 2) p') = (Inr 0x1234, adv (rewind (blank 2) p') 2))
 \<and> (\<exists>p'. packet__write_string (blank 2) [] 0 = Inr p' \<and>
      packet__read_string (rewind (blank 2) p') [] = (Inr (None, 0), adv (rewind (blank 2) p') 2, []))"
  using packet_fields_roundtrip [of "blank 2" 0 "0x1234" 0 "[]"] by (simp add: room_def) blast

text \<open>
  On a received packet no reader touches memory outside of the payload or moves the position
  behind the remaining length, whatever the bytes are and whichever allocation fails.
\<close>

theorem readers_stay_inside:
  assumes "rd_wf p"
  shows "(case packet__read_byte p of (r, p') \<Rightarrow> rd_safe p r p')
    \<and> (case packet__read_uint16 p of (r, p') \<Rightarrow> rd_safe p r p')
    \<and> (case packet__read_uint32 p of (r, p') \<Rightarrow> rd_safe p r p')
    \<and> (case packet__read_varint p of (r, p') \<Rightarrow> rd_safe p r p')
    \<and> (unat n < 268435456 \<longrightarrow> (case packet__read_bytes p n of (r, p') \<Rightarrow> rd_safe p r p'))
    \<and> (case packet__read_binary p mem of (r, p', mem') \<Rightarrow> rd_safe p r p')
    \<and> (case packet__read_string p mem of (r, p', mem') \<Rightarrow> rd_safe p r p')"
  using safe_byte [OF assms] safe_uint16 [OF assms] safe_uint32 [OF assms] safe_varint [OF assms]
    safe_binary [OF assms] safe_string [OF assms] read_bytes [OF assms, of n]
  by (auto simp: rd_safe_adv not_less split: prod.splits)

theorem readers_stay_inside_witness:
  "rd_wf (received [0, 9, 65]) \<and>
   (case packet__read_string (received [0, 9, 65]) [] of (r, p', mem') \<Rightarrow> rd_safe (received [0, 9, 65]) r p')"
  using readers_stay_inside [of "received [0, 9, 65]" 0 "[]"] received_wf [of "[0, 9, 65]"] by simp

end
