(* ===== verification/Property.thy ===== *)
theory Property
  imports Packet
begin

text \<open>
  \<open>lib/property_mosq.c\<close>: the MQTT 5 properties. A property list is the list of its nodes, a
  pointer into it the rest of the list from that node (\<open>[]\<close> is the null pointer). The members of
  the value union are kept apart, since every function accesses the member that the identifier
  selects. The first part translates the code, the second gives the bytes of a property
  (\<open>prop_enc\<close>) and shows that writer, reader and length computation agree with them.
\<close>

section \<open>Data\<close>

text \<open>A counted string: the buffer it points to, with the terminator if one was stored, or null.\<close>

record mqtt__string =
  ms_v :: "u8 list option"
  ms_len :: u16

record mqtt5__property =
  pr_i8 :: u8
  pr_i16 :: u16
  pr_i32 :: u32
  pr_varint :: u32
  pr_bin :: mqtt__string
  pr_s :: mqtt__string
  pr_name :: mqtt__string
  pr_identifier :: int
  pr_client_generated :: bool

definition ms0 :: mqtt__string where
  "ms0 = \<lparr>ms_v = None, ms_len = 0\<rparr>"

text \<open>A node from \<open>calloc\<close>, or cleared by \<open>memset\<close>.\<close>

definition property0 :: mqtt5__property where
  "property0 = \<lparr>pr_i8 = 0, pr_i16 = 0, pr_i32 = 0, pr_varint = 0, pr_bin = ms0, pr_s = ms0,
     pr_name = ms0, pr_identifier = 0, pr_client_generated = False\<rparr>"

abbreviation "MQTT_PROP_PAYLOAD_FORMAT_INDICATOR \<equiv> (1 :: int)"
abbreviation "MQTT_PROP_MESSAGE_EXPIRY_INTERVAL \<equiv> (2 :: int)"
abbreviation "MQTT_PROP_CONTENT_TYPE \<equiv> (3 :: int)"
abbreviation "MQTT_PROP_RESPONSE_TOPIC \<equiv> (8 :: int)"
abbreviation "MQTT_PROP_CORRELATION_DATA \<equiv> (9 :: int)"
abbreviation "MQTT_PROP_SUBSCRIPTION_IDENTIFIER \<equiv> (11 :: int)"
abbreviation "MQTT_PROP_SESSION_EXPIRY_INTERVAL \<equiv> (17 :: int)"
abbreviation "MQTT_PROP_ASSIGNED_CLIENT_IDENTIFIER \<equiv> (18 :: int)"
abbreviation "MQTT_PROP_SERVER_KEEP_ALIVE \<equiv> (19 :: int)"
abbreviation "MQTT_PROP_AUTHENTICATION_METHOD \<equiv> (21 :: int)"
abbreviation "MQTT_PROP_AUTHENTICATION_DATA \<equiv> (22 :: int)"
abbreviation "MQTT_PROP_REQUEST_PROBLEM_INFORMATION \<equiv> (23 :: int)"
abbreviation "MQTT_PROP_WILL_DELAY_INTERVAL \<equiv> (24 :: int)"
abbreviation "MQTT_PROP_REQUEST_RESPONSE_INFORMATION \<equiv> (25 :: int)"
abbreviation "MQTT_PROP_RESPONSE_INFORMATION \<equiv> (26 :: int)"
abbreviation "MQTT_PROP_SERVER_REFERENCE \<equiv> (28 :: int)"
abbreviation "MQTT_PROP_REASON_STRING \<equiv> (31 :: int)"
abbreviation "MQTT_PROP_RECEIVE_MAXIMUM \<equiv> (33 :: int)"
abbreviation "MQTT_PROP_TOPIC_ALIAS_MAXIMUM \<equiv> (34 :: int)"
abbreviation "MQTT_PROP_TOPIC_ALIAS \<equiv> (35 :: int)"
abbreviation "MQTT_PROP_MAXIMUM_QOS \<equiv> (36 :: int)"
abbreviation "MQTT_PROP_RETAIN_AVAILABLE \<equiv> (37 :: int)"
abbreviation "MQTT_PROP_USER_PROPERTY \<equiv> (38 :: int)"
abbreviation "MQTT_PROP_MAXIMUM_PACKET_SIZE \<equiv> (39 :: int)"
abbreviation "MQTT_PROP_WILDCARD_SUB_AVAILABLE \<equiv> (40 :: int)"
abbreviation "MQTT_PROP_SUBSCRIPTION_ID_AVAILABLE \<equiv> (41 :: int)"
abbreviation "MQTT_PROP_SHARED_SUB_AVAILABLE \<equiv> (42 :: int)"

datatype mqtt5_property_type =
    MQTT_PROP_TYPE_BYTE | MQTT_PROP_TYPE_INT16 | MQTT_PROP_TYPE_INT32 | MQTT_PROP_TYPE_VARINT
  | MQTT_PROP_TYPE_BINARY | MQTT_PROP_TYPE_STRING | MQTT_PROP_TYPE_STRING_PAIR

text \<open>The groups of labels that every \<open>switch\<close> over the identifier repeats.\<close>

definition prop_type :: "int \<Rightarrow> mqtt5_property_type option" where
  "prop_type identifier =
     (if identifier \<in> set [MQTT_PROP_PAYLOAD_FORMAT_INDICATOR, MQTT_PROP_REQUEST_PROBLEM_INFORMATION,
         MQTT_PROP_REQUEST_RESPONSE_INFORMATION, MQTT_PROP_MAXIMUM_QOS, MQTT_PROP_RETAIN_AVAILABLE,
         MQTT_PROP_WILDCARD_SUB_AVAILABLE, MQTT_PROP_SUBSCRIPTION_ID_AVAILABLE,
         MQTT_PROP_SHARED_SUB_AVAILABLE] then Some MQTT_PROP_TYPE_BYTE
      else if identifier \<in> set [MQTT_PROP_SERVER_KEEP_ALIVE, MQTT_PROP_RECEIVE_MAXIMUM,
         MQTT_PROP_TOPIC_ALIAS_MAXIMUM, MQTT_PROP_TOPIC_ALIAS] then Some MQTT_PROP_TYPE_INT16
      else if identifier \<in> set [MQTT_PROP_MESSAGE_EXPIRY_INTERVAL, MQTT_PROP_SESSION_EXPIRY_INTERVAL,
         MQTT_PROP_WILL_DELAY_INTERVAL, MQTT_PROP_MAXIMUM_PACKET_SIZE] then Some MQTT_PROP_TYPE_INT32
      else if identifier = MQTT_PROP_SUBSCRIPTION_IDENTIFIER then Some MQTT_PROP_TYPE_VARINT
      else if identifier \<in> set [MQTT_PROP_CONTENT_TYPE, MQTT_PROP_RESPONSE_TOPIC,
         MQTT_PROP_ASSIGNED_CLIENT_IDENTIFIER, MQTT_PROP_AUTHENTICATION_METHOD,
         MQTT_PROP_RESPONSE_INFORMATION, MQTT_PROP_SERVER_REFERENCE, MQTT_PROP_REASON_STRING]
      then Some MQTT_PROP_TYPE_STRING
      else if identifier \<in> set [MQTT_PROP_AUTHENTICATION_DATA, MQTT_PROP_CORRELATION_DATA]
      then Some MQTT_PROP_TYPE_BINARY
      else if identifier = MQTT_PROP_USER_PROPERTY then Some MQTT_PROP_TYPE_STRING_PAIR
      else None)"

section \<open>Reading\<close>

text \<open>\<open>rc = f(...); if(rc) return rc;\<close> for a reader, with the allocations it may use.\<close>

type_synonym 'a reader = "'a res \<times> mosquitto__packet \<times> mem"

definition on_ok :: "'a reader \<Rightarrow> ('a \<Rightarrow> mosquitto__packet \<Rightarrow> mem \<Rightarrow> 'b reader) \<Rightarrow> 'b reader" where
  "on_ok m f = (case m of (Inl e, packet, mem) \<Rightarrow> (Inl e, packet, mem)
                       | (Inr x, packet, mem) \<Rightarrow> f x packet mem)"

definition no_alloc :: "'a res \<times> mosquitto__packet \<Rightarrow> mem \<Rightarrow> 'a reader" where
  "no_alloc m mem = (fst m, snd m, mem)"

text \<open>The node that is filled and the new value of \<open>*len\<close>, which wraps as in C.\<close>

definition property__read :: "mosquitto__packet \<Rightarrow> mem \<Rightarrow> u32 \<Rightarrow> (mqtt5__property \<times> u32) reader" where
  "property__read packet mem len =
     on_ok (no_alloc (packet__read_varint packet) mem) (\<lambda>(property_identifier, _) packet mem.
       let len = len - 1;
           property = property0\<lparr>pr_identifier := sint property_identifier\<rparr>
       in case prop_type (uint property_identifier) of
            Some MQTT_PROP_TYPE_BYTE \<Rightarrow>
              on_ok (no_alloc (packet__read_byte packet) mem) (\<lambda>byte packet mem.
                (Inr (property\<lparr>pr_i8 := byte\<rparr>, len - 1), packet, mem))
          | Some MQTT_PROP_TYPE_INT16 \<Rightarrow>
              on_ok (no_alloc (packet__read_uint16 packet) mem) (\<lambda>uint16 packet mem.
                (Inr (property\<lparr>pr_i16 := uint16\<rparr>, len - 2), packet, mem))
          | Some MQTT_PROP_TYPE_INT32 \<Rightarrow>
              on_ok (no_alloc (packet__read_uint32 packet) mem) (\<lambda>uint32 packet mem.
                (Inr (property\<lparr>pr_i32 := uint32\<rparr>, len - 4), packet, mem))
          | Some MQTT_PROP_TYPE_VARINT \<Rightarrow>
              on_ok (no_alloc (packet__read_varint packet) mem) (\<lambda>(varint, byte_count) packet mem.
                (Inr (property\<lparr>pr_varint := varint\<rparr>, len - ucast byte_count), packet, mem))
          | Some MQTT_PROP_TYPE_STRING \<Rightarrow>
              on_ok (packet__read_string packet mem) (\<lambda>(str1, slen1) packet mem.
                (Inr (property\<lparr>pr_s := \<lparr>ms_v = str1, ms_len = slen1\<rparr>\<rparr>, len - 2 - ucast slen1), packet, mem))
          | Some MQTT_PROP_TYPE_BINARY \<Rightarrow>
              on_ok (packet__read_binary packet mem) (\<lambda>(str1, slen1) packet mem.
                (Inr (property\<lparr>pr_bin := \<lparr>ms_v = str1, ms_len = slen1\<rparr>\<rparr>, len - 2 - ucast slen1), packet, mem))
          | Some MQTT_PROP_TYPE_STRING_PAIR \<Rightarrow>
              on_ok (packet__read_string packet mem) (\<lambda>(str1, slen1) packet mem.
                let len = len - 2 - ucast slen1
                in on_ok (packet__read_string packet mem) (\<lambda>(str2, slen2) packet mem.
                     (Inr (property\<lparr>pr_name := \<lparr>ms_v = str1, ms_len = slen1\<rparr>,
                                   pr_s := \<lparr>ms_v = str2, ms_len = slen2\<rparr>\<rparr>,
                           len - 2 - ucast slen2), packet, mem)))
          | None \<Rightarrow> (rc_fail MOSQ_ERR_MALFORMED_PACKET, packet, mem))"

section \<open>Checks\<close>

abbreviation "CMD_CONNECT \<equiv> (0x10 :: int)"
abbreviation "CMD_CONNACK \<equiv> (0x20 :: int)"
abbreviation "CMD_PUBLISH \<equiv> (0x30 :: int)"
abbreviation "CMD_SUBSCRIBE \<equiv> (0x80 :: int)"
abbreviation "CMD_UNSUBSCRIBE \<equiv> (0xA0 :: int)"
abbreviation "CMD_DISCONNECT \<equiv> (0xE0 :: int)"
abbreviation "CMD_AUTH \<equiv> (0xF0 :: int)"
abbreviation "CMD_WILL \<equiv> (0x100 :: int)"

definition mosquitto_property_check_command :: "int \<Rightarrow> int \<Rightarrow> unit res" where
  "mosquitto_property_check_command command identifier =
     (let only = (\<lambda>commands. if command \<notin> set commands then rc_fail MOSQ_ERR_PROTOCOL else Inr ())
      in if identifier \<in> set [MQTT_PROP_PAYLOAD_FORMAT_INDICATOR, MQTT_PROP_MESSAGE_EXPIRY_INTERVAL,
             MQTT_PROP_CONTENT_TYPE, MQTT_PROP_RESPONSE_TOPIC, MQTT_PROP_CORRELATION_DATA]
         then only [CMD_PUBLISH, CMD_WILL]
         else if identifier = MQTT_PROP_SUBSCRIPTION_IDENTIFIER then only [CMD_PUBLISH, CMD_SUBSCRIBE]
         else if identifier = MQTT_PROP_SESSION_EXPIRY_INTERVAL
         then only [CMD_CONNECT, CMD_CONNACK, CMD_DISCONNECT]
         else if identifier \<in> set [MQTT_PROP_AUTHENTICATION_METHOD, MQTT_PROP_AUTHENTICATION_DATA]
         then only [CMD_CONNECT, CMD_CONNACK, CMD_AUTH]
         else if identifier \<in> set [MQTT_PROP_ASSIGNED_CLIENT_IDENTIFIER, MQTT_PROP_SERVER_KEEP_ALIVE,
             MQTT_PROP_RESPONSE_INFORMATION, MQTT_PROP_MAXIMUM_QOS, MQTT_PROP_RETAIN_AVAILABLE,
             MQTT_PROP_WILDCARD_SUB_AVAILABLE, MQTT_PROP_SUBSCRIPTION_ID_AVAILABLE,
             MQTT_PROP_SHARED_SUB_AVAILABLE]
         then only [CMD_CONNACK]
         else if identifier = MQTT_PROP_WILL_DELAY_INTERVAL then only [CMD_WILL]
         else if identifier \<in> set [MQTT_PROP_REQUEST_PROBLEM_INFORMATION, MQTT_PROP_REQUEST_RESPONSE_INFORMATION]
         then only [CMD_CONNECT]
         else if identifier = MQTT_PROP_SERVER_REFERENCE then only [CMD_CONNACK, CMD_DISCONNECT]
         else if identifier = MQTT_PROP_REASON_STRING
         then (if command \<in> set [CMD_CONNECT, CMD_PUBLISH, CMD_SUBSCRIBE, CMD_UNSUBSCRIBE]
               then rc_fail MOSQ_ERR_PROTOCOL else Inr ())
         else if identifier \<in> set [MQTT_PROP_RECEIVE_MAXIMUM, MQTT_PROP_TOPIC_ALIAS_MAXIMUM,
             MQTT_PROP_MAXIMUM_PACKET_SIZE]
         then only [CMD_CONNECT, CMD_CONNACK]
         else if identifier = MQTT_PROP_TOPIC_ALIAS then only [CMD_PUBLISH]
         else if identifier = MQTT_PROP_USER_PROPERTY then Inr ()
         else rc_fail MOSQ_ERR_PROTOCOL)"

text \<open>The validity checks at the start of the loop body of \<open>mosquitto_property_check_all\<close>.\<close>

definition property_value_bad :: "mqtt5__property \<Rightarrow> bool" where
  "property_value_bad p =
     (if pr_identifier p \<in> set [MQTT_PROP_REQUEST_PROBLEM_INFORMATION, MQTT_PROP_REQUEST_RESPONSE_INFORMATION,
          MQTT_PROP_MAXIMUM_QOS, MQTT_PROP_RETAIN_AVAILABLE, MQTT_PROP_WILDCARD_SUB_AVAILABLE,
          MQTT_PROP_SUBSCRIPTION_ID_AVAILABLE, MQTT_PROP_SHARED_SUB_AVAILABLE]
      then pr_i8 p > 1
      else if pr_identifier p = MQTT_PROP_MAXIMUM_PACKET_SIZE then pr_i32 p = 0
      else if pr_identifier p \<in> set [MQTT_PROP_RECEIVE_MAXIMUM, MQTT_PROP_TOPIC_ALIAS] then pr_i16 p = 0
      else False)"

primrec mosquitto_property_check_all :: "int \<Rightarrow> mqtt5__property list \<Rightarrow> unit res" where
  "mosquitto_property_check_all command [] = Inr ()"
| "mosquitto_property_check_all command (p # next) =
     (if property_value_bad p then rc_fail MOSQ_ERR_PROTOCOL
      else case mosquitto_property_check_command command (pr_identifier p) of
        Inl e \<Rightarrow> Inl e
      | Inr _ \<Rightarrow>
          if list_ex (\<lambda>tail. pr_identifier p = pr_identifier tail
                        \<and> pr_identifier p \<noteq> MQTT_PROP_USER_PROPERTY) next
          then rc_fail MOSQ_ERR_DUPLICATE_PROPERTY
          else mosquitto_property_check_all command next)"

text \<open>The loop of \<open>property__read_all\<close>; \<open>None\<close> would be a run that never ends.\<close>

partial_function (option) property__read_loop ::
    "mosquitto__packet \<Rightarrow> mem \<Rightarrow> u32 \<Rightarrow> mqtt5__property list \<Rightarrow> mqtt5__property list reader option" where
  "property__read_loop packet mem proplen properties =
     (if proplen > 0 then
        (case malloc_ok mem of
           (ok, mem) \<Rightarrow>
             if \<not> ok then Some (rc_fail MOSQ_ERR_NOMEM, packet, mem)
             else
               (case property__read packet mem proplen of
                  (Inl e, packet, mem) \<Rightarrow> Some (Inl e, packet, mem)
                | (Inr (p, proplen), packet, mem) \<Rightarrow>
                    property__read_loop packet mem proplen (properties @ [p])))
      else Some (Inr properties, packet, mem))"

declare property__read_loop.simps [code]

definition property__read_all :: "int \<Rightarrow> mosquitto__packet \<Rightarrow> mem \<Rightarrow> mqtt5__property list reader option" where
  "property__read_all command packet mem =
     (case packet__read_varint packet of
        (Inl e, packet) \<Rightarrow> Some (Inl e, packet, mem)
      | (Inr (proplen, _), packet) \<Rightarrow>
          (case property__read_loop packet mem proplen [] of
             None \<Rightarrow> None
           | Some (Inl e, packet, mem) \<Rightarrow> Some (Inl e, packet, mem)
           | Some (Inr properties, packet, mem) \<Rightarrow>
               (case mosquitto_property_check_all command properties of
                  Inl e \<Rightarrow> Some (Inl e, packet, mem)
                | Inr _ \<Rightarrow> Some (Inr properties, packet, mem))))"

section \<open>Lengths\<close>

definition property__get_length :: "mqtt5__property \<Rightarrow> u32" where
  "property__get_length property =
     (case prop_type (pr_identifier property) of
        Some MQTT_PROP_TYPE_BYTE \<Rightarrow> 2
      | Some MQTT_PROP_TYPE_INT16 \<Rightarrow> 3
      | Some MQTT_PROP_TYPE_INT32 \<Rightarrow> 5
      | Some MQTT_PROP_TYPE_VARINT \<Rightarrow>
          if pr_varint property < 128 then 2
          else if pr_varint property < 16384 then 3
          else if pr_varint property < 2097152 then 4
          else if pr_varint property < 268435456 then 5
          else 0
      | Some MQTT_PROP_TYPE_BINARY \<Rightarrow> 3 + ucast (ms_len (pr_bin property))
      | Some MQTT_PROP_TYPE_STRING \<Rightarrow> 3 + ucast (ms_len (pr_s property))
      | Some MQTT_PROP_TYPE_STRING_PAIR \<Rightarrow> 5 + ucast (ms_len (pr_s property)) + ucast (ms_len (pr_name property))
      | None \<Rightarrow> 0)"

definition property__get_length_all :: "mqtt5__property list \<Rightarrow> u32" where
  "property__get_length_all property = fold (\<lambda>p len. len + property__get_length p) property 0"

definition property__get_remaining_length :: "mqtt5__property list \<Rightarrow> u32" where
  "property__get_remaining_length props =
     (let proplen = property__get_length_all props;
          varbytes = of_nat (packet__varint_bytes proplen)
      in proplen + varbytes)"

section \<open>Writing\<close>

text \<open>A \<open>void\<close> writer inside a function that returns a code.\<close>

definition then_write ::
    "mosquitto__packet \<Rightarrow> mosquitto__packet res \<Rightarrow> (mosquitto__packet \<Rightarrow> unit res \<times> mosquitto__packet) \<Rightarrow>
     unit res \<times> mosquitto__packet" where
  "then_write packet r f = (case r of Inl e \<Rightarrow> (Inl e, packet) | Inr packet \<Rightarrow> f packet)"

definition ms_buf :: "mqtt__string \<Rightarrow> u8 list" where
  "ms_buf s = (case ms_v s of None \<Rightarrow> [] | Some v \<Rightarrow> v)"

definition property__write :: "mosquitto__packet \<Rightarrow> mqtt5__property \<Rightarrow> unit res \<times> mosquitto__packet" where
  "property__write packet property =
     (case packet__write_varint packet (word_of_int (pr_identifier property)) of
        (Inl e, packet) \<Rightarrow> (Inl e, packet)
      | (Inr _, packet) \<Rightarrow>
          let return = (\<lambda>packet. (Inr (), packet))
          in (case prop_type (pr_identifier property) of
               Some MQTT_PROP_TYPE_BYTE \<Rightarrow>
                 then_write packet (packet__write_byte packet (pr_i8 property)) return
             | Some MQTT_PROP_TYPE_INT16 \<Rightarrow>
                 then_write packet (packet__write_uint16 packet (pr_i16 property)) return
             | Some MQTT_PROP_TYPE_INT32 \<Rightarrow>
                 then_write packet (packet__write_uint32 packet (pr_i32 property)) return
             | Some MQTT_PROP_TYPE_VARINT \<Rightarrow> packet__write_varint packet (pr_varint property)
             | Some MQTT_PROP_TYPE_STRING \<Rightarrow>
                 then_write packet
                   (packet__write_string packet (ms_buf (pr_s property)) (ms_len (pr_s property))) return
             | Some MQTT_PROP_TYPE_BINARY \<Rightarrow>
                 then_write packet (packet__write_uint16 packet (ms_len (pr_bin property))) (\<lambda>packet.
                   then_write packet
                     (packet__write_bytes packet (ms_buf (pr_bin property)) (ucast (ms_len (pr_bin property)))) return)
             | Some MQTT_PROP_TYPE_STRING_PAIR \<Rightarrow>
                 then_write packet
                   (packet__write_string packet (ms_buf (pr_name property)) (ms_len (pr_name property))) (\<lambda>packet.
                     then_write packet
                       (packet__write_string packet (ms_buf (pr_s property)) (ms_len (pr_s property))) return)
             | None \<Rightarrow> (rc_fail MOSQ_ERR_INVAL, packet)))"

primrec property__write_loop :: "mosquitto__packet \<Rightarrow> mqtt5__property list \<Rightarrow> unit res \<times> mosquitto__packet" where
  "property__write_loop packet [] = (Inr (), packet)"
| "property__write_loop packet (p # next) =
     (case property__write packet p of
        (Inl e, packet) \<Rightarrow> (Inl e, packet)
      | (Inr _, packet) \<Rightarrow> property__write_loop packet next)"

definition property__write_all ::
    "mosquitto__packet \<Rightarrow> mqtt5__property list \<Rightarrow> bool \<Rightarrow> unit res \<times> mosquitto__packet" where
  "property__write_all packet properties write_len =
     (if write_len then
        (case packet__write_varint packet (property__get_length_all properties) of
           (Inl e, packet) \<Rightarrow> (Inl e, packet)
         | (Inr _, packet) \<Rightarrow> property__write_loop packet properties)
      else property__write_loop packet properties)"

section \<open>The bytes of a property\<close>

definition ms_bytes :: "mqtt__string \<Rightarrow> u8 list" where
  "ms_bytes s = take (unat (ms_len s)) (ms_buf s)"

definition ms_enc :: "mqtt__string \<Rightarrow> u8 list" where
  "ms_enc s = be16 (ms_len s) @ ms_bytes s"

definition value_enc :: "mqtt5_property_type \<Rightarrow> mqtt5__property \<Rightarrow> u8 list" where
  "value_enc t p =
     (case t of
        MQTT_PROP_TYPE_BYTE \<Rightarrow> [pr_i8 p]
      | MQTT_PROP_TYPE_INT16 \<Rightarrow> be16 (pr_i16 p)
      | MQTT_PROP_TYPE_INT32 \<Rightarrow> be32 (pr_i32 p)
      | MQTT_PROP_TYPE_VARINT \<Rightarrow> venc (unat (pr_varint p))
      | MQTT_PROP_TYPE_BINARY \<Rightarrow> ms_enc (pr_bin p)
      | MQTT_PROP_TYPE_STRING \<Rightarrow> ms_enc (pr_s p)
      | MQTT_PROP_TYPE_STRING_PAIR \<Rightarrow> ms_enc (pr_name p) @ ms_enc (pr_s p))"

definition prop_enc :: "mqtt5__property \<Rightarrow> u8 list" where
  "prop_enc p = word_of_int (pr_identifier p) # (case prop_type (pr_identifier p) of None \<Rightarrow> [] | Some t \<Rightarrow> value_enc t p)"

text \<open>A counted string as the readers leave it: null, or the bytes with a terminator.\<close>

definition ms_of :: "u8 list \<Rightarrow> mqtt__string" where
  "ms_of bs = \<lparr>ms_v = (if bs = [] then None else Some (bs @ [0])), ms_len = of_nat (length bs)\<rparr>"

definition ms_wf :: "mqtt__string \<Rightarrow> bool" where
  "ms_wf s \<longleftrightarrow> length (ms_bytes s) < 65536 \<and> s = ms_of (ms_bytes s)"

text \<open>
  A property as \<open>property__read\<close> produces it: a known identifier, a value in the member of its
  type and zeros in the others, strings in well-formed UTF-8.
\<close>

definition prop_wf :: "mqtt5__property \<Rightarrow> bool" where
  "prop_wf p \<longleftrightarrow>
     (let q = property0\<lparr>pr_identifier := pr_identifier p\<rparr>
      in case prop_type (pr_identifier p) of
           None \<Rightarrow> False
         | Some MQTT_PROP_TYPE_BYTE \<Rightarrow> p = q\<lparr>pr_i8 := pr_i8 p\<rparr>
         | Some MQTT_PROP_TYPE_INT16 \<Rightarrow> p = q\<lparr>pr_i16 := pr_i16 p\<rparr>
         | Some MQTT_PROP_TYPE_INT32 \<Rightarrow> p = q\<lparr>pr_i32 := pr_i32 p\<rparr>
         | Some MQTT_PROP_TYPE_VARINT \<Rightarrow> p = q\<lparr>pr_varint := pr_varint p\<rparr> \<and> unat (pr_varint p) < 268435456
         | Some MQTT_PROP_TYPE_BINARY \<Rightarrow> p = q\<lparr>pr_bin := pr_bin p\<rparr> \<and> ms_wf (pr_bin p)
         | Some MQTT_PROP_TYPE_STRING \<Rightarrow>
             p = q\<lparr>pr_s := pr_s p\<rparr> \<and> ms_wf (pr_s p) \<and> utf8_wf (ms_bytes (pr_s p))
         | Some MQTT_PROP_TYPE_STRING_PAIR \<Rightarrow>
             p = q\<lparr>pr_name := pr_name p, pr_s := pr_s p\<rparr> \<and> ms_wf (pr_name p) \<and> ms_wf (pr_s p)
             \<and> utf8_wf (ms_bytes (pr_name p)) \<and> utf8_wf (ms_bytes (pr_s p)))"

lemma prop_type_range: "prop_type i = Some t \<Longrightarrow> 1 \<le> i \<and> i \<le> 42"
  by (simp add: prop_type_def split: if_splits) auto

lemma ms_bytes_of [simp]: "length bs < 65536 \<Longrightarrow> ms_bytes (ms_of bs) = bs"
  by (auto simp: ms_bytes_def ms_of_def ms_buf_def unat_len16)

lemma ms_wf_of [simp]: "length bs < 65536 \<Longrightarrow> ms_wf (ms_of bs)"
  by (simp add: ms_wf_def)

lemma ms_enc_of: "length bs < 65536 \<Longrightarrow> ms_enc (ms_of bs) = be16 (of_nat (length bs)) @ bs"
  by (simp add: ms_enc_def) (simp add: ms_of_def)

lemma ms_wfE:
  assumes "ms_wf s"
  obtains bs where "length bs < 65536" "s = ms_of bs" "ms_enc s = be16 (of_nat (length bs)) @ bs"
    "ms_bytes s = bs"
  using assms ms_enc_of ms_wf_def by auto

lemma length_ms_enc: "ms_wf s \<Longrightarrow> length (ms_enc s) = 2 + unat (ms_len s)"
  by (erule ms_wfE) (simp add: ms_of_def unat_len16)

lemma ms0_of: "ms0 = ms_of []"
  by (simp add: ms0_def ms_of_def)

section \<open>Strings through the packet\<close>

lemma byte_no_bit: "8 \<le> n \<Longrightarrow> \<not> bit (b :: u8) n"
  by (auto dest: bit_imp_le_length)

lemma be16_un16 [simp]: "be16 (un16 a b) = [a, b]"
proof -
  have *: "push_bit 8 (ucast a) + ucast b = (push_bit 8 (ucast a) OR ucast b :: u16)"
    by (rule disjunctive_add_eq_or, rule bit_word_eqI) (auto simp: bit_simps dest: bit_imp_le_length)
  have "un16 a b = push_bit 8 (ucast a) + ucast b" by (simp add: un16_def push_bit_eq_mult)
  then show ?thesis unfolding be16_def * 
    by (auto intro!: bit_word_eqI simp: bit_simps byte_no_bit)
qed

lemma be32_un32 [simp]: "be32 (un32 a b c d) = [a, b, c, d]"
proof -
  have *: "push_bit 8 v + ucast (b :: u8) = push_bit 8 v OR ucast b" for v :: u32 and b
    by (rule disjunctive_add_eq_or, rule bit_word_eqI) (auto simp: bit_simps dest: bit_imp_le_length)
  show ?thesis unfolding un32_def be32_def *
    by (auto intro!: bit_word_eqI simp: bit_simps byte_no_bit)
qed

lemma adv_num:
  "adv p 2 = adv p (Suc (Suc 0))" "adv p 3 = adv p (Suc (Suc (Suc 0)))"
  "adv p 4 = adv p (Suc (Suc (Suc (Suc 0))))" "adv p 5 = adv p (Suc (Suc (Suc (Suc (Suc 0)))))"
  by (simp_all add: numeral_eq_Suc)

lemma read_ms_binary:
  assumes "rd_wf p" "ms_wf s" "unread p = ms_enc s @ r"
  shows "packet__read_binary p [] = (Inr (ms_v s, ms_len s), adv p (length (ms_enc s)), [])"
  using assms(2) by (rule ms_wfE) (use assms read_binary_enc [of p _ r] in \<open>simp add: ms_of_def\<close>)

lemma read_ms_string:
  assumes "rd_wf p" "ms_wf s" "utf8_wf (ms_bytes s)" "unread p = ms_enc s @ r"
  shows "packet__read_string p [] = (Inr (ms_v s, ms_len s), adv p (length (ms_enc s)), [])"
  using assms(2) by (rule ms_wfE) (use assms read_string_enc [of p _ r] in \<open>simp add: ms_of_def\<close>)

lemma read_binary_inv:
  assumes "rd_wf p" "packet__read_binary p mem = (Inr (v, n), p', mem')"
  shows "\<exists>s r. ms_wf s \<and> unread p = ms_enc s @ r \<and> s = \<lparr>ms_v = v, ms_len = n\<rparr> \<and> p' = adv p (length (ms_enc s))"
proof -
  obtain a b bs where r: "unread p = a # b # bs"
    using assms by (auto simp: read_binary split: list.splits)
  let ?n = "un16 a b" and ?x = "take (unat (un16 a b)) bs"
  have l: "unat ?n \<le> length bs"
    using assms r by (cases "?n = 0") (auto simp: read_binary Let_def not_less split: if_splits)
  then have x: "length ?x < 65536" "of_nat (length ?x) = ?n" by (simp_all add: min_absorb2)
  have "v = (if ?x = [] then None else Some (?x @ [0]))" "n = ?n" "p' = adv p (2 + unat ?n)"
    using assms r l by (auto simp: read_binary Let_def unat_eq_0 numeral_2_eq_2 split: if_splits)
  then have "ms_of ?x = \<lparr>ms_v = v, ms_len = n\<rparr>" using x(2) by (simp add: ms_of_def)
  moreover have "p' = adv p (length (ms_enc (ms_of ?x)))"
    using x(1) l \<open>p' = adv p (2 + unat ?n)\<close> by (simp add: ms_enc_of)
  moreover have "unread p = ms_enc (ms_of ?x) @ drop (unat ?n) bs" using x r by (simp add: ms_enc_of)
  moreover have "ms_wf (ms_of ?x)" using x(1) by (rule ms_wf_of)
  ultimately show ?thesis by metis
qed

lemma read_string_inv:
  assumes "rd_wf p" "packet__read_string p mem = (Inr (v, n), p', mem')"
  shows "\<exists>s r. ms_wf s \<and> utf8_wf (ms_bytes s) \<and> unread p = ms_enc s @ r \<and> s = \<lparr>ms_v = v, ms_len = n\<rparr>
           \<and> p' = adv p (length (ms_enc s))"
proof -
  have b: "packet__read_binary p mem = (Inr (v, n), p', mem')"
    using assms by (auto simp: read_string split: sum.splits prod.splits option.splits if_splits)
  then obtain s r where s: "ms_wf s" "unread p = ms_enc s @ r" "s = \<lparr>ms_v = v, ms_len = n\<rparr>"
    "p' = adv p (length (ms_enc s))" using read_binary_inv [OF assms(1)] by blast
  moreover have "utf8_wf (ms_bytes s)"
  proof (cases v)
    case None
    then show ?thesis using s(3) by (simp add: ms_bytes_def ms_buf_def)
  next
    case (Some w)
    from s(1) obtain bs where "length bs < 65536" "s = ms_of bs" "ms_bytes s = bs" by (rule ms_wfE)
    then show ?thesis using assms b s(3) Some
      by (auto simp: read_string ms_of_def split: if_splits)
  qed
  ultimately show ?thesis by blast
qed

section \<open>Reading one property\<close>

lemma on_ok_simps [simp]:
  "on_ok (Inr x, p, m) f = f x p m"
  "on_ok (Inl e, p, m) f = (Inl e, p, m)"
  by (simp_all add: on_ok_def)

lemma on_ok_Inr_iff:
  "on_ok r f = (Inr y, p', m') \<longleftrightarrow> (\<exists>x p m. r = (Inr x, p, m) \<and> f x p m = (Inr y, p', m'))"
  by (auto simp: on_ok_def split: prod.splits sum.splits)

lemma no_alloc_simps [simp]: "no_alloc (r, p) m = (r, p, m)"
  by (simp add: no_alloc_def)

lemma no_alloc_Inr_iff: "no_alloc r m = (Inr x, p, m') \<longleftrightarrow> r = (Inr x, p) \<and> m' = m"
  by (cases r) auto

lemma known_identifier:
  assumes "prop_type i = Some t"
  shows "uint (word_of_int i :: u32) = i" "sint (word_of_int i :: u32) = i"
    "unat (word_of_int i :: u32) < 128" "venc (unat (word_of_int i :: u32)) = [word_of_int i]"
proof -
  have i: "1 \<le> i" "i \<le> 42" using prop_type_range [OF assms] by auto
  show u: "uint (word_of_int i :: u32) = i" using i by (simp add: uint_word_of_int_eq take_bit_int_eq_self)
  show "sint (word_of_int i :: u32) = i" using i by (simp add: sint_sbintrunc' signed_take_bit_int_eq_self)
  have n: "unat (word_of_int i :: u32) = nat i" using u by (simp add: unat_eq_nat_uint)
  show "unat (word_of_int i :: u32) < 128" using i n by simp
  then show "venc (unat (word_of_int i :: u32)) = [word_of_int i]" using n i by (simp add: venc_small)
qed

lemma read_identifier:
  assumes "rd_wf p" "prop_type i = Some t" "unread p = word_of_int i # r"
  shows "packet__read_varint p = (Inr (word_of_int i, 1), adv p 1)"
proof -
  have "unread p = venc (unat (word_of_int i :: u32)) @ r"
    using known_identifier(4) [OF assms(2)] assms(3) by simp
  from read_varint [OF assms(1) this] known_identifier [OF assms(2)] show ?thesis by simp
qed

lemma ucast_venc: "w < 268435456 \<Longrightarrow> ucast (of_nat (length (venc w)) :: u8) = (of_nat (length (venc w)) :: u32)"
proof -
  assume "w < 268435456"
  then have "length (venc w) < 256" by (simp add: length_venc)
  then have "unat (of_nat (length (venc w)) :: u8) = length (venc w)" by (simp add: unat_of_nat take_bit_eq_mod)
  then show ?thesis by (metis of_nat_unat)
qed

lemma ms_of_eq [simp]: "\<lparr>ms_v = ms_v s, ms_len = ms_len s\<rparr> = s"
  by simp

lemma property__read_fwd:
  assumes "rd_wf p" "prop_wf q" "unread p = prop_enc q @ r"
  shows "property__read p [] len =
    (Inr (q, len - of_nat (length (prop_enc q))), adv p (length (prop_enc q)), [])"
proof -
  let ?i = "pr_identifier q" and ?q = "property0\<lparr>pr_identifier := pr_identifier q\<rparr>"
  obtain t where t: "prop_type ?i = Some t" using assms(2) by (auto simp: prop_wf_def Let_def split: option.splits)
  note k = known_identifier [OF t]
  have enc: "prop_enc q = word_of_int ?i # value_enc t q" using t by (simp add: prop_enc_def)
  then have id: "packet__read_varint p = (Inr (word_of_int ?i, 1), adv p 1)"
    using read_identifier [OF assms(1) t] assms(3) by simp
  have w: "rd_wf (adv p 1)" and v: "unread (adv p 1) = value_enc t q @ r" using assms enc by simp_all
  show ?thesis
  proof (cases t)
    case MQTT_PROP_TYPE_BYTE
    then have "?q\<lparr>pr_i8 := pr_i8 q\<rparr> = q" "prop_wf q" using assms(2) t by (simp_all add: prop_wf_def Let_def)
    then show ?thesis using MQTT_PROP_TYPE_BYTE t k id w v enc
      by (simp add: property__read_def Let_def value_enc_def read_byte prop_wf_def diff_diff_eq adv_num)
  next
    case MQTT_PROP_TYPE_INT16
    then have "?q\<lparr>pr_i16 := pr_i16 q\<rparr> = q" "prop_wf q" using assms(2) t by (simp_all add: prop_wf_def Let_def)
    then show ?thesis using MQTT_PROP_TYPE_INT16 t k id w v enc
      by (simp add: property__read_def Let_def value_enc_def be16_cases prop_wf_def diff_diff_eq adv_num)
  next
    case MQTT_PROP_TYPE_INT32
    then have "?q\<lparr>pr_i32 := pr_i32 q\<rparr> = q" "prop_wf q" using assms(2) t by (simp_all add: prop_wf_def Let_def)
    then show ?thesis using MQTT_PROP_TYPE_INT32 t k id w v enc
      by (simp add: property__read_def Let_def value_enc_def be32_cases prop_wf_def diff_diff_eq adv_num)
  next
    case MQTT_PROP_TYPE_VARINT
    then have "?q\<lparr>pr_varint := pr_varint q\<rparr> = q" "prop_wf q" using assms(2) t by (simp_all add: prop_wf_def Let_def)
    then show ?thesis using MQTT_PROP_TYPE_VARINT t k id w v enc
      by (simp add: property__read_def Let_def value_enc_def read_varint ucast_venc prop_wf_def diff_diff_eq adv_num)
  next
    case MQTT_PROP_TYPE_BINARY
    then have "?q\<lparr>pr_bin := pr_bin q\<rparr> = q" "prop_wf q" using assms(2) t by (simp_all add: prop_wf_def Let_def)
    then show ?thesis using MQTT_PROP_TYPE_BINARY t k id w v enc
      by (simp add: property__read_def Let_def value_enc_def read_ms_binary length_ms_enc prop_wf_def diff_diff_eq adv_num)
  next
    case MQTT_PROP_TYPE_STRING
    then have "?q\<lparr>pr_s := pr_s q\<rparr> = q" "ms_wf (pr_s q)" "utf8_wf (ms_bytes (pr_s q))"
      using assms(2) t by (simp_all add: prop_wf_def Let_def)
    then show ?thesis using MQTT_PROP_TYPE_STRING t k id w v enc
      by (simp add: property__read_def Let_def value_enc_def read_ms_string length_ms_enc prop_wf_def diff_diff_eq adv_num)
  next
    case MQTT_PROP_TYPE_STRING_PAIR
    then have e: "?q\<lparr>pr_name := pr_name q, pr_s := pr_s q\<rparr> = q" "prop_wf q"
      using assms(2) t by (simp_all add: prop_wf_def Let_def)
    then have u: "ms_wf (pr_name q)" "ms_wf (pr_s q)" "utf8_wf (ms_bytes (pr_name q))" "utf8_wf (ms_bytes (pr_s q))"
      using MQTT_PROP_TYPE_STRING_PAIR t by (simp_all add: prop_wf_def Let_def)
    let ?n = "length (ms_enc (pr_name q))" and ?s = "length (ms_enc (pr_s q))"
    have v': "unread (adv p 1) = ms_enc (pr_name q) @ ms_enc (pr_s q) @ r"
      using v MQTT_PROP_TYPE_STRING_PAIR by (simp add: value_enc_def)
    then have "packet__read_string (adv p 1) [] = (Inr (ms_v (pr_name q), ms_len (pr_name q)), adv p (1 + ?n), [])"
      using read_ms_string [OF w u(1,3)] by simp
    moreover have "packet__read_string (adv p (1 + ?n)) [] =
        (Inr (ms_v (pr_s q), ms_len (pr_s q)), adv p (1 + ?n + ?s), [])"
    proof -
      have "rd_wf (adv (adv p 1) ?n)" "unread (adv (adv p 1) ?n) = ms_enc (pr_s q) @ r"
        using w v' unread_adv [OF w, of ?n] rd_wf_adv [OF w, of ?n] by simp_all
      from read_ms_string [OF this(1) u(2,4) this(2)] show ?thesis by simp
    qed
    ultimately show ?thesis using MQTT_PROP_TYPE_STRING_PAIR t k id enc e(1) u(1,2)
      by (simp add: property__read_def Let_def value_enc_def length_ms_enc diff_diff_eq ac_simps)
  qed
qed

lemma property__read_inv:
  assumes "rd_wf p" "property__read p mem len = (Inr (q, len'), p', mem')"
  shows "prop_wf q \<and> (\<exists>r. unread p = prop_enc q @ r) \<and> len' = len - of_nat (length (prop_enc q))
       \<and> p' = adv p (length (prop_enc q))"
proof -
  obtain id k p1 where id: "packet__read_varint p = (Inr (id, k), p1)"
    and nt: "prop_type (uint id) \<noteq> None"
    using assms(2) by (auto simp: property__read_def on_ok_Inr_iff no_alloc_Inr_iff Let_def split: option.splits)
  then obtain t where t: "prop_type (uint id) = Some t" by blast
  have i: "word_of_int (uint id) = id" by simp
  from read_varint_ok [OF assms(1) id] known_identifier [OF t] obtain r where
    r: "unread p = word_of_int (uint id) # r" and p1: "p1 = adv p 1" by auto
  have w: "rd_wf (adv p 1)" "unread (adv p 1) = r" using assms(1) r by simp_all
  have s: "sint id = uint id" using known_identifier(2) [OF t] i by simp
  note q = property__read_def on_ok_Inr_iff no_alloc_Inr_iff Let_def
  note d = prop_wf_def prop_enc_def value_enc_def Let_def
  show ?thesis
  proof (cases t)
    case MQTT_PROP_TYPE_BYTE
    then obtain b r' where "r = b # r'" "q = property0\<lparr>pr_identifier := uint id, pr_i8 := b\<rparr>"
       "len' = len - 1 - 1" "p' = adv p 2"
      using assms(2) id p1 t s w by (auto simp: q read_byte adv_num split: list.splits)
    then show ?thesis using t MQTT_PROP_TYPE_BYTE r by (simp add: d adv_num)
  next
    case MQTT_PROP_TYPE_INT16
    then obtain a b r' where "r = a # b # r'" "q = property0\<lparr>pr_identifier := uint id, pr_i16 := un16 a b\<rparr>"
       "len' = len - 1 - 2" "p' = adv p 3"
      using assms(2) id p1 t s w by (auto simp: q read_uint16 adv_num split: list.splits)
    then show ?thesis using t MQTT_PROP_TYPE_INT16 r by (simp add: d adv_num)
  next
    case MQTT_PROP_TYPE_INT32
    then obtain a b c e r' where "r = a # b # c # e # r'"
        "q = property0\<lparr>pr_identifier := uint id, pr_i32 := un32 a b c e\<rparr>" "len' = len - 1 - 4" "p' = adv p 5"
      using assms(2) id p1 t s w by (auto simp: q read_uint32 adv_num split: list.splits)
    then show ?thesis using t MQTT_PROP_TYPE_INT32 r by (simp add: d adv_num)
  next
    case MQTT_PROP_TYPE_VARINT
    then obtain v n where v: "packet__read_varint (adv p 1) = (Inr (v, n), p')"
        "q = property0\<lparr>pr_identifier := uint id, pr_varint := v\<rparr>" "len' = len - 1 - ucast n"
      using assms(2) id p1 t s w by (auto simp: q)
    from read_varint_ok [OF w(1) v(1)] obtain r' where v': "unat v < 268435456" "r = venc (unat v) @ r'"
        "unat n = length (venc (unat v))" "p' = adv p (1 + length (venc (unat v)))"
      using w(2) by auto
    have "ucast n = (of_nat (length (venc (unat v))) :: u32)" using v'(3) by (metis of_nat_unat)
    then show ?thesis using t MQTT_PROP_TYPE_VARINT r v v' by (simp add: d diff_diff_eq)
  next
    case MQTT_PROP_TYPE_BINARY
    then obtain v n where v: "packet__read_binary (adv p 1) mem = (Inr (v, n), p', mem')"
        "q = property0\<lparr>pr_identifier := uint id, pr_bin := \<lparr>ms_v = v, ms_len = n\<rparr>\<rparr>" "len' = len - 1 - 2 - ucast n"
      using assms(2) id p1 t s w by (auto simp: q)
    from read_binary_inv [OF w(1) v(1)] obtain sv r' where v': "ms_wf sv" "r = ms_enc sv @ r'"
        "sv = \<lparr>ms_v = v, ms_len = n\<rparr>" "p' = adv p (1 + length (ms_enc sv))" using w(2) by auto
    then show ?thesis using t MQTT_PROP_TYPE_BINARY r v
      by (simp add: d length_ms_enc diff_diff_eq)
  next
    case MQTT_PROP_TYPE_STRING
    then obtain v n where v: "packet__read_string (adv p 1) mem = (Inr (v, n), p', mem')"
        "q = property0\<lparr>pr_identifier := uint id, pr_s := \<lparr>ms_v = v, ms_len = n\<rparr>\<rparr>" "len' = len - 1 - 2 - ucast n"
      using assms(2) id p1 t s w by (auto simp: q)
    from read_string_inv [OF w(1) v(1)] obtain sv r' where v': "ms_wf sv" "r = ms_enc sv @ r'" "utf8_wf (ms_bytes sv)"
        "sv = \<lparr>ms_v = v, ms_len = n\<rparr>" "p' = adv p (1 + length (ms_enc sv))" using w(2) by auto
    then show ?thesis using t MQTT_PROP_TYPE_STRING r v
      by (simp add: d length_ms_enc diff_diff_eq)
  next
    case MQTT_PROP_TYPE_STRING_PAIR
    then obtain v n p2 m2 v2 n2 where v: "packet__read_string (adv p 1) mem = (Inr (v, n), p2, m2)"
        "packet__read_string p2 m2 = (Inr (v2, n2), p', mem')"
        "q = property0\<lparr>pr_identifier := uint id, pr_name := \<lparr>ms_v = v, ms_len = n\<rparr>, pr_s := \<lparr>ms_v = v2, ms_len = n2\<rparr>\<rparr>"
        "len' = len - 1 - 2 - ucast n - 2 - ucast n2"
      using assms(2) id p1 t s w by (auto simp: q)
    from read_string_inv [OF w(1) v(1)] obtain sv r' where v': "ms_wf sv" "r = ms_enc sv @ r'" "utf8_wf (ms_bytes sv)"
        "sv = \<lparr>ms_v = v, ms_len = n\<rparr>" "p2 = adv p (1 + length (ms_enc sv))" using w(2) by auto
    have w2: "rd_wf p2" "unread p2 = r'" using v' r assms(1) by simp_all
    from read_string_inv [OF w2(1) v(2)] obtain sw r2 where v2: "ms_wf sw" "r' = ms_enc sw @ r2" "utf8_wf (ms_bytes sw)"
        "sw = \<lparr>ms_v = v2, ms_len = n2\<rparr>" "p' = adv p2 (length (ms_enc sw))" using w2(2) by auto
    then show ?thesis using t MQTT_PROP_TYPE_STRING_PAIR r v v'
      by (simp add: d length_ms_enc diff_diff_eq ac_simps)
  qed
qed

section \<open>Safety\<close>

definition safe :: "mosquitto__packet \<Rightarrow> 'a reader \<Rightarrow> bool" where
  "safe p res \<longleftrightarrow> rd_safe p (fst res) (fst (snd res))"

lemma rd_safe_Inr: "rd_safe p (Inr x) p"
  by (auto simp: rd_safe_def intro: exI [of _ 0])

lemma safe_return [simp]: "safe p (Inr x, p, m)" "safe p (Inl (Rc e), p, m)"
  by (simp_all add: safe_def rd_safe_Inr)

lemma safe_on_ok:
  assumes "rd_wf p" "safe p res" "\<And>x q m. rd_wf q \<Longrightarrow> safe q (f x q m)"
  shows "safe p (on_ok res f)"
proof -
  obtain r q m where [simp]: "res = (r, q, m)" by (metis prod_cases3)
  have s: "rd_safe p r q" using assms(2) by (simp add: safe_def)
  show ?thesis
  proof (cases r)
    case (Inl e)
    then show ?thesis using s by (simp add: safe_def rd_safe_def)
  next
    case (Inr x)
    have "safe q (f x q m)" using assms(3) rd_safe_wf [OF assms(1) s] by blast
    then show ?thesis using Inr rd_safe_trans [OF assms(1) s] by (simp add: safe_def)
  qed
qed

lemma safe_readers:
  assumes "rd_wf p"
  shows "safe p (no_alloc (packet__read_byte p) m)" "safe p (no_alloc (packet__read_uint16 p) m)"
    "safe p (no_alloc (packet__read_uint32 p) m)" "safe p (no_alloc (packet__read_varint p) m)"
    "safe p (packet__read_string p m)" "safe p (packet__read_binary p m)"
proof -
  note s = safe_byte [OF assms] safe_uint16 [OF assms] safe_uint32 [OF assms] safe_varint [OF assms]
    safe_string [OF assms, of m] safe_binary [OF assms, of m]
  show "safe p (no_alloc (packet__read_byte p) m)" using s(1) by (simp add: safe_def no_alloc_def)
  show "safe p (no_alloc (packet__read_uint16 p) m)" using s(2) by (simp add: safe_def no_alloc_def)
  show "safe p (no_alloc (packet__read_uint32 p) m)" using s(3) by (simp add: safe_def no_alloc_def)
  show "safe p (no_alloc (packet__read_varint p) m)" using s(4) by (simp add: safe_def no_alloc_def)
  show "safe p (packet__read_string p m)" using s(5) by (cases "packet__read_string p m") (simp add: safe_def)
  show "safe p (packet__read_binary p m)" using s(6) by (cases "packet__read_binary p m") (simp add: safe_def)
qed

lemma property__read_safe: "rd_wf p \<Longrightarrow> safe p (property__read p mem len)"
  unfolding property__read_def
  by (intro safe_on_ok safe_readers)
    (auto simp: Let_def split: option.split mqtt5_property_type.split intro!: safe_on_ok safe_readers)

section \<open>Reading the list\<close>

lemma length_unread_le: "rd_wf p \<Longrightarrow> length (unread p) \<le> 268435455"
  by (auto simp: length_unread rd_wf_def)

lemma property__read_progress:
  assumes "rd_wf p" "property__read p mem len = (Inr (q, len'), p', mem')"
  shows "length (unread p') < length (unread p)" "rd_wf p'"
proof -
  from property__read_inv [OF assms] obtain r where "unread p = prop_enc q @ r" "p' = adv p (length (prop_enc q))"
    by blast
  then show "length (unread p') < length (unread p)" "rd_wf p'" using assms(1) by (simp_all add: prop_enc_def)
qed

lemma property__read_loop_total:
  "rd_wf p \<Longrightarrow> \<exists>res. property__read_loop p mem n ps = Some res \<and> safe p res"
proof (induction "length (unread p)" arbitrary: p mem n ps rule: less_induct)
  case less
  obtain ok mem1 where m: "malloc_ok mem = (ok, mem1)" by fastforce
  obtain r q mem2 where r: "property__read p mem1 n = (r, q, mem2)" by (metis prod_cases3)
  have s: "rd_safe p r q" using property__read_safe [OF less(2), of mem1 n] r by (simp add: safe_def)
  show ?case
  proof (cases "n = 0 \<or> \<not> ok")
    case True
    then show ?thesis using m by (subst property__read_loop.simps) (auto simp: word_gt_0)
  next
    case False
    show ?thesis
    proof (cases r)
      case (Inl e)
      then show ?thesis using m r False s
        by (subst property__read_loop.simps) (auto simp: word_gt_0 safe_def rd_safe_def)
    next
      case (Inr qn)
      obtain pr n' where [simp]: "qn = (pr, n')" by fastforce
      have d: "length (unread q) < length (unread p)" "rd_wf q"
        using property__read_progress [OF less(2), of mem1 n pr n' q mem2] r Inr by auto
      from less(1) [OF d] obtain res where
        res: "property__read_loop q mem2 n' (ps @ [pr]) = Some res" "safe q res" by blast
      have "safe p res" using rd_safe_trans [OF less(2) s] res(2) by (simp add: safe_def)
      then show ?thesis using m r False Inr res(1)
        by (subst property__read_loop.simps) (auto simp: word_gt_0)
    qed
  qed
qed

lemma property__read_loop_inv:
  "rd_wf p \<Longrightarrow> property__read_loop p mem n ps = Some (Inr qs, p', mem') \<Longrightarrow>
   \<exists>new r. qs = ps @ new \<and> list_all prop_wf new \<and> unread p = concat (map prop_enc new) @ r
     \<and> p' = adv p (length (concat (map prop_enc new))) \<and> n = of_nat (length (concat (map prop_enc new)))"
proof (induction "length (unread p)" arbitrary: p mem n ps rule: less_induct)
  case less
  obtain ok mem1 where m: "malloc_ok mem = (ok, mem1)" by fastforce
  show ?case
  proof (cases "n = 0")
    case True
    then have "qs = ps" "p' = p" using less(3) by (auto simp: property__read_loop.simps [of p])
    then show ?thesis using True by (intro exI [of _ "[]"] exI [of _ "unread p"]) auto
  next
    case False
    then obtain pr n' q mem2 where r: "property__read p mem1 n = (Inr (pr, n'), q, mem2)"
      and l: "property__read_loop q mem2 n' (ps @ [pr]) = Some (Inr qs, p', mem')"
      using less(3) m by (auto simp: property__read_loop.simps [of p] word_gt_0 split: if_splits prod.splits sum.splits)
    have d: "length (unread q) < length (unread p)" "rd_wf q"
      using property__read_progress [OF less(2) r] by auto
    from property__read_inv [OF less(2) r] obtain r where
      q: "prop_wf pr" "unread p = prop_enc pr @ r" "n' = n - of_nat (length (prop_enc pr))" "q = adv p (length (prop_enc pr))"
      by blast
    from less(1) [OF d l] obtain new r' where
      n: "qs = (ps @ [pr]) @ new" "list_all prop_wf new" "unread q = concat (map prop_enc new) @ r'"
        "p' = adv q (length (concat (map prop_enc new)))" "n' = of_nat (length (concat (map prop_enc new)))"
      by blast
    have "n = of_nat (length (prop_enc pr)) + n'" using q(3) by simp
    then show ?thesis using n q less(2) by (intro exI [of _ "pr # new"] exI [of _ r']) simp
  qed
qed

abbreviation props_enc :: "mqtt5__property list \<Rightarrow> u8 list" where
  "props_enc ps \<equiv> concat (map prop_enc ps)"

lemma prop_enc_pos: "0 < length (prop_enc p)"
  by (simp add: prop_enc_def)

lemma property__read_loop_fwd:
  "rd_wf p \<Longrightarrow> list_all prop_wf qs \<Longrightarrow> unread p = props_enc qs @ r \<Longrightarrow>
   property__read_loop p [] (of_nat (length (props_enc qs))) ps =
     Some (Inr (ps @ qs), adv p (length (props_enc qs)), [])"
proof (induction qs arbitrary: p ps)
  case Nil
  then show ?case by (simp add: property__read_loop.simps)
next
  case (Cons q qs)
  have l: "length (unread p) < 4294967296" using length_unread_le [OF Cons.prems(1)] by simp
  then have "0 < length (props_enc (q # qs)) \<and> length (props_enc (q # qs)) < 4294967296"
    using Cons.prems(3) prop_enc_pos [of q] by simp
  then have z: "(of_nat (length (props_enc (q # qs))) :: u32) > 0"
    by (simp only: word_less_nat_alt unat_of_nat take_bit_eq_mod) simp
  have "property__read p [] (of_nat (length (props_enc (q # qs)))) =
      (Inr (q, of_nat (length (props_enc qs))), adv p (length (prop_enc q)), [])"
    using property__read_fwd [of p q "props_enc qs @ r"] Cons.prems by simp
  moreover have "rd_wf (adv p (length (prop_enc q)))" "unread (adv p (length (prop_enc q))) = props_enc qs @ r"
    using Cons.prems by simp_all
  note Cons.IH [OF this(1) _ this(2), of "ps @ [q]"]
  ultimately show ?case using Cons.prems(2) z by (subst property__read_loop.simps) simp
qed

lemma read_all_total:
  assumes "rd_wf p"
  shows "\<exists>res. property__read_all command p mem = Some res \<and> safe p res"
proof -
  obtain r q where v: "packet__read_varint p = (r, q)" by fastforce
  have s: "rd_safe p r q" using safe_varint [OF assms v] .
  show ?thesis
  proof (cases r)
    case (Inl e)
    then show ?thesis using v s by (auto simp: property__read_all_def safe_def rd_safe_def)
  next
    case (Inr nk)
    obtain n k where [simp]: "nk = (n, k)" by fastforce
    have w: "rd_wf q" using rd_safe_wf [OF assms s] .
    obtain x p' m where l: "property__read_loop q mem n [] = Some (x, p', m)" "rd_safe q x p'"
      using property__read_loop_total [OF w, of mem n "[]"] by (auto simp: safe_def)
    have s': "rd_safe p x p'" using rd_safe_trans [OF assms s l(2)] .
    have cmd: "mosquitto_property_check_all command ps = Inl e \<Longrightarrow> \<exists>c. e = Rc c" for ps e
    proof (induction ps)
      case (Cons a ps)
      then show ?case
        by (auto simp: mosquitto_property_check_command_def Let_def split: if_splits)
    qed simp
    show ?thesis using v Inr l(1) s' cmd
      by (auto simp: property__read_all_def safe_def rd_safe_def split: sum.splits)
  qed
qed

lemma read_all_inv:
  assumes "rd_wf p" "property__read_all command p mem = Some (Inr ps, p', mem')"
  shows "list_all prop_wf ps \<and> mosquitto_property_check_all command ps = Inr ()
     \<and> (\<exists>r. unread p = venc (length (props_enc ps)) @ props_enc ps @ r)
     \<and> p' = adv p (length (venc (length (props_enc ps))) + length (props_enc ps))"
proof -
  obtain n k q where v: "packet__read_varint p = (Inr (n, k), q)"
    and l: "property__read_loop q mem n [] = Some (Inr ps, p', mem')"
    and c: "mosquitto_property_check_all command ps = Inr ()"
    using assms(2) by (auto simp: property__read_all_def split: sum.splits prod.splits option.splits)
  from read_varint_ok [OF assms(1) v] obtain r where
    r: "unread p = venc (unat n) @ r" "q = adv p (length (venc (unat n)))" by blast
  then have w: "rd_wf q" "unread q = r" using assms(1) by simp_all
  from property__read_loop_inv [OF w(1) l] obtain r' where
    ps: "list_all prop_wf ps" "r = props_enc ps @ r'" "p' = adv q (length (props_enc ps))"
      "n = of_nat (length (props_enc ps))" using w(2) by auto
  have "length (unread p) < 4294967296" using length_unread_le [OF assms(1)] by simp
  then have "unat n = length (props_enc ps)" using ps r by (simp add: unat_of_nat take_bit_eq_mod)
  then show ?thesis using ps r c by auto
qed

lemma read_all_fwd:
  assumes "rd_wf p" "list_all prop_wf ps" "mosquitto_property_check_all command ps = Inr ()"
    "unread p = venc (length (props_enc ps)) @ props_enc ps @ r" "length (props_enc ps) < 268435456"
  shows "property__read_all command p [] =
    Some (Inr ps, adv p (length (venc (length (props_enc ps))) + length (props_enc ps)), [])"
proof -
  let ?q = "adv p (length (venc (length (props_enc ps))))"
  have "packet__read_varint p = (Inr (of_nat (length (props_enc ps)), of_nat (length (venc (length (props_enc ps))))), ?q)"
    using read_varint [OF assms(1,4,5)] .
  moreover have "rd_wf ?q" "unread ?q = props_enc ps @ r" using assms by simp_all
  note property__read_loop_fwd [OF this(1) assms(2) this(2), of "[]"]
  ultimately show ?thesis using assms(3) by (simp add: property__read_all_def)
qed

section \<open>Checking the list\<close>


section \<open>Writing the list\<close>

text \<open>
  What the writers need of a property: a known identifier, a value in range, buffers of the
  announced length. A property the API built need not be one the reader would produce.
\<close>

definition ms_ok :: "mqtt__string \<Rightarrow> bool" where
  "ms_ok s \<longleftrightarrow> unat (ms_len s) \<le> length (ms_buf s)"

definition prop_out :: "mqtt5__property \<Rightarrow> bool" where
  "prop_out p \<longleftrightarrow>
     (case prop_type (pr_identifier p) of
        None \<Rightarrow> False
      | Some MQTT_PROP_TYPE_VARINT \<Rightarrow> unat (pr_varint p) < 268435456
      | Some MQTT_PROP_TYPE_BINARY \<Rightarrow> ms_ok (pr_bin p)
      | Some MQTT_PROP_TYPE_STRING \<Rightarrow> ms_ok (pr_s p)
      | Some MQTT_PROP_TYPE_STRING_PAIR \<Rightarrow> ms_ok (pr_name p) \<and> ms_ok (pr_s p)
      | Some _ \<Rightarrow> True)"

lemma ms_wf_ok: "ms_wf s \<Longrightarrow> ms_ok s"
  by (erule ms_wfE) (auto simp: ms_ok_def ms_buf_def ms_of_def unat_len16)

lemma prop_wf_out: "prop_wf p \<Longrightarrow> prop_out p"
  by (auto simp: prop_wf_def prop_out_def Let_def ms_wf_ok split: option.splits mqtt5_property_type.splits)

lemma length_ms_ok: "ms_ok s \<Longrightarrow> length (ms_enc s) = 2 + unat (ms_len s)"
  by (simp add: ms_enc_def ms_bytes_def ms_ok_def)

lemma get_length_enc:
  assumes "prop_out p"
  shows "property__get_length p = of_nat (length (prop_enc p)) \<and> length (prop_enc p) < 262144"
proof -
  have l: "unat (ms_len s) < 65536" for s :: mqtt__string by simp
  have m: "length (ms_enc s) = 2 + unat (ms_len s)" "length (ms_enc s) < 65538" if "ms_ok s" for s
    using length_ms_ok [OF that] l [of s] by simp_all
  obtain t where t: "prop_type (pr_identifier p) = Some t"
    using assms by (auto simp: prop_out_def split: option.splits)
  show ?thesis
  proof (cases t)
    case MQTT_PROP_TYPE_VARINT
    then have "unat (pr_varint p) < 268435456" using assms t by (simp add: prop_out_def)
    then show ?thesis using t MQTT_PROP_TYPE_VARINT
      by (simp add: property__get_length_def prop_enc_def value_enc_def word_less_nat_alt length_venc)
  next
    case MQTT_PROP_TYPE_STRING_PAIR
    then have w: "ms_ok (pr_name p)" "ms_ok (pr_s p)" using assms t by (simp_all add: prop_out_def)
    show ?thesis using t MQTT_PROP_TYPE_STRING_PAIR m [OF w(1)] m [OF w(2)]
        u16_less [of "ms_len (pr_name p)"] u16_less [of "ms_len (pr_s p)"]
      by (simp add: property__get_length_def prop_enc_def value_enc_def add.commute del: u16_less)
  next
    case MQTT_PROP_TYPE_STRING
    then have "ms_ok (pr_s p)" "unat (ms_len (pr_s p)) < 65536" using assms t by (simp_all add: prop_out_def)
    from m [OF this(1)] this(2) show ?thesis using t MQTT_PROP_TYPE_STRING
      by (simp add: property__get_length_def prop_enc_def value_enc_def del: u16_less)
  next
    case MQTT_PROP_TYPE_BINARY
    then have "ms_ok (pr_bin p)" "unat (ms_len (pr_bin p)) < 65536" using assms t by (simp_all add: prop_out_def)
    from m [OF this(1)] this(2) show ?thesis using t MQTT_PROP_TYPE_BINARY
      by (simp add: property__get_length_def prop_enc_def value_enc_def del: u16_less)
  qed (use t in \<open>simp_all add: property__get_length_def prop_enc_def value_enc_def\<close>)
qed

lemma get_length_all_enc:
  "list_all prop_out ps \<Longrightarrow> property__get_length_all ps = of_nat (length (props_enc ps))"
proof -
  have "list_all prop_out ps \<Longrightarrow> fold (\<lambda>p len. len + property__get_length p) ps n = n + of_nat (length (props_enc ps))" for n
    by (induction ps arbitrary: n) (simp_all add: get_length_enc)
  then show "list_all prop_out ps \<Longrightarrow> ?thesis" by (simp add: property__get_length_all_def)
qed

lemma write_string_prefix:
  assumes "fits p (2 + unat n)" "unat n \<le> length buf"
  shows "packet__write_string p buf n = Inr (put p (be16 n @ take (unat n) buf))"
proof -
  have f: "fits p 2" "fits (put p (be16 n)) (unat n)"
    using assms fits_le [OF assms(1), of 2] fits_put [of p "be16 n" "unat n"] by simp_all
  have u: "unat (ucast n :: u32) = unat n" by (simp add: unsigned_ucast_eq take_bit_nat_eq_self order_less_trans [OF u16_less])
  show ?thesis
    using write_bytes [of "put p (be16 n)" "ucast n" buf] f u assms(2)
    by (simp add: packet__write_string_def write_uint16 put_put)
qed

lemma write_ms: "fits p (length (ms_enc s)) \<Longrightarrow> ms_ok s \<Longrightarrow>
    packet__write_string p (ms_buf s) (ms_len s) = Inr (put p (ms_enc s))"
  using write_string_prefix [of p "ms_len s" "ms_buf s"]
  by (simp add: length_ms_ok) (simp add: ms_ok_def ms_enc_def ms_bytes_def)

lemma then_write_simps [simp]:
  "then_write p (Inr q) f = f q" "then_write p (Inl e) f = (Inl e, p)"
  by (simp_all add: then_write_def)

lemma fits_put_le: "fits p n \<Longrightarrow> length bs + m \<le> n \<Longrightarrow> fits (put p bs) m"
  by (rule fits_put) (rule fits_le)

lemma property__write_enc:
  assumes "prop_out p" "fits pkt (length (prop_enc p))"
  shows "property__write pkt p = (Inr (), put pkt (prop_enc p))"
proof -
  let ?i = "word_of_int (pr_identifier p) :: u8" and ?k = "put pkt [word_of_int (pr_identifier p)]"
  obtain t where t: "prop_type (pr_identifier p) = Some t"
    using assms(1) by (auto simp: prop_out_def split: option.splits)
  have enc: "prop_enc p = ?i # value_enc t p" using t by (simp add: prop_enc_def)
  have f1: "fits pkt 1" using fits_le [OF assms(2)] enc by simp
  have id: "packet__write_varint pkt (word_of_int (pr_identifier p)) = (Inr (), ?k)"
    using known_identifier [OF t] f1 by (simp add: write_varint)
  have f: "fits ?k (length (value_enc t p))" using assms(2) enc by (intro fits_put) simp
  have p: "put ?k (value_enc t p) = put pkt (prop_enc p)" using f1 enc by (simp add: put_put)
  show ?thesis
  proof (cases t)
    case MQTT_PROP_TYPE_BYTE
    then show ?thesis using t id f p by (simp add: property__write_def value_enc_def write_byte)
  next
    case MQTT_PROP_TYPE_INT16
    then show ?thesis using t id f p by (simp add: property__write_def value_enc_def write_uint16)
  next
    case MQTT_PROP_TYPE_INT32
    then show ?thesis using t id f p by (simp add: property__write_def value_enc_def write_uint32)
  next
    case MQTT_PROP_TYPE_VARINT
    then show ?thesis using t id f p assms(1)
      by (simp add: property__write_def value_enc_def write_varint prop_out_def)
  next
    case MQTT_PROP_TYPE_STRING
    then show ?thesis using t id f p assms(1)
      by (simp add: property__write_def value_enc_def write_ms prop_out_def)
  next
    case MQTT_PROP_TYPE_BINARY
    let ?s = "pr_bin p"
    have s: "ms_ok ?s" "value_enc t p = ms_enc ?s" using MQTT_PROP_TYPE_BINARY assms(1) t by (simp_all add: prop_out_def value_enc_def)
    have "packet__write_string ?k (ms_buf ?s) (ms_len ?s) = Inr (put pkt (prop_enc p))"
      using write_ms [of ?k ?s] f s p by simp
    then show ?thesis using MQTT_PROP_TYPE_BINARY t id
      by (auto simp: property__write_def packet__write_string_def then_write_def split: sum.splits)
  next
    case MQTT_PROP_TYPE_STRING_PAIR
    let ?n = "pr_name p" and ?s = "pr_s p"
    have s: "ms_ok ?n" "ms_ok ?s" "value_enc t p = ms_enc ?n @ ms_enc ?s"
      using MQTT_PROP_TYPE_STRING_PAIR assms(1) t by (simp_all add: prop_out_def value_enc_def)
    have g: "fits ?k (length (ms_enc ?n))" "fits (put ?k (ms_enc ?n)) (length (ms_enc ?s))"
      using f s(3) fits_le [OF f] fits_put_le [OF f] by simp_all
    then have "put (put ?k (ms_enc ?n)) (ms_enc ?s) = put pkt (prop_enc p)"
      using p s(3) by (simp add: put_put)
    then show ?thesis using MQTT_PROP_TYPE_STRING_PAIR t id g s(1,2)
      by (simp add: property__write_def write_ms)
  qed
qed

lemma property__write_loop_enc:
  "list_all prop_out ps \<Longrightarrow> fits pkt (length (props_enc ps)) \<Longrightarrow>
   property__write_loop pkt ps = (Inr (), put pkt (props_enc ps))"
proof (induction ps arbitrary: pkt)
  case (Cons p ps)
  have f: "fits pkt (length (prop_enc p))" "fits (put pkt (prop_enc p)) (length (props_enc ps))"
    using fits_le [OF Cons.prems(2)] fits_put_le [OF Cons.prems(2)] by simp_all
  then show ?case using Cons.IH [OF _ f(2)] Cons.prems(1) property__write_enc [OF _ f(1)]
    by (simp add: put_put)
qed simp

definition all_enc :: "mqtt5__property list \<Rightarrow> u8 list" where
  "all_enc ps = venc (length (props_enc ps)) @ props_enc ps"

lemma remaining_length_enc:
  assumes "list_all prop_out ps" "length (props_enc ps) < 268435456"
  shows "unat (property__get_remaining_length ps) = length (all_enc ps)"
    "property__get_length_all ps = of_nat (length (props_enc ps))"
    "unat (of_nat (length (props_enc ps)) :: u32) = length (props_enc ps)"
proof -
  let ?n = "length (props_enc ps)"
  show l: "property__get_length_all ps = of_nat ?n" "unat (of_nat ?n :: u32) = ?n"
    using get_length_all_enc [OF assms(1)] assms(2) by (simp_all add: unat_of_nat take_bit_eq_mod)
  have "length (venc ?n) \<le> 4" using assms(2) by (simp add: length_venc)
  moreover have "property__get_remaining_length ps = of_nat (?n + length (venc ?n))"
    using l by (simp add: property__get_remaining_length_def varint_bytes)
  ultimately show "unat (property__get_remaining_length ps) = length (all_enc ps)"
    using assms(2) by (simp add: all_enc_def unat_of_nat take_bit_eq_mod del: of_nat_add)
qed

lemma write_all_enc:
  assumes "list_all prop_out ps" "length (props_enc ps) < 268435456" "fits pkt (length (all_enc ps))"
  shows "property__write_all pkt ps True = (Inr (), put pkt (all_enc ps))"
proof -
  let ?n = "length (props_enc ps)"
  note l = remaining_length_enc(2,3) [OF assms(1,2)]
  have f: "fits pkt (length (venc ?n))" "fits (put pkt (venc ?n)) ?n"
    using fits_le [OF assms(3)] fits_put_le [OF assms(3)] by (simp_all add: all_enc_def)
  have "packet__write_varint pkt (of_nat ?n) = (Inr (), put pkt (venc ?n))"
    using write_varint [of pkt "of_nat ?n"] f(1) l(2) assms(2) by simp
  then show ?thesis
    using f l property__write_loop_enc [OF assms(1) f(2)]
    by (simp add: property__write_all_def put_put all_enc_def)
qed

section \<open>Properties\<close>

text \<open>
  C29: \<open>property__read_all\<close> accepts exactly the encodings of lists of well-formed properties that
  the command admits, preceded by their total length; it returns that list in the order of the
  wire and leaves the position behind it, so that a length that does not end with a property is
  never accepted, although the counter of the remaining length may wrap while reading.
\<close>

theorem property_read_all_exact:
  assumes "rd_wf p"
  shows "(\<exists>mem'. property__read_all command p [] = Some (Inr ps, p', mem')) \<longleftrightarrow>
           list_all prop_wf ps \<and> mosquitto_property_check_all command ps = Inr ()
           \<and> (\<exists>r. unread p = all_enc ps @ r) \<and> length (props_enc ps) < 268435456
           \<and> p' = adv p (length (all_enc ps))" (is "?l \<longleftrightarrow> ?r")
proof -
  have ?r if ?l
  proof -
    from that obtain mem' where m: "property__read_all command p [] = Some (Inr ps, p', mem')" by blast
    from read_all_inv [OF assms this] obtain r where "unread p = all_enc ps @ r" by (auto simp: all_enc_def)
    then have "length (props_enc ps) < 268435456"
      using length_unread_le [OF assms] by (simp add: all_enc_def)
    with read_all_inv [OF assms m] show ?thesis by (auto simp: all_enc_def)
  qed
  moreover have ?l if ?r
  proof -
    from that obtain r where "unread p = venc (length (props_enc ps)) @ props_enc ps @ r" by (auto simp: all_enc_def)
    from read_all_fwd [OF assms _ _ this] that show ?thesis by (auto simp: all_enc_def)
  qed
  ultimately show ?thesis by blast
qed

lemma receive_maximum_wf:
  "prop_wf (property0\<lparr>pr_identifier := 33, pr_i16 := 20\<rparr>)"
  "prop_enc (property0\<lparr>pr_identifier := 33, pr_i16 := 20\<rparr>) = [33, 0, 20]"
proof -
  have t: "prop_type 33 = Some MQTT_PROP_TYPE_INT16" by (simp add: prop_type_def)
  show "prop_wf (property0\<lparr>pr_identifier := 33, pr_i16 := 20\<rparr>)" by (simp add: prop_wf_def t)
  show "prop_enc (property0\<lparr>pr_identifier := 33, pr_i16 := 20\<rparr>) = [33, 0, 20]"
    by (simp add: prop_enc_def t value_enc_def be16_def)
qed

theorem property_read_all_exact_witness:
  "rd_wf (received [3, 33, 0, 20]) \<and>
   (\<exists>mem'. property__read_all CMD_CONNECT (received [3, 33, 0, 20]) [] =
      Some (Inr [property0\<lparr>pr_identifier := 33, pr_i16 := 20\<rparr>], adv (received [3, 33, 0, 20]) 4, mem'))"
proof -
  let ?p = "received [3, 33, 0, 20]" and ?ps = "[property0\<lparr>pr_identifier := 33, pr_i16 := 20\<rparr>]"
  have w: "rd_wf ?p" "unread ?p = [3, 33, 0, 20]" using received_wf [of "[3, 33, 0, 20]"] by simp_all
  have e: "all_enc ?ps = [3, 33, 0, 20]" using receive_maximum_wf by (simp add: all_enc_def venc_small)
  have "mosquitto_property_check_all CMD_CONNECT ?ps = Inr ()"
    by (simp add: property_value_bad_def mosquitto_property_check_command_def Let_def)
  then show ?thesis
    using property_read_all_exact [OF w(1), of CMD_CONNECT ?ps "adv ?p 4"] w receive_maximum_wf e by (simp add: adv_num)
qed

text \<open>
  C31: whatever the bytes and the announced length are, and whichever allocation fails,
  \<open>property__read_all\<close> returns, touches nothing outside of the payload and leaves the position
  inside of the packet.
\<close>

theorem property_read_all_returns:
  assumes "rd_wf p"
  shows "\<exists>r p' mem'. property__read_all command p mem = Some (r, p', mem') \<and> rd_safe p r p'"
  using read_all_total [OF assms, of command mem] by (auto simp: safe_def)

theorem property_read_all_returns_witness:
  "rd_wf (received [0xFF, 0xFF, 0xFF, 0x7F, 38, 0]) \<and>
   (\<exists>r p' mem'. property__read_all CMD_CONNECT (received [0xFF, 0xFF, 0xFF, 0x7F, 38, 0]) [True, False] =
      Some (r, p', mem') \<and> rd_safe (received [0xFF, 0xFF, 0xFF, 0x7F, 38, 0]) r p')"
  using property_read_all_returns [of "received [0xFF, 0xFF, 0xFF, 0x7F, 38, 0]" CMD_CONNECT "[True, False]"]
    received_wf [of "[0xFF, 0xFF, 0xFF, 0x7F, 38, 0]"] by simp

text \<open>
  C32: \<open>property__write_all\<close> writes the encoding of the list and
  \<open>property__get_remaining_length\<close>, by which the callers size the packet, is its length.
\<close>

theorem property_write_all_exact:
  assumes "list_all prop_out ps" "length (props_enc ps) < 268435456"
    and "fits pkt (unat (property__get_remaining_length ps))"
  shows "property__write_all pkt ps True = (Inr (), put pkt (all_enc ps))
       \<and> unat (property__get_remaining_length ps) = length (all_enc ps)"
proof -
  note l = remaining_length_enc(1) [OF assms(1,2)]
  show ?thesis using write_all_enc [OF assms(1,2), of pkt] assms(3) l by simp
qed

theorem property_write_all_exact_witness:
  "fits (blank 4) (unat (property__get_remaining_length [property0\<lparr>pr_identifier := 33, pr_i16 := 20\<rparr>]))
   \<and> property__write_all (blank 4) [property0\<lparr>pr_identifier := 33, pr_i16 := 20\<rparr>] True =
       (Inr (), put (blank 4) [3, 33, 0, 20])"
proof -
  let ?ps = "[property0\<lparr>pr_identifier := 33, pr_i16 := 20\<rparr>]"
  have e: "all_enc ?ps = [3, 33, 0, 20]" using receive_maximum_wf by (simp add: all_enc_def venc_small)
  have w: "list_all prop_out ?ps" "length (props_enc ?ps) < 268435456"
    using receive_maximum_wf prop_wf_out by simp_all
  have f: "fits (blank 4) (unat (property__get_remaining_length ?ps))"
    by (simp add: property__get_remaining_length_def property__get_length_all_def property__get_length_def
        prop_type_def packet__varint_bytes_def)
  show ?thesis using property_write_all_exact [OF w f] f e by simp
qed

text \<open>
  C30: a list of properties written into a packet is read back by the receiver: same
  properties, same order, nothing left over.
\<close>

theorem property_roundtrip:
  assumes "list_all prop_wf ps" "mosquitto_property_check_all command ps = Inr ()"
    and "fits pkt (length (all_enc ps))" "unat (p_pos pkt) + length (all_enc ps) \<le> 268435455"
  shows "\<exists>pkt'. property__write_all pkt ps True = (Inr (), pkt') \<and>
    property__read_all command (rewind pkt pkt') [] =
      Some (Inr ps, adv (rewind pkt pkt') (length (all_enc ps)), [])"
proof -
  let ?k = "rewind pkt (put pkt (all_enc ps))"
  have o: "list_all prop_out ps" using assms(1) prop_wf_out by (auto simp: list_all_iff)
  have n: "length (props_enc ps) < 268435456" using assms(4) by (simp add: all_enc_def)
  have w: "rd_wf ?k" "unread ?k = venc (length (props_enc ps)) @ props_enc ps @ []"
    using assms(3,4) unread_rewind [OF assms(3)] by (simp_all add: all_enc_def)
  from read_all_fwd [OF w(1) assms(1,2) w(2) n] write_all_enc [OF o n assms(3)]
  show ?thesis by (simp add: all_enc_def)
qed

theorem property_roundtrip_witness:
  "\<exists>pkt'. property__write_all (blank 4) [property0\<lparr>pr_identifier := 33, pr_i16 := 20\<rparr>] True = (Inr (), pkt') \<and>
     property__read_all CMD_CONNECT (rewind (blank 4) pkt') [] =
      Some (Inr [property0\<lparr>pr_identifier := 33, pr_i16 := 20\<rparr>], adv (rewind (blank 4) pkt') 4, [])"
proof -
  let ?ps = "[property0\<lparr>pr_identifier := 33, pr_i16 := 20\<rparr>]"
  have e: "length (all_enc ?ps) = 4" using receive_maximum_wf by (simp add: all_enc_def venc_small)
  have c: "mosquitto_property_check_all CMD_CONNECT ?ps = Inr ()"
    by (simp add: property_value_bad_def mosquitto_property_check_command_def Let_def)
  show ?thesis using property_roundtrip [OF _ c, of "blank 4"] receive_maximum_wf e by simp
qed

section \<open>The properties of each packet\<close>










end
