(* ===== verification/Property_List.thy ===== *)
theory Property_List
  imports Property
begin

text \<open>
  The public property functions of \<open>lib/property_mosq.c\<close>: the names of the properties, building a
  list (\<open>mosquitto_property_add_*\<close>), looking values up in it (\<open>mosquitto_property_read_*\<close>) and
  copying it. C strings are given by their bytes before the terminator.
\<close>

section \<open>Names\<close>

text \<open>The cases of \<open>mosquitto_property_identifier_to_string\<close>.\<close>

definition property_names :: "(int \<times> string) list" where
  "property_names =
     [(MQTT_PROP_PAYLOAD_FORMAT_INDICATOR, ''payload-format-indicator''),
      (MQTT_PROP_MESSAGE_EXPIRY_INTERVAL, ''message-expiry-interval''),
      (MQTT_PROP_CONTENT_TYPE, ''content-type''),
      (MQTT_PROP_RESPONSE_TOPIC, ''response-topic''),
      (MQTT_PROP_CORRELATION_DATA, ''correlation-data''),
      (MQTT_PROP_SUBSCRIPTION_IDENTIFIER, ''subscription-identifier''),
      (MQTT_PROP_SESSION_EXPIRY_INTERVAL, ''session-expiry-interval''),
      (MQTT_PROP_ASSIGNED_CLIENT_IDENTIFIER, ''assigned-client-identifier''),
      (MQTT_PROP_SERVER_KEEP_ALIVE, ''server-keep-alive''),
      (MQTT_PROP_AUTHENTICATION_METHOD, ''authentication-method''),
      (MQTT_PROP_AUTHENTICATION_DATA, ''authentication-data''),
      (MQTT_PROP_REQUEST_PROBLEM_INFORMATION, ''request-problem-information''),
      (MQTT_PROP_WILL_DELAY_INTERVAL, ''will-delay-interval''),
      (MQTT_PROP_REQUEST_RESPONSE_INFORMATION, ''request-response-information''),
      (MQTT_PROP_RESPONSE_INFORMATION, ''response-information''),
      (MQTT_PROP_SERVER_REFERENCE, ''server-reference''),
      (MQTT_PROP_REASON_STRING, ''reason-string''),
      (MQTT_PROP_RECEIVE_MAXIMUM, ''receive-maximum''),
      (MQTT_PROP_TOPIC_ALIAS_MAXIMUM, ''topic-alias-maximum''),
      (MQTT_PROP_TOPIC_ALIAS, ''topic-alias''),
      (MQTT_PROP_MAXIMUM_QOS, ''maximum-qos''),
      (MQTT_PROP_RETAIN_AVAILABLE, ''retain-available''),
      (MQTT_PROP_USER_PROPERTY, ''user-property''),
      (MQTT_PROP_MAXIMUM_PACKET_SIZE, ''maximum-packet-size''),
      (MQTT_PROP_WILDCARD_SUB_AVAILABLE, ''wildcard-subscription-available''),
      (MQTT_PROP_SUBSCRIPTION_ID_AVAILABLE, ''subscription-identifier-available''),
      (MQTT_PROP_SHARED_SUB_AVAILABLE, ''shared-subscription-available'')]"

definition mosquitto_property_identifier_to_string :: "int \<Rightarrow> string option" where
  "mosquitto_property_identifier_to_string identifier = map_of property_names identifier"

definition tolower :: "char \<Rightarrow> char" where
  "tolower c = (let n = of_char c :: nat in if 65 \<le> n \<and> n \<le> 90 then char_of (n + 32) else c)"

definition strcasecmp_eq :: "string \<Rightarrow> string \<Rightarrow> bool" where
  "strcasecmp_eq a b \<longleftrightarrow> map tolower a = map tolower b"

text \<open>The chain of comparisons of \<open>mosquitto_string_to_property_info\<close>, in its order.\<close>

definition property_info :: "(string \<times> int \<times> mqtt5_property_type) list" where
  "property_info =
     [(''payload-format-indicator'', MQTT_PROP_PAYLOAD_FORMAT_INDICATOR, MQTT_PROP_TYPE_BYTE),
      (''message-expiry-interval'', MQTT_PROP_MESSAGE_EXPIRY_INTERVAL, MQTT_PROP_TYPE_INT32),
      (''content-type'', MQTT_PROP_CONTENT_TYPE, MQTT_PROP_TYPE_STRING),
      (''response-topic'', MQTT_PROP_RESPONSE_TOPIC, MQTT_PROP_TYPE_STRING),
      (''correlation-data'', MQTT_PROP_CORRELATION_DATA, MQTT_PROP_TYPE_BINARY),
      (''subscription-identifier'', MQTT_PROP_SUBSCRIPTION_IDENTIFIER, MQTT_PROP_TYPE_VARINT),
      (''session-expiry-interval'', MQTT_PROP_SESSION_EXPIRY_INTERVAL, MQTT_PROP_TYPE_INT32),
      (''assigned-client-identifier'', MQTT_PROP_ASSIGNED_CLIENT_IDENTIFIER, MQTT_PROP_TYPE_STRING),
      (''server-keep-alive'', MQTT_PROP_SERVER_KEEP_ALIVE, MQTT_PROP_TYPE_INT16),
      (''authentication-method'', MQTT_PROP_AUTHENTICATION_METHOD, MQTT_PROP_TYPE_STRING),
      (''authentication-data'', MQTT_PROP_AUTHENTICATION_DATA, MQTT_PROP_TYPE_BINARY),
      (''request-problem-information'', MQTT_PROP_REQUEST_PROBLEM_INFORMATION, MQTT_PROP_TYPE_BYTE),
      (''will-delay-interval'', MQTT_PROP_WILL_DELAY_INTERVAL, MQTT_PROP_TYPE_INT32),
      (''request-response-information'', MQTT_PROP_REQUEST_RESPONSE_INFORMATION, MQTT_PROP_TYPE_BYTE),
      (''response-information'', MQTT_PROP_RESPONSE_INFORMATION, MQTT_PROP_TYPE_STRING),
      (''server-reference'', MQTT_PROP_SERVER_REFERENCE, MQTT_PROP_TYPE_STRING),
      (''reason-string'', MQTT_PROP_REASON_STRING, MQTT_PROP_TYPE_STRING),
      (''receive-maximum'', MQTT_PROP_RECEIVE_MAXIMUM, MQTT_PROP_TYPE_INT16),
      (''topic-alias-maximum'', MQTT_PROP_TOPIC_ALIAS_MAXIMUM, MQTT_PROP_TYPE_INT16),
      (''topic-alias'', MQTT_PROP_TOPIC_ALIAS, MQTT_PROP_TYPE_INT16),
      (''maximum-qos'', MQTT_PROP_MAXIMUM_QOS, MQTT_PROP_TYPE_BYTE),
      (''retain-available'', MQTT_PROP_RETAIN_AVAILABLE, MQTT_PROP_TYPE_BYTE),
      (''user-property'', MQTT_PROP_USER_PROPERTY, MQTT_PROP_TYPE_STRING_PAIR),
      (''maximum-packet-size'', MQTT_PROP_MAXIMUM_PACKET_SIZE, MQTT_PROP_TYPE_INT32),
      (''wildcard-subscription-available'', MQTT_PROP_WILDCARD_SUB_AVAILABLE, MQTT_PROP_TYPE_BYTE),
      (''subscription-identifier-available'', MQTT_PROP_SUBSCRIPTION_ID_AVAILABLE, MQTT_PROP_TYPE_BYTE),
      (''shared-subscription-available'', MQTT_PROP_SHARED_SUB_AVAILABLE, MQTT_PROP_TYPE_BYTE)]"

definition mosquitto_string_to_property_info :: "string option \<Rightarrow> (int \<times> mqtt5_property_type) res" where
  "mosquitto_string_to_property_info propname =
     (case propname of
        None \<Rightarrow> rc_fail MOSQ_ERR_INVAL
      | Some propname \<Rightarrow>
          (case find (\<lambda>(n, _). strcasecmp_eq propname n) property_info of
             None \<Rightarrow> rc_fail MOSQ_ERR_INVAL
           | Some (_, info) \<Rightarrow> Inr info))"

section \<open>Building a list\<close>

text \<open>
  \<open>proplist\<close> is the address of the list head, null as \<open>None\<close>. The functions return the new list;
  on an error the list is as before.
\<close>

definition property__add :: "mqtt5__property list \<Rightarrow> mqtt5__property \<Rightarrow> mqtt5__property list" where
  "property__add proplist prop = proplist @ [prop]"

definition mosquitto_property_add_byte ::
    "mqtt5__property list option \<Rightarrow> int \<Rightarrow> u8 \<Rightarrow> mem \<Rightarrow> mqtt5__property list res" where
  "mosquitto_property_add_byte proplist identifier value mem =
     (case proplist of
        None \<Rightarrow> rc_fail MOSQ_ERR_INVAL
      | Some proplist \<Rightarrow>
          if prop_type identifier \<noteq> Some MQTT_PROP_TYPE_BYTE then rc_fail MOSQ_ERR_INVAL
          else if \<not> fst (malloc_ok mem) then rc_fail MOSQ_ERR_NOMEM
          else Inr (property__add proplist
                 (property0\<lparr>pr_client_generated := True, pr_identifier := identifier, pr_i8 := value\<rparr>)))"

definition mosquitto_property_add_int16 ::
    "mqtt5__property list option \<Rightarrow> int \<Rightarrow> u16 \<Rightarrow> mem \<Rightarrow> mqtt5__property list res" where
  "mosquitto_property_add_int16 proplist identifier value mem =
     (case proplist of
        None \<Rightarrow> rc_fail MOSQ_ERR_INVAL
      | Some proplist \<Rightarrow>
          if prop_type identifier \<noteq> Some MQTT_PROP_TYPE_INT16 then rc_fail MOSQ_ERR_INVAL
          else if \<not> fst (malloc_ok mem) then rc_fail MOSQ_ERR_NOMEM
          else Inr (property__add proplist
                 (property0\<lparr>pr_client_generated := True, pr_identifier := identifier, pr_i16 := value\<rparr>)))"

definition mosquitto_property_add_int32 ::
    "mqtt5__property list option \<Rightarrow> int \<Rightarrow> u32 \<Rightarrow> mem \<Rightarrow> mqtt5__property list res" where
  "mosquitto_property_add_int32 proplist identifier value mem =
     (case proplist of
        None \<Rightarrow> rc_fail MOSQ_ERR_INVAL
      | Some proplist \<Rightarrow>
          if prop_type identifier \<noteq> Some MQTT_PROP_TYPE_INT32 then rc_fail MOSQ_ERR_INVAL
          else if \<not> fst (malloc_ok mem) then rc_fail MOSQ_ERR_NOMEM
          else Inr (property__add proplist
                 (property0\<lparr>pr_client_generated := True, pr_identifier := identifier, pr_i32 := value\<rparr>)))"

definition mosquitto_property_add_varint ::
    "mqtt5__property list option \<Rightarrow> int \<Rightarrow> u32 \<Rightarrow> mem \<Rightarrow> mqtt5__property list res" where
  "mosquitto_property_add_varint proplist identifier value mem =
     (case proplist of
        None \<Rightarrow> rc_fail MOSQ_ERR_INVAL
      | Some proplist \<Rightarrow>
          if value > 268435455 then rc_fail MOSQ_ERR_INVAL
          else if identifier \<noteq> MQTT_PROP_SUBSCRIPTION_IDENTIFIER then rc_fail MOSQ_ERR_INVAL
          else if \<not> fst (malloc_ok mem) then rc_fail MOSQ_ERR_NOMEM
          else Inr (property__add proplist
                 (property0\<lparr>pr_client_generated := True, pr_identifier := identifier, pr_varint := value\<rparr>)))"

text \<open>\<open>value\<close> is the buffer of at least \<open>len\<close> bytes that the caller passes.\<close>

definition mosquitto_property_add_binary ::
    "mqtt5__property list option \<Rightarrow> int \<Rightarrow> u8 list \<Rightarrow> u16 \<Rightarrow> mem \<Rightarrow> mqtt5__property list res" where
  "mosquitto_property_add_binary proplist identifier value len mem =
     (case proplist of
        None \<Rightarrow> rc_fail MOSQ_ERR_INVAL
      | Some proplist \<Rightarrow>
          if prop_type identifier \<noteq> Some MQTT_PROP_TYPE_BINARY then rc_fail MOSQ_ERR_INVAL
          else (case malloc_ok mem of
            (False, mem) \<Rightarrow> rc_fail MOSQ_ERR_NOMEM
          | (True, mem) \<Rightarrow>
              let prop = property0\<lparr>pr_client_generated := True, pr_identifier := identifier\<rparr>
              in if len \<noteq> 0 then
                   (if \<not> fst (malloc_ok mem) then rc_fail MOSQ_ERR_NOMEM
                    else if length value < unat len then Inl Oob
                    else Inr (property__add proplist
                           (prop\<lparr>pr_bin := \<lparr>ms_v = Some (take (unat len) value), ms_len = len\<rparr>\<rparr>)))
                 else Inr (property__add proplist prop)))"

text \<open>The conversion of a \<open>size_t\<close> to \<open>int\<close>.\<close>

definition int_of_size :: "nat \<Rightarrow> int" where
  "int_of_size n = sint (of_nat n :: 32 word)"

definition validate_cstr :: "u8 list \<Rightarrow> nat \<Rightarrow> unit res" where
  "validate_cstr value slen = mosquitto_validate_utf8 (Some (value @ [0])) (int_of_size slen)"

definition mosquitto_property_add_string ::
    "mqtt5__property list option \<Rightarrow> int \<Rightarrow> u8 list option \<Rightarrow> mem \<Rightarrow> mqtt5__property list res" where
  "mosquitto_property_add_string proplist identifier value mem =
     (case proplist of
        None \<Rightarrow> rc_fail MOSQ_ERR_INVAL
      | Some proplist \<Rightarrow>
          let slen = (case value of None \<Rightarrow> 0 | Some v \<Rightarrow> length v)
          in (case (case value of None \<Rightarrow> Inr () | Some v \<Rightarrow> validate_cstr v slen) of
               Inl (Rc _) \<Rightarrow> rc_fail MOSQ_ERR_MALFORMED_UTF8
             | Inl e \<Rightarrow> Inl e
             | Inr _ \<Rightarrow>
                 if prop_type identifier \<noteq> Some MQTT_PROP_TYPE_STRING then rc_fail MOSQ_ERR_INVAL
                 else (case malloc_ok mem of
                   (False, mem) \<Rightarrow> rc_fail MOSQ_ERR_NOMEM
                 | (True, mem) \<Rightarrow>
                     let prop = property0\<lparr>pr_client_generated := True, pr_identifier := identifier\<rparr>
                     in (case value of
                          Some v \<Rightarrow>
                            if slen > 0 then
                              (if \<not> fst (malloc_ok mem) then rc_fail MOSQ_ERR_NOMEM
                               else Inr (property__add proplist
                                      (prop\<lparr>pr_s := \<lparr>ms_v = Some (v @ [0]), ms_len = of_nat slen\<rparr>\<rparr>)))
                            else Inr (property__add proplist prop)
                        | None \<Rightarrow> Inr (property__add proplist prop)))))"

definition mosquitto_property_add_string_pair ::
    "mqtt5__property list option \<Rightarrow> int \<Rightarrow> u8 list option \<Rightarrow> u8 list option \<Rightarrow> mem \<Rightarrow> mqtt5__property list res" where
  "mosquitto_property_add_string_pair proplist identifier name value mem =
     (case proplist of
        None \<Rightarrow> rc_fail MOSQ_ERR_INVAL
      | Some proplist \<Rightarrow>
          if identifier \<noteq> MQTT_PROP_USER_PROPERTY then rc_fail MOSQ_ERR_INVAL
          else (case (case name of None \<Rightarrow> Inr () | Some n \<Rightarrow> validate_cstr n (length n)) of
            Inl (Rc _) \<Rightarrow> rc_fail MOSQ_ERR_MALFORMED_UTF8
          | Inl e \<Rightarrow> Inl e
          | Inr _ \<Rightarrow>
              let slen_value = 0
              in (case (case value of None \<Rightarrow> Inr () | Some v \<Rightarrow> validate_cstr v slen_value) of
                   Inl (Rc _) \<Rightarrow> rc_fail MOSQ_ERR_MALFORMED_UTF8
                 | Inl e \<Rightarrow> Inl e
                 | Inr _ \<Rightarrow>
                     (case malloc_ok mem of
                        (False, mem) \<Rightarrow> rc_fail MOSQ_ERR_NOMEM
                      | (True, mem) \<Rightarrow>
                          let prop = property0\<lparr>pr_client_generated := True, pr_identifier := identifier\<rparr>
                          in (case (case name of
                                     None \<Rightarrow> Inr (prop, mem)
                                   | Some n \<Rightarrow>
                                       (case malloc_ok mem of
                                          (False, mem) \<Rightarrow> rc_fail MOSQ_ERR_NOMEM
                                        | (True, mem) \<Rightarrow>
                                            Inr (prop\<lparr>pr_name := \<lparr>ms_v = Some (n @ [0]), ms_len = of_nat (length n)\<rparr>\<rparr>, mem))) of
                               Inl e \<Rightarrow> Inl e
                             | Inr (prop, mem) \<Rightarrow>
                                 (case value of
                                    None \<Rightarrow> Inr (property__add proplist prop)
                                  | Some v \<Rightarrow>
                                      if \<not> fst (malloc_ok mem) then rc_fail MOSQ_ERR_NOMEM
                                      else Inr (property__add proplist
                                             (prop\<lparr>pr_s := \<lparr>ms_v = Some (v @ [0]), ms_len = of_nat (length v)\<rparr>\<rparr>))))))))"

section \<open>Looking values up\<close>

text \<open>The result is the pointer to the node, given as the list that starts with it.\<close>

primrec get_property_loop :: "mqtt5__property list \<Rightarrow> int \<Rightarrow> bool \<Rightarrow> bool \<Rightarrow> mqtt5__property list" where
  "get_property_loop [] identifier skip_first is_first = []"
| "get_property_loop (p # next) identifier skip_first is_first =
     (if pr_identifier p = identifier then
        (if \<not> is_first \<or> \<not> skip_first then p # next
         else get_property_loop next identifier skip_first False)
      else get_property_loop next identifier skip_first is_first)"

definition property__get_property :: "mqtt5__property list \<Rightarrow> int \<Rightarrow> bool \<Rightarrow> mqtt5__property list" where
  "property__get_property proplist identifier skip_first = get_property_loop proplist identifier skip_first True"

definition mosquitto_property_identifier :: "mqtt5__property list \<Rightarrow> int" where
  "mosquitto_property_identifier property = (case property of [] \<Rightarrow> 0 | p # _ \<Rightarrow> pr_identifier p)"

definition mosquitto_property_next :: "mqtt5__property list \<Rightarrow> mqtt5__property list" where
  "mosquitto_property_next proplist = (case proplist of [] \<Rightarrow> [] | _ # next \<Rightarrow> next)"

text \<open>
  The readers return the node they found and the value they store when the caller asks for it
  (\<open>None\<close> when they return null).
\<close>

definition read_member ::
    "mqtt5_property_type \<Rightarrow> (mqtt5__property \<Rightarrow> 'v) \<Rightarrow> mqtt5__property list \<Rightarrow> int \<Rightarrow> bool \<Rightarrow>
     mqtt5__property list \<times> 'v option" where
  "read_member t member proplist identifier skip_first =
     (if proplist = [] then ([], None)
      else case property__get_property proplist identifier skip_first of
        [] \<Rightarrow> ([], None)
      | p # next \<Rightarrow>
          if prop_type (pr_identifier p) \<noteq> Some t then ([], None)
          else (p # next, Some (member p)))"

definition mosquitto_property_read_byte ::
    "mqtt5__property list \<Rightarrow> int \<Rightarrow> bool \<Rightarrow> mqtt5__property list \<times> u8 option" where
  "mosquitto_property_read_byte = read_member MQTT_PROP_TYPE_BYTE pr_i8"

definition mosquitto_property_read_int16 ::
    "mqtt5__property list \<Rightarrow> int \<Rightarrow> bool \<Rightarrow> mqtt5__property list \<times> u16 option" where
  "mosquitto_property_read_int16 = read_member MQTT_PROP_TYPE_INT16 pr_i16"

definition mosquitto_property_read_int32 ::
    "mqtt5__property list \<Rightarrow> int \<Rightarrow> bool \<Rightarrow> mqtt5__property list \<times> u32 option" where
  "mosquitto_property_read_int32 = read_member MQTT_PROP_TYPE_INT32 pr_i32"

definition mosquitto_property_read_varint ::
    "mqtt5__property list \<Rightarrow> int \<Rightarrow> bool \<Rightarrow> mqtt5__property list \<times> u32 option" where
  "mosquitto_property_read_varint = read_member MQTT_PROP_TYPE_VARINT pr_varint"

text \<open>
  \<open>calloc(1, len + 1)\<close> and \<open>memcpy\<close> of \<open>len\<close> bytes: \<open>None\<close> when the allocation fails.
\<close>

definition dup_ms :: "mqtt__string \<Rightarrow> mem \<Rightarrow> u8 list option res \<times> mem" where
  "dup_ms s mem =
     (case malloc_ok mem of
        (False, mem) \<Rightarrow> (Inr None, mem)
      | (True, mem) \<Rightarrow>
          (if ms_len s \<noteq> 0 \<and> ms_v s = None then Inl Null_deref
           else if length (ms_buf s) < unat (ms_len s) then Inl Oob
           else Inr (Some (take (unat (ms_len s)) (ms_buf s) @ [0])), mem))"

definition read_buffer ::
    "mqtt5_property_type \<Rightarrow> (mqtt5__property \<Rightarrow> mqtt__string) \<Rightarrow> mqtt5__property list \<Rightarrow> int \<Rightarrow> bool \<Rightarrow> bool \<Rightarrow> mem \<Rightarrow>
     (mqtt5__property list \<times> u8 list option) res" where
  "read_buffer t member proplist identifier want skip_first mem =
     (case read_member t member proplist identifier skip_first of
        (_, None) \<Rightarrow> Inr ([], None)
      | (p, Some s) \<Rightarrow>
          if want then
            (case fst (dup_ms s mem) of
               Inl e \<Rightarrow> Inl e
             | Inr None \<Rightarrow> Inr ([], None)
             | Inr (Some b) \<Rightarrow> Inr (p, Some b))
          else Inr (p, None))"

definition mosquitto_property_read_string ::
    "mqtt5__property list \<Rightarrow> int \<Rightarrow> bool \<Rightarrow> bool \<Rightarrow> mem \<Rightarrow> (mqtt5__property list \<times> u8 list option) res" where
  "mosquitto_property_read_string = read_buffer MQTT_PROP_TYPE_STRING pr_s"

text \<open>\<open>value\<close> and \<open>len\<close> say which of the two output pointers the caller gives.\<close>

definition mosquitto_property_read_binary ::
    "mqtt5__property list \<Rightarrow> int \<Rightarrow> bool \<Rightarrow> bool \<Rightarrow> bool \<Rightarrow> mem \<Rightarrow>
     (mqtt5__property list \<times> u8 list option) res" where
  "mosquitto_property_read_binary proplist identifier value len skip_first mem =
     (if proplist = [] \<or> value \<noteq> len then Inr ([], None)
      else read_buffer MQTT_PROP_TYPE_BINARY pr_bin proplist identifier value skip_first mem)"

definition mosquitto_property_read_string_pair ::
    "mqtt5__property list \<Rightarrow> int \<Rightarrow> bool \<Rightarrow> bool \<Rightarrow> bool \<Rightarrow> mem \<Rightarrow>
     (mqtt5__property list \<times> u8 list option \<times> u8 list option) res" where
  "mosquitto_property_read_string_pair proplist identifier name value skip_first mem =
     (if proplist = [] then Inr ([], None, None)
      else case property__get_property proplist identifier skip_first of
        [] \<Rightarrow> Inr ([], None, None)
      | p # next \<Rightarrow>
          if pr_identifier p \<noteq> MQTT_PROP_USER_PROPERTY then Inr ([], None, None)
          else
            (case (if name then dup_ms (pr_name p) mem else (Inr (Some []), mem)) of
               (Inl e, mem) \<Rightarrow> Inl e
             | (Inr None, mem) \<Rightarrow> Inr ([], None, None)
             | (Inr (Some n), mem) \<Rightarrow>
                 let n = (if name then Some n else None)
                 in if value then
                      (case fst (dup_ms (pr_s p) mem) of
                         Inl e \<Rightarrow> Inl e
                       | Inr None \<Rightarrow> Inr ([], None, None)
                       | Inr (Some v) \<Rightarrow> Inr (p # next, n, Some v))
                    else Inr (p # next, n, None)))"

section \<open>Copying\<close>

text \<open>\<open>strdup\<close>: up to the first terminator, which the buffer must contain.\<close>

definition strdup_buf :: "u8 list option \<Rightarrow> mem \<Rightarrow> u8 list option res \<times> mem" where
  "strdup_buf v mem =
     (case v of
        None \<Rightarrow> (Inl Null_deref, mem)
      | Some b \<Rightarrow>
          if 0 \<notin> set b then (Inl Oob, mem)
          else (case malloc_ok mem of
            (False, mem) \<Rightarrow> (Inr None, mem)
          | (True, mem) \<Rightarrow> (Inr (Some (takeWhile (\<lambda>c. c \<noteq> 0) b @ [0])), mem)))"

text \<open>One node of \<open>mosquitto_property_copy_all\<close>.\<close>

definition copy_property :: "mqtt5__property \<Rightarrow> mem \<Rightarrow> mqtt5__property res \<times> mem" where
  "copy_property src mem =
     (case malloc_ok mem of
        (False, mem) \<Rightarrow> (rc_fail MOSQ_ERR_NOMEM, mem)
      | (True, mem) \<Rightarrow>
          let pnew = property0\<lparr>pr_identifier := pr_identifier src\<rparr>
          in (case prop_type (pr_identifier pnew) of
               Some MQTT_PROP_TYPE_BYTE \<Rightarrow> (Inr (pnew\<lparr>pr_i8 := pr_i8 src\<rparr>), mem)
             | Some MQTT_PROP_TYPE_INT16 \<Rightarrow> (Inr (pnew\<lparr>pr_i16 := pr_i16 src\<rparr>), mem)
             | Some MQTT_PROP_TYPE_INT32 \<Rightarrow> (Inr (pnew\<lparr>pr_i32 := pr_i32 src\<rparr>), mem)
             | Some MQTT_PROP_TYPE_VARINT \<Rightarrow> (Inr (pnew\<lparr>pr_varint := pr_varint src\<rparr>), mem)
             | Some MQTT_PROP_TYPE_STRING \<Rightarrow>
                 (case strdup_buf (ms_v (pr_s src)) mem of
                    (Inl e, mem) \<Rightarrow> (Inl e, mem)
                  | (Inr None, mem) \<Rightarrow> (rc_fail MOSQ_ERR_NOMEM, mem)
                  | (Inr (Some v), mem) \<Rightarrow>
                      (Inr (pnew\<lparr>pr_s := \<lparr>ms_v = Some v, ms_len = ms_len (pr_s src)\<rparr>\<rparr>), mem))
             | Some MQTT_PROP_TYPE_BINARY \<Rightarrow>
                 (case malloc_ok mem of
                    (False, mem) \<Rightarrow> (rc_fail MOSQ_ERR_NOMEM, mem)
                  | (True, mem) \<Rightarrow>
                      (if ms_len (pr_bin src) \<noteq> 0 \<and> ms_v (pr_bin src) = None then Inl Null_deref
                       else if length (ms_buf (pr_bin src)) < unat (ms_len (pr_bin src)) then Inl Oob
                       else Inr (pnew\<lparr>pr_bin := \<lparr>ms_v = Some (ms_bytes (pr_bin src)), ms_len = ms_len (pr_bin src)\<rparr>\<rparr>), mem))
             | Some MQTT_PROP_TYPE_STRING_PAIR \<Rightarrow>
                 (case strdup_buf (ms_v (pr_s src)) mem of
                    (Inl e, mem) \<Rightarrow> (Inl e, mem)
                  | (Inr None, mem) \<Rightarrow> (rc_fail MOSQ_ERR_NOMEM, mem)
                  | (Inr (Some v), mem) \<Rightarrow>
                      (case strdup_buf (ms_v (pr_name src)) mem of
                         (Inl e, mem) \<Rightarrow> (Inl e, mem)
                       | (Inr None, mem) \<Rightarrow> (rc_fail MOSQ_ERR_NOMEM, mem)
                       | (Inr (Some n), mem) \<Rightarrow>
                           (Inr (pnew\<lparr>pr_s := \<lparr>ms_v = Some v, ms_len = ms_len (pr_s src)\<rparr>,
                                     pr_name := \<lparr>ms_v = Some n, ms_len = ms_len (pr_name src)\<rparr>\<rparr>), mem)))
             | None \<Rightarrow> (rc_fail MOSQ_ERR_INVAL, mem)))"

primrec copy_all_loop ::
    "mqtt5__property list \<Rightarrow> mqtt5__property list \<Rightarrow> mem \<Rightarrow> mqtt5__property list res \<times> mem" where
  "copy_all_loop dest [] mem = (Inr dest, mem)"
| "copy_all_loop dest (src # next) mem =
     (case copy_property src mem of
        (Inl e, mem) \<Rightarrow> (Inl e, mem)
      | (Inr pnew, mem) \<Rightarrow> copy_all_loop (dest @ [pnew]) next mem)"

text \<open>
  The return value and what \<open>*dest\<close> holds afterwards; \<open>dest\<close> is null as \<open>None\<close>. An empty source
  leaves \<open>*dest\<close> as it is.
\<close>

definition mosquitto_property_copy_all ::
    "mqtt5__property list option \<Rightarrow> mqtt5__property list \<Rightarrow> mem \<Rightarrow>
     (unit res \<times> mqtt5__property list option) \<times> mem" where
  "mosquitto_property_copy_all dest src mem =
     (if src = [] then ((Inr (), dest), mem)
      else case dest of
        None \<Rightarrow> ((rc_fail MOSQ_ERR_INVAL, None), mem)
      | Some _ \<Rightarrow>
          (case copy_all_loop [] src mem of
             (Inl e, mem) \<Rightarrow> ((Inl e, Some []), mem)
           | (Inr dest, mem) \<Rightarrow> ((Inr (), Some dest), mem)))"

section \<open>The names\<close>

definition is_lower :: "string \<Rightarrow> bool" where
  "is_lower s \<longleftrightarrow> set s \<subseteq> set ''-abcdefghijklmnopqrstuvwxyz''"

lemma tolower_lower: "c \<in> set ''-abcdefghijklmnopqrstuvwxyz'' \<Longrightarrow> tolower c = c"
  by (simp add: tolower_def) (elim disjE; simp)

lemma map_tolower: "is_lower s \<Longrightarrow> map tolower s = s"
  unfolding is_lower_def by (rule map_idI) (rule tolower_lower, blast)

lemma property_info_names: "property_info = map (\<lambda>(i, n). (n, i, the (prop_type i))) property_names"
  by (simp add: property_names_def property_info_def prop_type_def)

lemma names_distinct: "distinct (map snd property_names)"
  by (simp add: property_names_def)

lemma names_lower: "list_all is_lower (map snd property_names)"
  by (simp add: property_names_def is_lower_def)

lemma property_names_complete: "i \<in> set (map fst property_names) \<longleftrightarrow> prop_type i \<noteq> None"
  by (auto simp: property_names_def prop_type_def)

lemma find_eq_map_of: "find (\<lambda>(k, _). n = k) xs = map_option (Pair n) (map_of xs n)"
  by (induction xs) auto

lemma info_of_name:
  assumes "(i, n) \<in> set property_names" "strcasecmp_eq m n"
  shows "mosquitto_string_to_property_info (Some m) = Inr (i, the (prop_type i))"
proof -
  have low: "is_lower k" if "k \<in> set (map snd property_names)" for k
    using names_lower that by (auto simp: list_all_iff)
  have keys: "fst x \<in> set (map snd property_names)" if "x \<in> set property_info" for x
    using that by (auto simp: property_info_names rev_image_eqI)
  have "map tolower m = n" using assms low [of n] by (auto simp: strcasecmp_eq_def map_tolower rev_image_eqI)
  then have "strcasecmp_eq m (fst x) \<longleftrightarrow> n = fst x" if "x \<in> set property_info" for x
    using low [OF keys [OF that]] by (auto simp: strcasecmp_eq_def map_tolower)
  then have "find (\<lambda>(k, _). strcasecmp_eq m k) property_info = find (\<lambda>(k, _). n = k) property_info"
    by (intro find_cong) (auto simp: case_prod_beta)
  also have "\<dots> = Some (n, i, the (prop_type i))"
  proof -
    have "map_of property_info n = Some (i, the (prop_type i))"
      using assms(1) names_distinct by (intro map_of_is_SomeI) (force simp: property_info_names comp_def case_prod_beta)+
    then show ?thesis by (simp add: find_eq_map_of)
  qed
  finally show ?thesis by (simp add: mosquitto_string_to_property_info_def)
qed

section \<open>Iterating\<close>

lemma get_property_loop_found:
  "get_property_loop ps i skip False = dropWhile (\<lambda>p. pr_identifier p \<noteq> i) ps"
  by (induction ps) auto

lemma get_property_first:
  "property__get_property ps i False = dropWhile (\<lambda>p. pr_identifier p \<noteq> i) ps"
  unfolding property__get_property_def by (induction ps) auto

lemma get_property_skip:
  "pr_identifier p = i \<Longrightarrow> property__get_property (p # ps) i True = dropWhile (\<lambda>p. pr_identifier p \<noteq> i) ps"
  by (simp add: property__get_property_def get_property_loop_found)

text \<open>The loop of a caller that wants every property with an identifier: the first node, then from each node the next.\<close>

primrec visit :: "nat \<Rightarrow> mqtt5__property list \<Rightarrow> int \<Rightarrow> mqtt5__property list" where
  "visit 0 p identifier = []"
| "visit (Suc n) p identifier =
     (case p of [] \<Rightarrow> [] | q # _ \<Rightarrow> q # visit n (property__get_property p identifier True) identifier)"

lemma visit_filter:
  "length ps \<le> n \<Longrightarrow> visit n (dropWhile (\<lambda>p. pr_identifier p \<noteq> i) ps) i = filter (\<lambda>p. pr_identifier p = i) ps"
proof (induction n arbitrary: ps)
  case (Suc n)
  show ?case
  proof (cases "dropWhile (\<lambda>p. pr_identifier p \<noteq> i) ps")
    case Nil
    then have "\<forall>p \<in> set ps. pr_identifier p \<noteq> i" by (simp add: dropWhile_eq_Nil_conv)
    then show ?thesis using Nil by (simp add: filter_empty_conv del: dropWhile_eq_Nil_conv)
  next
    case (Cons q qs)
    then have q: "pr_identifier q = i" using hd_dropWhile [of "\<lambda>p. pr_identifier p \<noteq> i" ps] by simp
    have "length qs \<le> n" using Suc.prems length_dropWhile_le [of "\<lambda>p. pr_identifier p \<noteq> i" ps] Cons by simp
    note ih = Suc.IH [OF this]
    have "filter (\<lambda>p. pr_identifier p = i) ps = filter (\<lambda>p. pr_identifier p = i) (dropWhile (\<lambda>p. pr_identifier p \<noteq> i) ps)"
      by (induction ps) auto
    also have "\<dots> = q # filter (\<lambda>p. pr_identifier p = i) qs" using Cons q by simp
    finally show ?thesis unfolding Cons visit.simps list.case get_property_skip [OF q] ih by simp
  qed
qed simp

section \<open>Reading what was added\<close>

lemma get_property_added:
  "i \<notin> set (map pr_identifier ps) \<Longrightarrow> pr_identifier q = i \<Longrightarrow> property__get_property (property__add ps q) i False = [q]"
proof -
  assume i: "i \<notin> set (map pr_identifier ps)" and q: "pr_identifier q = i"
  then have "\<forall>p \<in> set ps. pr_identifier p \<noteq> i" by (metis imageI list.set_map)
  then show ?thesis using q by (simp add: get_property_first property__add_def dropWhile_append)
qed

lemma get_property_kept:
  "property__get_property ps i False \<noteq> [] \<Longrightarrow>
   \<exists>rest. property__get_property (property__add ps q) i False = property__get_property ps i False @ rest
     \<and> hd (property__get_property (property__add ps q) i False) = hd (property__get_property ps i False)"
  by (auto simp: get_property_first property__add_def dropWhile_append)

lemma read_member_added:
  "i \<notin> set (map pr_identifier ps) \<Longrightarrow> pr_identifier q = i \<Longrightarrow> prop_type i = Some t \<Longrightarrow>
   read_member t member (property__add ps q) i False = ([q], Some (member q))"
  using get_property_added [of i ps q] by (simp add: read_member_def) (simp add: property__add_def)

section \<open>Strings without terminators inside\<close>

lemma byte_zero_iff: "(of_nat x :: u8) = 0 \<longleftrightarrow> x mod 256 = 0"
  by (simp add: word_unat_eq_iff unat_of_nat take_bit_eq_mod)

lemma utf8_enc_no_nul: "utf8_allowed c \<Longrightarrow> 0 \<notin> set (utf8_enc c)"
proof -
  assume "utf8_allowed c"
  then have c: "0 < c" "c \<le> 0x10FFFF" by (auto simp: utf8_allowed_def)
  have z: "(0 :: u8) = of_nat x \<longleftrightarrow> x mod 256 = 0" for x using byte_zero_iff [of x] by auto
  have b: "c < 0x800 \<Longrightarrow> c div 64 < 32" "c < 0x10000 \<Longrightarrow> c div 4096 < 16" "c div 262144 < 5"
    using c(2) by (simp_all add: div_less_iff_less_mult)
  have m: "(128 + x mod 64) mod 256 \<noteq> 0" for x :: nat
    using mod_less_divisor [of 64 x] by (simp add: mod_less)
  show ?thesis
    unfolding utf8_enc_def using c b m
    by (auto simp: z simp del: of_nat_add split: if_splits)
qed

lemma utf8_wf_no_nul: "utf8_wf bs \<Longrightarrow> 0 \<notin> set bs"
  using utf8_enc_no_nul by (fastforce simp: utf8_wf_def)

text \<open>\<open>qs\<close> is \<open>ps\<close> with one more property, which can be written and has this identifier.\<close>

definition added :: "mqtt5__property list \<Rightarrow> int \<Rightarrow> mqtt5__property list \<Rightarrow> bool" where
  "added ps i qs \<longleftrightarrow> (\<exists>q. qs = property__add ps q \<and> pr_identifier q = i \<and> prop_out q \<and> pr_client_generated q)"

lemma addedI: "pr_identifier q = i \<Longrightarrow> prop_out q \<Longrightarrow> pr_client_generated q \<Longrightarrow> added ps i (property__add ps q)"
  by (auto simp: added_def)

lemma add_byte_read:
  assumes "i \<notin> set (map pr_identifier ps)" "mosquitto_property_add_byte (Some ps) i b mem = Inr qs"
  shows "added ps i qs \<and> snd (mosquitto_property_read_byte qs i False) = Some b"
proof -
  let ?q = "property0\<lparr>pr_client_generated := True, pr_identifier := i, pr_i8 := b\<rparr>"
  have "prop_type i = Some MQTT_PROP_TYPE_BYTE" "qs = property__add ps ?q"
    using assms(2) by (auto simp: mosquitto_property_add_byte_def split: if_splits)
  with read_member_added [OF assms(1), of ?q _ pr_i8] show ?thesis
    by (simp add: mosquitto_property_read_byte_def addedI prop_out_def)
qed

lemma add_int16_read:
  assumes "i \<notin> set (map pr_identifier ps)" "mosquitto_property_add_int16 (Some ps) i h mem = Inr qs"
  shows "added ps i qs \<and> snd (mosquitto_property_read_int16 qs i False) = Some h"
proof -
  let ?q = "property0\<lparr>pr_client_generated := True, pr_identifier := i, pr_i16 := h\<rparr>"
  have "prop_type i = Some MQTT_PROP_TYPE_INT16" "qs = property__add ps ?q"
    using assms(2) by (auto simp: mosquitto_property_add_int16_def split: if_splits)
  with read_member_added [OF assms(1), of ?q _ pr_i16] show ?thesis
    by (simp add: mosquitto_property_read_int16_def addedI prop_out_def)
qed

lemma add_int32_read:
  assumes "i \<notin> set (map pr_identifier ps)" "mosquitto_property_add_int32 (Some ps) i w mem = Inr qs"
  shows "added ps i qs \<and> snd (mosquitto_property_read_int32 qs i False) = Some w"
proof -
  let ?q = "property0\<lparr>pr_client_generated := True, pr_identifier := i, pr_i32 := w\<rparr>"
  have "prop_type i = Some MQTT_PROP_TYPE_INT32" "qs = property__add ps ?q"
    using assms(2) by (auto simp: mosquitto_property_add_int32_def split: if_splits)
  with read_member_added [OF assms(1), of ?q _ pr_i32] show ?thesis
    by (simp add: mosquitto_property_read_int32_def addedI prop_out_def)
qed

lemma add_varint_read:
  assumes "i \<notin> set (map pr_identifier ps)" "mosquitto_property_add_varint (Some ps) i w mem = Inr qs"
  shows "added ps i qs \<and> snd (mosquitto_property_read_varint qs i False) = Some w"
proof -
  let ?q = "property0\<lparr>pr_client_generated := True, pr_identifier := i, pr_varint := w\<rparr>"
  have i: "i = 11" "\<not> w > 268435455" "qs = property__add ps ?q"
    using assms(2) by (auto simp: mosquitto_property_add_varint_def split: if_splits)
  then have "prop_type i = Some MQTT_PROP_TYPE_VARINT" "unat w < 268435456"
    by (simp_all add: prop_type_def word_less_nat_alt)
  with read_member_added [OF assms(1), of ?q _ pr_varint] i(3) show ?thesis
    by (simp add: mosquitto_property_read_varint_def addedI prop_out_def)
qed

lemma read_buffer_added:
  assumes "i \<notin> set (map pr_identifier ps)" "pr_identifier q = i" "prop_type i = Some t" "ms_ok (member q)"
  shows "read_buffer t member (property__add ps q) i True False [] = Inr ([q], Some (ms_bytes (member q) @ [0]))"
proof -
  have "ms_len (member q) = 0 \<or> ms_v (member q) \<noteq> None"
    using assms(4) by (auto simp: ms_ok_def ms_buf_def unat_eq_0)
  then show ?thesis using read_member_added [OF assms(1-3), of member] assms(4)
    by (auto simp: read_buffer_def dup_ms_def ms_ok_def ms_bytes_def)
qed

lemma add_binary_read:
  assumes "i \<notin> set (map pr_identifier ps)" "mosquitto_property_add_binary (Some ps) i v n mem = Inr qs"
  shows "added ps i qs \<and> (\<exists>p. mosquitto_property_read_binary qs i True True False [] = Inr (p, Some (take (unat n) v @ [0])))"
proof -
  let ?q = "if n \<noteq> 0 then property0\<lparr>pr_client_generated := True, pr_identifier := i,
      pr_bin := \<lparr>ms_v = Some (take (unat n) v), ms_len = n\<rparr>\<rparr> else property0\<lparr>pr_client_generated := True, pr_identifier := i\<rparr>"
  have a: "prop_type i = Some MQTT_PROP_TYPE_BINARY" "qs = property__add ps ?q" "n \<noteq> 0 \<longrightarrow> unat n \<le> length v"
    using assms(2) by (auto simp: mosquitto_property_add_binary_def Let_def not_less split: if_splits prod.splits bool.splits)
  then have ok: "ms_ok (pr_bin ?q)" "ms_bytes (pr_bin ?q) = take (unat n) v" "pr_identifier ?q = i"
    by (auto simp: ms_ok_def ms_buf_def ms_bytes_def property0_def ms0_def)
  have "qs \<noteq> []" using a(2) by (simp add: property__add_def)
  then show ?thesis using read_buffer_added [OF assms(1) ok(3) a(1), of pr_bin] ok a
    by (auto simp: mosquitto_property_read_binary_def intro!: addedI simp: prop_out_def)
qed

lemma add_string_read:
  assumes "i \<notin> set (map pr_identifier ps)" "mosquitto_property_add_string (Some ps) i (Some v) mem = Inr qs"
    "length v < 65536"
  shows "added ps i qs \<and> utf8_wf v \<and> (\<exists>p. mosquitto_property_read_string qs i True False [] = Inr (p, Some (v @ [0])))"
proof -
  have l: "int_of_size (length v) = int (length v)"
    using assms(3) by (simp add: int_of_size_def signed_of_nat signed_take_bit_int_eq_self)
  have u: "validate_cstr v (length v) = (if utf8_wf v then Inr () else Inl (Rc MOSQ_ERR_MALFORMED_UTF8))"
    using utf8_loop_suffix [of "[]" v "[]"] assms(3) l by (simp add: validate_cstr_def mosquitto_validate_utf8_def)
  let ?q = "if v \<noteq> [] then property0\<lparr>pr_client_generated := True, pr_identifier := i,
      pr_s := \<lparr>ms_v = Some (v @ [0]), ms_len = of_nat (length v)\<rparr>\<rparr> else property0\<lparr>pr_client_generated := True, pr_identifier := i\<rparr>"
  have a: "utf8_wf v" "prop_type i = Some MQTT_PROP_TYPE_STRING" "qs = property__add ps ?q"
    using assms(2) u by (auto simp: mosquitto_property_add_string_def Let_def split: if_splits prod.splits bool.splits)
  then have ok: "ms_ok (pr_s ?q)" "ms_bytes (pr_s ?q) = v" "pr_identifier ?q = i"
    using assms(3) by (auto simp: ms_ok_def ms_buf_def ms_bytes_def property0_def ms0_def unat_len16)
  then show ?thesis using read_buffer_added [OF assms(1) ok(3) a(2), of pr_s] a
    by (auto simp: mosquitto_property_read_string_def intro!: addedI simp: prop_out_def)
qed

lemma validate_name:
  assumes "length v < 65536"
  shows "validate_cstr v (length v) = (if utf8_wf v then Inr () else Inl (Rc MOSQ_ERR_MALFORMED_UTF8))"
proof -
  have l: "int_of_size (length v) = int (length v)"
    using assms by (simp add: int_of_size_def signed_of_nat signed_take_bit_int_eq_self)
  then show ?thesis
    using utf8_loop_suffix [of "[]" v "[]"] assms by (simp add: validate_cstr_def mosquitto_validate_utf8_def)
qed

text \<open>A length of zero makes the validator accept every value.\<close>

lemma validate_no_length: "validate_cstr v 0 = Inr ()"
  by (simp add: validate_cstr_def mosquitto_validate_utf8_def int_of_size_def utf8_loop.simps)

lemma add_pair_read:
  assumes "i \<notin> set (map pr_identifier ps)"
    "mosquitto_property_add_string_pair (Some ps) i (Some n) (Some v) mem = Inr qs \<and> length n < 65536 \<and> length v < 65536"
  shows "added ps i qs \<and> utf8_wf n \<and>
    (\<exists>p. mosquitto_property_read_string_pair qs i True True False [] = Inr (p, Some (n @ [0]), Some (v @ [0])))"
proof -
  let ?q = "property0\<lparr>pr_client_generated := True, pr_identifier := 38,
      pr_name := \<lparr>ms_v = Some (n @ [0]), ms_len = of_nat (length n)\<rparr>,
      pr_s := \<lparr>ms_v = Some (v @ [0]), ms_len = of_nat (length v)\<rparr>\<rparr>"
  have len: "length n < 65536" "length v < 65536" using assms(2) by simp_all
  have a: "utf8_wf n" "i = 38" "qs = property__add ps ?q"
    using assms(2) validate_name [OF len(1)] validate_no_length [of v]
    by (auto simp: mosquitto_property_add_string_pair_def Let_def split: if_splits prod.splits bool.splits)
  have ok: "ms_ok (pr_name ?q)" "ms_ok (pr_s ?q)"
    using len by (simp_all add: ms_ok_def ms_buf_def unat_len16)
  have "property__get_property (property__add ps ?q) 38 False = [?q]"
    using get_property_added [of 38 ps ?q] assms(1) a(2) by simp
  then have "mosquitto_property_read_string_pair (property__add ps ?q) 38 True True False [] =
      Inr ([?q], Some (n @ [0]), Some (v @ [0]))"
    using len unfolding mosquitto_property_read_string_pair_def
    by (simp add: dup_ms_def ms_buf_def unat_len16) (simp add: property__add_def)
  moreover have "added ps 38 (property__add ps ?q)"
    using ok by (intro addedI) (simp_all add: prop_out_def prop_type_def)
  ultimately show ?thesis using a by blast
qed

text \<open>The validator lets a string of 65536 bytes pass, whose length in 16 bits is zero.\<close>

lemma add_string_65536:
  assumes "i \<notin> set (map pr_identifier ps)"
    "prop_type i = Some MQTT_PROP_TYPE_STRING \<and> utf8_wf s \<and> length s = 65536"
  shows "\<exists>qs p. mosquitto_property_add_string (Some ps) i (Some s) [] = Inr qs \<and>
    mosquitto_property_read_string qs i True False [] = Inr (p, Some [0])"
proof -
  let ?q = "property0\<lparr>pr_client_generated := True, pr_identifier := i, pr_s := \<lparr>ms_v = Some (s @ [0]), ms_len = 0\<rparr>\<rparr>"
  have "validate_cstr s (length s) = Inr ()"
    using utf8_loop_suffix [of "[]" s "[]"] assms(2)
    by (simp add: validate_cstr_def mosquitto_validate_utf8_def int_of_size_def signed_of_nat)
  moreover have "s \<noteq> []" using assms(2) by auto
  moreover have "(of_nat (length s) :: u16) = 0" using assms(2) by (simp add: word_unat_eq_iff unat_of_nat)
  ultimately have a: "mosquitto_property_add_string (Some ps) i (Some s) [] = Inr (property__add ps ?q)"
    using conjunct1 [OF assms(2)] by (simp add: mosquitto_property_add_string_def)
  have "read_member MQTT_PROP_TYPE_STRING pr_s (property__add ps ?q) i False = ([?q], Some (pr_s ?q))"
    using read_member_added [OF assms(1), of ?q _ pr_s] assms(2) by simp
  then have "mosquitto_property_read_string (property__add ps ?q) i True False [] = Inr ([?q], Some [0])"
    by (simp add: mosquitto_property_read_string_def read_buffer_def dup_ms_def property__add_def)
  with a show ?thesis by blast
qed

lemma ascii_wf:
  assumes "utf8_allowed c" "c < 128"
  shows "utf8_wf (replicate n (of_nat c))"
proof -
  have "replicate n (of_nat c) = concat (map utf8_enc (replicate n c))"
    using assms(2) by (induction n) (simp_all add: utf8_enc_def)
  then show ?thesis using assms(1) unfolding utf8_wf_def by (metis in_set_replicate)
qed

section \<open>Copies\<close>

lemma strdup_wf: "utf8_wf bs \<Longrightarrow> strdup_buf (Some (bs @ [0])) [] = (Inr (Some (bs @ [0])), [])"
  using utf8_wf_no_nul [of bs] by (auto simp: strdup_buf_def takeWhile_append takeWhile_eq_all_conv)

text \<open>A string member that is null, as the readers store the empty string.\<close>

definition has_null_string :: "mqtt5__property \<Rightarrow> bool" where
  "has_null_string p \<longleftrightarrow>
     (case prop_type (pr_identifier p) of
        Some MQTT_PROP_TYPE_STRING \<Rightarrow> ms_v (pr_s p) = None
      | Some MQTT_PROP_TYPE_STRING_PAIR \<Rightarrow> ms_v (pr_s p) = None \<or> ms_v (pr_name p) = None
      | _ \<Rightarrow> False)"

text \<open>The copy of binary data has no terminator; everything else is copied as it is.\<close>

definition copied :: "mqtt5__property \<Rightarrow> mqtt5__property" where
  "copied p =
     (if prop_type (pr_identifier p) = Some MQTT_PROP_TYPE_BINARY
      then p\<lparr>pr_bin := \<lparr>ms_v = Some (ms_bytes (pr_bin p)), ms_len = ms_len (pr_bin p)\<rparr>\<rparr> else p)"

lemma copied_enc: 
  assumes "prop_wf p"
  shows "prop_enc (copied p) = prop_enc p"
proof (cases "prop_type (pr_identifier p) = Some MQTT_PROP_TYPE_BINARY")
  case True
  then have "ms_wf (pr_bin p)" using assms by (simp add: prop_wf_def Let_def)
  then have "ms_bytes \<lparr>ms_v = Some (ms_bytes (pr_bin p)), ms_len = ms_len (pr_bin p)\<rparr> = ms_bytes (pr_bin p)"
    by (simp add: ms_bytes_def ms_buf_def)
  then show ?thesis using True by (simp add: copied_def prop_enc_def value_enc_def ms_enc_def)
qed (simp add: copied_def)

lemma strdup_ms:
  assumes "ms_wf s" "utf8_wf (ms_bytes s)" "ms_v s = Some b"
  shows "strdup_buf (Some b) [] = (Inr (Some b), [])"
proof -
  from assms(1) obtain bs where "s = ms_of bs" "ms_bytes s = bs" by (rule ms_wfE)
  then have "b = ms_bytes s @ [0]" using assms(3) by (auto simp: ms_of_def split: if_splits)
  then show ?thesis using strdup_wf [OF assms(2)] by simp
qed

lemma strdup_null [simp]: "strdup_buf None mem = (Inl Null_deref, mem)"
  by (simp add: strdup_buf_def)

lemma copy_property_wf:
  assumes "prop_wf p"
  shows "copy_property p [] = (if has_null_string p then Inl Null_deref else Inr (copied p), [])"
proof -
  let ?q = "property0\<lparr>pr_identifier := pr_identifier p\<rparr>"
  obtain t where t: "prop_type (pr_identifier p) = Some t"
    using assms by (auto simp: prop_wf_def Let_def split: option.splits)
  note d = copy_property_def has_null_string_def copied_def Let_def
  show ?thesis
  proof (cases t)
    case MQTT_PROP_TYPE_BYTE
    then have "?q\<lparr>pr_i8 := pr_i8 p\<rparr> = p" using assms t by (simp add: prop_wf_def Let_def)
    then show ?thesis using t MQTT_PROP_TYPE_BYTE by (simp add: d)
  next
    case MQTT_PROP_TYPE_INT16
    then have "?q\<lparr>pr_i16 := pr_i16 p\<rparr> = p" using assms t by (simp add: prop_wf_def Let_def)
    then show ?thesis using t MQTT_PROP_TYPE_INT16 by (simp add: d)
  next
    case MQTT_PROP_TYPE_INT32
    then have "?q\<lparr>pr_i32 := pr_i32 p\<rparr> = p" using assms t by (simp add: prop_wf_def Let_def)
    then show ?thesis using t MQTT_PROP_TYPE_INT32 by (simp add: d)
  next
    case MQTT_PROP_TYPE_VARINT
    then have "?q\<lparr>pr_varint := pr_varint p\<rparr> = p" using assms t by (simp add: prop_wf_def Let_def)
    then show ?thesis using t MQTT_PROP_TYPE_VARINT by (simp add: d)
  next
    case MQTT_PROP_TYPE_BINARY
    let ?b = "\<lparr>ms_v = Some (ms_bytes (pr_bin p)), ms_len = ms_len (pr_bin p)\<rparr>"
    have p: "?q\<lparr>pr_bin := pr_bin p\<rparr> = p" "ms_wf (pr_bin p)"
      using assms t MQTT_PROP_TYPE_BINARY by (simp_all add: prop_wf_def Let_def)
    have e: "?q\<lparr>pr_bin := ?b\<rparr> = p\<lparr>pr_bin := ?b\<rparr>" using arg_cong [OF p(1), of "\<lambda>r. r\<lparr>pr_bin := ?b\<rparr>"] by simp
    have "ms_ok (pr_bin p)" using p(2) by (rule ms_wf_ok)
    then have "\<not> (ms_len (pr_bin p) \<noteq> 0 \<and> ms_v (pr_bin p) = None)" "\<not> length (ms_buf (pr_bin p)) < unat (ms_len (pr_bin p))"
      by (auto simp: ms_ok_def ms_buf_def unat_eq_0)
    then show ?thesis using t MQTT_PROP_TYPE_BINARY e unfolding d by simp
  next
    case MQTT_PROP_TYPE_STRING
    then have p: "?q\<lparr>pr_s := pr_s p\<rparr> = p" "ms_wf (pr_s p)" "utf8_wf (ms_bytes (pr_s p))"
      using assms t by (simp_all add: prop_wf_def Let_def)
    show ?thesis
    proof (cases "ms_v (pr_s p)")
      case (Some b)
      then have "\<lparr>ms_v = Some b, ms_len = ms_len (pr_s p)\<rparr> = pr_s p" by (metis ms_of_eq)
      then have "?q\<lparr>pr_s := \<lparr>ms_v = Some b, ms_len = ms_len (pr_s p)\<rparr>\<rparr> = p" using p(1) by (simp only:)
      then show ?thesis using t MQTT_PROP_TYPE_STRING Some strdup_ms [OF p(2,3) Some] by (simp add: d)
    qed (use t MQTT_PROP_TYPE_STRING in \<open>simp add: d\<close>)
  next
    case MQTT_PROP_TYPE_STRING_PAIR
    then have p: "?q\<lparr>pr_name := pr_name p, pr_s := pr_s p\<rparr> = p" "ms_wf (pr_s p)" "utf8_wf (ms_bytes (pr_s p))"
      "ms_wf (pr_name p)" "utf8_wf (ms_bytes (pr_name p))"
      using assms t by (simp_all add: prop_wf_def Let_def)
    have p': "?q\<lparr>pr_s := pr_s p, pr_name := pr_name p\<rparr> = p" by (rule trans [OF _ p(1)]) simp
    show ?thesis
    proof (cases "ms_v (pr_s p)")
      case s: (Some b)
      then have b: "\<lparr>ms_v = Some b, ms_len = ms_len (pr_s p)\<rparr> = pr_s p" by (metis ms_of_eq)
      show ?thesis
      proof (cases "ms_v (pr_name p)")
        case n: (Some c)
        then have c: "\<lparr>ms_v = Some c, ms_len = ms_len (pr_name p)\<rparr> = pr_name p" by (metis ms_of_eq)
        have "?q\<lparr>pr_s := \<lparr>ms_v = Some b, ms_len = ms_len (pr_s p)\<rparr>,
            pr_name := \<lparr>ms_v = Some c, ms_len = ms_len (pr_name p)\<rparr>\<rparr> = p"
          using p' b c by (simp only:)
        then show ?thesis using t MQTT_PROP_TYPE_STRING_PAIR n s
          strdup_ms [OF p(2,3) s] strdup_ms [OF p(4,5) n] by (simp add: d)
      qed (use t MQTT_PROP_TYPE_STRING_PAIR s strdup_ms [OF p(2,3) s] in \<open>simp add: d\<close>)
    qed (use t MQTT_PROP_TYPE_STRING_PAIR in \<open>simp add: d\<close>)
  qed
qed

lemma copy_all_loop_wf:
  "list_all prop_wf ps \<Longrightarrow> copy_all_loop dest ps [] =
     (if \<exists>p \<in> set ps. has_null_string p then Inl Null_deref else Inr (dest @ map copied ps), [])"
  by (induction ps arbitrary: dest) (auto simp: copy_property_wf)

section \<open>Properties\<close>

text \<open>
  the names and the identifiers of the properties correspond: every property type has a
  name, and looking the name up, in any capitalisation, gives the identifier back with the type
  by which the readers and writers treat it.
\<close>

theorem property_names_roundtrip:
  "(mosquitto_property_identifier_to_string i = None \<longleftrightarrow> prop_type i = None)
 \<and> (mosquitto_property_identifier_to_string i = Some n \<and> strcasecmp_eq m n \<longrightarrow>
      mosquitto_string_to_property_info (Some m) = Inr (i, the (prop_type i)))"
proof -
  have "mosquitto_property_identifier_to_string i = None \<longleftrightarrow> prop_type i = None"
    using property_names_complete [of i]
    by (simp add: mosquitto_property_identifier_to_string_def map_of_eq_None_iff)
  moreover have "mosquitto_property_identifier_to_string i = Some n \<Longrightarrow> (i, n) \<in> set property_names"
    unfolding mosquitto_property_identifier_to_string_def by (rule map_of_SomeD)
  ultimately show ?thesis using info_of_name by blast
qed

theorem property_names_roundtrip_witness:
  "mosquitto_string_to_property_info (Some ''Topic-Alias'') = Inr (35, MQTT_PROP_TYPE_INT16)"
proof -
  have "mosquitto_property_identifier_to_string 35 = Some ''topic-alias''"
    by (simp add: mosquitto_property_identifier_to_string_def property_names_def)
  moreover have "strcasecmp_eq ''Topic-Alias'' ''topic-alias''" by code_simp
  moreover have "prop_type 35 = Some MQTT_PROP_TYPE_INT16" by (simp add: prop_type_def)
  ultimately show ?thesis using property_names_roundtrip [of 35 "''topic-alias''" "''Topic-Alias''"] by simp
qed

text \<open>
  the idiom of the callers, the first property with an identifier and then from each node
  the next, visits exactly the properties with that identifier, in order.
\<close>

theorem property_iteration:
  "visit (length ps) (property__get_property ps i False) i = filter (\<lambda>p. pr_identifier p = i) ps"
  using visit_filter [of ps "length ps" i] by (simp add: get_property_first)

text \<open>
  C35: a value added under an identifier that the list does not hold yet is the value read under
  it, for every type of property, user properties included, as long as the strings are shorter
  than 65536 bytes (without allocation failures in the reader), and what the functions add can be
  written to a packet. A string of exactly 65536 bytes passes the validator but has the length 0
  after the conversion to \<open>uint16_t\<close>: it is accepted and read back as the empty string.
\<close>

theorem property_add_read:
  assumes "i \<notin> set (map pr_identifier ps)"
  shows
   "(mosquitto_property_add_byte (Some ps) i b mem = Inr qs \<longrightarrow>
       added ps i qs \<and> snd (mosquitto_property_read_byte qs i False) = Some b)
  \<and> (mosquitto_property_add_int16 (Some ps) i h mem = Inr qs \<longrightarrow>
       added ps i qs \<and> snd (mosquitto_property_read_int16 qs i False) = Some h)
  \<and> (mosquitto_property_add_int32 (Some ps) i w mem = Inr qs \<longrightarrow>
       added ps i qs \<and> snd (mosquitto_property_read_int32 qs i False) = Some w)
  \<and> (mosquitto_property_add_varint (Some ps) i w mem = Inr qs \<longrightarrow>
       added ps i qs \<and> snd (mosquitto_property_read_varint qs i False) = Some w)
  \<and> (mosquitto_property_add_binary (Some ps) i v n mem = Inr qs \<longrightarrow> added ps i qs \<and>
       (\<exists>p. mosquitto_property_read_binary qs i True True False [] = Inr (p, Some (take (unat n) v @ [0]))))
  \<and> (mosquitto_property_add_string (Some ps) i (Some s) mem = Inr qs \<and> length s < 65536 \<longrightarrow>
       added ps i qs \<and> utf8_wf s \<and>
       (\<exists>p. mosquitto_property_read_string qs i True False [] = Inr (p, Some (s @ [0]))))
  \<and> (mosquitto_property_add_string_pair (Some ps) i (Some name) (Some s) mem = Inr qs \<and>
       length name < 65536 \<and> length s < 65536 \<longrightarrow>
       added ps i qs \<and> utf8_wf name \<and>
       (\<exists>p. mosquitto_property_read_string_pair qs i True True False [] = Inr (p, Some (name @ [0]), Some (s @ [0]))))
  \<and> (prop_type i = Some MQTT_PROP_TYPE_STRING \<and> utf8_wf s \<and> length s = 65536 \<longrightarrow>
       (\<exists>qs p. mosquitto_property_add_string (Some ps) i (Some s) [] = Inr qs \<and>
         mosquitto_property_read_string qs i True False [] = Inr (p, Some [0])))"
  using add_byte_read [OF assms, of b mem qs] add_int16_read [OF assms, of h mem qs] add_int32_read [OF assms, of w mem qs]
    add_varint_read [OF assms, of w mem qs] add_binary_read [OF assms, of v n mem qs]
    add_string_read [OF assms, of s mem qs] add_pair_read [OF assms, of name s mem qs] add_string_65536 [OF assms, of s]
  by satx

theorem property_add_read_witness:
  "(\<exists>qs. mosquitto_property_add_int16 (Some []) 35 7 [] = Inr qs \<and>
     snd (mosquitto_property_read_int16 qs 35 False) = Some 7) \<and>
   (\<exists>qs p. mosquitto_property_add_string (Some []) 31 (Some (replicate 65536 97)) [] = Inr qs \<and>
     mosquitto_property_read_string qs 31 True False [] = Inr (p, Some [0]))"
proof -
  obtain qs where "mosquitto_property_add_int16 (Some []) 35 7 [] = Inr qs"
    by (simp add: mosquitto_property_add_int16_def prop_type_def)
  then have "\<exists>qs. mosquitto_property_add_int16 (Some []) 35 7 [] = Inr qs \<and>
     snd (mosquitto_property_read_int16 qs 35 False) = Some 7"
    using property_add_read [of 35 "[]" 0 "[]" qs 7 0 "[]" 0 "[]" "[]"] by simp
  moreover have "\<exists>qs p. mosquitto_property_add_string (Some []) 31 (Some (replicate 65536 97)) [] = Inr qs \<and>
     mosquitto_property_read_string qs 31 True False [] = Inr (p, Some [0])"
    using property_add_read [of 31 "[]" 0 "[]" "[]" 0 0 "[]" 0 "replicate 65536 97" "[]"] ascii_wf [of 97 65536]
    by (simp add: prop_type_def utf8_allowed_def)
  ultimately show ?thesis by blast
qed

text \<open>
  C34: without allocation failures a copy of properties that came from the wire has the same
  encoding, node by node; but when one of them holds an empty string, which the readers store
  as a null pointer, copying passes that pointer to \<open>strdup\<close>.
\<close>

theorem property_copy_all_spec:
  assumes "list_all prop_wf src" "src \<noteq> []"
  shows "if \<exists>p \<in> set src. has_null_string p
    then fst (fst (mosquitto_property_copy_all (Some d) src [])) = Inl Null_deref
    else \<exists>dest. fst (mosquitto_property_copy_all (Some d) src []) = (Inr (), Some dest)
           \<and> map prop_enc dest = map prop_enc src"
proof -
  have "map prop_enc (map copied src) = map prop_enc src"
    using assms(1) by (simp add: list_all_iff copied_enc)
  then show ?thesis using assms copy_all_loop_wf [OF assms(1), of "[]"]
    by (auto simp: mosquitto_property_copy_all_def)
qed

theorem property_copy_all_spec_witness:
  "list_all prop_wf [property0\<lparr>pr_identifier := 3\<rparr>] \<and>
   fst (fst (mosquitto_property_copy_all (Some []) [property0\<lparr>pr_identifier := 3\<rparr>] [])) = Inl Null_deref"
proof -
  have t: "prop_type 3 = Some MQTT_PROP_TYPE_STRING" by (simp add: prop_type_def)
  have m: "ms_wf ms0" "ms_bytes ms0 = []" by (simp_all add: ms0_of)
  have s: "pr_s property0 = ms0" "ms_v ms0 = None" by (simp_all add: property0_def ms0_def)
  have "property0\<lparr>pr_identifier := 3, pr_s := ms0\<rparr> = property0\<lparr>pr_identifier := 3\<rparr>" by (simp add: property0_def)
  then have w: "list_all prop_wf [property0\<lparr>pr_identifier := 3\<rparr>]" by (simp add: prop_wf_def t m s)
  have "has_null_string (property0\<lparr>pr_identifier := 3\<rparr>)" by (simp add: has_null_string_def t s)
  then show ?thesis using property_copy_all_spec [OF w, of "[]"] w by simp
qed

text \<open>
  a user property can be added with any value below 65536 bytes and is stored with it, even
  if the value is not well-formed UTF-8: only the name is validated.
\<close>

theorem user_property_value_unchecked:
  assumes "MQTT_PROP_USER_PROPERTY \<notin> set (map pr_identifier ps)"
    and "length n < 65536" "utf8_wf n" "length v < 65536"
  shows "\<exists>qs p. mosquitto_property_add_string_pair (Some ps) MQTT_PROP_USER_PROPERTY (Some n) (Some v) [] = Inr qs
    \<and> added ps MQTT_PROP_USER_PROPERTY qs
    \<and> mosquitto_property_read_string_pair qs MQTT_PROP_USER_PROPERTY True True False [] =
        Inr (p, Some (n @ [0]), Some (v @ [0]))"
proof -
  obtain qs where q: "mosquitto_property_add_string_pair (Some ps) MQTT_PROP_USER_PROPERTY (Some n) (Some v) [] = Inr qs"
    using validate_name [OF assms(2)] assms(3) validate_no_length [of v]
    by (simp add: mosquitto_property_add_string_pair_def)
  then show ?thesis using add_pair_read [OF assms(1), of n v "[]" qs] assms(2,4) by blast
qed

theorem user_property_value_unchecked_witness:
  "\<not> utf8_wf [0xFF] \<and> (\<exists>qs. mosquitto_property_add_string_pair (Some []) 38 (Some []) (Some [0xFF]) [] = Inr qs)"
proof -
  have "\<not> utf8_wf [0xFF]"
  proof
    assume "utf8_wf [0xFF]"
    then have "mosquitto_validate_utf8 (Some [0xFF, 0]) 1 = Inr ()"
      using utf8_loop_suffix [of "[]" "[0xFF]" "[]"] by (simp add: mosquitto_validate_utf8_def)
    moreover have "mosquitto_validate_utf8 (Some [0xFF, 0]) 1 = Inl (Rc MOSQ_ERR_MALFORMED_UTF8)" by code_simp
    ultimately show False by simp
  qed
  then show ?thesis using user_property_value_unchecked [of "[]" "[]" "[0xFF]"] by auto
qed

end
