(* ===== verification/Broker_State.thy ===== *)
theory Broker_State
  imports Property_List "HOL-Library.Multiset"
begin

text \<open>
  The state of the broker that \<open>src/database.c\<close>, \<open>src/retain.c\<close> and \<open>src/subs.c\<close> share
  (\<open>struct mosquitto_db\<close>): the stored messages, the clients with their two message queues, the
  configuration and the counters. Stored messages live in a heap from addresses to records, since
  queues, retained messages and the list of all messages point to the same record; an address is
  never used twice. Clients are addressed by \<open>cptr\<close>. From an access to a freed message or a failed
  \<open>assert\<close> on, the C program is undefined; the model sets \<open>d_fault\<close>, and that it stays unset is
  among the theorems. Packets that are sent are recorded in \<open>d_sent\<close>; whether a send succeeds, and
  how long the queue of outgoing packets is afterwards, is taken from \<open>d_net\<close> (an empty list:
  every send succeeds and the queue stays as long as it is). Byte counts are integers: their
  overflow is not modelled.
\<close>

type_synonym cptr = nat
type_synonym mptr = nat

section \<open>Data\<close>

datatype mosq_msg_origin = mosq_mo_client | mosq_mo_broker

datatype mosquitto_msg_direction = mosq_md_in | mosq_md_out

datatype mosquitto_msg_state =
    mosq_ms_invalid | mosq_ms_publish_qos0 | mosq_ms_publish_qos1 | mosq_ms_wait_for_puback
  | mosq_ms_publish_qos2 | mosq_ms_wait_for_pubrec | mosq_ms_resend_pubrel | mosq_ms_wait_for_pubrel
  | mosq_ms_resend_pubcomp | mosq_ms_wait_for_pubcomp | mosq_ms_send_pubrec | mosq_ms_queued

datatype mosquitto__protocol =
    mosq_p_invalid | mosq_p_mqtt31 | mosq_p_mqtt311 | mosq_p_mqtts | mosq_p_mqtt5

datatype mosquitto_client_state =
    mosq_cs_new | mosq_cs_connected | mosq_cs_disconnecting | mosq_cs_active | mosq_cs_connect_pending
  | mosq_cs_connect_srv | mosq_cs_disconnect_ws | mosq_cs_disconnected | mosq_cs_socks5_new
  | mosq_cs_socks5_start | mosq_cs_socks5_request | mosq_cs_socks5_reply | mosq_cs_socks5_auth_ok
  | mosq_cs_socks5_userpass_reply | mosq_cs_socks5_send_userpass | mosq_cs_expiring | mosq_cs_duplicate
  | mosq_cs_disconnect_with_will | mosq_cs_disused | mosq_cs_authenticating | mosq_cs_reauthenticating

text \<open>The part of \<open>struct mosquitto__listener\<close> that the operations read.\<close>

record mosquitto__listener =
  ls_mount_point :: "string option"
  ls_max_topic_alias :: u16
  ls_max_qos :: u8

record mosquitto_msg_store =
  s_db_id :: nat
  s_source_id :: "string option"
  s_source_listener :: "mosquitto__listener option"
  s_source_username :: "string option"
  s_dest_ids :: "string option list option"
  s_ref_count :: int
  s_topic :: "string option"
  s_properties :: "mqtt5__property list"
  s_payload :: "u8 list"
  s_message_expiry_time :: int
  s_payloadlen :: u32
  s_origin :: mosq_msg_origin
  s_source_mid :: u16
  s_qos :: u8
  s_retain :: bool

record mosquitto_client_msg =
  m_store :: mptr
  m_properties :: "mqtt5__property list"
  m_timestamp :: int
  m_mid :: u16
  m_qos :: u8
  m_retain :: bool
  m_direction :: mosquitto_msg_direction
  m_state :: mosquitto_msg_state
  m_dup :: bool

record mosquitto_msg_data =
  inflight :: "mosquitto_client_msg list"
  queued :: "mosquitto_client_msg list"
  msg_bytes :: int
  msg_bytes12 :: int
  msg_count :: int
  msg_count12 :: int
  inflight_quota :: int
  inflight_maximum :: u16

text \<open>The part of \<open>struct mosquitto__bridge\<close> that the operations read.\<close>

datatype mosquitto__bridge_direction = bd_out | bd_in | bd_both

record mosquitto__bridge_topic =
  bt_local_prefix :: "string option"
  bt_remote_prefix :: "string option"
  bt_local_topic :: "string option"
  bt_remote_topic :: "string option"
  bt_direction :: mosquitto__bridge_direction

record mosquitto__bridge =
  b_lazy :: bool
  b_clean_start :: bool
  b_clean_start_local :: bool
  b_threshold :: int
  b_lazy_reconnect :: bool
  b_topic_remapping :: bool
  b_topics :: "mosquitto__bridge_topic list"

text \<open>
  The trees of subscriptions and of retained messages: \<open>struct mosquitto__subhier\<close> and
  \<open>struct mosquitto__retainhier\<close>, with the levels of the topics as keys of the hash tables of
  children. A pointer to a node is the list of keys on the way to it, which is what the parent
  pointers are for.
\<close>

record mosquitto__subleaf =
  l_context :: cptr
  l_identifier :: u32
  l_qos :: u8
  l_no_local :: bool
  l_retain_as_published :: bool

datatype mosquitto__subhier =
  Subhier (h_subs: "mosquitto__subleaf list")
    (h_shared: "(string \<times> mosquitto__subleaf list) list")
    (h_children: "(string \<times> mosquitto__subhier) list")

datatype mosquitto__retainhier =
  Retainhier (r_retained: "mptr option") (r_children: "(string \<times> mosquitto__retainhier) list")

record mosquitto =
  c_id :: "string option"
  c_username :: "string option"
  c_connected :: bool
  c_state :: mosquitto_client_state
  c_protocol :: mosquitto__protocol
  c_max_qos :: u8
  c_clean_start :: bool
  c_is_dropping :: bool
  c_bridge :: "mosquitto__bridge option"
  c_last_mid :: u16
  c_out_packet_count :: int
  c_msgs_in :: mosquitto_msg_data
  c_msgs_out :: mosquitto_msg_data
  c_subs :: "string list option list"
  c_shared_subs :: "(string list \<times> string) option list"
  c_listener :: "mosquitto__listener option"
  c_is_bridge :: bool
  c_aliases :: "(u16 \<times> string option) list"
  c_ping_t :: int

record mosquitto__config =
  max_inflight_bytes :: int
  max_queued_bytes :: int
  max_queued_messages :: int
  queue_qos0_messages :: bool
  allow_duplicate_messages :: bool
  retain_available :: bool
  upgrade_outgoing_qos :: bool
  check_retain_source :: bool
  message_size_limit :: u32

datatype packet_event =
    Publish u16 "string option" u32 u8 bool bool u32
  | Puback u16 u8 "mqtt5__property list"
  | Pubrec u16 u8 "mqtt5__property list"
  | Pubrel u16
  | Pubcomp u16
  | Suback u16 "u8 list"
  | Unsuback u16 "u8 list"
  | Pingresp
  | Disconnect u8

record mosquitto_db =
  d_heap :: "mptr \<Rightarrow> mosquitto_msg_store option"
  d_next :: mptr
  d_msg_store :: "mptr list"
  d_last_db_id :: nat
  d_msg_store_count :: int
  d_msg_store_bytes :: int
  d_contexts :: "cptr \<Rightarrow> mosquitto"
  d_config :: mosquitto__config
  d_now_s :: int
  d_now_real_s :: int
  d_persistence_changes :: int
  d_retained_count :: int
  d_msgs_dropped :: int
  d_mem :: mem
  d_net :: "(mosq_err \<times> int) list"
  d_sent :: "(cptr \<times> packet_event) list"
  d_fault :: bool
  d_subs :: "(string, mosquitto__subhier) ht"
  d_retains :: "(string, mosquitto__retainhier) ht"
  d_subscription_count :: int
  d_shared_subscription_count :: int
  d_pub_bytes_received :: int

section \<open>Access\<close>

definition get_ctx :: "cptr \<Rightarrow> mosquitto_db \<Rightarrow> mosquitto" where
  "get_ctx c db = d_contexts db c"

definition upd_ctx :: "cptr \<Rightarrow> (mosquitto \<Rightarrow> mosquitto) \<Rightarrow> mosquitto_db \<Rightarrow> mosquitto_db" where
  "upd_ctx c f db = db\<lparr>d_contexts := (d_contexts db)(c := f (d_contexts db c))\<rparr>"

definition get_md :: "mosquitto_msg_direction \<Rightarrow> mosquitto \<Rightarrow> mosquitto_msg_data" where
  "get_md dir ctx = (case dir of mosq_md_in \<Rightarrow> c_msgs_in ctx | mosq_md_out \<Rightarrow> c_msgs_out ctx)"

definition set_md :: "mosquitto_msg_direction \<Rightarrow> mosquitto_msg_data \<Rightarrow> mosquitto \<Rightarrow> mosquitto" where
  "set_md dir md ctx =
     (case dir of mosq_md_in \<Rightarrow> ctx\<lparr>c_msgs_in := md\<rparr> | mosq_md_out \<Rightarrow> ctx\<lparr>c_msgs_out := md\<rparr>)"

definition upd_md ::
    "cptr \<Rightarrow> mosquitto_msg_direction \<Rightarrow> (mosquitto_msg_data \<Rightarrow> mosquitto_msg_data) \<Rightarrow> mosquitto_db \<Rightarrow> mosquitto_db" where
  "upd_md c dir f db = upd_ctx c (\<lambda>ctx. set_md dir (f (get_md dir ctx)) ctx) db"

definition md_of :: "cptr \<Rightarrow> mosquitto_msg_direction \<Rightarrow> mosquitto_db \<Rightarrow> mosquitto_msg_data" where
  "md_of c dir db = get_md dir (get_ctx c db)"

text \<open>The fields of a stored message; a freed one is given default fields (see \<open>touch\<close>).\<close>

definition msg0 :: mosquitto_msg_store where
  "msg0 = \<lparr>s_db_id = 0, s_source_id = None, s_source_listener = None, s_source_username = None, s_dest_ids = None, s_ref_count = 0,
     s_topic = None, s_properties = [], s_payload = [], s_message_expiry_time = 0, s_payloadlen = 0,
     s_origin = mosq_mo_client, s_source_mid = 0, s_qos = 0, s_retain = False\<rparr>"

definition stored_at :: "mptr \<Rightarrow> mosquitto_db \<Rightarrow> mosquitto_msg_store" where
  "stored_at p db = (case d_heap db p of None \<Rightarrow> msg0 | Some s \<Rightarrow> s)"

text \<open>Dereferencing the address of a stored message.\<close>

definition touch :: "mptr \<Rightarrow> mosquitto_db \<Rightarrow> mosquitto_db" where
  "touch p db = (if d_heap db p = None then db\<lparr>d_fault := True\<rparr> else db)"

definition upd_store :: "mptr \<Rightarrow> (mosquitto_msg_store \<Rightarrow> mosquitto_msg_store) \<Rightarrow> mosquitto_db \<Rightarrow> mosquitto_db" where
  "upd_store p f db =
     (case d_heap db p of
        None \<Rightarrow> db\<lparr>d_fault := True\<rparr>
      | Some s \<Rightarrow> db\<lparr>d_heap := (d_heap db)(p := Some (f s))\<rparr>)"

definition d_malloc :: "mosquitto_db \<Rightarrow> bool \<times> mosquitto_db" where
  "d_malloc db = (case malloc_ok (d_mem db) of (ok, mem) \<Rightarrow> (ok, db\<lparr>d_mem := mem\<rparr>))"

definition d_send :: "cptr \<Rightarrow> packet_event \<Rightarrow> mosquitto_db \<Rightarrow> mosq_err \<times> mosquitto_db" where
  "d_send c ev db =
     (let db = db\<lparr>d_sent := d_sent db @ [(c, ev)]\<rparr>
      in case d_net db of
           [] \<Rightarrow> (MOSQ_ERR_SUCCESS, db)
         | (rc, n) # net \<Rightarrow> (rc, upd_ctx c (\<lambda>ctx. ctx\<lparr>c_out_packet_count := n\<rparr>) (db\<lparr>d_net := net\<rparr>)))"

text \<open>Rules that read one component after an update of another.\<close>

lemma ctx_simps [queue_simps]:
  "get_ctx c (upd_ctx c' f db) = (if c = c' then f (get_ctx c db) else get_ctx c db)"
  "d_heap (upd_ctx c f db) = d_heap db" "d_fault (upd_ctx c f db) = d_fault db"
  "d_config (upd_ctx c f db) = d_config db" "d_msg_store (upd_ctx c f db) = d_msg_store db"
  by (simp_all add: get_ctx_def upd_ctx_def)

lemma md_simps [queue_simps]:
  "get_md dir (set_md dir' md ctx) = (if dir = dir' then md else get_md dir ctx)"
  by (cases dir; cases dir') (simp_all add: get_md_def set_md_def)

end
