(* ===== verification/Database.thy ===== *)
theory Database
  imports Broker_State
begin

text \<open>
  \<open>src/database.c\<close>: the reference-counted store of messages and the two queues of every client.
  A queue is the list of its messages in order; a position in it stands for the pointer to the
  element. The loops over a queue that may take elements away count the elements that are left
  to visit, as \<open>DL_FOREACH_SAFE\<close> does with the saved next pointer.
\<close>

section \<open>Quotas and packet identifiers (lib/util\_mosq.c)\<close>

definition util__increment_receive_quota :: "cptr \<Rightarrow> mosquitto_db \<Rightarrow> mosquitto_db" where
  "util__increment_receive_quota c = upd_md c mosq_md_in (\<lambda>md.
     if inflight_quota md < int (unat (inflight_maximum md)) then md\<lparr>inflight_quota := inflight_quota md + 1\<rparr> else md)"

definition util__increment_send_quota :: "cptr \<Rightarrow> mosquitto_db \<Rightarrow> mosquitto_db" where
  "util__increment_send_quota c = upd_md c mosq_md_out (\<lambda>md.
     if inflight_quota md < int (unat (inflight_maximum md)) then md\<lparr>inflight_quota := inflight_quota md + 1\<rparr> else md)"

definition util__decrement_receive_quota :: "cptr \<Rightarrow> mosquitto_db \<Rightarrow> mosquitto_db" where
  "util__decrement_receive_quota c = upd_md c mosq_md_in (\<lambda>md.
     if inflight_quota md > 0 then md\<lparr>inflight_quota := inflight_quota md - 1\<rparr> else md)"

definition util__decrement_send_quota :: "cptr \<Rightarrow> mosquitto_db \<Rightarrow> mosquitto_db" where
  "util__decrement_send_quota c = upd_md c mosq_md_out (\<lambda>md.
     if inflight_quota md > 0 then md\<lparr>inflight_quota := inflight_quota md - 1\<rparr> else md)"

definition mosquitto__mid_generate :: "cptr \<Rightarrow> mosquitto_db \<Rightarrow> u16 \<times> mosquitto_db" where
  "mosquitto__mid_generate c db =
     (let mid = c_last_mid (get_ctx c db) + 1;
          mid = (if mid = 0 then mid + 1 else mid)
      in (mid, upd_ctx c (\<lambda>ctx. ctx\<lparr>c_last_mid := mid\<rparr>) db))"

section \<open>Limits\<close>

definition db__ready_for_flight :: "cptr \<Rightarrow> mosquitto_msg_direction \<Rightarrow> u8 \<Rightarrow> mosquitto_db \<Rightarrow> bool" where
  "db__ready_for_flight c dir qos db =
     (let msgs = md_of c dir db; cfg = d_config db
      in if inflight_maximum msgs = 0 \<and> max_inflight_bytes cfg = 0 then True
         else if qos = 0 then
           (if max_queued_messages cfg = 0 \<and> max_inflight_bytes cfg = 0 then True
            else
              let valid_bytes = msg_bytes msgs - max_inflight_bytes cfg < max_queued_bytes cfg;
                  valid_count =
                    (if dir = mosq_md_out then c_out_packet_count (get_ctx c db) < max_queued_messages cfg
                     else msg_count msgs - int (unat (inflight_maximum msgs)) < max_queued_messages cfg)
              in if max_queued_messages cfg = 0 then valid_bytes
                 else if max_queued_bytes cfg = 0 then valid_count
                 else valid_bytes \<and> valid_count)
         else
           let valid_bytes = msg_bytes12 msgs < max_inflight_bytes cfg;
               valid_count = inflight_quota msgs > 0
           in if inflight_maximum msgs = 0 then valid_bytes
              else if max_inflight_bytes cfg = 0 then valid_count
              else valid_bytes \<and> valid_count)"

definition db__ready_for_queue :: "cptr \<Rightarrow> u8 \<Rightarrow> mosquitto_msg_data \<Rightarrow> mosquitto_db \<Rightarrow> bool" where
  "db__ready_for_queue c qos msg_data db =
     (let cfg = d_config db
      in if max_queued_messages cfg = 0 \<and> max_queued_bytes cfg = 0 then True
         else if qos = 0 \<and> \<not> queue_qos0_messages cfg then False
         else
           let source_bytes = msg_bytes12 msg_data;
               source_count = msg_count12 msg_data;
               connected = c_connected (get_ctx c db);
               adjust_bytes = (if connected then max_inflight_bytes cfg else 0);
               adjust_count = (if connected then int (unat (inflight_maximum msg_data)) else 0);
               valid_bytes = source_bytes - adjust_bytes < max_queued_bytes cfg;
               valid_count = source_count - adjust_count < max_queued_messages cfg
           in if max_queued_bytes cfg = 0 then valid_count
              else if max_queued_messages cfg = 0 then valid_bytes
              else valid_bytes \<and> valid_count)"

section \<open>The store\<close>

definition db__msg_store_add :: "mptr \<Rightarrow> mosquitto_db \<Rightarrow> mosquitto_db" where
  "db__msg_store_add p db = db\<lparr>d_msg_store := p # d_msg_store db\<rparr>"

definition db__msg_store_free :: "mptr \<Rightarrow> mosquitto_db \<Rightarrow> mosquitto_db" where
  "db__msg_store_free p db = (touch p db)\<lparr>d_heap := (d_heap db)(p := None)\<rparr>"

definition db__msg_store_remove :: "mptr \<Rightarrow> mosquitto_db \<Rightarrow> mosquitto_db" where
  "db__msg_store_remove p db =
     db__msg_store_free p (db\<lparr>d_msg_store := remove1 p (d_msg_store db),
       d_msg_store_count := d_msg_store_count db - 1,
       d_msg_store_bytes := d_msg_store_bytes db - int (unat (s_payloadlen (stored_at p db)))\<rparr>)"

definition db__msg_store_clean :: "mosquitto_db \<Rightarrow> mosquitto_db" where
  "db__msg_store_clean db = fold db__msg_store_remove (d_msg_store db) db"

definition db__msg_store_ref_inc :: "mptr \<Rightarrow> mosquitto_db \<Rightarrow> mosquitto_db" where
  "db__msg_store_ref_inc p db = upd_store p (\<lambda>s. s\<lparr>s_ref_count := s_ref_count s + 1\<rparr>) db"

text \<open>The result is the pointer of the caller, which is set to null when the message was freed.\<close>

definition db__msg_store_ref_dec :: "mptr \<Rightarrow> mosquitto_db \<Rightarrow> mptr option \<times> mosquitto_db" where
  "db__msg_store_ref_dec p db =
     (let db = upd_store p (\<lambda>s. s\<lparr>s_ref_count := s_ref_count s - 1\<rparr>) db
      in case d_heap db p of
           None \<Rightarrow> (Some p, db)
         | Some s \<Rightarrow> if s_ref_count s = 0 then (None, db__msg_store_remove p db) else (Some p, db))"

definition db__msg_store_compact :: "mosquitto_db \<Rightarrow> mosquitto_db" where
  "db__msg_store_compact db =
     fold (\<lambda>p db. if s_ref_count (stored_at p db) < 1 then db__msg_store_remove p db else db) (d_msg_store db) db"

section \<open>Moving messages\<close>

definition del_at :: "nat \<Rightarrow> 'a list \<Rightarrow> 'a list" where
  "del_at i xs = take i xs @ drop (Suc i) xs"

text \<open>\<open>item\<close> is the element at position \<open>i\<close> of the list of messages in flight.\<close>

definition db__message_remove :: "cptr \<Rightarrow> mosquitto_msg_direction \<Rightarrow> nat \<Rightarrow> mosquitto_db \<Rightarrow> mosquitto_db" where
  "db__message_remove c dir i db =
     (let item = inflight (md_of c dir db) ! i;
          len = int (unat (s_payloadlen (stored_at (m_store item) db)));
          db = upd_md c dir (\<lambda>md.
            let md = md\<lparr>inflight := del_at i (inflight md), msg_count := msg_count md - 1,
                        msg_bytes := msg_bytes md - len\<rparr>
            in if m_qos item > 0
               then md\<lparr>msg_count12 := msg_count12 md - 1, msg_bytes12 := msg_bytes12 md - len\<rparr>
               else md) (touch (m_store item) db)
      in snd (db__msg_store_ref_dec (m_store item) db))"

definition db__message_dequeue_first :: "cptr \<Rightarrow> mosquitto_msg_direction \<Rightarrow> mosquitto_db \<Rightarrow> mosquitto_db" where
  "db__message_dequeue_first c dir db =
     (case queued (md_of c dir db) of
        [] \<Rightarrow> db\<lparr>d_fault := True\<rparr>
      | msg # rest \<Rightarrow>
          upd_md c dir (\<lambda>md. md\<lparr>queued := rest, inflight := inflight md @ [msg],
            inflight_quota := (if inflight_quota md > 0 then inflight_quota md - 1 else inflight_quota md)\<rparr>) db)"

text \<open>Assignments to the element at position \<open>i\<close> of a list.\<close>

definition upd_queued :: "cptr \<Rightarrow> mosquitto_msg_direction \<Rightarrow> nat \<Rightarrow>
    (mosquitto_client_msg \<Rightarrow> mosquitto_client_msg) \<Rightarrow> mosquitto_db \<Rightarrow> mosquitto_db" where
  "upd_queued c dir i f = upd_md c dir (\<lambda>md. md\<lparr>queued := (queued md)[i := f (queued md ! i)]\<rparr>)"

definition upd_inflight :: "cptr \<Rightarrow> mosquitto_msg_direction \<Rightarrow> nat \<Rightarrow>
    (mosquitto_client_msg \<Rightarrow> mosquitto_client_msg) \<Rightarrow> mosquitto_db \<Rightarrow> mosquitto_db" where
  "upd_inflight c dir i f = upd_md c dir (\<lambda>md. md\<lparr>inflight := (inflight md)[i := f (inflight md ! i)]\<rparr>)"

text \<open>The \<open>switch(tail->qos)\<close> that puts a message into the state of its first transmission.\<close>

definition publish_state :: "u8 \<Rightarrow> mosquitto_msg_state \<Rightarrow> mosquitto_msg_state" where
  "publish_state qos st =
     (if qos = 0 then mosq_ms_publish_qos0 else if qos = 1 then mosq_ms_publish_qos1
      else if qos = 2 then mosq_ms_publish_qos2 else st)"

text \<open>The position of the first element with a property.\<close>

primrec find_index :: "('a \<Rightarrow> bool) \<Rightarrow> 'a list \<Rightarrow> nat option" where
  "find_index P [] = None"
| "find_index P (x # xs) = (if P x then Some 0 else map_option Suc (find_index P xs))"

section \<open>Writing outgoing messages\<close>

text \<open>
  The message is the one at position \<open>i\<close> in flight. The boolean says whether it was removed.
\<close>

definition db__message_write_inflight_out_single ::
    "cptr \<Rightarrow> nat \<Rightarrow> mosquitto_db \<Rightarrow> (mosq_err \<times> bool) \<times> mosquitto_db" where
  "db__message_write_inflight_out_single c i db =
     (let msg = inflight (md_of c mosq_md_out db) ! i;
          db = touch (m_store msg) db;
          store = stored_at (m_store msg) db
      in if s_message_expiry_time store \<noteq> 0 \<and> d_now_real_s db > s_message_expiry_time store then
           (let db = (if m_direction msg = mosq_md_out \<and> m_qos msg > 0 then util__increment_send_quota c db else db)
            in ((MOSQ_ERR_SUCCESS, True), db__message_remove c mosq_md_out i db))
         else
           let expiry_interval =
                 (if s_message_expiry_time store \<noteq> 0
                  then word_of_int (s_message_expiry_time store - d_now_real_s db) else 0);
               publish = Publish (m_mid msg) (s_topic store) (s_payloadlen store) (m_qos msg)
                 (m_retain msg) (m_dup msg) expiry_interval;
               sent = (\<lambda>st. upd_inflight c mosq_md_out i
                 (\<lambda>m. m\<lparr>m_timestamp := d_now_s db, m_dup := True, m_state := st\<rparr>))
           in case m_state msg of
                mosq_ms_publish_qos0 \<Rightarrow>
                  (case d_send c publish db of (rc, db) \<Rightarrow>
                     if rc = MOSQ_ERR_SUCCESS \<or> rc = MOSQ_ERR_OVERSIZE_PACKET
                     then ((MOSQ_ERR_SUCCESS, True), db__message_remove c mosq_md_out i db)
                     else ((rc, False), db))
              | mosq_ms_publish_qos1 \<Rightarrow>
                  (case d_send c publish db of (rc, db) \<Rightarrow>
                     if rc = MOSQ_ERR_SUCCESS then ((MOSQ_ERR_SUCCESS, False), sent mosq_ms_wait_for_puback db)
                     else if rc = MOSQ_ERR_OVERSIZE_PACKET
                     then ((MOSQ_ERR_SUCCESS, True), db__message_remove c mosq_md_out i db)
                     else ((rc, False), db))
              | mosq_ms_publish_qos2 \<Rightarrow>
                  (case d_send c publish db of (rc, db) \<Rightarrow>
                     if rc = MOSQ_ERR_SUCCESS then ((MOSQ_ERR_SUCCESS, False), sent mosq_ms_wait_for_pubrec db)
                     else if rc = MOSQ_ERR_OVERSIZE_PACKET
                     then ((MOSQ_ERR_SUCCESS, True), db__message_remove c mosq_md_out i db)
                     else ((rc, False), db))
              | mosq_ms_resend_pubrel \<Rightarrow>
                  (case d_send c (Pubrel (m_mid msg)) db of (rc, db) \<Rightarrow>
                     if rc = MOSQ_ERR_SUCCESS
                     then ((MOSQ_ERR_SUCCESS, False),
                           upd_inflight c mosq_md_out i (\<lambda>m. m\<lparr>m_state := mosq_ms_wait_for_pubcomp\<rparr>) db)
                     else ((rc, False), db))
              | _ \<Rightarrow> ((MOSQ_ERR_SUCCESS, False), db))"

text \<open>\<open>n\<close> messages from position \<open>i\<close> on; a removed message leaves its position to the next.\<close>

primrec write_inflight_loop :: "nat \<Rightarrow> cptr \<Rightarrow> nat \<Rightarrow> mosquitto_db \<Rightarrow> mosq_err \<times> mosquitto_db" where
  "write_inflight_loop 0 c i db = (MOSQ_ERR_SUCCESS, db)"
| "write_inflight_loop (Suc n) c i db =
     (case db__message_write_inflight_out_single c i db of
        ((rc, removed), db) \<Rightarrow>
          if rc \<noteq> MOSQ_ERR_SUCCESS then (rc, db)
          else write_inflight_loop n c (if removed then i else Suc i) db)"

definition db__message_write_inflight_out_all :: "cptr \<Rightarrow> mosquitto_db \<Rightarrow> mosq_err \<times> mosquitto_db" where
  "db__message_write_inflight_out_all c db =
     (let ctx = get_ctx c db
      in if c_state ctx \<noteq> mosq_cs_active \<or> \<not> c_connected ctx then (MOSQ_ERR_SUCCESS, db)
         else write_inflight_loop (length (inflight (md_of c mosq_md_out db))) c 0 db)"

definition is_publish :: "mosquitto_msg_state \<Rightarrow> bool" where
  "is_publish st \<longleftrightarrow> st = mosq_ms_publish_qos0 \<or> st = mosq_ms_publish_qos1 \<or> st = mosq_ms_publish_qos2"

text \<open>Walking back from position \<open>i\<close> over the messages that wait to be published.\<close>

primrec latest_tail :: "mosquitto_client_msg list \<Rightarrow> nat \<Rightarrow> nat" where
  "latest_tail msgs 0 = 0"
| "latest_tail msgs (Suc i) =
     (if is_publish (m_state (msgs ! Suc i)) then latest_tail msgs i else Suc i)"

definition db__message_write_inflight_out_latest :: "cptr \<Rightarrow> mosquitto_db \<Rightarrow> mosq_err \<times> mosquitto_db" where
  "db__message_write_inflight_out_latest c db =
     (let ctx = get_ctx c db; msgs = inflight (md_of c mosq_md_out db)
      in if c_state ctx \<noteq> mosq_cs_active \<or> \<not> c_connected ctx \<or> msgs = [] then (MOSQ_ERR_SUCCESS, db)
         else if length msgs = 1 then
           (case db__message_write_inflight_out_single c 0 db of ((rc, _), db) \<Rightarrow> (rc, db))
         else
           let tail = latest_tail msgs (length msgs - 1);
               tail = (if tail \<noteq> 0 then Suc tail else tail)
           in write_inflight_loop (length msgs - tail) c tail db)"

text \<open>The loop over the queued messages in \<open>db__message_write_queued_out\<close>.\<close>

primrec write_queued_out_loop :: "nat \<Rightarrow> cptr \<Rightarrow> mosquitto_db \<Rightarrow> mosquitto_db" where
  "write_queued_out_loop 0 c db = db"
| "write_queued_out_loop (Suc n) c db =
     (let md = md_of c mosq_md_out db
      in if inflight_maximum md \<noteq> 0 \<and> inflight_quota md = 0 then db
         else write_queued_out_loop n c
           (db__message_dequeue_first c mosq_md_out
             (upd_queued c mosq_md_out 0 (\<lambda>m. m\<lparr>m_state := publish_state (m_qos m) (m_state m)\<rparr>) db)))"

definition db__message_write_queued_out :: "cptr \<Rightarrow> mosquitto_db \<Rightarrow> mosq_err \<times> mosquitto_db" where
  "db__message_write_queued_out c db =
     (if c_state (get_ctx c db) \<noteq> mosq_cs_active then (MOSQ_ERR_SUCCESS, db)
      else (MOSQ_ERR_SUCCESS, write_queued_out_loop (length (queued (md_of c mosq_md_out db))) c db))"

section \<open>Acknowledged messages\<close>

primrec delete_promote_loop :: "nat \<Rightarrow> int \<Rightarrow> cptr \<Rightarrow> mosquitto_db \<Rightarrow> mosquitto_db" where
  "delete_promote_loop 0 msg_index c db = db"
| "delete_promote_loop (Suc n) msg_index c db =
     (let max = inflight_maximum (md_of c mosq_md_out db)
      in if max \<noteq> 0 \<and> msg_index \<ge> int (unat max) then db
         else delete_promote_loop n (msg_index + 1) c
           (db__message_dequeue_first c mosq_md_out
             (upd_queued c mosq_md_out 0
               (\<lambda>m. m\<lparr>m_timestamp := d_now_s db, m_state := publish_state (m_qos m) (m_state m)\<rparr>) db)))"

definition db__message_delete_outgoing ::
    "cptr \<Rightarrow> u16 \<Rightarrow> mosquitto_msg_state \<Rightarrow> u8 \<Rightarrow> mosquitto_db \<Rightarrow> mosq_err \<times> mosquitto_db" where
  "db__message_delete_outgoing c mid expect_state qos db =
     (let msgs = inflight (md_of c mosq_md_out db);
          finish = (\<lambda>msg_index db.
            let db = delete_promote_loop (length (queued (md_of c mosq_md_out db))) msg_index c db
            in db__message_write_inflight_out_latest c (db\<lparr>d_persistence_changes := d_persistence_changes db + 1\<rparr>))
      in case find_index (\<lambda>m. m_mid m = mid) msgs of
           None \<Rightarrow> finish (int (length msgs)) db
         | Some i \<Rightarrow>
             if m_qos (msgs ! i) \<noteq> qos then (MOSQ_ERR_PROTOCOL, db)
             else if qos = 2 \<and> m_state (msgs ! i) \<noteq> expect_state then (MOSQ_ERR_PROTOCOL, db)
             else finish (int i) (db__message_remove c mosq_md_out i db))"

definition db__message_update_outgoing ::
    "cptr \<Rightarrow> u16 \<Rightarrow> mosquitto_msg_state \<Rightarrow> u8 \<Rightarrow> mosquitto_db \<Rightarrow> mosq_err \<times> mosquitto_db" where
  "db__message_update_outgoing c mid st qos db =
     (let msgs = inflight (md_of c mosq_md_out db)
      in case find_index (\<lambda>m. m_mid m = mid) msgs of
           None \<Rightarrow> (MOSQ_ERR_NOT_FOUND, db)
         | Some i \<Rightarrow>
             if m_qos (msgs ! i) \<noteq> qos then (MOSQ_ERR_PROTOCOL, db)
             else (MOSQ_ERR_SUCCESS,
               upd_inflight c mosq_md_out i (\<lambda>m. m\<lparr>m_state := st, m_timestamp := d_now_s db\<rparr>) db))"

section \<open>Inserting a message\<close>

text \<open>
  The state the message is given, or \<open>None\<close> when the function returns before that with the
  code; \<open>rc\<close> is the code that a successful insertion starts from.
\<close>

definition insert_drop :: "cptr \<Rightarrow> mosquitto_db \<Rightarrow> mosquitto_db" where
  "insert_drop c db =
     (upd_ctx c (\<lambda>ctx. ctx\<lparr>c_is_dropping := True\<rparr>) db)\<lparr>d_msgs_dropped := d_msgs_dropped db + 1\<rparr>"

definition insert_state ::
    "cptr \<Rightarrow> mosquitto_msg_direction \<Rightarrow> u8 \<Rightarrow> mosquitto_db \<Rightarrow>
     (mosq_err + mosquitto_msg_state \<times> mosq_err) \<times> mosquitto_db" where
  "insert_state c dir qos db =
     (let md = md_of c dir db
      in if c_connected (get_ctx c db) then
           (if db__ready_for_flight c dir qos db then
              (if dir = mosq_md_out then (Inr (publish_state qos mosq_ms_invalid, MOSQ_ERR_SUCCESS), db)
               else if qos = 2 then (Inr (mosq_ms_wait_for_pubrel, MOSQ_ERR_SUCCESS), db)
               else (Inl MOSQ_ERR_NOMEM, db))
            else if qos \<noteq> 0 \<and> db__ready_for_queue c qos md db
            then (Inr (mosq_ms_queued, MOSQ_ERR_PROTOCOL), db)
            else (Inl MOSQ_ERR_PROTOCOL, insert_drop c db))
         else if db__ready_for_queue c qos md db then (Inr (mosq_ms_queued, MOSQ_ERR_SUCCESS), db)
         else (Inl MOSQ_ERR_PROTOCOL, insert_drop c db))"

text \<open>The offline client that does not queue this message.\<close>

definition insert_refused :: "cptr \<Rightarrow> u8 \<Rightarrow> mosquitto_db \<Rightarrow> bool" where
  "insert_refused c qos db =
     (let ctx = get_ctx c db
      in \<not> c_connected ctx \<and>
         ((qos = 0 \<and> \<not> queue_qos0_messages (d_config db)
             \<and> (case c_bridge ctx of None \<Rightarrow> True | Some b \<Rightarrow> \<not> b_lazy b))
          \<or> (case c_bridge ctx of None \<Rightarrow> False | Some b \<Rightarrow> b_clean_start_local b)))"

text \<open>
  The search for the client in \<open>dest_ids\<close>; an entry is null when its \<open>strdup\<close> failed, and
  comparing it is an error.
\<close>

primrec dest_scan :: "string \<Rightarrow> string option list \<Rightarrow> bool option" where
  "dest_scan cid [] = Some False"
| "dest_scan cid (d # ds) = (case d of None \<Rightarrow> None | Some i \<Rightarrow> if i = cid then Some True else dest_scan cid ds)"

definition insert_duplicate ::
    "cptr \<Rightarrow> mosquitto_msg_direction \<Rightarrow> bool \<Rightarrow> mptr \<Rightarrow> mosquitto_db \<Rightarrow> bool option" where
  "insert_duplicate c dir retain stored db =
     (if c_protocol (get_ctx c db) \<noteq> mosq_p_mqtt5 \<and> \<not> allow_duplicate_messages (d_config db)
         \<and> dir = mosq_md_out \<and> \<not> retain
      then (case s_dest_ids (stored_at stored db) of
              None \<Rightarrow> Some False
            | Some ids \<Rightarrow> dest_scan (the (c_id (get_ctx c db))) ids)
      else Some False)"

text \<open>
  Recording the client in \<open>dest_ids\<close>: when the \<open>strdup\<close> after a successful \<open>realloc\<close> fails, the
  new entry stays null.
\<close>

definition insert_dest_id :: "cptr \<Rightarrow> mptr \<Rightarrow> mosquitto_db \<Rightarrow> bool \<times> mosquitto_db" where
  "insert_dest_id c stored db =
     (case d_malloc db of
        (False, db) \<Rightarrow> (False, db)
      | (True, db) \<Rightarrow>
          (case d_malloc db of
             (ok, db) \<Rightarrow>
               (ok, upd_store stored (\<lambda>s. s\<lparr>s_dest_ids :=
                 Some ((case s_dest_ids s of None \<Rightarrow> [] | Some ids \<Rightarrow> ids)
                       @ [if ok then c_id (get_ctx c db) else None])\<rparr>) db)))"

definition insert_enqueue ::
    "cptr \<Rightarrow> mosquitto_msg_direction \<Rightarrow> u8 \<Rightarrow> mosquitto_client_msg \<Rightarrow> mosquitto_db \<Rightarrow> mosquitto_db" where
  "insert_enqueue c dir qos msg db =
     (let len = int (unat (s_payloadlen (stored_at (m_store msg) db)))
      in upd_md c dir (\<lambda>md.
           let md = (if m_state msg = mosq_ms_queued then md\<lparr>queued := queued md @ [msg]\<rparr>
                     else md\<lparr>inflight := inflight md @ [msg]\<rparr>);
               md = md\<lparr>msg_count := msg_count md + 1, msg_bytes := msg_bytes md + len\<rparr>
           in if qos > 0 then md\<lparr>msg_count12 := msg_count12 md + 1, msg_bytes12 := msg_bytes12 md + len\<rparr>
              else md) db)"

text \<open>The steps after the counters, with the code \<open>rc\<close> of a message that was queued.\<close>

definition insert_finish ::
    "cptr \<Rightarrow> mosquitto_msg_direction \<Rightarrow> u8 \<Rightarrow> bool \<Rightarrow> mosq_err \<Rightarrow> mosquitto_db \<Rightarrow> mosq_err \<times> mosquitto_db" where
  "insert_finish c dir mqos update rc db =
     (let db = upd_ctx c (\<lambda>ctx.
            case c_bridge ctx of
              None \<Rightarrow> ctx
            | Some b \<Rightarrow> if b_lazy b \<and> \<not> c_connected ctx \<and> msg_count (c_msgs_out ctx) \<ge> b_threshold b
                       then ctx\<lparr>c_bridge := Some (b\<lparr>b_lazy_reconnect := True\<rparr>)\<rparr> else ctx) db;
          db = (if dir = mosq_md_out \<and> mqos > 0 then util__decrement_send_quota c db else db)
      in if dir = mosq_md_out \<and> update then
           (case db__message_write_inflight_out_latest c db of (rc, db) \<Rightarrow>
              if rc \<noteq> MOSQ_ERR_SUCCESS then (rc, db) else db__message_write_queued_out c db)
         else (rc, db))"

text \<open>The steps from the entry into the queue on; \<open>msg\<close> is the new element.\<close>

definition insert_commit ::
    "cptr \<Rightarrow> mosquitto_msg_direction \<Rightarrow> u8 \<Rightarrow> bool \<Rightarrow> bool \<Rightarrow> mosquitto_client_msg \<Rightarrow> mosq_err \<Rightarrow> mosquitto_db \<Rightarrow>
     mosq_err \<times> mosquitto_db" where
  "insert_commit c dir qos retain update msg rc db =
     (let db = insert_enqueue c dir qos msg (db__msg_store_ref_inc (m_store msg) db)
      in if \<not> allow_duplicate_messages (d_config db) \<and> dir = mosq_md_out \<and> \<not> retain
         then (case insert_dest_id c (m_store msg) db of
                 (False, db) \<Rightarrow> (MOSQ_ERR_NOMEM, db)
               | (True, db) \<Rightarrow> insert_finish c dir (m_qos msg) update rc db)
         else insert_finish c dir (m_qos msg) update rc db)"

definition db__message_insert ::
    "cptr \<Rightarrow> u16 \<Rightarrow> mosquitto_msg_direction \<Rightarrow> u8 \<Rightarrow> bool \<Rightarrow> mptr \<Rightarrow> mqtt5__property list \<Rightarrow> bool \<Rightarrow>
     mosquitto_db \<Rightarrow> mosq_err \<times> mosquitto_db" where
  "db__message_insert c mid dir qos retain stored properties update db =
     (if c_id (get_ctx c db) = None then (MOSQ_ERR_SUCCESS, db)
      else
        let db = touch stored db
        in if insert_duplicate c dir retain stored db = None then (MOSQ_ERR_SUCCESS, db\<lparr>d_fault := True\<rparr>)
           else if insert_duplicate c dir retain stored db = Some True then (MOSQ_ERR_SUCCESS, db)
           else if insert_refused c qos db then (MOSQ_ERR_PROTOCOL, db)
           else
             (case insert_state c dir qos db of
                (Inl rc, db) \<Rightarrow> (rc, db)
              | (Inr (st, rc), db) \<Rightarrow>
                  if st = mosq_ms_invalid then (rc, db\<lparr>d_fault := True\<rparr>)
                  else
                    let db = (if st = mosq_ms_queued
                              then db\<lparr>d_persistence_changes := d_persistence_changes db + 1\<rparr> else db)
                    in (case d_malloc db of
                          (False, db) \<Rightarrow> (MOSQ_ERR_NOMEM, db)
                        | (True, db) \<Rightarrow>
                            let max_qos = c_max_qos (get_ctx c db);
                                msg = \<lparr>m_store = stored, m_properties = properties, m_timestamp = d_now_s db,
                                       m_mid = mid, m_qos = (if qos > max_qos then max_qos else qos),
                                       m_retain = retain, m_direction = dir, m_state = st, m_dup = False\<rparr>
                            in insert_commit c dir qos retain update msg rc db)))"

section \<open>Dropping a session's messages\<close>

definition db__messages_delete_list :: "mosquitto_client_msg list \<Rightarrow> mosquitto_db \<Rightarrow> mosquitto_db" where
  "db__messages_delete_list msgs db = fold (\<lambda>m db. snd (db__msg_store_ref_dec (m_store m) db)) msgs db"

definition messages_delete_dir :: "cptr \<Rightarrow> mosquitto_msg_direction \<Rightarrow> mosquitto_db \<Rightarrow> mosquitto_db" where
  "messages_delete_dir c dir db =
     (let md = md_of c dir db;
          db = db__messages_delete_list (queued md) (db__messages_delete_list (inflight md) db)
      in upd_md c dir (\<lambda>md. md\<lparr>inflight := [], queued := [], msg_bytes := 0, msg_bytes12 := 0,
                              msg_count := 0, msg_count12 := 0\<rparr>) db)"

definition db__messages_delete :: "cptr \<Rightarrow> bool \<Rightarrow> mosquitto_db \<Rightarrow> mosq_err \<times> mosquitto_db" where
  "db__messages_delete c force_free db =
     (let ctx = get_ctx c db; bridge = c_bridge ctx;
          db = (if force_free \<or> c_clean_start ctx \<or> (case bridge of None \<Rightarrow> False | Some b \<Rightarrow> b_clean_start b)
                then messages_delete_dir c mosq_md_in db else db);
          db = (if force_free \<or> (case bridge of None \<Rightarrow> c_clean_start ctx | Some b \<Rightarrow> b_clean_start_local b)
                then messages_delete_dir c mosq_md_out db else db)
      in (MOSQ_ERR_SUCCESS, db))"

section \<open>Storing a message\<close>

text \<open>
  \<open>stored\<close> is the address of a message that the caller has allocated and filled. The identifier
  and user name of the source are copied; the copies may fail.
\<close>

definition db__message_store ::
    "mosquitto option \<Rightarrow> mptr \<Rightarrow> u32 \<Rightarrow> nat \<Rightarrow> mosq_msg_origin \<Rightarrow> mosquitto_db \<Rightarrow> mosq_err \<times> mosquitto_db" where
  "db__message_store source stored message_expiry_interval store_id origin db =
     (case d_malloc (touch stored db) of
        (False, db) \<Rightarrow> (MOSQ_ERR_NOMEM, db__msg_store_free stored db)
      | (True, db) \<Rightarrow>
          let source_id = (case source of Some s \<Rightarrow> (case c_id s of Some i \<Rightarrow> i | None \<Rightarrow> []) | None \<Rightarrow> []);
              listener = (\<lambda>s. case source of Some src \<Rightarrow> c_listener src | None \<Rightarrow> s_source_listener s);
              username = (case source of Some s \<Rightarrow> c_username s | None \<Rightarrow> None)
          in (case (if username \<noteq> None then d_malloc db else (True, db)) of
                (False, db) \<Rightarrow> (MOSQ_ERR_NOMEM, db__msg_store_free stored db)
              | (True, db) \<Rightarrow>
                  let expiry = (if message_expiry_interval > 0
                                then d_now_real_s db + int (unat message_expiry_interval) else 0);
                      db_id = (if store_id = 0 then d_last_db_id db + 1 else store_id);
                      db = upd_store stored (\<lambda>s. s\<lparr>s_source_id := Some source_id, s_source_listener := listener s,
                             s_source_username := username, s_origin := origin, s_message_expiry_time := expiry, s_dest_ids := None,
                             s_db_id := db_id\<rparr>) db;
                      db = db\<lparr>d_msg_store_count := d_msg_store_count db + 1,
                             d_msg_store_bytes := d_msg_store_bytes db + int (unat (s_payloadlen (stored_at stored db))),
                             d_last_db_id := (if store_id = 0 then d_last_db_id db + 1 else d_last_db_id db)\<rparr>
                  in (MOSQ_ERR_SUCCESS, db__msg_store_add stored db)))"

definition db__message_store_find :: "cptr \<Rightarrow> u16 \<Rightarrow> mosquitto_db \<Rightarrow> mptr option" where
  "db__message_store_find c mid db =
     (let md = md_of c mosq_md_in db; hit = (\<lambda>m. s_source_mid (stored_at (m_store m) db) = mid)
      in case find hit (inflight md) of
           Some m \<Rightarrow> Some (m_store m)
         | None \<Rightarrow> map_option m_store (find hit (queued md)))"

section \<open>Reconnecting\<close>

definition reset_md :: "mosquitto_msg_data \<Rightarrow> mosquitto_msg_data" where
  "reset_md md = md\<lparr>msg_bytes := 0, msg_bytes12 := 0, msg_count := 0, msg_count12 := 0,
     inflight_quota := int (unat (inflight_maximum md))\<rparr>"

text \<open>Counting a message again.\<close>

definition recount :: "cptr \<Rightarrow> mosquitto_msg_direction \<Rightarrow> mosquitto_client_msg \<Rightarrow> mosquitto_db \<Rightarrow> mosquitto_db" where
  "recount c dir msg db =
     (let len = int (unat (s_payloadlen (stored_at (m_store msg) db)))
      in upd_md c dir (\<lambda>md.
           let md = md\<lparr>msg_count := msg_count md + 1, msg_bytes := msg_bytes md + len\<rparr>
           in if m_qos msg > 0 then md\<lparr>msg_count12 := msg_count12 md + 1, msg_bytes12 := msg_bytes12 md + len\<rparr>
              else md) (touch (m_store msg) db))"

primrec reset_outgoing_loop :: "nat \<Rightarrow> cptr \<Rightarrow> nat \<Rightarrow> mosquitto_db \<Rightarrow> mosquitto_db" where
  "reset_outgoing_loop 0 c i db = db"
| "reset_outgoing_loop (Suc n) c i db =
     (let msg = inflight (md_of c mosq_md_out db) ! i;
          db = recount c mosq_md_out msg db;
          db = (if m_qos msg > 0 then util__decrement_send_quota c db else db);
          st = (if m_qos msg = 2
                then (if m_state msg = mosq_ms_wait_for_pubcomp then mosq_ms_resend_pubrel else mosq_ms_publish_qos2)
                else publish_state (m_qos msg) (m_state msg))
      in reset_outgoing_loop n c (Suc i) (upd_inflight c mosq_md_out i (\<lambda>m. m\<lparr>m_state := st\<rparr>) db))"

text \<open>
  The loop over the queued messages; \<open>k\<close> of the visited ones are still in front of the current
  one. The call of \<open>db__message_dequeue_first\<close> takes the first message of the queue, which is the
  current one only when \<open>k = 0\<close>.
\<close>

primrec reset_queued_loop :: "nat \<Rightarrow> cptr \<Rightarrow> mosquitto_msg_direction \<Rightarrow> nat \<Rightarrow> mosquitto_db \<Rightarrow> mosquitto_db" where
  "reset_queued_loop 0 c dir k db = db"
| "reset_queued_loop (Suc n) c dir k db =
     (let msg = queued (md_of c dir db) ! k;
          db = recount c dir msg db
      in if db__ready_for_flight c dir (m_qos msg) db
         then reset_queued_loop n c dir k
           (db__message_dequeue_first c dir
             (upd_queued c dir k (\<lambda>m. m\<lparr>m_state := publish_state (m_qos m) (m_state m)\<rparr>) db))
         else reset_queued_loop n c dir (Suc k) db)"

definition db__message_reconnect_reset_outgoing :: "cptr \<Rightarrow> mosquitto_db \<Rightarrow> mosquitto_db" where
  "db__message_reconnect_reset_outgoing c db =
     (let db = upd_md c mosq_md_out reset_md db;
          db = reset_outgoing_loop (length (inflight (md_of c mosq_md_out db))) c 0 db
      in reset_queued_loop (length (queued (md_of c mosq_md_out db))) c mosq_md_out 0 db)"

primrec reset_incoming_loop :: "nat \<Rightarrow> cptr \<Rightarrow> nat \<Rightarrow> mosquitto_db \<Rightarrow> mosquitto_db" where
  "reset_incoming_loop 0 c i db = db"
| "reset_incoming_loop (Suc n) c i db =
     (let msg = inflight (md_of c mosq_md_in db) ! i;
          db = recount c mosq_md_in msg db;
          db = (if m_qos msg > 0 then util__decrement_receive_quota c db else db)
      in if m_qos msg \<noteq> 2 then reset_incoming_loop n c i (db__message_remove c mosq_md_in i db)
         else reset_incoming_loop n c (Suc i) db)"

definition db__message_reconnect_reset_incoming :: "cptr \<Rightarrow> mosquitto_db \<Rightarrow> mosquitto_db" where
  "db__message_reconnect_reset_incoming c db =
     (let db = upd_md c mosq_md_in reset_md db;
          db = reset_incoming_loop (length (inflight (md_of c mosq_md_in db))) c 0 db
      in reset_queued_loop (length (queued (md_of c mosq_md_in db))) c mosq_md_in 0 db)"

definition db__message_reconnect_reset :: "cptr \<Rightarrow> mosquitto_db \<Rightarrow> mosq_err \<times> mosquitto_db" where
  "db__message_reconnect_reset c db =
     (MOSQ_ERR_SUCCESS, db__message_reconnect_reset_incoming c (db__message_reconnect_reset_outgoing c db))"

section \<open>Incoming messages\<close>

definition db__message_remove_incoming :: "cptr \<Rightarrow> u16 \<Rightarrow> mosquitto_db \<Rightarrow> mosq_err \<times> mosquitto_db" where
  "db__message_remove_incoming c mid db =
     (let msgs = inflight (md_of c mosq_md_in db)
      in case find_index (\<lambda>m. m_mid m = mid) msgs of
           None \<Rightarrow> (MOSQ_ERR_NOT_FOUND, db)
         | Some i \<Rightarrow>
             let db = touch (m_store (msgs ! i)) db
             in if s_qos (stored_at (m_store (msgs ! i)) db) \<noteq> 2 then (MOSQ_ERR_PROTOCOL, db)
                else (MOSQ_ERR_SUCCESS, db__message_remove c mosq_md_in i db))"

text \<open>
  After \<open>db__message_dequeue_first\<close> the code goes on with its pointer to the current message,
  which is the last one in flight when it was the first of the queue (\<open>k = 0\<close>).
\<close>

primrec write_queued_in_loop :: "nat \<Rightarrow> nat \<Rightarrow> cptr \<Rightarrow> mosquitto_db \<Rightarrow> mosq_err \<times> mosquitto_db" where
  "write_queued_in_loop 0 k c db = (MOSQ_ERR_SUCCESS, db)"
| "write_queued_in_loop (Suc n) k c db =
     (if inflight_maximum (md_of c mosq_md_out db) \<noteq> 0 \<and> inflight_quota (md_of c mosq_md_in db) = 0
      then (MOSQ_ERR_SUCCESS, db)
      else
        let msg = queued (md_of c mosq_md_in db) ! k
        in if m_qos msg = 2 then
             (let db = db__message_dequeue_first c mosq_md_in
                    (upd_queued c mosq_md_in k (\<lambda>m. m\<lparr>m_state := mosq_ms_send_pubrec\<rparr>) db)
              in case d_send c (Pubrec (m_mid msg) 0 []) db of (rc, db) \<Rightarrow>
                   if rc = MOSQ_ERR_SUCCESS then
                     write_queued_in_loop n k c
                       (if k = 0
                        then upd_inflight c mosq_md_in (length (inflight (md_of c mosq_md_in db)) - 1)
                               (\<lambda>m. m\<lparr>m_state := mosq_ms_wait_for_pubrel\<rparr>) db
                        else upd_queued c mosq_md_in (k - 1) (\<lambda>m. m\<lparr>m_state := mosq_ms_wait_for_pubrel\<rparr>) db)
                   else (rc, db))
           else write_queued_in_loop n (Suc k) c db)"

definition db__message_write_queued_in :: "cptr \<Rightarrow> mosquitto_db \<Rightarrow> mosq_err \<times> mosquitto_db" where
  "db__message_write_queued_in c db =
     (if c_state (get_ctx c db) \<noteq> mosq_cs_active then (MOSQ_ERR_SUCCESS, db)
      else write_queued_in_loop (length (queued (md_of c mosq_md_in db))) 0 c db)"

end
