(* ===== verification/Accounting.thy ===== *)
theory Accounting
  imports Database
begin

text \<open>
  What the counters of \<open>src/database.c\<close> stand for. The invariant \<open>accounted\<close> says of a client
  that no freed message was touched, that the reference count of every stored message is the
  number of references to it, that the list of all messages holds what is alive, and that the
  counters and quotas of both queues are those of the messages in them. Every operation of
  \<open>Database\<close> keeps it, also when memory or the connection fails half way.
\<close>

section \<open>Accounting\<close>

text \<open>A message in a queue counts by its stored message and its QoS.\<close>

definition md_msgs :: "mosquitto_msg_data \<Rightarrow> mosquitto_client_msg list" where
  "md_msgs md = inflight md @ queued md"

definition md_keys :: "mosquitto_msg_data \<Rightarrow> (mptr \<times> u8) multiset" where
  "md_keys md = image_mset (\<lambda>m. (m_store m, m_qos m)) (mset (md_msgs md))"

definition plen :: "mosquitto_db \<Rightarrow> mptr \<Rightarrow> int" where
  "plen db p = int (unat (s_payloadlen (stored_at p db)))"

text \<open>The counters of a queue are what the messages \<open>K\<close>, which are in it, add up to.\<close>

definition md_ok :: "mosquitto_db \<Rightarrow> (mptr \<times> u8) multiset \<Rightarrow> mosquitto_msg_data \<Rightarrow> bool" where
  "md_ok db K md \<longleftrightarrow> K \<subseteq># md_keys md
   \<and> msg_count md = int (size K)
   \<and> msg_bytes md = (\<Sum>k\<in>#K. plen db (fst k))
   \<and> msg_count12 md = int (size {#k \<in># K. snd k > 0#})
   \<and> msg_bytes12 md = (\<Sum>k\<in>#{#k \<in># K. snd k > 0#}. plen db (fst k))"

definition quota_ok :: "mosquitto_msg_data \<Rightarrow> bool" where
  "quota_ok md \<longleftrightarrow> 0 \<le> inflight_quota md \<and> inflight_quota md \<le> int (unat (inflight_maximum md))"

text \<open>The references to stored messages that the queues of a client hold.\<close>

definition md_held :: "mosquitto_msg_data \<Rightarrow> mptr multiset" where
  "md_held md = image_mset fst (md_keys md)"

definition held :: "cptr \<Rightarrow> mosquitto_db \<Rightarrow> mptr multiset" where
  "held c db = md_held (md_of c mosq_md_in db) + md_held (md_of c mosq_md_out db)"

definition rc_at :: "mosquitto_db \<Rightarrow> mptr \<Rightarrow> int" where
  "rc_at db p = (case d_heap db p of None \<Rightarrow> 0 | Some s \<Rightarrow> s_ref_count s)"

text \<open>The list of all messages and the totals over it.\<close>

definition store_ok :: "mosquitto_db \<Rightarrow> bool" where
  "store_ok db \<longleftrightarrow>
     distinct (d_msg_store db) \<and> (\<forall>p \<in> set (d_msg_store db). d_heap db p \<noteq> None)
   \<and> (\<forall>p. rc_at db p > 0 \<longrightarrow> p \<in> set (d_msg_store db))
   \<and> d_msg_store_count db = int (length (d_msg_store db))
   \<and> d_msg_store_bytes db = (\<Sum>p\<leftarrow>d_msg_store db. plen db p)"

text \<open>
  The invariant of the broker as far as client \<open>c\<close> is concerned; \<open>ext\<close> are the references that
  are held elsewhere: by other clients, as retained messages or by the running function, and
  \<open>K\<close> are the messages of each queue that its counters count.
\<close>

definition inv :: "(mosquitto_msg_direction \<Rightarrow> (mptr \<times> u8) multiset) \<Rightarrow> mptr multiset \<Rightarrow> cptr \<Rightarrow> mosquitto_db \<Rightarrow> bool" where
  "inv K ext c db \<longleftrightarrow>
     \<not> d_fault db \<and> store_ok db
   \<and> (\<forall>p. rc_at db p = int (count (held c db + ext) p))
   \<and> (\<forall>dir. md_ok db (K dir) (md_of c dir db) \<and> quota_ok (md_of c dir db))"

definition keys_of :: "cptr \<Rightarrow> mosquitto_db \<Rightarrow> mosquitto_msg_direction \<Rightarrow> (mptr \<times> u8) multiset" where
  "keys_of c db dir = md_keys (md_of c dir db)"

text \<open>Between operations all messages are counted.\<close>

definition accounted :: "mptr multiset \<Rightarrow> cptr \<Rightarrow> mosquitto_db \<Rightarrow> bool" where
  "accounted ext c db \<longleftrightarrow> inv (keys_of c db) ext c db"

section \<open>What an operation leaves alone\<close>

definition same_msg :: "mosquitto_msg_store \<Rightarrow> mosquitto_msg_store \<Rightarrow> bool" where
  "same_msg s s' \<longleftrightarrow> s\<lparr>s_ref_count := 0, s_dest_ids := None\<rparr> = s'\<lparr>s_ref_count := 0, s_dest_ids := None\<rparr>"

text \<open>What a client keeps, besides its queues.\<close>

definition ctx_core :: "mosquitto \<Rightarrow> string option \<times> u8 \<times> mosquitto__protocol \<times> string list option list \<times>
    (string list \<times> string) option list \<times> mosquitto_client_state \<times> mosquitto__listener option \<times> (u16 \<times> string option) list \<times>
    mosquitto__bridge option" where
  "ctx_core ctx = (c_id ctx, c_max_qos ctx, c_protocol ctx, c_subs ctx, c_shared_subs ctx, c_state ctx, c_listener ctx, c_aliases ctx,
     map_option (\<lambda>b. b\<lparr>b_lazy_reconnect := False\<rparr>) (c_bridge ctx))"

lemma ctx_core_upd [simp]:
  "ctx_core (ctx\<lparr>c_is_dropping := b\<rparr>) = ctx_core ctx" "ctx_core (ctx\<lparr>c_last_mid := mid\<rparr>) = ctx_core ctx"
  "ctx_core (ctx\<lparr>c_out_packet_count := n\<rparr>) = ctx_core ctx"
  "c_bridge ctx = Some br \<Longrightarrow> ctx_core (ctx\<lparr>c_bridge := Some (br\<lparr>b_lazy_reconnect := True\<rparr>)\<rparr>) = ctx_core ctx"
  "ctx_core (ctx\<lparr>c_msgs_in := md\<rparr>) = ctx_core ctx" "ctx_core (ctx\<lparr>c_msgs_out := md\<rparr>) = ctx_core ctx"
  by (simp_all add: ctx_core_def)

definition effx :: "cptr \<Rightarrow> mosquitto_db \<Rightarrow> mosquitto_db \<Rightarrow> bool" where
  "effx c db db' \<longleftrightarrow>
     (\<forall>c'. c' \<noteq> c \<longrightarrow> get_ctx c' db' = get_ctx c' db)
   \<and> (\<forall>p s'. d_heap db' p = Some s' \<longrightarrow> (\<exists>s. d_heap db p = Some s \<and> same_msg s s'))
   \<and> ctx_core (get_ctx c db') = ctx_core (get_ctx c db)
   \<and> d_config db' = d_config db \<and> d_now_s db' = d_now_s db \<and> d_now_real_s db' = d_now_real_s db
   \<and> d_retains db' = d_retains db \<and> d_subs db' = d_subs db
   \<and> d_subscription_count db' = d_subscription_count db
   \<and> d_shared_subscription_count db' = d_shared_subscription_count db \<and> d_next db' = d_next db"

text \<open>
  As long as memory does not run out, the list of receivers of a message has no null entry: that is
  what a later insertion relies on when it compares the entries.
\<close>

definition ids_of :: "mosquitto_msg_store \<Rightarrow> string option list" where
  "ids_of s = (case s_dest_ids s of None \<Rightarrow> [] | Some ids \<Rightarrow> ids)"

definition dest_ok :: "mptr \<Rightarrow> mosquitto_db \<Rightarrow> bool" where
  "dest_ok p db \<longleftrightarrow> None \<notin> set (ids_of (stored_at p db))"

definition dests_calm :: "mosquitto_db \<Rightarrow> mosquitto_db \<Rightarrow> bool" where
  "dests_calm db db' \<longleftrightarrow> (d_mem db = [] \<longrightarrow> d_mem db' = [] \<and> (\<forall>p. dest_ok p db \<longrightarrow> dest_ok p db'))"

definition eff :: "cptr \<Rightarrow> mosquitto_db \<Rightarrow> mosquitto_db \<Rightarrow> bool" where
  "eff c db db' \<longleftrightarrow> effx c db db' \<and> dests_calm db db'"

lemmas eff_defs = eff_def effx_def

definition good :: "cptr \<Rightarrow> mosquitto_db \<Rightarrow> mosquitto_db \<Rightarrow> bool" where
  "good c db db' \<longleftrightarrow> (\<forall>ext. accounted ext c db \<longrightarrow> accounted ext c db' \<and> eff c db db')"

text \<open>An operation that keeps the messages where they are, or moves them within a client's queue.\<close>

definition calm :: "cptr \<Rightarrow> mosquitto_db \<Rightarrow> mosquitto_db \<Rightarrow> bool" where
  "calm c db db' \<longleftrightarrow> eff c db db' \<and> (\<forall>K ext. inv K ext c db \<longrightarrow> inv K ext c db') \<and> keys_of c db' = keys_of c db"

lemma same_msg_refl [simp]: "same_msg s s"
  by (simp add: same_msg_def)

lemma same_msg_trans: "same_msg s s' \<Longrightarrow> same_msg s' s'' \<Longrightarrow> same_msg s s''"
  by (simp add: same_msg_def)

lemma same_msg_fields:
  assumes "same_msg s s'"
  shows "s_payloadlen s' = s_payloadlen s" "s_topic s' = s_topic s" "s_qos s' = s_qos s"
    "s_source_mid s' = s_source_mid s" "s_message_expiry_time s' = s_message_expiry_time s"
proof -
  let ?r = "\<lambda>s :: mosquitto_msg_store. s\<lparr>s_ref_count := 0, s_dest_ids := None\<rparr>"
  have e: "?r s' = ?r s" using assms by (simp add: same_msg_def)
  show "s_payloadlen s' = s_payloadlen s" using arg_cong [OF e, of s_payloadlen] by simp
  show "s_topic s' = s_topic s" using arg_cong [OF e, of s_topic] by simp
  show "s_qos s' = s_qos s" using arg_cong [OF e, of s_qos] by simp
  show "s_source_mid s' = s_source_mid s" using arg_cong [OF e, of s_source_mid] by simp
  show "s_message_expiry_time s' = s_message_expiry_time s" using arg_cong [OF e, of s_message_expiry_time] by simp
qed

lemma same_msg_upd [simp]:
  "same_msg s (s\<lparr>s_ref_count := n\<rparr>)" "same_msg s (s\<lparr>s_dest_ids := ds\<rparr>)"
  by (simp_all add: same_msg_def)

lemma dests_calm_refl [simp]: "dests_calm db db"
  by (simp add: dests_calm_def)

lemma dests_calm_trans: "dests_calm db db' \<Longrightarrow> dests_calm db' db'' \<Longrightarrow> dests_calm db db''"
  unfolding dests_calm_def by blast

lemma dests_calm_heap: "(d_mem db = [] \<longrightarrow> d_mem db' = []) \<Longrightarrow> d_heap db' = d_heap db \<Longrightarrow> dests_calm db db'"
  by (simp add: dests_calm_def dest_ok_def stored_at_def)

lemma eff_refl [simp]: "eff c db db"
  by (auto simp: eff_defs)

lemma effx_trans:
  assumes "effx c db db'" "effx c db' db''"
  shows "effx c db db''"
proof -
  have "\<exists>s. d_heap db p = Some s \<and> same_msg s s''" if s: "d_heap db'' p = Some s''" for p s''
  proof -
    obtain s' where s': "d_heap db' p = Some s'" "same_msg s' s''" using assms(2) s unfolding effx_def by blast
    obtain s where "d_heap db p = Some s" "same_msg s s'" using assms(1) s'(1) unfolding effx_def by blast
    then show ?thesis using s'(2) same_msg_trans by blast
  qed
  then show ?thesis using assms by (simp add: effx_def)
qed

lemma eff_trans: "eff c db db' \<Longrightarrow> eff c db' db'' \<Longrightarrow> eff c db db''"
  unfolding eff_def using effx_trans dests_calm_trans by blast

lemma good_refl [simp]: "good c db db"
  by (simp add: good_def)

lemma good_trans: "good c db db' \<Longrightarrow> good c db' db'' \<Longrightarrow> good c db db''"
  unfolding good_def using eff_trans by blast

lemma calm_refl [simp]: "calm c db db"
  by (simp add: calm_def)

lemma calm_trans: "calm c db db' \<Longrightarrow> calm c db' db'' \<Longrightarrow> calm c db db''"
  unfolding calm_def using eff_trans by metis

lemma calm_good: "calm c db db' \<Longrightarrow> good c db db'"
  by (simp add: calm_def good_def accounted_def)

section \<open>The building blocks\<close>

lemma md_of_upd [simp]:
  "md_of c' dir' (upd_md c dir f db) = (if c' = c \<and> dir' = dir then f (md_of c dir db) else md_of c' dir' db)"
  by (simp add: md_of_def upd_md_def ctx_simps md_simps)

lemma upd_md_select [simp]:
  "d_heap (upd_md c dir f db) = d_heap db" "d_fault (upd_md c dir f db) = d_fault db"
  "d_config (upd_md c dir f db) = d_config db" "d_msg_store (upd_md c dir f db) = d_msg_store db"
  "d_msg_store_count (upd_md c dir f db) = d_msg_store_count db"
  "d_msg_store_bytes (upd_md c dir f db) = d_msg_store_bytes db"
  "d_now_s (upd_md c dir f db) = d_now_s db" "d_now_real_s (upd_md c dir f db) = d_now_real_s db"
  "d_retains (upd_md c dir f db) = d_retains db" "d_subs (upd_md c dir f db) = d_subs db"
  "d_subscription_count (upd_md c dir f db) = d_subscription_count db" "d_mem (upd_md c dir f db) = d_mem db"
  "d_shared_subscription_count (upd_md c dir f db) = d_shared_subscription_count db" "d_next (upd_md c dir f db) = d_next db"
  by (simp_all add: upd_md_def upd_ctx_def)

lemma get_ctx_upd_md [simp]: "c' \<noteq> c \<Longrightarrow> get_ctx c' (upd_md c dir f db) = get_ctx c' db"
  by (simp add: upd_md_def ctx_simps)

lemma stored_at_cong: "d_heap db' = d_heap db \<Longrightarrow> stored_at p db' = stored_at p db"
  by (simp add: stored_at_def)

lemma plen_cong: "d_heap db' p = d_heap db p \<Longrightarrow> plen db' p = plen db p"
  by (simp add: plen_def stored_at_def)

lemma rc_at_cong: "d_heap db' = d_heap db \<Longrightarrow> rc_at db' p = rc_at db p"
  by (simp add: rc_at_def)

lemma md_ok_plen:
  assumes "\<And>k. k \<in># md_keys md \<Longrightarrow> plen db' (fst k) = plen db (fst k)" and m: "md_ok db K md"
  shows "md_ok db' K md"
proof -
  have sub: "K \<subseteq># md_keys md" using m unfolding md_ok_def by (rule conjunct1)
  have a: "plen db' (fst k) = plen db (fst k)" if "k \<in># K" for k
    by (rule assms(1)) (rule mset_subset_eqD [OF sub that])
  have "(\<Sum>k\<in>#K. plen db' (fst k)) = (\<Sum>k\<in>#K. plen db (fst k))"
    using a by (intro arg_cong [of _ _ sum_mset] image_mset_cong) simp
  moreover have "(\<Sum>k\<in>#{#k \<in># K. snd k > 0#}. plen db' (fst k)) = (\<Sum>k\<in>#{#k \<in># K. snd k > 0#}. plen db (fst k))"
    using a by (intro arg_cong [of _ _ sum_mset] image_mset_cong) simp
  ultimately show ?thesis using m by (simp add: md_ok_def)
qed

lemma store_ok_heap:
  "d_heap db' = d_heap db \<Longrightarrow> d_msg_store db' = d_msg_store db \<Longrightarrow> d_msg_store_count db' = d_msg_store_count db \<Longrightarrow>
   d_msg_store_bytes db' = d_msg_store_bytes db \<Longrightarrow> store_ok db \<Longrightarrow> store_ok db'"
  by (simp add: store_ok_def rc_at_def plen_def stored_at_def)

lemma eff_upd_md: "eff c db (upd_md c dir f db)"
  by (cases dir) (simp_all add: eff_defs dests_calm_heap, simp_all add: upd_md_def ctx_simps set_md_def)

text \<open>Changing one queue: the references it loses or gains are those \<open>ext\<close> gains or loses.\<close>

lemma inv_upd_md:
  assumes "inv K ext c db" "md_ok db K' (f (md_of c dir db))" "quota_ok (f (md_of c dir db))"
    and "md_held (f (md_of c dir db)) + ext' = md_held (md_of c dir db) + ext"
  shows "inv (K(dir := K')) ext' c (upd_md c dir f db)"
proof -
  let ?db = "upd_md c dir f db"
  have "held c ?db + ext' = held c db + ext"
    using assms(4) by (cases dir) (simp_all add: held_def algebra_simps)
  moreover have "store_ok ?db" using assms(1) store_ok_heap [of ?db db] by (simp add: inv_def)
  moreover have "md_ok ?db K md = md_ok db K md" for K md
    by (simp add: md_ok_def plen_def stored_at_def)
  ultimately show ?thesis using assms by (auto simp: inv_def rc_at_cong [of ?db db])
qed

text \<open>Changing a queue without adding or removing messages.\<close>

definition md_same :: "mosquitto_msg_data \<Rightarrow> mosquitto_msg_data \<Rightarrow> bool" where
  "md_same md md' \<longleftrightarrow> md_keys md' = md_keys md \<and> msg_count md' = msg_count md \<and> msg_bytes md' = msg_bytes md
     \<and> msg_count12 md' = msg_count12 md \<and> msg_bytes12 md' = msg_bytes12 md \<and> (quota_ok md \<longrightarrow> quota_ok md')"

lemma calm_upd_md:
  assumes "md_same (md_of c dir db) (f (md_of c dir db))"
  shows "calm c db (upd_md c dir f db)"
proof -
  have "inv K ext c (upd_md c dir f db)" if "inv K ext c db" for K ext
  proof -
    have "inv (K(dir := K dir)) ext c (upd_md c dir f db)"
    proof (rule inv_upd_md [OF that])
      show "md_ok db (K dir) (f (md_of c dir db))" "quota_ok (f (md_of c dir db))"
        using assms that by (auto simp: md_same_def inv_def md_ok_def)
      show "md_held (f (md_of c dir db)) + ext = md_held (md_of c dir db) + ext"
        using assms by (simp add: md_held_def md_same_def)
    qed
    then show ?thesis by simp
  qed
  moreover have "keys_of c (upd_md c dir f db) = keys_of c db"
    using assms by (auto simp: keys_of_def md_same_def)
  ultimately show ?thesis by (simp add: calm_def eff_upd_md)
qed

text \<open>Changing a part of the state that the invariant does not mention.\<close>

lemma calm_outside:
  assumes "eff c db db'" "\<And>dir. md_of c dir db' = md_of c dir db"
    and h: "d_heap db' = d_heap db" "d_fault db' = d_fault db" "d_msg_store db' = d_msg_store db"
    "d_msg_store_count db' = d_msg_store_count db" "d_msg_store_bytes db' = d_msg_store_bytes db"
  shows "calm c db db'"
proof -
  have "md_ok db' K md = md_ok db K md" for K md using h(1) by (simp add: md_ok_def plen_def stored_at_def)
  then have "inv K ext c db \<Longrightarrow> inv K ext c db'" for K ext
    using assms(2) h store_ok_heap [of db' db] by (simp add: inv_def held_def rc_at_cong [of db' db])
  moreover have "keys_of c db' = keys_of c db" using assms(2) by (auto simp: keys_of_def)
  ultimately show ?thesis using assms(1) by (simp add: calm_def)
qed

lemma calm_fields:
  assumes h: "d_heap db' = d_heap db" "d_fault db' = d_fault db" "d_msg_store db' = d_msg_store db"
    "d_msg_store_count db' = d_msg_store_count db" "d_msg_store_bytes db' = d_msg_store_bytes db"
    and "d_contexts db' = d_contexts db" "d_config db' = d_config db" "d_now_s db' = d_now_s db"
    "d_now_real_s db' = d_now_real_s db" "d_retains db' = d_retains db" "d_subs db' = d_subs db"
    "d_subscription_count db' = d_subscription_count db" "d_shared_subscription_count db' = d_shared_subscription_count db"
    "d_next db' = d_next db" "d_mem db = [] \<longrightarrow> d_mem db' = []"
  shows "calm c db db'"
  by (rule calm_outside [OF _ _ h]) (use assms in \<open>auto simp: eff_defs dests_calm_heap md_of_def get_ctx_def\<close>)

lemma inv_upd_ctx:
  assumes "\<And>ctx. c_msgs_in (f ctx) = c_msgs_in ctx \<and> c_msgs_out (f ctx) = c_msgs_out ctx"
  shows "accounted ext c db \<Longrightarrow> accounted ext c (upd_ctx c f db)" "md_of c dir (upd_ctx c f db) = md_of c dir db"
proof -
  have m: "md_of c dir (upd_ctx c f db) = md_of c dir db" for dir
    using assms by (cases dir) (simp_all add: md_of_def get_md_def ctx_simps)
  show "md_of c dir (upd_ctx c f db) = md_of c dir db" by (rule m)
  assume a: "accounted ext c db"
  let ?db = "upd_ctx c f db"
  have h: "d_heap ?db = d_heap db" "d_fault ?db = d_fault db" "d_msg_store ?db = d_msg_store db"
    "d_msg_store_count ?db = d_msg_store_count db" "d_msg_store_bytes ?db = d_msg_store_bytes db"
    by (simp_all add: upd_ctx_def)
  have k: "keys_of c ?db = keys_of c db" using m by (auto simp: keys_of_def)
  have "md_ok ?db K md = md_ok db K md" for K md using h(1) by (simp add: md_ok_def plen_def stored_at_def)
  then show "accounted ext c ?db"
    using a h m store_ok_heap [OF h(1,3-5)] unfolding accounted_def k
    by (simp add: inv_def held_def rc_at_cong [OF h(1)])
qed

lemma calm_upd_ctx:
  assumes "\<And>ctx. c_msgs_in (f ctx) = c_msgs_in ctx \<and> c_msgs_out (f ctx) = c_msgs_out ctx \<and> ctx_core (f ctx) = ctx_core ctx"
  shows "calm c db (upd_ctx c f db)"
proof (rule calm_outside)
  show "eff c db (upd_ctx c f db)" using assms
    by (simp add: eff_defs ctx_simps) (simp add: upd_ctx_def dests_calm_heap)
  show "md_of c dir (upd_ctx c f db) = md_of c dir db" for dir
    by (rule inv_upd_ctx(2)) (use assms in blast)
qed (simp_all add: upd_ctx_def)

lemma calm_send: "calm c db (snd (d_send c ev db))"
proof -
  let ?db = "db\<lparr>d_sent := d_sent db @ [(c, ev)]\<rparr>"
  have a: "calm c db ?db" by (rule calm_fields) simp_all
  have b: "calm c ?db (?db\<lparr>d_net := net\<rparr>)" for net by (rule calm_fields) simp_all
  have "calm c (?db\<lparr>d_net := net\<rparr>) (upd_ctx c (\<lambda>ctx. ctx\<lparr>c_out_packet_count := n\<rparr>) (?db\<lparr>d_net := net\<rparr>))" for net n
    by (rule calm_upd_ctx) simp
  from calm_trans [OF b this] have "calm c ?db (snd (d_send c ev db))"
    by (auto simp: d_send_def Let_def split: list.split)
  then show ?thesis using a calm_trans by blast
qed

lemma calm_malloc: "calm c db (snd (d_malloc db))"
  by (cases "malloc_ok (d_mem db)") (auto simp: d_malloc_def intro!: calm_fields)

lemma del_at_mset: "i < length xs \<Longrightarrow> mset xs = add_mset (xs ! i) (mset (del_at i xs))"
proof -
  assume "i < length xs"
  then have "xs = take i xs @ xs ! i # drop (Suc i) xs" by (rule id_take_nth_drop)
  then have "mset xs = mset (take i xs @ xs ! i # drop (Suc i) xs)" by simp
  then show ?thesis by (simp add: del_at_def)
qed

section \<open>Reference counts\<close>

lemma held_cong: "d_contexts db' = d_contexts db \<Longrightarrow> held c db' = held c db"
  by (simp add: held_def md_of_def get_ctx_def)

lemma rc_pos_live: "rc_at db p > 0 \<Longrightarrow> \<exists>s. d_heap db p = Some s \<and> s_ref_count s = rc_at db p"
  by (auto simp: rc_at_def split: option.splits)

lemma inv_live:
  assumes "inv K ext c db" "p \<in># held c db + ext"
  shows "\<exists>s. d_heap db p = Some s \<and> s_ref_count s = int (count (held c db + ext) p)"
    and "p \<in> set (d_msg_store db)" and "touch p db = db"
proof -
  have r: "rc_at db p = int (count (held c db + ext) p)" using assms(1) unfolding inv_def by blast
  have "count (held c db + ext) p > 0" using assms(2) unfolding count_greater_zero_iff .
  then have pos: "rc_at db p > 0" unfolding r by (rule of_nat_0_less_iff [THEN iffD2])
  obtain s where s: "d_heap db p = Some s" "s_ref_count s = rc_at db p" using rc_pos_live [OF pos] by blast
  show "\<exists>s. d_heap db p = Some s \<and> s_ref_count s = int (count (held c db + ext) p)"
    by (rule exI [of _ s], rule conjI, rule s(1), rule trans [OF s(2) r])
  show "touch p db = db" using s by (simp add: touch_def)
  have "store_ok db" using assms(1) unfolding inv_def by blast
  then show "p \<in> set (d_msg_store db)" using pos unfolding store_ok_def by blast
qed

text \<open>Replacing the record of a live message by one that differs in its count and its receivers.\<close>

lemma upd_store_select:
  "d_heap db p = Some s \<Longrightarrow> upd_store p f db = db\<lparr>d_heap := (d_heap db)(p \<mapsto> f s)\<rparr>"
  by (simp add: upd_store_def)

lemma inv_upd_store:
  assumes "inv K ext c db" "d_heap db p = Some s" "same_msg s s'" "p \<in> set (d_msg_store db)"
    "\<And>q. int (count (held c db + ext') q) = (if q = p then s_ref_count s' else rc_at db q)"
  shows "inv K ext' c (db\<lparr>d_heap := (d_heap db)(p \<mapsto> s')\<rparr>)"
proof -
  let ?db = "db\<lparr>d_heap := (d_heap db)(p \<mapsto> s')\<rparr>"
  have pl: "plen ?db q = plen db q" for q
    using assms(2) same_msg_fields(1) [OF assms(3)] by (simp add: plen_def stored_at_def)
  then have pl': "plen ?db = plen db" by blast
  have rc: "rc_at ?db q = (if q = p then s_ref_count s' else rc_at db q)" for q by (simp add: rc_at_def)
  have so: "store_ok db" using assms(1) by (simp add: inv_def)
  have a: "\<forall>q \<in> set (d_msg_store db). d_heap ?db q \<noteq> None" using so unfolding store_ok_def by simp
  have b: "\<forall>q. rc_at ?db q > 0 \<longrightarrow> q \<in> set (d_msg_store db)"
    using so assms(4) unfolding store_ok_def rc by simp
  have sel: "d_msg_store ?db = d_msg_store db" "d_msg_store_count ?db = d_msg_store_count db"
    "d_msg_store_bytes ?db = d_msg_store_bytes db" by simp_all
  have "store_ok ?db" using so a b unfolding store_ok_def pl' sel by blast
  moreover have "held c ?db = held c db" by (rule held_cong) simp
  moreover have "md_ok ?db K md = md_ok db K md" for K md by (simp add: md_ok_def pl')
  moreover have "md_of c dir ?db = md_of c dir db" for dir by (simp add: md_of_def get_ctx_def)
  ultimately show ?thesis using assms(1,5) rc by (simp add: inv_def)
qed

lemma effx_upd_store:
  "d_heap db p = Some s \<Longrightarrow> same_msg s s' \<Longrightarrow> effx c db (db\<lparr>d_heap := (d_heap db)(p \<mapsto> s')\<rparr>)"
  by (auto simp: effx_def get_ctx_def)

lemma eff_upd_store:
  "d_heap db p = Some s \<Longrightarrow> same_msg s s' \<Longrightarrow> ids_of s' = ids_of s \<Longrightarrow> eff c db (db\<lparr>d_heap := (d_heap db)(p \<mapsto> s')\<rparr>)"
  by (auto simp: eff_def effx_upd_store dests_calm_def dest_ok_def stored_at_def)

lemma inv_ref_inc:
  assumes "inv K ext c db" "d_heap db p \<noteq> None" "p \<in> set (d_msg_store db)"
  shows "inv K (add_mset p ext) c (db__msg_store_ref_inc p db)" "eff c db (db__msg_store_ref_inc p db)"
proof -
  obtain s where s: "d_heap db p = Some s" using assms(2) by blast
  let ?s = "s\<lparr>s_ref_count := s_ref_count s + 1\<rparr>"
  have e: "db__msg_store_ref_inc p db = db\<lparr>d_heap := (d_heap db)(p \<mapsto> ?s)\<rparr>"
    using s by (simp add: db__msg_store_ref_inc_def upd_store_select)
  have "rc_at db p = s_ref_count s" using s by (simp add: rc_at_def)
  moreover have "\<forall>q. rc_at db q = int (count (held c db + ext) q)" using assms(1) by (simp add: inv_def)
  ultimately show "inv K (add_mset p ext) c (db__msg_store_ref_inc p db)"
    unfolding e using assms s by (intro inv_upd_store) auto
  show "eff c db (db__msg_store_ref_inc p db)" unfolding e using s by (rule eff_upd_store) (simp_all add: ids_of_def)
qed

text \<open>Freeing a message that nothing refers to.\<close>

lemma inv_remove:
  assumes "inv K ext c db" "d_heap db p = Some s" "s_ref_count s = 0" "p \<in> set (d_msg_store db)"
  shows "inv K ext c (db__msg_store_remove p db)" "eff c db (db__msg_store_remove p db)"
proof -
  let ?db = "db__msg_store_remove p db"
  have h: "d_heap ?db = (d_heap db)(p := None)" "d_fault ?db = d_fault db" "d_msg_store ?db = remove1 p (d_msg_store db)"
    "d_msg_store_count ?db = d_msg_store_count db - 1" "d_contexts ?db = d_contexts db"
    "d_msg_store_bytes ?db = d_msg_store_bytes db - plen db p" "d_config ?db = d_config db"
    "d_now_s ?db = d_now_s db" "d_now_real_s ?db = d_now_real_s db"
    "d_retains ?db = d_retains db" "d_subs ?db = d_subs db"
    "d_subscription_count ?db = d_subscription_count db" "d_shared_subscription_count ?db = d_shared_subscription_count db"
    "d_mem ?db = d_mem db" "d_next ?db = d_next db"
    using assms(2) by (simp_all add: db__msg_store_remove_def db__msg_store_free_def touch_def plen_def)
  have ne: "plen ?db q = plen db q" if "q \<noteq> p" for q using h(1) that by (intro plen_cong) simp
  have rp: "rc_at db p = 0" using assms(2,3) by (simp add: rc_at_def)
  then have rc: "rc_at ?db q = rc_at db q" for q using h(1) by (simp add: rc_at_def)
  have np: "p \<notin># held c db + ext" using assms(1) rp by (simp add: inv_def not_in_iff)
  have so: "store_ok db" using assms(1) by (simp add: inv_def)
  have "distinct (d_msg_store db)" using so by (simp add: store_ok_def)
  moreover have "(\<Sum>q\<leftarrow>d_msg_store db. plen db q) = plen db p + (\<Sum>q\<leftarrow>remove1 p (d_msg_store db). plen db q)"
    using assms(4) by (rule sum_list_map_remove1)
  moreover have "(\<Sum>q\<leftarrow>remove1 p (d_msg_store db). plen ?db q) = (\<Sum>q\<leftarrow>remove1 p (d_msg_store db). plen db q)"
    using \<open>distinct (d_msg_store db)\<close> ne by (intro arg_cong [of _ _ sum_list] map_cong) auto
  moreover have "int (length (d_msg_store db)) - 1 = int (length (remove1 p (d_msg_store db)))"
    using length_pos_if_in_set [OF assms(4)] assms(4) by (simp add: length_remove1 of_nat_diff Suc_le_eq)
  ultimately have "store_ok ?db" using so h rc rp
    by (auto simp: store_ok_def)
  moreover have hd: "held c ?db = held c db" using h(5) by (rule held_cong)
  moreover have md: "md_of c dir ?db = md_of c dir db" for dir using h(5) by (simp add: md_of_def get_ctx_def)
  moreover have "md_ok ?db (K dir) (md_of c dir db)" if "md_ok db (K dir) (md_of c dir db)" for dir
  proof (rule md_ok_plen [OF _ that])
    fix k assume "k \<in># md_keys (md_of c dir db)"
    then have "fst k \<in># md_held (md_of c dir db)" by (auto simp: md_held_def)
    then have "fst k \<in># held c db" by (cases dir) (auto simp: held_def)
    then have "fst k \<noteq> p" using np by auto
    then show "plen ?db (fst k) = plen db (fst k)" by (rule ne)
  qed
  ultimately show "inv K ext c ?db" using assms(1) h(2) rc by (simp add: inv_def)
  have "dest_ok q ?db" if "dest_ok q db" for q
    using that h(1) by (cases "q = p") (simp_all add: dest_ok_def stored_at_def ids_of_def msg0_def)
  then show "eff c db ?db" using h by (auto simp: eff_defs dests_calm_def get_ctx_def split: if_splits)
qed

lemma inv_ref_dec:
  assumes "inv K (add_mset p ext) c db"
  shows "inv K ext c (snd (db__msg_store_ref_dec p db))" "eff c db (snd (db__msg_store_ref_dec p db))"
    "fst (db__msg_store_ref_dec p db) = (if p \<in># held c db + ext then Some p else None)"
proof -
  have "p \<in># held c db + add_mset p ext" by simp
  note l = inv_live [OF assms this]
  obtain s where s: "d_heap db p = Some s" "s_ref_count s = int (count (held c db + add_mset p ext) p)"
    using l(1) by blast
  let ?s = "s\<lparr>s_ref_count := s_ref_count s - 1\<rparr>" 
  let ?db = "db\<lparr>d_heap := (d_heap db)(p \<mapsto> ?s)\<rparr>"
  have rc: "\<forall>q. rc_at db q = int (count (held c db + add_mset p ext) q)" using assms by (simp add: inv_def)
  have i: "inv K ext c ?db"
    using assms s l(2) rc by (intro inv_upd_store) auto
  have e: "eff c db ?db" using s(1) by (rule eff_upd_store) (simp_all add: ids_of_def)
  have n: "s_ref_count ?s = int (count (held c db + ext) p)" using s(2) by simp
  have d: "db__msg_store_ref_dec p db = (if s_ref_count ?s = 0 then (None, db__msg_store_remove p ?db) else (Some p, ?db))"
    using s(1) by (simp add: db__msg_store_ref_dec_def upd_store_select)
  have z: "s_ref_count ?s = 0 \<longleftrightarrow> p \<notin># held c db + ext"
    unfolding n not_in_iff by (rule of_nat_eq_0_iff)
  show "fst (db__msg_store_ref_dec p db) = (if p \<in># held c db + ext then Some p else None)"
    unfolding d using z by simp
  show "inv K ext c (snd (db__msg_store_ref_dec p db))" "eff c db (snd (db__msg_store_ref_dec p db))"
    using i e inv_remove [OF i, of p ?s] l(2) unfolding d by (auto intro: eff_trans [OF e])
qed

section \<open>Operations on one message\<close>

lemma good_fst_snd: "good c db (snd r) \<Longrightarrow> r = (x, db') \<Longrightarrow> good c db db'"
  by simp

lemma md_keys_fields [simp]:
  "md_keys (md\<lparr>msg_count := n\<rparr>) = md_keys md" "md_keys (md\<lparr>msg_bytes := n\<rparr>) = md_keys md"
  "md_keys (md\<lparr>msg_count12 := n\<rparr>) = md_keys md" "md_keys (md\<lparr>msg_bytes12 := n\<rparr>) = md_keys md"
  "md_keys (md\<lparr>inflight_quota := n\<rparr>) = md_keys md"
  by (simp_all add: md_keys_def md_msgs_def)

lemma md_keys_del_at:
  assumes "i < length (inflight md)" "inflight md' = del_at i (inflight md)" "queued md' = queued md"
  shows "md_keys md = add_mset (m_store (inflight md ! i), m_qos (inflight md ! i)) (md_keys md')"
  using assms del_at_mset [OF assms(1)] by (simp add: md_keys_def md_msgs_def)

lemma ref_dec_ctxs: "d_contexts (snd (db__msg_store_ref_dec p db)) = d_contexts db"
  by (auto simp: db__msg_store_ref_dec_def upd_store_def db__msg_store_remove_def db__msg_store_free_def touch_def
      Let_def split: option.split)

lemma touch_ctxs: "d_contexts (touch p db) = d_contexts db"
  by (simp add: touch_def)

lemma md_of_cong: "d_contexts db' = d_contexts db \<Longrightarrow> md_of c dir db' = md_of c dir db"
  by (simp add: md_of_def get_ctx_def)

lemma remove_lists [simp]:
  "dir' \<noteq> dir \<Longrightarrow> md_of c dir' (db__message_remove c dir i db) = md_of c dir' db"
  "inflight (md_of c dir (db__message_remove c dir i db)) = del_at i (inflight (md_of c dir db))"
  "queued (md_of c dir (db__message_remove c dir i db)) = queued (md_of c dir db)"
  by (simp_all add: db__message_remove_def Let_def md_of_cong [OF ref_dec_ctxs] md_of_cong [OF touch_ctxs])

lemma inv_message_remove:
  assumes inv: "inv K ext c db" and i: "i < length (inflight (md_of c dir db))"
    and k: "k = (m_store (inflight (md_of c dir db) ! i), m_qos (inflight (md_of c dir db) ! i))" "k \<in># K dir"
  shows "inv (K(dir := K dir - {#k#})) ext c (db__message_remove c dir i db)"
    and "eff c db (db__message_remove c dir i db)"
    and "keys_of c (db__message_remove c dir i db) = (keys_of c db)(dir := keys_of c db dir - {#k#})"
proof -
  let ?db = "db__message_remove c dir i db" and ?K = "K(dir := K dir - {#k#})"
  let ?md = "md_of c dir db" and ?p = "fst k"
  let ?len = "plen db ?p"
  define F where "F = (\<lambda>md :: mosquitto_msg_data.
    let md = md\<lparr>inflight := del_at i (inflight md), msg_count := msg_count md - 1, msg_bytes := msg_bytes md - ?len\<rparr>
    in if snd k > 0 then md\<lparr>msg_count12 := msg_count12 md - 1, msg_bytes12 := msg_bytes12 md - ?len\<rparr> else md)"
  have F: "inflight (F ?md) = del_at i (inflight ?md)" "queued (F ?md) = queued ?md"
    "inflight_quota (F ?md) = inflight_quota ?md" "inflight_maximum (F ?md) = inflight_maximum ?md"
    by (simp_all add: F_def Let_def)
  have keys: "md_keys ?md = add_mset k (md_keys (F ?md))"
    using md_keys_del_at [OF i F(1,2)] k(1) by simp
  obtain K' where K': "K dir = add_mset k K'" using multi_member_split [OF k(2)] by blast
  have ok: "md_ok db (K dir) ?md" "quota_ok ?md" using inv by (auto simp: inv_def)
  have "md_ok db K' (F ?md)" using ok(1) unfolding md_ok_def K' keys
    by (cases "snd k > 0") (simp_all add: F_def Let_def)
  moreover have "quota_ok (F ?md)" using ok(2) F by (simp add: quota_ok_def)
  moreover have "md_held (F ?md) + add_mset ?p ext = md_held ?md + ext" using keys by (simp add: md_held_def)
  ultimately have 1: "inv ?K (add_mset ?p ext) c (upd_md c dir F db)"
    using inv_upd_md [OF inv, of K' F dir "add_mset ?p ext"] K' by simp
  have "?p \<in># held c db + ext" using keys by (cases dir) (auto simp: held_def md_held_def)
  then have "touch ?p db = db" using inv_live(3) [OF inv] by blast
  then have e: "?db = snd (db__msg_store_ref_dec ?p (upd_md c dir F db))"
    unfolding k(1) fst_conv snd_conv db__message_remove_def F_def plen_def Let_def by simp
  show "inv ?K ext c ?db" unfolding e by (rule inv_ref_dec(1) [OF 1])
  show "eff c db ?db" unfolding e by (rule eff_trans [OF eff_upd_md inv_ref_dec(2) [OF 1]])
  have "md_keys (md_of c dir ?db) = md_keys (F ?md)" using F by (simp add: md_keys_def md_msgs_def)
  then show "keys_of c ?db = (keys_of c db)(dir := keys_of c db dir - {#k#})"
    using keys by (auto simp: keys_of_def)
qed

lemma keys_of_inflight:
  "i < length (inflight (md_of c dir db)) \<Longrightarrow>
   (m_store (inflight (md_of c dir db) ! i), m_qos (inflight (md_of c dir db) ! i)) \<in># keys_of c db dir"
  using md_keys_del_at [of i "md_of c dir db" "(md_of c dir db)\<lparr>inflight := del_at i (inflight (md_of c dir db))\<rparr>"]
  by (simp add: keys_of_def)

lemma good_message_remove:
  assumes "i < length (inflight (md_of c dir db))"
  shows "good c db (db__message_remove c dir i db)"
  unfolding good_def accounted_def
proof (intro allI impI)
  fix ext assume "inv (keys_of c db) ext c db"
  from inv_message_remove [OF this assms refl keys_of_inflight [OF assms]]
  show "inv (keys_of c (db__message_remove c dir i db)) ext c (db__message_remove c dir i db)
      \<and> eff c db (db__message_remove c dir i db)" by simp
qed

lemma calm_dequeue_first:
  assumes "queued (md_of c dir db) \<noteq> []"
  shows "calm c db (db__message_dequeue_first c dir db)"
proof -
  obtain m ms where q: "queued (md_of c dir db) = m # ms" using assms by (cases "queued (md_of c dir db)") auto
  show ?thesis unfolding db__message_dequeue_first_def q list.case
    by (rule calm_upd_md) (auto simp: md_same_def md_keys_def md_msgs_def quota_ok_def q)
qed

lemma map_update_same: "g (f (xs ! i)) = g (xs ! i) \<Longrightarrow> map g (xs[i := f (xs ! i)]) = map g xs"
  by (cases "i < length xs") (simp add: map_update, metis list_update_id nth_map, simp add: list_update_beyond)

lemma calm_upd_queued:
  assumes "\<And>m. m_store (f m) = m_store m \<and> m_qos (f m) = m_qos m"
  shows "calm c db (upd_queued c dir i f db)"
proof -
  have "mset (map (\<lambda>m. (m_store m, m_qos m)) (xs[i := f (xs ! i)])) = mset (map (\<lambda>m. (m_store m, m_qos m)) xs)" for xs
    using assms by (intro arg_cong [of _ _ mset] map_update_same) simp
  then show ?thesis unfolding upd_queued_def
    by (intro calm_upd_md) (simp add: md_same_def md_keys_def md_msgs_def quota_ok_def)
qed

lemma calm_upd_inflight:
  assumes "\<And>m. m_store (f m) = m_store m \<and> m_qos (f m) = m_qos m"
  shows "calm c db (upd_inflight c dir i f db)"
proof -
  have "mset (map (\<lambda>m. (m_store m, m_qos m)) (xs[i := f (xs ! i)])) = mset (map (\<lambda>m. (m_store m, m_qos m)) xs)" for xs
    using assms by (intro arg_cong [of _ _ mset] map_update_same) simp
  then show ?thesis unfolding upd_inflight_def
    by (intro calm_upd_md) (simp add: md_same_def md_keys_def md_msgs_def quota_ok_def)
qed

lemma calm_quota:
  "calm c db (util__increment_receive_quota c db)" "calm c db (util__increment_send_quota c db)"
  "calm c db (util__decrement_receive_quota c db)" "calm c db (util__decrement_send_quota c db)"
  unfolding util__increment_receive_quota_def util__increment_send_quota_def util__decrement_receive_quota_def
    util__decrement_send_quota_def
  by (rule calm_upd_md, simp add: md_same_def md_keys_def md_msgs_def quota_ok_def)+

lemma calm_mid_generate: "calm c db (snd (mosquitto__mid_generate c db))"
  by (simp add: mosquitto__mid_generate_def Let_def calm_upd_ctx)

end
