(* ===== verification/Queue_Ops.thy ===== *)
theory Queue_Ops
  imports Accounting
begin

text \<open>
  The operations of \<open>Database\<close> that fill, write and shorten the queues of a client keep its
  invariant (\<open>good\<close>); those that only move messages are \<open>calm\<close>.
\<close>

section \<open>Lengths of the queues\<close>

lemma upd_lists [simp]:
  "queued (md_of c dir (upd_queued c dir i f db)) = (queued (md_of c dir db))[i := f (queued (md_of c dir db) ! i)]"
  "inflight (md_of c dir (upd_queued c dir i f db)) = inflight (md_of c dir db)"
  "inflight (md_of c dir (upd_inflight c dir i f db)) = (inflight (md_of c dir db))[i := f (inflight (md_of c dir db) ! i)]"
  "queued (md_of c dir (upd_inflight c dir i f db)) = queued (md_of c dir db)"
  "dir' \<noteq> dir \<Longrightarrow> md_of c dir' (upd_queued c dir i f db) = md_of c dir' db"
  "dir' \<noteq> dir \<Longrightarrow> md_of c dir' (upd_inflight c dir i f db) = md_of c dir' db"
  by (simp_all add: upd_queued_def upd_inflight_def)

lemma dequeue_lists [simp]:
  "queued (md_of c dir (db__message_dequeue_first c dir db)) = tl (queued (md_of c dir db))"
  "queued (md_of c dir db) \<noteq> [] \<Longrightarrow>
     inflight (md_of c dir (db__message_dequeue_first c dir db)) = inflight (md_of c dir db) @ [hd (queued (md_of c dir db))]"
  "dir' \<noteq> dir \<Longrightarrow> md_of c dir' (db__message_dequeue_first c dir db) = md_of c dir' db"
proof -
  have t: "md_of c dir (db\<lparr>d_fault := b\<rparr>) = md_of c dir db" for dir b by (simp add: md_of_def get_ctx_def)
  show "queued (md_of c dir (db__message_dequeue_first c dir db)) = tl (queued (md_of c dir db))"
    by (cases "queued (md_of c dir db)") (simp_all add: db__message_dequeue_first_def t)
  show "queued (md_of c dir db) \<noteq> [] \<Longrightarrow>
     inflight (md_of c dir (db__message_dequeue_first c dir db)) = inflight (md_of c dir db) @ [hd (queued (md_of c dir db))]"
    by (cases "queued (md_of c dir db)") (simp_all add: db__message_dequeue_first_def)
  show "dir' \<noteq> dir \<Longrightarrow> md_of c dir' (db__message_dequeue_first c dir db) = md_of c dir' db"
    by (cases "queued (md_of c dir db)") (simp_all add: db__message_dequeue_first_def t)
qed

lemma send_md [simp]: "md_of c' dir (snd (d_send c ev db)) = md_of c' dir db"
  by (cases dir) (auto simp: d_send_def md_of_def get_ctx_def get_md_def upd_ctx_def Let_def split: list.split)

lemma quota_lists [simp]:
  "inflight (md_of c dir (util__increment_send_quota c db)) = inflight (md_of c dir db)"
  "queued (md_of c dir (util__increment_send_quota c db)) = queued (md_of c dir db)"
  "inflight (md_of c dir (util__decrement_send_quota c db)) = inflight (md_of c dir db)"
  "queued (md_of c dir (util__decrement_send_quota c db)) = queued (md_of c dir db)"
  "inflight (md_of c dir (util__decrement_receive_quota c db)) = inflight (md_of c dir db)"
  "queued (md_of c dir (util__decrement_receive_quota c db)) = queued (md_of c dir db)"
  by (simp_all add: util__increment_send_quota_def util__decrement_send_quota_def util__decrement_receive_quota_def)

lemma length_del_at: "i < length xs \<Longrightarrow> length (del_at i xs) = length xs - 1"
  by (simp add: del_at_def)

section \<open>Writing outgoing messages\<close>

lemma goodI: "(\<And>ext. accounted ext c db \<Longrightarrow> good c db db') \<Longrightarrow> good c db db'"
  unfolding good_def by blast

lemma accounted_held:
  assumes "accounted ext c db" "k \<in># keys_of c db dir"
  shows "fst k \<in># held c db + ext" and "touch (fst k) db = db"
proof -
  have "fst k \<in># md_held (md_of c dir db)" using assms(2) by (auto simp: md_held_def keys_of_def)
  then show h: "fst k \<in># held c db + ext" by (cases dir) (auto simp: held_def)
  show "touch (fst k) db = db" using inv_live(3) [OF assms(1) [unfolded accounted_def] h] .
qed

lemma accounted_inflight:
  assumes "accounted ext c db" "i < length (inflight (md_of c dir db))"
  shows "touch (m_store (inflight (md_of c dir db) ! i)) db = db"
  using accounted_held(2) [OF assms(1) keys_of_inflight [OF assms(2)]] by simp

text \<open>A step on one outgoing message that says rightly whether it has removed one.\<close>

definition single_ok :: "cptr \<Rightarrow> mosquitto_db \<Rightarrow> (mosq_err \<times> bool) \<times> mosquitto_db \<Rightarrow> bool" where
  "single_ok c db r \<longleftrightarrow> good c db (snd r) \<and>
     length (inflight (md_of c mosq_md_out (snd r))) + (if snd (fst r) then 1 else 0)
       = length (inflight (md_of c mosq_md_out db))"

lemma single_remove:
  "i < length (inflight (md_of c mosq_md_out db)) \<Longrightarrow> single_ok c db ((e, True), db__message_remove c mosq_md_out i db)"
  by (simp add: single_ok_def good_message_remove length_del_at)

lemma single_keep [simp]: "single_ok c db ((e, False), db)"
  by (simp add: single_ok_def)

lemma single_mark:
  "(\<And>m. m_store (f m) = m_store m \<and> m_qos (f m) = m_qos m) \<Longrightarrow>
   single_ok c db ((e, False), upd_inflight c mosq_md_out i f db)"
  by (simp add: single_ok_def calm_good calm_upd_inflight)

lemma single_send:
  assumes "i < length (inflight (md_of c mosq_md_out db))"
    and "\<And>rc db1. i < length (inflight (md_of c mosq_md_out db1)) \<Longrightarrow> single_ok c db1 (F rc db1)"
  shows "single_ok c db (case d_send c ev db of (rc, db1) \<Rightarrow> F rc db1)"
proof -
  obtain rc db1 where s: "d_send c ev db = (rc, db1)" by (cases "d_send c ev db")
  have g: "good c db db1" using calm_good [OF calm_send [of c db ev]] s by simp
  have m: "md_of c dir db1 = md_of c dir db" for dir using send_md [of c dir c ev db] s by simp
  have "single_ok c db1 (F rc db1)" using assms by (simp add: m)
  then show ?thesis using good_trans [OF g] unfolding s single_ok_def by (simp add: m)
qed

lemma single_write:
  assumes "accounted ext c db" "i < length (inflight (md_of c mosq_md_out db))"
  shows "single_ok c db (db__message_write_inflight_out_single c i db)"
proof -
  let ?m = "inflight (md_of c mosq_md_out db) ! i"
  have t: "touch (m_store ?m) db = db" using accounted_inflight [OF assms] .
  have expired: "single_ok c db ((e, True), db__message_remove c mosq_md_out i (util__increment_send_quota c db))" for e
    using single_remove [of i c "util__increment_send_quota c db"] assms(2)
      good_trans [OF calm_good [OF calm_quota(2) [of c db]]]
    unfolding single_ok_def by simp
  note r = single_remove [OF assms(2)] single_mark single_remove expired
  show ?thesis
    unfolding db__message_write_inflight_out_single_def Let_def t
    by (cases "m_state ?m") (auto intro!: single_send [OF assms(2)] r)
qed

lemma good_write_inflight_loop:
  "i + n \<le> length (inflight (md_of c mosq_md_out db)) \<Longrightarrow> good c db (snd (write_inflight_loop n c i db))"
proof (induction n arbitrary: i db)
  case 0 show ?case by simp
next
  case (Suc n)
  show ?case
  proof (rule goodI)
    fix ext assume a: "accounted ext c db"
    obtain rc rm db1 where s: "db__message_write_inflight_out_single c i db = ((rc, rm), db1)"
      by (metis surj_pair)
    have "single_ok c db ((rc, rm), db1)" using single_write [OF a, of i] Suc.prems s by simp
    then have g: "good c db db1"
      and l: "length (inflight (md_of c mosq_md_out db1)) + (if rm then 1 else 0) = length (inflight (md_of c mosq_md_out db))"
      by (simp_all add: single_ok_def)
    have "good c db1 (snd (write_inflight_loop n c (if rm then i else Suc i) db1))"
      using l Suc.prems by (intro Suc.IH) (simp split: if_splits)
    from good_trans [OF g this] g show "good c db (snd (write_inflight_loop (Suc n) c i db))" by (simp add: s)
  qed
qed

lemma latest_tail_le: "latest_tail msgs i \<le> i"
  by (induction i) (auto simp: le_SucI)

lemma good_write_inflight_out_all: "good c db (snd (db__message_write_inflight_out_all c db))"
  by (simp add: db__message_write_inflight_out_all_def Let_def good_write_inflight_loop)

lemma good_write_inflight_out_latest: "good c db (snd (db__message_write_inflight_out_latest c db))"
proof (rule goodI)
  fix ext assume a: "accounted ext c db"
  let ?msgs = "inflight (md_of c mosq_md_out db)"
  have 1: "good c db (snd (db__message_write_inflight_out_single c 0 db))" if "length ?msgs = 1"
    using single_write [OF a, of 0] that by (simp add: single_ok_def)
  have 2: "good c db (snd (write_inflight_loop (length ?msgs - t) c t db))" if "t \<le> length ?msgs" for t
    using that by (intro good_write_inflight_loop) simp
  have "latest_tail ?msgs (length ?msgs - 1) < length ?msgs" if "?msgs \<noteq> []"
    using latest_tail_le [of ?msgs "length ?msgs - 1"] that by (cases ?msgs) auto
  then show "good c db (snd (db__message_write_inflight_out_latest c db))"
    using 1 2 [of 0] 2 unfolding db__message_write_inflight_out_latest_def Let_def
    by (auto simp: split_beta intro!: 2)
qed

lemma calm_promote:
  assumes "queued (md_of c dir db) \<noteq> []" "\<And>m. m_store (f m) = m_store m \<and> m_qos (f m) = m_qos m"
  shows "calm c db (db__message_dequeue_first c dir (upd_queued c dir i f db))"
  using assms by (intro calm_trans [OF calm_upd_queued calm_dequeue_first]) simp_all

lemma calm_write_queued_out_loop:
  "n \<le> length (queued (md_of c mosq_md_out db)) \<Longrightarrow> calm c db (write_queued_out_loop n c db)"
proof (induction n arbitrary: db)
  case (Suc n)
  have "queued (md_of c mosq_md_out db) \<noteq> []" using Suc.prems by auto
  from calm_trans [OF calm_promote [OF this] Suc.IH] show ?case using Suc.prems by (simp add: Let_def)
qed simp

lemma good_write_queued_out: "good c db (snd (db__message_write_queued_out c db))"
  by (simp add: db__message_write_queued_out_def calm_good calm_write_queued_out_loop)

section \<open>Acknowledgements\<close>

lemma calm_delete_promote_loop:
  "n \<le> length (queued (md_of c mosq_md_out db)) \<Longrightarrow> calm c db (delete_promote_loop n j c db)"
proof (induction n arbitrary: db j)
  case (Suc n)
  have "queued (md_of c mosq_md_out db) \<noteq> []" using Suc.prems by auto
  from calm_trans [OF calm_promote [OF this] Suc.IH] show ?case using Suc.prems by (simp add: Let_def)
qed simp

lemma find_index_Some:
  "find_index P xs = Some i \<Longrightarrow> i < length xs \<and> P (xs ! i) \<and> (\<forall>j < i. \<not> P (xs ! j))"
proof (induction xs arbitrary: i)
  case (Cons x xs)
  show ?case
  proof (cases "P x")
    case True then show ?thesis using Cons.prems by simp
  next
    case False
    then obtain j where j: "find_index P xs = Some j" "i = Suc j" using Cons.prems by auto
    then show ?thesis using Cons.IH [OF j(1)] False by (auto simp: nth_Cons split: nat.split)
  qed
qed simp

lemma find_index_None: "find_index P xs = None \<longleftrightarrow> (\<forall>x \<in> set xs. \<not> P x)"
  by (induction xs) auto

lemma good_delete_outgoing: "good c db (snd (db__message_delete_outgoing c mid st qos db))"
proof -
  let ?p = "\<lambda>db :: mosquitto_db. db\<lparr>d_persistence_changes := d_persistence_changes db + 1\<rparr>"
  have fin: "good c db (snd (db__message_write_inflight_out_latest c (?p
      (delete_promote_loop (length (queued (md_of c mosq_md_out db))) j c db))))" for j db
    by (rule good_trans [OF calm_good [OF calm_delete_promote_loop] good_trans [OF calm_good [OF calm_fields]
          good_write_inflight_out_latest]]) (simp_all del: delete_promote_loop.simps, rule impI)
  show ?thesis
  proof (cases "find_index (\<lambda>m. m_mid m = mid) (inflight (md_of c mosq_md_out db))")
    case None then show ?thesis using fin by (simp add: db__message_delete_outgoing_def Let_def)
  next
    case (Some i)
    then have i: "i < length (inflight (md_of c mosq_md_out db))" using find_index_Some by blast
    let ?db = "db__message_remove c mosq_md_out i db"
    have "good c db (snd (db__message_write_inflight_out_latest c (?p
      (delete_promote_loop (length (queued (md_of c mosq_md_out ?db))) (int i) c ?db))))"
      by (rule good_trans [OF good_message_remove [OF i] fin])
    then show ?thesis using Some by (simp add: db__message_delete_outgoing_def Let_def)
  qed
qed

lemma good_update_outgoing: "good c db (snd (db__message_update_outgoing c mid st qos db))"
  by (auto simp: db__message_update_outgoing_def Let_def intro!: calm_good calm_upd_inflight split: option.split)

section \<open>Incoming messages\<close>

lemma good_remove_incoming: "good c db (snd (db__message_remove_incoming c mid db))"
proof (rule goodI)
  fix ext assume a: "accounted ext c db"
  show "good c db (snd (db__message_remove_incoming c mid db))"
  proof (cases "find_index (\<lambda>m. m_mid m = mid) (inflight (md_of c mosq_md_in db))")
    case None then show ?thesis by (simp add: db__message_remove_incoming_def Let_def)
  next
    case (Some i)
    then have i: "i < length (inflight (md_of c mosq_md_in db))" using find_index_Some by blast
    then show ?thesis using Some good_message_remove [OF i] accounted_inflight [OF a i]
      by (simp add: db__message_remove_incoming_def Let_def)
  qed
qed

lemma calm_write_queued_in_loop:
  "k + n \<le> length (queued (md_of c mosq_md_in db)) \<Longrightarrow> calm c db (snd (write_queued_in_loop n k c db))"
proof (induction n arbitrary: db k)
  case (Suc n)
  let ?db = "db__message_dequeue_first c mosq_md_in
    (upd_queued c mosq_md_in k (\<lambda>m. m\<lparr>m_state := mosq_ms_send_pubrec\<rparr>) db)"
  let ?msg = "queued (md_of c mosq_md_in db) ! k"
  have ne: "queued (md_of c mosq_md_in db) \<noteq> []" using Suc.prems by auto
  have a: "calm c db ?db" using ne by (intro calm_promote) simp_all
  obtain rc db1 where s: "d_send c (Pubrec (m_mid ?msg) 0 []) ?db = (rc, db1)" by (cases "d_send c (Pubrec (m_mid ?msg) 0 []) ?db")
  have b: "calm c db db1" using calm_trans [OF a calm_send [of c ?db "Pubrec (m_mid ?msg) 0 []"]] s by simp
  have m: "md_of c dir db1 = md_of c dir ?db" for dir using send_md [of c dir c "Pubrec (m_mid ?msg) 0 []" ?db] s by simp
  let ?mark = "\<lambda>m. m\<lparr>m_state := mosq_ms_wait_for_pubrel\<rparr>"
  have u: "calm c db1 (upd_inflight c mosq_md_in i ?mark db1)" "calm c db1 (upd_queued c mosq_md_in i ?mark db1)" for i
    by (intro calm_upd_inflight calm_upd_queued; simp)+
  have l: "k + n \<le> length (queued (md_of c mosq_md_in db1))" using Suc.prems ne by (simp add: m)
  have "calm c db1 (snd (write_queued_in_loop n k c (if k = 0
      then upd_inflight c mosq_md_in (length (inflight (md_of c mosq_md_in db1)) - 1) ?mark db1
      else upd_queued c mosq_md_in (k - 1) ?mark db1)))"
    using calm_trans [OF u(1) Suc.IH] calm_trans [OF u(2) Suc.IH] l by simp
  from calm_trans [OF b this] have 1: "calm c db (snd (write_queued_in_loop (Suc n) k c db))" if "m_qos ?msg = 2"
    using that b by (simp add: Let_def s)
  have 2: "calm c db (snd (write_queued_in_loop n (Suc k) c db))" using Suc.prems by (intro Suc.IH) simp
  show ?case using 1 2 by (cases "m_qos ?msg = 2") (auto simp: Let_def)
qed simp

lemma good_write_queued_in: "good c db (snd (db__message_write_queued_in c db))"
  by (simp add: db__message_write_queued_in_def calm_good calm_write_queued_in_loop)

section \<open>Inserting\<close>

definition key :: "mosquitto_client_msg \<Rightarrow> mptr \<times> u8" where
  "key m = (m_store m, m_qos m)"

lemma md_keys_kl: "md_keys md = image_mset key (mset (inflight md)) + image_mset key (mset (queued md))"
  by (simp add: md_keys_def md_msgs_def key_def [abs_def])

lemma keys_of_cong: "d_contexts db' = d_contexts db \<Longrightarrow> keys_of c db' = keys_of c db"
  by (auto simp: keys_of_def md_of_def get_ctx_def)

lemma accountedI: "inv K ext c db \<Longrightarrow> K = keys_of c db \<Longrightarrow> accounted ext c db"
  by (simp add: accounted_def)

lemma keys_insert_enqueue:
  "keys_of c (insert_enqueue c dir qos msg db) = (keys_of c db)(dir := add_mset (key msg) (keys_of c db dir))"
  by (auto simp: insert_enqueue_def Let_def keys_of_def md_keys_kl)

lemma inv_insert_enqueue:
  assumes inv: "inv K (add_mset (m_store msg) ext) c db" and q: "qos > 0 \<longleftrightarrow> m_qos msg > 0"
  shows "inv (K(dir := add_mset (key msg) (K dir))) ext c (insert_enqueue c dir qos msg db)"
    and "keys_of c (insert_enqueue c dir qos msg db) = (keys_of c db)(dir := add_mset (key msg) (keys_of c db dir))"
    and "eff c db (insert_enqueue c dir qos msg db)"
proof -
  let ?md = "md_of c dir db" and ?len = "plen db (m_store msg)"
  define F :: "mosquitto_msg_data \<Rightarrow> mosquitto_msg_data" where "F = (\<lambda>md. let md = (if m_state msg = mosq_ms_queued then md\<lparr>queued := queued md @ [msg]\<rparr>
                     else md\<lparr>inflight := inflight md @ [msg]\<rparr>);
               md = md\<lparr>msg_count := msg_count md + 1, msg_bytes := msg_bytes md + ?len\<rparr>
           in if qos > 0 then md\<lparr>msg_count12 := msg_count12 md + 1, msg_bytes12 := msg_bytes12 md + ?len\<rparr>
              else md)"
  have e: "insert_enqueue c dir qos msg db = upd_md c dir F db"
    unfolding insert_enqueue_def F_def plen_def Let_def by simp
  have keys: "md_keys (F ?md) = add_mset (key msg) (md_keys ?md)"
    by (simp add: F_def Let_def md_keys_kl)
  have ok: "md_ok db (K dir) ?md" "quota_ok ?md" using inv by (auto simp: inv_def)
  have "md_ok db (add_mset (key msg) (K dir)) (F ?md)"
    using ok(1) q unfolding md_ok_def keys by (simp add: F_def Let_def key_def)
  moreover have "quota_ok (F ?md)" using ok(2) by (simp add: F_def Let_def quota_ok_def)
  moreover have "md_held (F ?md) + ext = md_held ?md + add_mset (m_store msg) ext"
    using keys by (simp add: md_held_def key_def)
  ultimately show "inv (K(dir := add_mset (key msg) (K dir))) ext c (insert_enqueue c dir qos msg db)"
    unfolding e by (rule inv_upd_md [OF inv])
  show "keys_of c (insert_enqueue c dir qos msg db) = (keys_of c db)(dir := add_mset (key msg) (keys_of c db dir))"
    by (rule keys_insert_enqueue)
  show "eff c db (insert_enqueue c dir qos msg db)" unfolding e by (rule eff_upd_md)
qed

text \<open>A stored message that may be given out: it is alive and in the list of all messages.\<close>

definition live :: "mptr \<Rightarrow> mosquitto_db \<Rightarrow> bool" where
  "live p db \<longleftrightarrow> d_heap db p \<noteq> None \<and> p \<in> set (d_msg_store db)"

lemma liveI: "inv K ext c db \<Longrightarrow> p \<in># held c db + ext \<Longrightarrow> live p db"
  using inv_live(1,2) unfolding live_def by fastforce

lemma calm_dest_ids:
  assumes "live p db" and c0: "calm c db0 db"
    and ids: "\<And>s. d_mem db0 = [] \<Longrightarrow> None \<notin> set (ids_of s) \<Longrightarrow> None \<notin> set (ids_of (s\<lparr>s_dest_ids := g s\<rparr>))"
  shows "calm c db0 (upd_store p (\<lambda>s. s\<lparr>s_dest_ids := g s\<rparr>) db)"
proof -
  obtain s where s: "d_heap db p = Some s" "p \<in> set (d_msg_store db)" using assms by (auto simp: live_def)
  let ?s = "s\<lparr>s_dest_ids := g s\<rparr>"
  let ?db = "db\<lparr>d_heap := (d_heap db)(p \<mapsto> ?s)\<rparr>"
  have e: "upd_store p (\<lambda>s. s\<lparr>s_dest_ids := g s\<rparr>) db = ?db"
    using upd_store_select [OF s(1)] .
  have "inv K ext c ?db" if i: "inv K ext c db" for K ext
  proof (rule inv_upd_store [OF i s(1) _ s(2)])
    fix q
    have "\<forall>q. rc_at db q = int (count (held c db + ext) q)" using i by (simp add: inv_def)
    moreover have "rc_at db p = s_ref_count ?s" using s(1) by (simp add: rc_at_def)
    ultimately show "int (count (held c db + ext) q) = (if q = p then s_ref_count ?s else rc_at db q)" by metis
  qed simp
  moreover have "effx c db ?db" by (rule effx_upd_store [OF s(1)]) simp
  then have "effx c db0 ?db" using c0 effx_trans unfolding calm_def eff_def by blast
  moreover have "dests_calm db0 ?db"
  proof -
    have "dest_ok q ?db" if m: "d_mem db0 = []" and q: "dest_ok q db0" for q
    proof -
      have "dest_ok q db" using c0 m q by (simp add: calm_def eff_def dests_calm_def)
      then show ?thesis using ids [OF m, of s] s(1) by (auto simp: dest_ok_def stored_at_def)
    qed
    then show ?thesis using c0 by (simp add: calm_def eff_def dests_calm_def)
  qed
  moreover have "keys_of c ?db = keys_of c db" by (rule keys_of_cong) simp
  ultimately show ?thesis using c0 unfolding calm_def eff_def e by metis
qed

lemma malloc_fields:
  assumes "d_malloc db = (ok, db')"
  shows "d_heap db' = d_heap db" "d_contexts db' = d_contexts db" "d_msg_store db' = d_msg_store db"
    "d_config db' = d_config db" "d_now_s db' = d_now_s db" "calm c db db'"
  using assms calm_malloc [of c db] by (auto simp: d_malloc_def split: prod.splits)

lemma good_insert_dest_id:
  assumes "live p db" "c_id (get_ctx c db) \<noteq> None"
  shows "good c db (snd (insert_dest_id c p db))"
proof -
  obtain ok1 db1 where 1: "d_malloc db = (ok1, db1)" by (cases "d_malloc db")
  obtain ok2 db2 where 2: "d_malloc db1 = (ok2, db2)" by (cases "d_malloc db1")
  have l: "live p db2" using assms malloc_fields [OF 1] malloc_fields [OF 2] by (simp add: live_def)
  have i: "c_id (get_ctx c db2) \<noteq> None" using assms(2) malloc_fields [OF 1] malloc_fields [OF 2] by (simp add: get_ctx_def)
  have m: "ok2" if "d_mem db = []" using that 1 2 by (auto simp: d_malloc_def)
  have "calm c db (upd_store p (\<lambda>s. s\<lparr>s_dest_ids := Some ((case s_dest_ids s of None \<Rightarrow> [] | Some ids \<Rightarrow> ids)
      @ [if ok2 then c_id (get_ctx c db2) else None])\<rparr>) db2)"
    by (rule calm_dest_ids [OF l calm_trans [OF malloc_fields(6) [OF 1] malloc_fields(6) [OF 2]]])
       (use m i in \<open>auto simp: ids_of_def\<close>)
  then show ?thesis using malloc_fields(6) [OF 1]
    by (cases ok1) (simp_all add: insert_dest_id_def 1 2 calm_good)
qed

lemma good_insert_finish: "good c db (snd (insert_finish c dir mqos update rc db))"
proof -
  let ?b = "\<lambda>ctx. case c_bridge ctx of None \<Rightarrow> ctx
            | Some b \<Rightarrow> if b_lazy b \<and> \<not> c_connected ctx \<and> msg_count (c_msgs_out ctx) \<ge> b_threshold b
                       then ctx\<lparr>c_bridge := Some (b\<lparr>b_lazy_reconnect := True\<rparr>)\<rparr> else ctx"
  let ?db1 = "upd_ctx c ?b db"
  let ?db2 = "if dir = mosq_md_out \<and> mqos > 0 then util__decrement_send_quota c ?db1 else ?db1"
  have "calm c db ?db1" by (rule calm_upd_ctx) (simp split: option.split)
  from calm_trans [OF this, of ?db2] have 2: "calm c db ?db2" using \<open>calm c db ?db1\<close> by (simp add: calm_quota)
  obtain rc1 db3 where w: "db__message_write_inflight_out_latest c ?db2 = (rc1, db3)"
    by (cases "db__message_write_inflight_out_latest c ?db2")
  have 3: "good c db db3" using good_trans [OF calm_good [OF 2] good_write_inflight_out_latest] w by simp
  from good_trans [OF this good_write_queued_out] have 4: "good c db (snd (db__message_write_queued_out c db3))" .
  show ?thesis unfolding insert_finish_def Let_def w prod.case using calm_good [OF 2] 3 4 by simp
qed

lemma calm_insert_state: "calm c db (snd (insert_state c dir qos db))"
proof -
  have "calm c db (insert_drop c db)" unfolding insert_drop_def
    by (rule calm_trans [OF calm_upd_ctx [of "\<lambda>ctx. ctx\<lparr>c_is_dropping := True\<rparr>"] calm_fields]) simp_all
  then show ?thesis by (simp add: insert_state_def Let_def)
qed

lemma insert_state_valid:
  "insert_state c dir qos db = (Inr (st, rc), db') \<Longrightarrow> qos \<le> 2 \<Longrightarrow> st \<noteq> mosq_ms_invalid \<and> db' = db"
proof -
  assume a: "insert_state c dir qos db = (Inr (st, rc), db')" and "qos \<le> 2"
  then have "unat qos \<le> 2" by (simp add: word_le_nat_alt)
  then have "unat qos \<in> {0, 1, 2}" by auto
  then have "qos = 0 \<or> qos = 1 \<or> qos = 2" by (auto simp: word_unat_eq_iff)
  then have "publish_state qos mosq_ms_invalid \<noteq> mosq_ms_invalid" by (auto simp: publish_state_def)
  then show ?thesis using a by (auto simp: insert_state_def Let_def split: if_splits)
qed

lemma capped_qos: "(qos > 0 \<longleftrightarrow> (if qos > m then m else qos) > 0) \<longleftrightarrow> (qos = 0 \<or> m > (0 :: u8))"
  by (auto simp: word_greater_zero_iff)

lemma insert_commit_good:
  assumes live: "live (m_store msg) db" and q: "qos > 0 \<longleftrightarrow> m_qos msg > 0" and i: "c_id (get_ctx c db) \<noteq> None"
  shows "good c db (snd (insert_commit c dir qos retain update msg rc db))"
proof (rule goodI)
  fix ext assume a: "accounted ext c db"
  let ?p = "m_store msg"
  let ?db1 = "db__msg_store_ref_inc ?p db"
  let ?db2 = "insert_enqueue c dir qos msg ?db1"
  have acc: "accounted ext c ?db2 \<and> eff c db ?db2" if a: "accounted ext c db" for ext
  proof -
    note i1 = inv_ref_inc [OF a [unfolded accounted_def], of ?p]
    have k1: "keys_of c ?db1 = keys_of c db"
      by (rule keys_of_cong) (simp add: db__msg_store_ref_inc_def upd_store_def split: option.split)
    have i: "inv (keys_of c ?db1) (add_mset ?p ext) c ?db1" using i1(1) live k1 by (simp add: live_def)
    note i2 = inv_insert_enqueue [OF i q, of dir]
    show ?thesis using accountedI [OF i2(1)] i2(2) eff_trans [OF i1(2) i2(3)] live by (simp add: live_def)
  qed
  then have g: "good c db ?db2" unfolding good_def by blast
  have "key msg \<in># keys_of c ?db2 dir" using keys_insert_enqueue by simp
  then have "?p \<in># held c ?db2 + ext" using accounted_held(1) acc [OF a] by (fastforce simp: key_def)
  then have l: "live ?p ?db2" using liveI acc [OF a] unfolding accounted_def by blast
  obtain b db3 where d: "insert_dest_id c ?p ?db2 = (b, db3)" by (cases "insert_dest_id c ?p ?db2")
  have "c_id (get_ctx c ?db2) \<noteq> None" using i acc [OF a] by (simp add: eff_defs ctx_core_def)
  then have g3: "good c db db3" using good_trans [OF g good_insert_dest_id [OF l, of c]] d by simp
  show "good c db (snd (insert_commit c dir qos retain update msg rc db))"
    unfolding insert_commit_def Let_def d
    using g3 good_trans [OF g good_insert_finish] good_trans [OF g3 good_insert_finish] by (cases b) simp_all
qed

lemma good_insert:
  assumes "live stored db" "qos \<le> 2" "qos = 0 \<or> c_max_qos (get_ctx c db) > 0"
    and "insert_duplicate c dir retain stored db \<noteq> None"
  shows "good c db (snd (db__message_insert c mid dir qos retain stored properties update db))"
proof (cases "c_id (get_ctx c db) = None")
  case True
  then show ?thesis by (simp add: db__message_insert_def)
next
  case id: False
  have t: "touch stored db = db" using assms(1) by (auto simp: touch_def live_def)
  obtain ir db1 where s: "insert_state c dir qos db = (ir, db1)" by (cases "insert_state c dir qos db")
  have c1: "good c db db1" using calm_good [OF calm_insert_state [of c db dir qos]] s by simp
  show ?thesis
  proof (cases ir)
    case (Inl rc) then show ?thesis using assms(4) s c1 by (auto simp: db__message_insert_def t)
  next
    case (Inr sr)
    obtain st rc where sr: "sr = (st, rc)" by (cases sr)
    have st: "st \<noteq> mosq_ms_invalid" "db1 = db" using insert_state_valid s Inr sr assms(2) by blast+
    define db2 where "db2 = (if st = mosq_ms_queued
        then db\<lparr>d_persistence_changes := d_persistence_changes db + 1\<rparr> else db)"
    have f2: "d_heap db2 = d_heap db" "d_contexts db2 = d_contexts db" "d_msg_store db2 = d_msg_store db"
      by (simp_all add: db2_def)
    have c2: "calm c db db2" by (simp add: db2_def calm_fields)
    obtain ok db3 where m: "d_malloc db2 = (ok, db3)" by (cases "d_malloc db2")
    note f3 = malloc_fields [OF m]
    have c3: "good c db db3" by (rule calm_good [OF calm_trans [OF c2 f3(6)]])
    have l3: "live stored db3" using assms(1) f2 f3 by (simp add: live_def)
    have g3: "get_ctx c db3 = get_ctx c db" using f2 f3 by (simp add: get_ctx_def)
    have q: "qos > 0 \<longleftrightarrow> (if qos > c_max_qos (get_ctx c db3) then c_max_qos (get_ctx c db3) else qos) > 0"
      unfolding capped_qos g3 by (rule assms(3))
    have "good c db (snd (insert_commit c dir qos retain update \<lparr>m_store = stored, m_properties = properties,
        m_timestamp = d_now_s db3, m_mid = mid,
        m_qos = (if qos > c_max_qos (get_ctx c db3) then c_max_qos (get_ctx c db3) else qos),
        m_retain = retain, m_direction = dir, m_state = st, m_dup = False\<rparr> rc db3))"
      using l3 q id g3 by (intro good_trans [OF c3 insert_commit_good]) simp_all
    then show ?thesis
      using assms(4) st Inr c3 unfolding db__message_insert_def t Let_def s sr db2_def [symmetric]
      by (cases ok) (auto simp: m s sr db2_def [symmetric])
  qed
qed

end
