(* ===== verification/Session_Ops.thy ===== *)
theory Session_Ops
  imports Queue_Ops
begin

text \<open>
  The operations of \<open>Database\<close> on a whole session: dropping its messages, counting them again on
  reconnection, and the operations on the store of all messages.
\<close>

section \<open>Dropping the messages of a client\<close>

lemma ref_dec_upd_md:
  "db__msg_store_ref_dec p (upd_md c dir f db) =
     (case db__msg_store_ref_dec p db of (r, db') \<Rightarrow> (r, upd_md c dir f db'))"
proof (cases "d_heap db p")
  case None
  then show ?thesis by (simp add: db__msg_store_ref_dec_def upd_store_def upd_md_def upd_ctx_def)
next
  case (Some s)
  then show ?thesis
    by (simp add: db__msg_store_ref_dec_def upd_store_def upd_md_def upd_ctx_def db__msg_store_remove_def
        db__msg_store_free_def touch_def stored_at_def Let_def)
qed

lemma delete_list_upd_md:
  "upd_md c dir f (db__messages_delete_list ms db) = db__messages_delete_list ms (upd_md c dir f db)"
  unfolding db__messages_delete_list_def
  by (induction ms arbitrary: db) (simp_all add: ref_dec_upd_md split_beta)

lemma inv_delete_list:
  "inv K (mset (map m_store ms) + ext) c db \<Longrightarrow>
   inv K ext c (db__messages_delete_list ms db) \<and> eff c db (db__messages_delete_list ms db)
   \<and> keys_of c (db__messages_delete_list ms db) = keys_of c db"
proof (induction ms arbitrary: db)
  case Nil then show ?case by (simp add: db__messages_delete_list_def)
next
  case (Cons m ms)
  let ?db = "snd (db__msg_store_ref_dec (m_store m) db)"
  have e: "db__messages_delete_list (m # ms) db = db__messages_delete_list ms ?db"
    by (simp add: db__messages_delete_list_def)
  have "inv K (add_mset (m_store m) (mset (map m_store ms) + ext)) c db" using Cons.prems by simp
  note d = inv_ref_dec [OF this]
  have "keys_of c ?db = keys_of c db" by (rule keys_of_cong [OF ref_dec_ctxs])
  then show ?case unfolding e using Cons.IH [OF d(1)] eff_trans [OF d(2)] by simp
qed

lemma md_held_msgs: "md_held md = mset (map m_store (inflight md)) + mset (map m_store (queued md))"
  by (simp add: md_held_def md_keys_kl key_def image_mset.compositionality comp_def)

lemma good_messages_delete_dir: "good c db (messages_delete_dir c dir db)"
proof -
  let ?md = "md_of c dir db"
  let ?clear = "\<lambda>md. md\<lparr>inflight := [], queued := [], msg_bytes := 0, msg_bytes12 := 0, msg_count := 0, msg_count12 := 0\<rparr>"
  let ?ms = "inflight ?md @ queued ?md"
  let ?db1 = "upd_md c dir ?clear db"
  have e: "messages_delete_dir c dir db = db__messages_delete_list ?ms ?db1"
    by (simp add: messages_delete_dir_def Let_def delete_list_upd_md) (simp add: db__messages_delete_list_def)
  have k1: "keys_of c ?db1 = (keys_of c db)(dir := {#})" by (auto simp: keys_of_def md_keys_kl)
  have "accounted ext c (messages_delete_dir c dir db) \<and> eff c db (messages_delete_dir c dir db)"
    if a: "accounted ext c db" for ext
  proof -
    have "inv ((keys_of c db)(dir := {#})) (mset (map m_store ?ms) + ext) c ?db1"
    proof (rule inv_upd_md [OF a [unfolded accounted_def]])
      show "md_ok db {#} (?clear ?md)" by (simp add: md_ok_def)
      show "quota_ok (?clear ?md)" using a by (auto simp: accounted_def inv_def quota_ok_def)
      show "md_held (?clear ?md) + (mset (map m_store ?ms) + ext) = md_held ?md + ext"
        by (simp add: md_held_msgs)
    qed
    note i = inv_delete_list [OF this]
    then have "accounted ext c (db__messages_delete_list ?ms ?db1)" using k1 by (intro accountedI) auto
    moreover have "eff c db (db__messages_delete_list ?ms ?db1)" using eff_trans [OF eff_upd_md] i by blast
    ultimately show ?thesis unfolding e by blast
  qed
  then show ?thesis by (simp add: good_def)
qed

lemma good_messages_delete: "good c db (snd (db__messages_delete c force_free db))"
  unfolding db__messages_delete_def Let_def
  by (auto intro: good_messages_delete_dir good_trans [OF good_messages_delete_dir good_messages_delete_dir])

section \<open>Reconnecting\<close>

lemma inv_reset_md:
  assumes "inv K ext c db"
  shows "inv (K(dir := {#})) ext c (upd_md c dir reset_md db)" "keys_of c (upd_md c dir reset_md db) = keys_of c db"
proof -
  show "inv (K(dir := {#})) ext c (upd_md c dir reset_md db)"
  proof (rule inv_upd_md [OF assms])
    show "md_ok db {#} (reset_md (md_of c dir db))" by (simp add: md_ok_def reset_md_def)
    show "quota_ok (reset_md (md_of c dir db))" by (simp add: quota_ok_def reset_md_def)
    show "md_held (reset_md (md_of c dir db)) + ext = md_held (md_of c dir db) + ext"
      by (simp add: md_held_msgs reset_md_def)
  qed
  show "keys_of c (upd_md c dir reset_md db) = keys_of c db"
    by (auto simp: keys_of_def md_keys_kl reset_md_def)
qed

lemma recount_lists [simp]:
  "inflight (md_of c dir' (recount c dir msg db)) = inflight (md_of c dir' db)"
  "queued (md_of c dir' (recount c dir msg db)) = queued (md_of c dir' db)"
  by (simp_all add: recount_def Let_def md_of_cong [OF touch_ctxs])

lemma inv_recount:
  assumes inv: "inv K ext c db" and sub: "add_mset (key msg) (K dir) \<subseteq># keys_of c db dir"
  shows "inv (K(dir := add_mset (key msg) (K dir))) ext c (recount c dir msg db)"
    and "eff c db (recount c dir msg db)" and "keys_of c (recount c dir msg db) = keys_of c db"
proof -
  let ?len = "plen db (m_store msg)" and ?md = "md_of c dir db"
  define F :: "mosquitto_msg_data \<Rightarrow> mosquitto_msg_data" where "F = (\<lambda>md.
           let md = md\<lparr>msg_count := msg_count md + 1, msg_bytes := msg_bytes md + ?len\<rparr>
           in if m_qos msg > 0 then md\<lparr>msg_count12 := msg_count12 md + 1, msg_bytes12 := msg_bytes12 md + ?len\<rparr>
              else md)"
  have "key msg \<in># md_keys ?md" using sub mset_subset_eqD [of _ _ "key msg"] by (fastforce simp: keys_of_def)
  then have "m_store msg \<in># md_held ?md" by (force simp: md_held_def key_def)
  then have "m_store msg \<in># held c db + ext" by (cases dir) (auto simp: held_def)
  then have t: "touch (m_store msg) db = db" by (rule inv_live(3) [OF inv])
  have e: "recount c dir msg db = upd_md c dir F db"
    unfolding recount_def F_def plen_def Let_def t by simp
  have keys: "md_keys (F ?md) = md_keys ?md" by (simp add: F_def Let_def)
  have ok: "md_ok db (K dir) ?md" "quota_ok ?md" using inv by (auto simp: inv_def)
  have "md_ok db (add_mset (key msg) (K dir)) (F ?md)"
    using ok(1) sub unfolding md_ok_def keys keys_of_def by (simp add: F_def Let_def key_def)
  moreover have "quota_ok (F ?md)" using ok(2) by (simp add: F_def Let_def quota_ok_def)
  moreover have "md_held (F ?md) + ext = md_held ?md + ext" by (simp add: md_held_def keys)
  ultimately show "inv (K(dir := add_mset (key msg) (K dir))) ext c (recount c dir msg db)"
    unfolding e by (rule inv_upd_md [OF inv])
  show "eff c db (recount c dir msg db)" unfolding e by (rule eff_upd_md)
  show "keys_of c (recount c dir msg db) = keys_of c db"
    unfolding e using keys by (auto simp: keys_of_def)
qed

text \<open>What a loop of the reconnection achieves: the messages of one queue are counted again.\<close>

definition recounts :: "(mosquitto_msg_direction \<Rightarrow> (mptr \<times> u8) multiset) \<Rightarrow> (mosquitto_msg_direction \<Rightarrow> (mptr \<times> u8) multiset) \<Rightarrow>
    mptr multiset \<Rightarrow> cptr \<Rightarrow> mosquitto_db \<Rightarrow> mosquitto_db \<Rightarrow> bool" where
  "recounts K K' ext c db db' \<longleftrightarrow> (inv K ext c db \<longrightarrow> inv K' ext c db' \<and> eff c db db')"

lemma recounts_trans: "recounts K K' ext c db db' \<Longrightarrow> recounts K' K'' ext c db' db'' \<Longrightarrow> recounts K K'' ext c db db''"
  unfolding recounts_def using eff_trans by blast

lemma recounts_calm: "calm c db db' \<Longrightarrow> recounts K K ext c db db'"
  by (simp add: recounts_def calm_def)

lemma recounts_recount:
  "add_mset (key msg) (K dir) \<subseteq># keys_of c db dir \<Longrightarrow>
   recounts K (K(dir := add_mset (key msg) (K dir))) ext c db (recount c dir msg db)"
  unfolding recounts_def using inv_recount(1,2) by blast

lemma keys_of_recount [simp]: "keys_of c (recount c dir msg db) = keys_of c db"
  by (auto simp: keys_of_def md_keys_kl)

lemma keys_of_calm: "calm c db db' \<Longrightarrow> keys_of c db' = keys_of c db"
  by (simp add: calm_def)

lemma reset_queued_loop_ok:
  "n + k = length (queued (md_of c dir db)) \<Longrightarrow>
   K dir + image_mset key (mset (drop k (queued (md_of c dir db)))) = keys_of c db dir \<Longrightarrow>
   recounts K (K(dir := keys_of c db dir)) ext c db (reset_queued_loop n c dir k db)
   \<and> keys_of c (reset_queued_loop n c dir k db) = keys_of c db"
proof (induction n arbitrary: db k K)
  case 0
  then have "K(dir := keys_of c db dir) = K" by auto
  then show ?case by (simp add: recounts_def del: fun_upd_apply)
next
  case (Suc n)
  let ?q = "queued (md_of c dir db)" and ?K = "K(dir := add_mset (key (queued (md_of c dir db) ! k)) (K dir))"
  let ?db1 = "recount c dir (?q ! k) db"
  let ?f = "\<lambda>m. m\<lparr>m_state := publish_state (m_qos m) (m_state m)\<rparr>"
  let ?db2 = "db__message_dequeue_first c dir (upd_queued c dir k ?f ?db1)"
  have k: "k < length ?q" using Suc.prems(1) by linarith
  have d: "drop k ?q = ?q ! k # drop (Suc k) ?q" using Cons_nth_drop_Suc [OF k] by simp
  have s: "add_mset (key (?q ! k)) (K dir) + image_mset key (mset (drop (Suc k) ?q)) = keys_of c db dir"
    using Suc.prems(2) by (simp add: d)
  have r1: "recounts K ?K ext c db ?db1"
    by (rule recounts_recount) (metis mset_subset_eq_add_left s)
  have eK: "?K(dir := keys_of c db dir) = K(dir := keys_of c db dir)" by simp
  have ne: "queued (md_of c dir ?db1) \<noteq> []" using k by auto
  have c2: "calm c ?db1 ?db2" by (rule calm_promote [OF ne]) simp
  have k2: "keys_of c ?db2 = keys_of c db" using keys_of_calm [OF c2] by simp
  have dr: "drop k (queued (md_of c dir ?db2)) = drop (Suc k) ?q"
    by (simp add: drop_Suc [symmetric] drop_update_cancel)
  have A: "recounts ?K (?K(dir := keys_of c ?db2 dir)) ext c ?db2 (reset_queued_loop n c dir k ?db2)
      \<and> keys_of c (reset_queued_loop n c dir k ?db2) = keys_of c ?db2"
    using Suc.prems(1) s by (intro Suc.IH) (simp_all add: dr k2 del: dequeue_lists upd_lists, simp)
  have B: "recounts ?K (?K(dir := keys_of c ?db1 dir)) ext c ?db1 (reset_queued_loop n c dir (Suc k) ?db1)
      \<and> keys_of c (reset_queued_loop n c dir (Suc k) ?db1) = keys_of c ?db1"
    using Suc.prems(1) s by (intro Suc.IH) simp_all
  show ?case
  proof (cases "db__ready_for_flight c dir (m_qos (?q ! k)) ?db1")
    case True
    then show ?thesis using A recounts_trans [OF r1 recounts_trans [OF recounts_calm [OF c2]]] eK k2
      by (simp add: Let_def del: fun_upd_apply)
  next
    case False
    then show ?thesis using B recounts_trans [OF r1] eK by (simp add: Let_def del: fun_upd_apply)
  qed
qed

lemma mset_take_sub: "mset (take j xs) \<subseteq># mset xs"
  using mset_append [of "take j xs" "drop j xs"] by (simp add: mset_subset_eq_add_left)

lemma map_key_update: "(\<And>m. key (f m) = key m) \<Longrightarrow> map key (xs[i := f (xs ! i)]) = map key xs"
  by (simp add: map_update_same)

lemma key_fields [simp]: "key (m\<lparr>m_state := st\<rparr>) = key m"
  by (simp add: key_def)

lemma keys_of_lists:
  "keys_of c db dir = mset (map key (inflight (md_of c dir db))) + mset (map key (queued (md_of c dir db)))"
  by (simp add: keys_of_def md_keys_kl)

lemma reset_outgoing_loop_ok:
  "i + n \<le> length L \<Longrightarrow> map key (inflight (md_of c mosq_md_out db)) = L \<Longrightarrow> K mosq_md_out = mset (take i L) \<Longrightarrow>
   recounts K (K(mosq_md_out := mset (take (i + n) L))) ext c db (reset_outgoing_loop n c i db)
   \<and> keys_of c (reset_outgoing_loop n c i db) = keys_of c db
   \<and> map key (inflight (md_of c mosq_md_out (reset_outgoing_loop n c i db))) = L"
proof (induction n arbitrary: db i K)
  case 0
  then have "K(mosq_md_out := mset (take (i + 0) L)) = K" by auto
  then show ?case using 0 by (simp add: recounts_def del: fun_upd_apply)
next
  case (Suc n)
  let ?q = "inflight (md_of c mosq_md_out db)"
  let ?msg = "?q ! i"
  let ?K = "K(mosq_md_out := add_mset (key ?msg) (K mosq_md_out))"
  let ?db1 = "recount c mosq_md_out ?msg db"
  let ?db2 = "if m_qos ?msg > 0 then util__decrement_send_quota c ?db1 else ?db1"
  let ?st = "if m_qos ?msg = 2
                then (if m_state ?msg = mosq_ms_wait_for_pubcomp then mosq_ms_resend_pubrel else mosq_ms_publish_qos2)
                else publish_state (m_qos ?msg) (m_state ?msg)"
  let ?db3 = "upd_inflight c mosq_md_out i (\<lambda>m. m\<lparr>m_state := ?st\<rparr>) ?db2"
  have lq: "length ?q = length L" using Suc.prems(2) by (metis length_map)
  have il: "i < length L" using Suc.prems(1) by linarith
  have kn: "key ?msg = L ! i" using Suc.prems(2) il lq by (metis nth_map)
  have tk: "mset (take (Suc i) L) = add_mset (key ?msg) (K mosq_md_out)"
    using il by (simp add: take_Suc_conv_app_nth kn Suc.prems(3))
  have "add_mset (key ?msg) (K mosq_md_out) \<subseteq># keys_of c db mosq_md_out"
    unfolding tk [symmetric] keys_of_lists Suc.prems(2)
    by (rule subset_mset.order_trans [OF mset_take_sub mset_subset_eq_add_left])
  then have r1: "recounts K ?K ext c db ?db1" by (rule recounts_recount)
  have "calm c ?db1 ?db2" by (simp add: calm_quota)
  moreover have "calm c ?db2 ?db3" by (rule calm_upd_inflight) simp
  ultimately have c3: "calm c ?db1 ?db3" by (rule calm_trans)
  have k3: "keys_of c ?db3 = keys_of c db" using keys_of_calm [OF c3] by simp
  have L3: "map key (inflight (md_of c mosq_md_out ?db3)) = L"
    using Suc.prems(2) by (simp add: map_key_update)
  have eK: "?K(mosq_md_out := X) = K(mosq_md_out := X)" for X by simp
  have "recounts ?K (?K(mosq_md_out := mset (take (Suc i + n) L))) ext c ?db3 (reset_outgoing_loop n c (Suc i) ?db3)
   \<and> keys_of c (reset_outgoing_loop n c (Suc i) ?db3) = keys_of c ?db3
   \<and> map key (inflight (md_of c mosq_md_out (reset_outgoing_loop n c (Suc i) ?db3))) = L"
    by (rule Suc.IH) (use Suc.prems(1) L3 tk in simp_all)
  moreover have "reset_outgoing_loop (Suc n) c i db = reset_outgoing_loop n c (Suc i) ?db3"
    by (simp add: Let_def)
  ultimately show ?case
    using recounts_trans [OF r1 recounts_trans [OF recounts_calm [OF c3]]] eK k3
    by (simp del: fun_upd_apply reset_outgoing_loop.simps)
qed

lemma recounts_remove:
  assumes "i < length (inflight (md_of c dir db))" "key (inflight (md_of c dir db) ! i) \<in># K dir"
  shows "recounts K (K(dir := K dir - {#key (inflight (md_of c dir db) ! i)#})) ext c db (db__message_remove c dir i db)"
proof -
  let ?m = "inflight (md_of c dir db) ! i"
  note r = inv_message_remove [of K _ c db i dir "key ?m", OF _ assms(1) key_def assms(2)]
  show ?thesis unfolding recounts_def using r(1,2) by blast
qed

lemma reset_incoming_loop_ok:
  "i + n = length (inflight (md_of c mosq_md_in db)) \<Longrightarrow>
   K mosq_md_in = mset (map key (take i (inflight (md_of c mosq_md_in db)))) \<Longrightarrow>
   recounts K (K(mosq_md_in := mset (map key (inflight (md_of c mosq_md_in (reset_incoming_loop n c i db))))))
     ext c db (reset_incoming_loop n c i db)
   \<and> md_of c mosq_md_out (reset_incoming_loop n c i db) = md_of c mosq_md_out db"
proof (induction n arbitrary: db i K)
  case 0
  then have "K(mosq_md_in := mset (map key (inflight (md_of c mosq_md_in db)))) = K" by auto
  then show ?case by (simp add: recounts_def del: fun_upd_apply)
next
  case (Suc n)
  let ?q = "inflight (md_of c mosq_md_in db)"
  let ?msg = "?q ! i"
  let ?K = "K(mosq_md_in := add_mset (key ?msg) (K mosq_md_in))"
  let ?db1 = "recount c mosq_md_in ?msg db"
  let ?db2 = "if m_qos ?msg > 0 then util__decrement_receive_quota c ?db1 else ?db1"
  let ?db3 = "db__message_remove c mosq_md_in i ?db2"
  have i: "i < length ?q" using Suc.prems(1) by linarith
  have tk: "mset (map key (take (Suc i) ?q)) = add_mset (key ?msg) (K mosq_md_in)"
    using i by (simp add: take_Suc_conv_app_nth Suc.prems(2))
  have "add_mset (key ?msg) (K mosq_md_in) \<subseteq># keys_of c db mosq_md_in"
    unfolding tk [symmetric] keys_of_lists take_map [symmetric]
    by (rule subset_mset.order_trans [OF mset_take_sub mset_subset_eq_add_left])
  then have r1: "recounts K ?K ext c db ?db1" by (rule recounts_recount)
  have c2: "calm c ?db1 ?db2" by (simp add: calm_quota)
  have r2: "recounts K ?K ext c db ?db2" by (rule recounts_trans [OF r1 recounts_calm [OF c2]])
  have q2: "inflight (md_of c mosq_md_in ?db2) = ?q" by simp
  have o2: "md_of c mosq_md_out ?db2 = md_of c mosq_md_out db"
    by (simp add: util__decrement_receive_quota_def recount_def Let_def md_of_cong [OF touch_ctxs])
  have eK: "?K(mosq_md_in := X) = K(mosq_md_in := X)" for X by simp
  have K3: "?K(mosq_md_in := ?K mosq_md_in - {#key ?msg#}) = K" by auto
  have r3: "recounts K K ext c db ?db3"
  proof -
    have "recounts ?K (?K(mosq_md_in := ?K mosq_md_in - {#key (inflight (md_of c mosq_md_in ?db2) ! i)#})) ext c ?db2 ?db3"
      by (rule recounts_remove) (use i in simp_all)
    from recounts_trans [OF r2 this] show ?thesis unfolding q2 K3 .
  qed
  have q3: "inflight (md_of c mosq_md_in ?db3) = del_at i ?q" by simp
  have l3: "i + n = length (inflight (md_of c mosq_md_in ?db3))"
    unfolding q3 length_del_at [OF i] using Suc.prems(1) by simp
  have m3: "K mosq_md_in = mset (map key (take i (inflight (md_of c mosq_md_in ?db3))))"
    unfolding q3 using i by (simp add: del_at_def Suc.prems(2))
  note A = Suc.IH [of i ?db3 K, OF l3 m3]
  have l2: "Suc i + n = length (inflight (md_of c mosq_md_in ?db2))" unfolding q2 using Suc.prems(1) by simp
  have m2: "?K mosq_md_in = mset (map key (take (Suc i) (inflight (md_of c mosq_md_in ?db2))))"
    unfolding q2 tk by simp
  note B = Suc.IH [of "Suc i" ?db2 ?K, OF l2 m2]
  show ?case
  proof (cases "m_qos ?msg = 2")
    case True
    then have "reset_incoming_loop (Suc n) c i db = reset_incoming_loop n c (Suc i) ?db2" by (simp add: Let_def)
    then show ?thesis using B recounts_trans [OF r2] o2 eK by (simp del: fun_upd_apply reset_incoming_loop.simps)
  next
    case False
    then have "reset_incoming_loop (Suc n) c i db = reset_incoming_loop n c i ?db3" by (simp add: Let_def)
    then show ?thesis using A recounts_trans [OF r3] o2 by (simp del: fun_upd_apply reset_incoming_loop.simps)
  qed
qed

lemma recounts_good:
  "(\<And>ext. recounts (keys_of c db) (keys_of c db') ext c db db') \<Longrightarrow> good c db db'"
  by (simp add: recounts_def good_def accounted_def)

lemma recounts_reset_md: "recounts K (K(dir := {#})) ext c db (upd_md c dir reset_md db)"
  by (simp add: recounts_def inv_reset_md(1) eff_upd_md del: fun_upd_apply)

lemma reset_md_lists [simp]: "inflight (reset_md md) = inflight md" "queued (reset_md md) = queued md"
  by (simp_all add: reset_md_def)

text \<open>The last part of both directions: the queue.\<close>

lemma reset_queue_good:
  assumes "\<And>ext. recounts (keys_of c db) (K(dir := mset (map key (inflight (md_of c dir db'))))) ext c db db'"
    and "\<And>d. d \<noteq> dir \<Longrightarrow> K d = keys_of c db' d"
  shows "good c db (reset_queued_loop (length (queued (md_of c dir db'))) c dir 0 db')"
proof (rule recounts_good)
  fix ext
  let ?K = "K(dir := mset (map key (inflight (md_of c dir db'))))"
  let ?db = "reset_queued_loop (length (queued (md_of c dir db'))) c dir 0 db'"
  note q = reset_queued_loop_ok [of _ 0 c dir db' ?K ext]
  have l: "recounts ?K (?K(dir := keys_of c db' dir)) ext c db' ?db \<and> keys_of c ?db = keys_of c db'"
    by (rule q) (simp_all add: keys_of_lists)
  have "?K(dir := keys_of c db' dir) = keys_of c db'" using assms(2) by auto
  then show "recounts (keys_of c db) (keys_of c ?db) ext c db ?db"
    using recounts_trans [OF assms(1)] l by simp
qed

lemma good_reset_outgoing: "good c db (db__message_reconnect_reset_outgoing c db)"
proof -
  let ?db1 = "upd_md c mosq_md_out reset_md db"
  let ?L = "map key (inflight (md_of c mosq_md_out db))"
  let ?db2 = "reset_outgoing_loop (length (inflight (md_of c mosq_md_out ?db1))) c 0 ?db1"
  let ?K = "(keys_of c db)(mosq_md_out := {#})"
  have 2: "recounts ?K (?K(mosq_md_out := mset (take (0 + length ?L) ?L))) ext c ?db1 ?db2
      \<and> keys_of c ?db2 = keys_of c ?db1 \<and> map key (inflight (md_of c mosq_md_out ?db2)) = ?L" for ext
    using reset_outgoing_loop_ok [of 0 "length ?L" ?L c ?db1 ?K ext] by simp
  have k2: "keys_of c ?db2 = keys_of c db" using 2 inv_reset_md(2)
    by (simp add: keys_of_def fun_eq_iff md_keys_kl)
  show ?thesis
    unfolding db__message_reconnect_reset_outgoing_def Let_def
  proof (rule reset_queue_good)
    show "recounts (keys_of c db) (?K(mosq_md_out := mset (map key (inflight (md_of c mosq_md_out ?db2))))) ext c db ?db2" for ext
      using recounts_trans [OF recounts_reset_md [of "keys_of c db" mosq_md_out ext c db]] 2 by simp
  qed (use k2 in simp)
qed

lemma good_reset_incoming: "good c db (db__message_reconnect_reset_incoming c db)"
proof -
  let ?db1 = "upd_md c mosq_md_in reset_md db"
  let ?db2 = "reset_incoming_loop (length (inflight (md_of c mosq_md_in ?db1))) c 0 ?db1"
  let ?K = "(keys_of c db)(mosq_md_in := {#})"
  have 2: "recounts ?K (?K(mosq_md_in := mset (map key (inflight (md_of c mosq_md_in ?db2))))) ext c ?db1 ?db2
      \<and> md_of c mosq_md_out ?db2 = md_of c mosq_md_out ?db1" for ext
    by (rule reset_incoming_loop_ok) simp_all
  show ?thesis
    unfolding db__message_reconnect_reset_incoming_def Let_def
  proof (rule reset_queue_good)
    show "recounts (keys_of c db) (?K(mosq_md_in := mset (map key (inflight (md_of c mosq_md_in ?db2))))) ext c db ?db2" for ext
      using recounts_trans [OF recounts_reset_md] 2 by blast
    show "?K d = keys_of c ?db2 d" if "d \<noteq> mosq_md_in" for d
      using that 2 by (cases d) (simp_all add: keys_of_def)
  qed
qed

lemma good_reconnect_reset: "good c db (snd (db__message_reconnect_reset c db))"
  unfolding db__message_reconnect_reset_def using good_trans [OF good_reset_outgoing good_reset_incoming] by simp

section \<open>The store\<close>

text \<open>A change at an address that nothing refers to.\<close>

lemma accounted_elsewhere:
  assumes a: "accounted ext c db" and "rc_at db p = 0" "rc_at db' p = 0" "store_ok db'"
    and h: "\<And>q. q \<noteq> p \<Longrightarrow> d_heap db' q = d_heap db q"
    and f: "d_contexts db' = d_contexts db" "d_fault db' = d_fault db"
  shows "accounted ext c db'"
proof -
  have rc: "rc_at db' q = rc_at db q" for q using assms(2,3) h by (cases "q = p") (simp_all add: rc_at_def)
  have i: "inv (keys_of c db) ext c db" using a by (simp add: accounted_def)
  have np: "p \<notin># held c db + ext" using i assms(2) by (simp add: inv_def not_in_iff)
  have hd: "held c db' = held c db" using f(1) by (rule held_cong)
  have md: "md_of c dir db' = md_of c dir db" for dir using f(1) by (rule md_of_cong)
  have "md_ok db' (keys_of c db dir) (md_of c dir db)" for dir
  proof (rule md_ok_plen)
    show "md_ok db (keys_of c db dir) (md_of c dir db)" using i by (simp add: inv_def)
    fix k assume "k \<in># md_keys (md_of c dir db)"
    then have "fst k \<in># held c db + ext" using accounted_held(1) [OF a] by (simp add: keys_of_def)
    then show "plen db' (fst k) = plen db (fst k)" using np by (intro plen_cong h) auto
  qed
  then have "inv (keys_of c db) ext c db'"
    using i assms(4) f(2) rc unfolding inv_def hd md by simp
  moreover have "keys_of c db' = keys_of c db" using f(1) by (rule keys_of_cong)
  ultimately show ?thesis by (simp add: accounted_def)
qed

lemma store_ok_elsewhere:
  assumes "store_ok db" "p \<notin> set (d_msg_store db)" "rc_at db' p \<le> 0"
    and h: "\<And>q. q \<noteq> p \<Longrightarrow> d_heap db' q = d_heap db q"
    and "d_msg_store db' = d_msg_store db" "d_msg_store_count db' = d_msg_store_count db"
    "d_msg_store_bytes db' = d_msg_store_bytes db"
  shows "store_ok db'"
proof -
  have ne: "q \<noteq> p" if "q \<in> set (d_msg_store db)" for q using that assms(2) by auto
  have rc: "rc_at db' q = rc_at db q" if "q \<noteq> p" for q using h [OF that] by (simp add: rc_at_def)
  have "map (plen db') (d_msg_store db) = map (plen db) (d_msg_store db)"
    using ne h by (intro map_cong refl plen_cong) simp
  moreover have "\<forall>q \<in> set (d_msg_store db). d_heap db' q \<noteq> None"
    using assms(1) ne h by (simp add: store_ok_def)
  moreover have "q \<in> set (d_msg_store db)" if "rc_at db' q > 0" for q
    using assms(1,3) that rc [of q] by (cases "q = p") (auto simp: store_ok_def)
  ultimately show ?thesis using assms(1) unfolding store_ok_def assms(5-7) by metis
qed

lemma rc_zero_ref: "d_heap db p = Some s \<Longrightarrow> rc_at db p = s_ref_count s"
  by (simp add: rc_at_def)

definition fresh_msg :: "mptr \<Rightarrow> mosquitto_db \<Rightarrow> bool" where
  "fresh_msg p db \<longleftrightarrow> (\<exists>s. d_heap db p = Some s \<and> s_ref_count s = 0) \<and> p \<notin> set (d_msg_store db)"

lemma fresh_free:
  assumes a: "accounted ext c db" and p: "fresh_msg p db"
  shows "accounted ext c (db__msg_store_free p db)" "d_contexts (db__msg_store_free p db) = d_contexts db"
    "q \<noteq> p \<Longrightarrow> d_heap (db__msg_store_free p db) q = d_heap db q"
proof -
  obtain s where s: "d_heap db p = Some s" "s_ref_count s = 0" using p by (auto simp: fresh_msg_def)
  let ?db = "db__msg_store_free p db"
  have t: "touch p db = db" using s by (simp add: touch_def)
  have h: "d_heap ?db q = d_heap db q" if "q \<noteq> p" for q using that by (simp add: db__msg_store_free_def)
  have so: "store_ok ?db"
    by (rule store_ok_elsewhere [of db p, OF _ _ _ h])
       (use a p in \<open>simp_all add: accounted_def inv_def fresh_msg_def db__msg_store_free_def t rc_at_def\<close>)
  show f: "d_contexts ?db = d_contexts db" by (simp add: db__msg_store_free_def t)
  show "accounted ext c ?db"
    by (rule accounted_elsewhere [OF a _ _ so h f]) (use s in \<open>simp_all add: db__msg_store_free_def t rc_at_def\<close>)
  show "q \<noteq> p \<Longrightarrow> d_heap ?db q = d_heap db q" by (rule h)
qed

lemma message_store_ok:
  assumes a: "accounted ext c db" and p: "fresh_msg p db"
  shows "accounted ext c (snd (db__message_store src p expiry store_id origin db))"
    and "d_contexts (snd (db__message_store src p expiry store_id origin db)) = d_contexts db"
    and "q \<noteq> p \<Longrightarrow> d_heap (snd (db__message_store src p expiry store_id origin db)) q = d_heap db q"
    and "fst (db__message_store src p expiry store_id origin db) = MOSQ_ERR_SUCCESS \<Longrightarrow>
      live p (snd (db__message_store src p expiry store_id origin db))"
proof -
  obtain s where s: "d_heap db p = Some s" "s_ref_count s = 0" using p by (auto simp: fresh_msg_def)
  let ?r = "db__message_store src p expiry store_id origin db"
  let ?user = "case src of Some s \<Rightarrow> c_username s | None \<Rightarrow> None"
  have t: "touch p db = db" using s by (simp add: touch_def)
  obtain ok1 db1 where 1: "d_malloc db = (ok1, db1)" by (cases "d_malloc db")
  obtain ok2 db2 where 2: "(if ?user \<noteq> None then d_malloc db1 else (True, db1)) = (ok2, db2)"
    by (cases "if ?user \<noteq> None then d_malloc db1 else (True, db1)")
  note f1 = malloc_fields [OF 1]
  have f2: "d_heap db2 = d_heap db1" "d_contexts db2 = d_contexts db1" "d_msg_store db2 = d_msg_store db1" "calm c db1 db2"
    using 2 malloc_fields by (auto split: if_splits)
  have a1: "accounted ext c db1" using a calm_good [OF f1(6)] by (simp add: good_def)
  have a2: "accounted ext c db2" using a1 calm_good [OF f2(4)] by (simp add: good_def)
  have p1: "fresh_msg p db1" using p f1 by (simp add: fresh_msg_def)
  have p2: "fresh_msg p db2" using p1 f2 by (simp add: fresh_msg_def)
  have s2: "d_heap db2 p = Some s" using s f1 f2 by simp
  define s' where "s' = s\<lparr>s_source_id := Some (case src of Some s \<Rightarrow> (case c_id s of Some i \<Rightarrow> i | None \<Rightarrow> []) | None \<Rightarrow> []),
    s_source_listener := (case src of Some src \<Rightarrow> c_listener src | None \<Rightarrow> s_source_listener s), s_source_username := ?user, s_origin := origin,
    s_message_expiry_time := (if expiry > 0 then d_now_real_s db2 + int (unat expiry) else 0), s_dest_ids := None,
    s_db_id := (if store_id = 0 then d_last_db_id db2 + 1 else store_id)\<rparr>"
  define db4 where "db4 = db__msg_store_add p
    (db2\<lparr>d_heap := (d_heap db2)(p \<mapsto> s'), d_msg_store_count := d_msg_store_count db2 + 1,
         d_msg_store_bytes := d_msg_store_bytes db2 + int (unat (s_payloadlen s')),
         d_last_db_id := (if store_id = 0 then d_last_db_id db2 + 1 else d_last_db_id db2)\<rparr>)"
  have e: "?r = (if ok1 then (if ok2 then (MOSQ_ERR_SUCCESS, db4) else (MOSQ_ERR_NOMEM, db__msg_store_free p db2))
      else (MOSQ_ERR_NOMEM, db__msg_store_free p db1))"
    using 1 2 s2 by (cases ok1; cases ok2)
      (simp_all add: db__message_store_def t Let_def upd_store_def stored_at_def db4_def s'_def)
  have h4: "d_heap db4 q = d_heap db2 q" if "q \<noteq> p" for q using that by (simp add: db4_def db__msg_store_add_def)
  have c4: "d_contexts db4 = d_contexts db2" "d_fault db4 = d_fault db2"
    "d_msg_store db4 = p # d_msg_store db2" "d_heap db4 p = Some s'"
    by (simp_all add: db4_def db__msg_store_add_def)
  have r: "s_ref_count s' = 0" "s_payloadlen s' = s_payloadlen s" using s(2) by (simp_all add: s'_def)
  have so2: "store_ok db2" using a2 by (simp add: accounted_def inv_def)
  have so4: "store_ok db4"
  proof -
    have np: "p \<notin> set (d_msg_store db2)" using p2 by (simp add: fresh_msg_def)
    then have ne: "q \<noteq> p" if "q \<in> set (d_msg_store db2)" for q using that by auto
    have "(\<Sum>q\<leftarrow>d_msg_store db2. plen db4 q) = (\<Sum>q\<leftarrow>d_msg_store db2. plen db2 q)"
      using ne h4 by (intro arg_cong [of _ _ sum_list] map_cong refl plen_cong) simp
    moreover have "\<forall>q \<in> set (d_msg_store db2). d_heap db4 q \<noteq> None" using so2 ne h4 by (simp add: store_ok_def)
    moreover have "q \<in> set (p # d_msg_store db2)" if "rc_at db4 q > 0" for q
      using so2 that h4 [of q] by (cases "q = p") (simp_all add: store_ok_def rc_at_def)
    moreover have "d_msg_store_count db4 = d_msg_store_count db2 + 1"
      "d_msg_store_bytes db4 = d_msg_store_bytes db2 + plen db4 p"
      by (simp_all add: db4_def db__msg_store_add_def plen_def stored_at_def)
    ultimately show ?thesis using so2 np c4(3,4) unfolding store_ok_def by simp
  qed
  have a4: "accounted ext c db4"
    by (rule accounted_elsewhere [OF a2 _ _ so4 h4 c4(1,2)]) (use s2 s(2) c4(4) r in \<open>simp_all add: rc_at_def\<close>)
  show "accounted ext c (snd ?r)" unfolding e using a4 fresh_free(1) [OF a1 p1] fresh_free(1) [OF a2 p2] by simp
  show "d_contexts (snd ?r) = d_contexts db" unfolding e
    using c4 f1 f2 fresh_free(2) [OF a1 p1] fresh_free(2) [OF a2 p2] by simp
  show "d_heap (snd ?r) q = d_heap db q" if "q \<noteq> p" for q unfolding e
    using h4 [OF that] f1 f2 fresh_free(3) [OF a1 p1 that] fresh_free(3) [OF a2 p2 that] by simp
  show "fst ?r = MOSQ_ERR_SUCCESS \<Longrightarrow> live p (snd ?r)" unfolding e
    using c4(3,4) by (simp add: live_def split: if_splits)
qed

lemma good_compact: "good c db (db__msg_store_compact db)"
proof -
  have "accounted ext c (fold f ps db) \<and> eff c db (fold f ps db)"
    if "f = (\<lambda>p db. if s_ref_count (stored_at p db) < 1 then db__msg_store_remove p db else db)"
      "accounted ext c db" "distinct ps" "set ps \<subseteq> set (d_msg_store db)" for f ps ext and db :: mosquitto_db
    using that
  proof (induction ps arbitrary: db)
    case Nil then show ?case by simp
  next
    case (Cons p ps)
    obtain s where s: "d_heap db p = Some s" using Cons.prems(2,4) by (auto simp: accounted_def inv_def store_ok_def)
    have i: "inv (keys_of c db) ext c db" using Cons.prems(2) by (simp add: accounted_def)
    then have "s_ref_count s = int (count (held c db + ext) p)" using rc_zero_ref [OF s] by (simp add: inv_def)
    then have ge: "s_ref_count s \<ge> 0" by simp
    show ?case
    proof (cases "s_ref_count s < 1")
      case True
      then have z: "s_ref_count s = 0" using ge by simp
      let ?db = "db__msg_store_remove p db"
      have pin: "p \<in> set (d_msg_store db)" using Cons.prems(4) by simp
      note r = inv_remove [OF i s z pin]
      have cc: "d_contexts ?db = d_contexts db" using s
        by (simp add: db__msg_store_remove_def db__msg_store_free_def touch_def)
      have "accounted ext c ?db" using r(1) keys_of_cong [OF cc, of c] by (simp add: accounted_def)
      moreover have "d_msg_store ?db = remove1 p (d_msg_store db)" using s
        by (simp add: db__msg_store_remove_def db__msg_store_free_def touch_def)
      moreover have "distinct (d_msg_store db)" using i by (simp add: inv_def store_ok_def)
      ultimately have "accounted ext c (fold f ps ?db) \<and> eff c ?db (fold f ps ?db)"
        using Cons.prems by (intro Cons.IH) auto
      then show ?thesis using True s eff_trans [OF r(2)] by (simp add: Cons.prems(1) stored_at_def)
    next
      case False
      then show ?thesis using Cons s by (simp add: stored_at_def)
    qed
  qed
  then show ?thesis unfolding good_def db__msg_store_compact_def accounted_def inv_def store_ok_def by blast
qed

end
