(* ===== verification/Broker_Steps.thy ===== *)
theory Broker_Steps
  imports Session_Ops
begin

text \<open>
  The invariant of all clients together, the broker as a transition system whose steps are the
  operations of \<open>Database\<close>, and the properties of \<open>src/database.c\<close>.
\<close>

section \<open>All clients\<close>

text \<open>
  The invariant of the whole broker with the clients \<open>cs\<close>; \<open>ext\<close> are the references that the
  retained messages and the running functions hold.
\<close>

definition client_ok :: "cptr \<Rightarrow> mosquitto_db \<Rightarrow> bool" where
  "client_ok c db \<longleftrightarrow> (\<forall>dir. md_ok db (keys_of c db dir) (md_of c dir db) \<and> quota_ok (md_of c dir db))"

definition all_held :: "cptr list \<Rightarrow> mosquitto_db \<Rightarrow> mptr multiset" where
  "all_held cs db = (\<Sum>c\<leftarrow>cs. held c db)"

definition broker_ok :: "cptr list \<Rightarrow> mptr multiset \<Rightarrow> mosquitto_db \<Rightarrow> bool" where
  "broker_ok cs ext db \<longleftrightarrow>
     \<not> d_fault db \<and> store_ok db
   \<and> (\<forall>p. rc_at db p = int (count (all_held cs db + ext) p))
   \<and> (\<forall>c \<in> set cs. client_ok c db)"

lemma all_held_remove1: "c \<in> set cs \<Longrightarrow> all_held cs db = held c db + all_held (remove1 c cs) db"
  unfolding all_held_def by (rule sum_list_map_remove1)

lemma broker_ok_split:
  assumes "c \<in> set cs" "distinct cs"
  shows "broker_ok cs ext db \<longleftrightarrow>
    accounted (all_held (remove1 c cs) db + ext) c db \<and> (\<forall>c' \<in> set cs - {c}. client_ok c' db)"
  using assms unfolding broker_ok_def accounted_def inv_def client_ok_def all_held_remove1 [OF assms(1)]
  by (auto simp: add.assoc)

text \<open>What a step on behalf of client \<open>c\<close> leaves to the other clients.\<close>

definition frame :: "cptr \<Rightarrow> mosquitto_db \<Rightarrow> mosquitto_db \<Rightarrow> bool" where
  "frame c db db' \<longleftrightarrow> (\<forall>c'. c' \<noteq> c \<longrightarrow> get_ctx c' db' = get_ctx c' db)
     \<and> (\<forall>p. rc_at db' p > 0 \<longrightarrow> plen db' p = plen db p)"

lemma eff_frame: "eff c db db' \<Longrightarrow> frame c db db'"
proof -
  assume e: "eff c db db'"
  have "plen db' p = plen db p" if "rc_at db' p > 0" for p
  proof -
    from rc_pos_live [OF that] obtain s' where s': "d_heap db' p = Some s'" by blast
    then obtain s where "d_heap db p = Some s" "same_msg s s'" using e unfolding eff_defs by blast
    then show ?thesis using s' same_msg_fields(1) by (simp add: plen_def stored_at_def)
  qed
  then show ?thesis using e by (simp add: frame_def eff_defs)
qed

lemma broker_lift:
  assumes b: "broker_ok cs ext db" and c: "c \<in> set cs" "distinct cs" and f: "frame c db db'"
    and a: "accounted (all_held (remove1 c cs) db + ext') c db'"
  shows "broker_ok cs ext' db'"
  unfolding broker_ok_split [OF c]
proof (intro conjI ballI)
  have md: "md_of c' dir db' = md_of c' dir db" if "c' \<noteq> c" for c' dir
    using f that by (simp add: frame_def md_of_def)
  have hd: "held c' db' = held c' db" if "c' \<in> set (remove1 c cs)" for c'
    using md that c(2) by (simp add: held_def)
  have ah: "all_held (remove1 c cs) db' = all_held (remove1 c cs) db"
    unfolding all_held_def by (intro arg_cong [of _ _ sum_list] map_cong refl hd)
  show "accounted (all_held (remove1 c cs) db' + ext') c db'" using a by (simp only: ah)
  fix c' assume c': "c' \<in> set cs - {c}"
  then have old: "client_ok c' db" using b by (simp add: broker_ok_def)
  have k: "keys_of c' db' = keys_of c' db" using md c' by (auto simp: keys_of_def)
  have "md_ok db' (keys_of c' db dir) (md_of c' dir db)" for dir
  proof (rule md_ok_plen)
    show "md_ok db (keys_of c' db dir) (md_of c' dir db)" using old by (simp add: client_ok_def)
    fix k assume "k \<in># md_keys (md_of c' dir db)"
    then have "fst k \<in># held c' db" by (cases dir) (auto simp: held_def md_held_def)
    moreover have "c' \<in> set (remove1 c cs)" using c' c(2) by simp
    ultimately have "fst k \<in># all_held (remove1 c cs) db" unfolding all_held_def
      by (metis all_held_def all_held_remove1 union_iff)
    then have "fst k \<in># held c db' + (all_held (remove1 c cs) db + ext')" by simp
    then have "count (held c db' + (all_held (remove1 c cs) db + ext')) (fst k) > 0"
      unfolding count_greater_zero_iff .
    moreover have "rc_at db' (fst k) = int (count (held c db' + (all_held (remove1 c cs) db + ext')) (fst k))"
      using a unfolding accounted_def inv_def by blast
    ultimately have "rc_at db' (fst k) > 0" by (simp only: of_nat_0_less_iff)
    then show "plen db' (fst k) = plen db (fst k)" using f by (simp add: frame_def)
  qed
  then show "client_ok c' db'" using old md c' unfolding client_ok_def k by simp
qed

lemma broker_good:
  assumes "broker_ok cs ext db" "c \<in> set cs" "distinct cs" "good c db db'"
  shows "broker_ok cs ext db'"
proof -
  have "accounted (all_held (remove1 c cs) db + ext) c db" using assms broker_ok_split by blast
  then have "accounted (all_held (remove1 c cs) db + ext) c db'" "eff c db db'" using assms(4) by (auto simp: good_def)
  then show ?thesis using broker_lift [OF assms(1-3) eff_frame] by blast
qed

section \<open>The broker as a transition system\<close>

text \<open>
  The steps of a broker with the clients \<open>cs\<close>. The first component of the state are the
  references of the retained messages and of the running functions. \<open>store\<close> is the allocation of
  a message by \<open>handle__publish\<close> together with \<open>db__message_store\<close>; \<open>take\<close> and \<open>drop\<close> are the
  calls of \<open>db__msg_store_ref_inc\<close> and \<open>db__msg_store_ref_dec\<close> outside \<open>database.c\<close>; memory and
  network may fail at any time.
\<close>

inductive db_step :: "cptr list \<Rightarrow> mptr multiset \<times> mosquitto_db \<Rightarrow> mptr multiset \<times> mosquitto_db \<Rightarrow> bool"
  for cs where
  insert: "c \<in> set cs \<Longrightarrow> live p db \<Longrightarrow> qos \<le> 2 \<Longrightarrow> qos = 0 \<or> c_max_qos (get_ctx c db) > 0 \<Longrightarrow>
     insert_duplicate c dir retain p db \<noteq> None \<Longrightarrow>
     db_step cs (ext, db) (ext, snd (db__message_insert c mid dir qos retain p props update db))"
| write_all: "c \<in> set cs \<Longrightarrow> db_step cs (ext, db) (ext, snd (db__message_write_inflight_out_all c db))"
| write_queued_out: "c \<in> set cs \<Longrightarrow> db_step cs (ext, db) (ext, snd (db__message_write_queued_out c db))"
| write_queued_in: "c \<in> set cs \<Longrightarrow> db_step cs (ext, db) (ext, snd (db__message_write_queued_in c db))"
| delete_outgoing: "c \<in> set cs \<Longrightarrow> db_step cs (ext, db) (ext, snd (db__message_delete_outgoing c mid st qos db))"
| update_outgoing: "c \<in> set cs \<Longrightarrow> db_step cs (ext, db) (ext, snd (db__message_update_outgoing c mid st qos db))"
| remove_incoming: "c \<in> set cs \<Longrightarrow> db_step cs (ext, db) (ext, snd (db__message_remove_incoming c mid db))"
| messages_delete: "c \<in> set cs \<Longrightarrow> db_step cs (ext, db) (ext, snd (db__messages_delete c force db))"
| reconnect: "c \<in> set cs \<Longrightarrow> db_step cs (ext, db) (ext, snd (db__message_reconnect_reset c db))"
| session: "c \<in> set cs \<Longrightarrow> (\<And>ctx. c_msgs_in (f ctx) = c_msgs_in ctx \<and> c_msgs_out (f ctx) = c_msgs_out ctx) \<Longrightarrow>
     db_step cs (ext, db) (ext, upd_ctx c f db)"
| store: "d_heap db p = None \<Longrightarrow> s_ref_count s = 0 \<Longrightarrow>
     db_step cs (ext, db)
       (ext, snd (db__message_store src p expiry store_id origin (db\<lparr>d_heap := (d_heap db)(p \<mapsto> s)\<rparr>)))"
| take: "live p db \<Longrightarrow> db_step cs (ext, db) (add_mset p ext, db__msg_store_ref_inc p db)"
| drop: "db_step cs (add_mset p ext, db) (ext, snd (db__msg_store_ref_dec p db))"
| compact: "db_step cs (ext, db) (ext, db__msg_store_compact db)"
| environment: "db_step cs (ext, db) (ext, db\<lparr>d_now_s := t, d_now_real_s := t', d_mem := mem, d_net := net\<rparr>)"

inductive_cases db_step_dropE: "db_step cs (add_mset p ext, db) (ext', db')"

definition broker_init :: "mosquitto_db \<Rightarrow> bool" where
  "broker_init db \<longleftrightarrow>
     d_heap db = (\<lambda>_. None) \<and> d_msg_store db = [] \<and> d_msg_store_count db = 0 \<and> d_msg_store_bytes db = 0
   \<and> \<not> d_fault db
   \<and> (\<forall>c dir. inflight (md_of c dir db) = [] \<and> queued (md_of c dir db) = []
        \<and> msg_count (md_of c dir db) = 0 \<and> msg_bytes (md_of c dir db) = 0
        \<and> msg_count12 (md_of c dir db) = 0 \<and> msg_bytes12 (md_of c dir db) = 0
        \<and> quota_ok (md_of c dir db))"

inductive db_reachable :: "cptr list \<Rightarrow> mptr multiset \<times> mosquitto_db \<Rightarrow> bool" for cs where
  init: "broker_init db \<Longrightarrow> db_reachable cs ({#}, db)"
| step: "db_reachable cs s \<Longrightarrow> db_step cs s s' \<Longrightarrow> db_reachable cs s'"

lemma broker_init_ok: "broker_init db \<Longrightarrow> broker_ok cs {#} db"
proof -
  assume i: "broker_init db"
  have "held c db = {#}" for c using i by (simp add: held_def md_held_msgs broker_init_def)
  then have "all_held cs db = {#}" by (induction cs) (simp_all add: all_held_def)
  moreover have "client_ok c db" for c using i
    by (simp add: client_ok_def keys_of_lists md_ok_def broker_init_def md_keys_kl)
  ultimately show ?thesis using i by (simp add: broker_ok_def store_ok_def rc_at_def broker_init_def)
qed

lemma frame_same: "d_contexts db' = d_contexts db \<Longrightarrow> d_heap db' = d_heap db \<Longrightarrow> frame c db db'"
  by (auto simp: frame_def get_ctx_def intro!: plen_cong)

lemma broker_store:
  assumes b: "broker_ok cs ext db" and c: "c \<in> set cs" "distinct cs"
    and p: "d_heap db p = None" "s_ref_count s = 0"
  shows "broker_ok cs ext (snd (db__message_store src p expiry store_id origin (db\<lparr>d_heap := (d_heap db)(p \<mapsto> s)\<rparr>)))"
proof -
  let ?db1 = "db\<lparr>d_heap := (d_heap db)(p \<mapsto> s)\<rparr>"
  let ?ext = "all_held (remove1 c cs) db + ext"
  let ?db2 = "snd (db__message_store src p expiry store_id origin ?db1)"
  have a: "accounted ?ext c db" using b broker_ok_split [OF c] by blast
  have so: "store_ok db" using b by (simp add: broker_ok_def)
  have np: "p \<notin> set (d_msg_store db)" using so p(1) by (auto simp: store_ok_def)
  have so1: "store_ok ?db1"
    by (rule store_ok_elsewhere [OF so np]) (use p in \<open>simp_all add: rc_at_def\<close>)
  have a1: "accounted ?ext c ?db1"
    by (rule accounted_elsewhere [OF a _ _ so1]) (use p in \<open>simp_all add: rc_at_def\<close>)
  have f1: "fresh_msg p ?db1" using p np by (simp add: fresh_msg_def)
  note r = message_store_ok [OF a1 f1, where src = src and expiry = expiry and store_id = store_id and origin = origin]
  have "rc_at db p = int (count (held c db + ?ext) p)" using a unfolding accounted_def inv_def by blast
  moreover have "rc_at db p = 0" using p(1) by (simp add: rc_at_def)
  ultimately have z: "int (count (held c db + ?ext) p) = 0" by (rule subst)
  have h2: "held c ?db2 = held c db" by (rule held_cong) (use r(2) in simp)
  have "rc_at ?db2 p = int (count (held c ?db2 + ?ext) p)" using r(1) unfolding accounted_def inv_def by blast
  then have z2: "rc_at ?db2 p = 0" unfolding h2 z .
  have "plen ?db2 q = plen db q" if "rc_at ?db2 q > 0" for q
  proof (rule plen_cong)
    have "q \<noteq> p" using that z2 by auto
    then show "d_heap ?db2 q = d_heap db q" using r(3) [of q] by simp
  qed
  then have "frame c db ?db2" using r(2) by (simp add: frame_def get_ctx_def)
  then show ?thesis using broker_lift [OF b c] r(1) by blast
qed

lemma db_step_ok:
  assumes "db_step cs s s'" and c: "c0 \<in> set cs" "distinct cs" and b: "broker_ok cs (fst s) (snd s)"
  shows "broker_ok cs (fst s') (snd s')"
  using assms(1,4)
proof (cases rule: db_step.cases)
  case (insert c p db qos dir retain ext mid props update)
  then show ?thesis using broker_good [OF _ _ c(2) good_insert] b by simp
next
  case (session c f ext db)
  have fr: "frame c db (upd_ctx c f db)"
    by (simp add: frame_def ctx_simps) (simp add: rc_at_def plen_def stored_at_def ctx_simps)
  have b': "broker_ok cs ext db" using b session by simp
  then have "accounted (all_held (remove1 c cs) db + ext) c db" using broker_ok_split [OF _ c(2)] session by blast
  then have "accounted (all_held (remove1 c cs) db + ext) c (upd_ctx c f db)"
    by (rule inv_upd_ctx(1) [rotated]) (use session in blast)
  then show ?thesis using broker_lift [OF b' _ c(2) fr] session by simp
next
  case (store db p s ext src expiry store_id origin)
  then show ?thesis using broker_store [OF _ c] b by simp
next
  case (take p db ext)
  let ?ext = "all_held (remove1 c0 cs) db + ext"
  have b': "broker_ok cs ext db" using b take by simp
  then have "accounted ?ext c0 db" using broker_ok_split [OF c] by blast
  note i = inv_ref_inc [OF this [unfolded accounted_def], of p]
  have "keys_of c0 (db__msg_store_ref_inc p db) = keys_of c0 db"
    by (rule keys_of_cong) (simp add: db__msg_store_ref_inc_def upd_store_def split: option.split)
  then have "accounted (all_held (remove1 c0 cs) db + add_mset p ext) c0 (db__msg_store_ref_inc p db)"
    using i(1) take by (simp add: accounted_def live_def)
  then show ?thesis using broker_lift [OF b' c eff_frame [OF i(2)]] take by (simp add: live_def)
next
  case (drop p ext db)
  let ?ext = "all_held (remove1 c0 cs) db + ext" and ?db = "snd (db__msg_store_ref_dec p db)"
  have b': "broker_ok cs (add_mset p ext) db" using b drop by simp
  then have "inv (keys_of c0 db) (add_mset p ?ext) c0 db" using broker_ok_split [OF c] by (simp add: accounted_def)
  note i = inv_ref_dec [OF this]
  have "accounted ?ext c0 ?db" using i(1) keys_of_cong [OF ref_dec_ctxs] by (simp add: accounted_def)
  then show ?thesis using broker_lift [OF b' c eff_frame [OF i(2)]] drop by simp
next
  case (environment ext db net mem t' t)
  let ?db = "db\<lparr>d_now_s := t, d_now_real_s := t', d_mem := mem, d_net := net\<rparr>"
  have h: "held c ?db = held c db" for c by (rule held_cong) simp
  have m: "md_of c dir ?db = md_of c dir db" for c dir by (rule md_of_cong) simp
  have k: "keys_of c ?db = keys_of c db" for c by (rule keys_of_cong) simp
  have o: "md_ok ?db K md = md_ok db K md" for K md by (simp add: md_ok_def plen_def stored_at_def)
  have "store_ok ?db = store_ok db" by (simp add: store_ok_def rc_at_def plen_def stored_at_def)
  then show ?thesis using b environment
    by (simp add: broker_ok_def all_held_def client_ok_def h m k o rc_at_def)
qed (use b broker_good [OF _ _ c(2)] c in \<open>simp_all add: good_write_inflight_out_all good_write_queued_out good_write_queued_in
    good_delete_outgoing good_update_outgoing good_remove_incoming good_messages_delete good_reconnect_reset good_compact\<close>)

lemma db_reachable_ok:
  assumes "db_reachable cs s" "c0 \<in> set cs" "distinct cs"
  shows "broker_ok cs (fst s) (snd s)"
  using assms(1)
proof (induction rule: db_reachable.induct)
  case (init db)
  then show ?case by (simp add: broker_init_ok)
next
  case (step s s')
  then show ?case using db_step_ok assms by blast
qed

end
