(* ===== verification/Broker_Props.thy ===== *)
theory Broker_Props
  imports Broker_Steps
begin

text \<open>
  The properties of \<open>src/database.c\<close> and of the packet identifiers, with a concrete broker that
  the witnesses use.
\<close>

section \<open>A concrete broker\<close>

definition no_msgs :: mosquitto_msg_data where
  "no_msgs = \<lparr>inflight = [], queued = [], msg_bytes = 0, msg_bytes12 = 0, msg_count = 0, msg_count12 = 0,
     inflight_quota = 20, inflight_maximum = 20\<rparr>"

definition new_client :: mosquitto where
  "new_client = \<lparr>c_id = Some ''c'', c_username = None, c_connected = True, c_state = mosq_cs_active,
     c_protocol = mosq_p_mqtt311, c_max_qos = 2, c_clean_start = True, c_is_dropping = False, c_bridge = None,
     c_last_mid = 0, c_out_packet_count = 0, c_msgs_in = no_msgs, c_msgs_out = no_msgs,
     c_subs = [], c_shared_subs = [], c_listener = Some \<lparr>ls_mount_point = None, ls_max_topic_alias = 10, ls_max_qos = 2\<rparr>,
     c_is_bridge = False, c_aliases = [], c_ping_t = 0\<rparr>"

definition default_config :: mosquitto__config where
  "default_config = \<lparr>max_inflight_bytes = 0, max_queued_bytes = 0, max_queued_messages = 1000,
     queue_qos0_messages = False, allow_duplicate_messages = False, retain_available = True,
     upgrade_outgoing_qos = False, check_retain_source = True, message_size_limit = 0\<rparr>"

definition empty_broker :: mosquitto_db where
  "empty_broker = \<lparr>d_heap = (\<lambda>_. None), d_next = 1, d_msg_store = [], d_last_db_id = 0, d_msg_store_count = 0,
     d_msg_store_bytes = 0, d_contexts = (\<lambda>_. new_client), d_config = default_config, d_now_s = 0, d_now_real_s = 0,
     d_persistence_changes = 0, d_retained_count = 0, d_msgs_dropped = 0, d_mem = [], d_net = [], d_sent = [],
     d_fault = False, d_subs = [], d_retains = [], d_subscription_count = 0, d_shared_subscription_count = 0, d_pub_bytes_received = 0\<rparr>"

lemma empty_broker_init: "broker_init empty_broker"
  by (simp add: broker_init_def empty_broker_def md_of_def get_ctx_def new_client_def get_md_def no_msgs_def quota_ok_def
      split: mosquitto_msg_direction.split)

text \<open>The broker after one message of three bytes was stored at address 1 and queued for client 0.\<close>

definition one_message :: mosquitto_db where
  "one_message =
     snd (db__message_insert 0 7 mosq_md_out 1 False 1 [] False
       (snd (db__message_store None 1 0 0 mosq_mo_client
         (empty_broker\<lparr>d_heap := (d_heap empty_broker)(1 \<mapsto> msg0\<lparr>s_payloadlen := 3, s_qos := 1\<rparr>)\<rparr>))))"

lemma one_message_md: "inflight (md_of 0 mosq_md_out one_message) =
   [\<lparr>m_store = 1, m_properties = [], m_timestamp = 0, m_mid = 7, m_qos = 1, m_retain = False,
     m_direction = mosq_md_out, m_state = mosq_ms_publish_qos1, m_dup = False\<rparr>]"
  "queued (md_of 0 mosq_md_out one_message) = []"
proof -
  have "md_of 0 mosq_md_out one_message = \<lparr>inflight =
   [\<lparr>m_store = 1, m_properties = [], m_timestamp = 0, m_mid = 7, m_qos = 1, m_retain = False,
     m_direction = mosq_md_out, m_state = mosq_ms_publish_qos1, m_dup = False\<rparr>], queued = [],
     msg_bytes = 3, msg_bytes12 = 3, msg_count = 1, msg_count12 = 1, inflight_quota = 19, inflight_maximum = 20\<rparr>"
    by code_simp
  then show "inflight (md_of 0 mosq_md_out one_message) =
   [\<lparr>m_store = 1, m_properties = [], m_timestamp = 0, m_mid = 7, m_qos = 1, m_retain = False,
     m_direction = mosq_md_out, m_state = mosq_ms_publish_qos1, m_dup = False\<rparr>]"
    "queued (md_of 0 mosq_md_out one_message) = []" by simp_all
qed

lemma one_message_reachable: "db_reachable [0] ({#}, one_message)"
proof -
  let ?s = "msg0\<lparr>s_payloadlen := 3, s_qos := 1\<rparr>"
  let ?db1 = "snd (db__message_store None 1 0 0 mosq_mo_client (empty_broker\<lparr>d_heap := (d_heap empty_broker)(1 \<mapsto> ?s)\<rparr>))"
  have r0: "db_reachable [0] ({#}, empty_broker)" by (rule db_reachable.init [OF empty_broker_init])
  have h: "d_heap empty_broker 1 = None" by (simp add: empty_broker_def)
  have s: "s_ref_count ?s = 0" by (simp add: msg0_def)
  have r1: "db_reachable [0] ({#}, ?db1)"
    by (rule db_reachable.step [OF r0 db_step.store [OF h s]])
  have l: "live 1 ?db1" unfolding live_def by code_simp
  have q: "c_max_qos (get_ctx 0 ?db1) > 0" by code_simp
  have d: "insert_duplicate 0 mosq_md_out False 1 ?db1 \<noteq> None" by code_simp
  show ?thesis unfolding one_message_def
    by (rule db_reachable.step [OF r1 db_step.insert]) (use l q d in simp_all)
qed

section \<open>Properties\<close>

lemma md_ok_lists:
  assumes "md_ok db (md_keys md) md"
  shows "msg_count md = int (length (md_msgs md))"
    and "msg_bytes md = (\<Sum>m\<leftarrow>md_msgs md. plen db (m_store m))"
    and "msg_count12 md = int (length (filter (\<lambda>m. m_qos m > 0) (md_msgs md)))"
    and "msg_bytes12 md = (\<Sum>m\<leftarrow>filter (\<lambda>m. m_qos m > 0) (md_msgs md). plen db (m_store m))"
proof -
  have k: "md_keys md = mset (map key (md_msgs md))" by (simp add: md_keys_def key_def [abs_def])
  have f: "{#k \<in># md_keys md. snd k > 0#} = mset (map key (filter (\<lambda>m. m_qos m > 0) (md_msgs md)))"
    unfolding k mset_filter [symmetric] filter_map comp_def by (simp add: key_def)
  have s: "(\<Sum>k\<in>#mset (map key ms). plen db (fst k)) = (\<Sum>m\<leftarrow>ms. plen db (m_store m))" for ms
    by (induction ms) (simp_all add: key_def)
  have e: "msg_count md = int (size (md_keys md))" "msg_bytes md = (\<Sum>k\<in>#md_keys md. plen db (fst k))"
    "msg_count12 md = int (size {#k \<in># md_keys md. snd k > 0#})"
    "msg_bytes12 md = (\<Sum>k\<in>#{#k \<in># md_keys md. snd k > 0#}. plen db (fst k))"
    using assms unfolding md_ok_def by blast+
  show "msg_count md = int (length (md_msgs md))" unfolding e(1) k by simp
  show "msg_bytes md = (\<Sum>m\<leftarrow>md_msgs md. plen db (m_store m))" unfolding e(2) k by (rule s)
  show "msg_count12 md = int (length (filter (\<lambda>m. m_qos m > 0) (md_msgs md)))" unfolding e(3) f by (simp only: size_mset length_map)
  show "msg_bytes12 md = (\<Sum>m\<leftarrow>filter (\<lambda>m. m_qos m > 0) (md_msgs md). plen db (m_store m))" unfolding e(4) f by (rule s)
qed

text \<open>
  C2: In every state that the broker reaches from an empty one, whatever the order of the
  operations of its clients and whichever allocations and transmissions fail, no freed message was
  touched, and the reference count of a stored message is the number of queue entries of all
  clients that point to it plus the references held outside the queues.
\<close>

theorem ref_counts_exact:
  assumes "db_reachable cs (ext, db)" "distinct cs" "cs \<noteq> []"
  shows "\<not> d_fault db \<and>
    (\<forall>p s. d_heap db p = Some s \<longrightarrow> s_ref_count s = int (count (all_held cs db + ext) p))"
proof -
  have b: "broker_ok cs ext db" using db_reachable_ok [OF assms(1) _ assms(2)] assms(3) list.set_intros(1)
    by (metis fst_conv snd_conv list.exhaust)
  have "s_ref_count s = int (count (all_held cs db + ext) p)" if "d_heap db p = Some s" for p s
  proof -
    have "rc_at db p = int (count (all_held cs db + ext) p)" using b unfolding broker_ok_def by blast
    then show ?thesis using rc_zero_ref [OF that] by metis
  qed
  then show ?thesis using b by (simp add: broker_ok_def)
qed

theorem ref_counts_exact_witness:
  "\<not> d_fault one_message \<and> s_ref_count (the (d_heap one_message 1)) = int (count (all_held [0] one_message + {#}) 1)"
proof -
  have "d_heap one_message 1 = Some (the (d_heap one_message 1))" by code_simp
  then show ?thesis using ref_counts_exact [OF one_message_reachable] by simp
qed

text \<open>
  C3: In every reachable state, each message in a queue of a client points to a stored message
  that is alive, is in the list of all messages and is counted as referenced.
\<close>

theorem queued_messages_alive:
  assumes "db_reachable cs (ext, db)" "distinct cs" "c \<in> set cs"
    and "m \<in> set (inflight (md_of c dir db) @ queued (md_of c dir db))"
  shows "m_store m \<in> set (d_msg_store db) \<and> (\<exists>s. d_heap db (m_store m) = Some s \<and> s_ref_count s > 0)"
proof -
  have b: "broker_ok cs ext db" using db_reachable_ok [OF assms(1,3,2)] by simp
  then have a: "accounted (all_held (remove1 c cs) db + ext) c db" using broker_ok_split [OF assms(3,2)] by blast
  have "key m \<in># keys_of c db dir" using assms(4) unfolding keys_of_lists by auto
  note h = accounted_held(1) [OF a this]
  let ?n = "count (held c db + (all_held (remove1 c cs) db + ext)) (fst (key m))"
  obtain s where s: "d_heap db (fst (key m)) = Some s" "s_ref_count s = int ?n"
    using inv_live(1) [OF a [unfolded accounted_def] h] by blast
  have "?n > 0" using h unfolding count_greater_zero_iff .
  then have "s_ref_count s > 0" unfolding s(2) by (simp only: of_nat_0_less_iff)
  then show ?thesis using s(1) inv_live(2) [OF a [unfolded accounted_def] h] by (simp add: key_def)
qed

theorem queued_messages_alive_witness:
  "1 \<in> set (d_msg_store one_message) \<and> (\<exists>s. d_heap one_message 1 = Some s \<and> s_ref_count s > 0)"
  using queued_messages_alive [OF one_message_reachable, of 0 "hd (inflight (md_of 0 mosq_md_out one_message))" mosq_md_out]
  by (simp add: one_message_md)

text \<open>
  C4: In every state that the operations of \<open>db_step\<close> reach, in which messages of QoS above 0 are
  only inserted for clients with a maximum QoS above 0 (and never behind a list of receivers that
  lost an entry for want of memory), the four counters of a client's queue are
  what the messages in flight and queued add up to, those of QoS above 0 separately. Of the quota
  only the bounds are claimed: it stays between 0 and the maximum.
\<close>

theorem queue_counters_exact:
  assumes "db_reachable cs (ext, db)" "distinct cs" "c \<in> set cs"
  shows "let md = md_of c dir db; ms = inflight md @ queued md; ms12 = filter (\<lambda>m. m_qos m > 0) ms;
             bytes = (\<lambda>ms. \<Sum>m\<leftarrow>ms. int (unat (s_payloadlen (stored_at (m_store m) db))))
         in msg_count md = int (length ms) \<and> msg_bytes md = bytes ms
          \<and> msg_count12 md = int (length ms12) \<and> msg_bytes12 md = bytes ms12
          \<and> 0 \<le> inflight_quota md \<and> inflight_quota md \<le> int (unat (inflight_maximum md))"
proof -
  have "client_ok c db" using db_reachable_ok [OF assms(1,3,2)] assms(3) by (simp add: broker_ok_def)
  then have "md_ok db (md_keys (md_of c dir db)) (md_of c dir db)" "quota_ok (md_of c dir db)"
    by (simp_all add: client_ok_def keys_of_def)
  then show ?thesis using md_ok_lists [of db "md_of c dir db"]
    unfolding Let_def quota_ok_def md_msgs_def plen_def by blast
qed

theorem queue_counters_exact_witness:
  "msg_count (md_of 0 mosq_md_out one_message) = 1 \<and> msg_bytes12 (md_of 0 mosq_md_out one_message) = 3"
proof -
  have "s_payloadlen (stored_at 1 one_message) = 3" by code_simp
  then show ?thesis
    using queue_counters_exact [OF one_message_reachable, of 0 mosq_md_out] by (simp add: Let_def one_message_md)
qed

text \<open>
  In every reachable state the list of all messages has no duplicates and holds exactly
  messages that are alive, and its length and its total of payload bytes are the two counters that
  the broker publishes.
\<close>

theorem store_totals_exact:
  assumes "db_reachable cs (ext, db)" "distinct cs" "cs \<noteq> []"
  shows "distinct (d_msg_store db) \<and> (\<forall>p. p \<in> set (d_msg_store db) \<longrightarrow> d_heap db p \<noteq> None)
     \<and> d_msg_store_count db = int (length (d_msg_store db))
     \<and> d_msg_store_bytes db = (\<Sum>p\<leftarrow>d_msg_store db. int (unat (s_payloadlen (stored_at p db))))"
proof -
  have "broker_ok cs ext db" using db_reachable_ok [OF assms(1) _ assms(2)] assms(3) list.set_intros(1)
    by (metis fst_conv snd_conv list.exhaust)
  then have "store_ok db" by (simp add: broker_ok_def)
  then show ?thesis unfolding store_ok_def plen_def by blast
qed

theorem store_totals_exact_witness:
  "distinct (d_msg_store one_message) \<and> d_msg_store_count one_message = int (length (d_msg_store one_message))"
  using store_totals_exact [OF one_message_reachable] by simp

section \<open>Order of the queue\<close>

definition out_mids :: "cptr \<Rightarrow> mosquitto_db \<Rightarrow> u16 list" where
  "out_mids c db = map m_mid (inflight (md_of c mosq_md_out db) @ queued (md_of c mosq_md_out db))"

lemma promote_mids:
  assumes "queued (md_of c mosq_md_out db) \<noteq> []" "\<And>m. m_mid (f m) = m_mid m"
  shows "out_mids c (db__message_dequeue_first c mosq_md_out (upd_queued c mosq_md_out 0 f db)) = out_mids c db"
  using assms by (cases "queued (md_of c mosq_md_out db)") (simp_all add: out_mids_def)

lemma promote_queued:
  "queued (md_of c mosq_md_out db) \<noteq> [] \<Longrightarrow>
   queued (md_of c mosq_md_out (db__message_dequeue_first c mosq_md_out (upd_queued c mosq_md_out 0 f db)))
     = tl (queued (md_of c mosq_md_out db))"
  by (cases "queued (md_of c mosq_md_out db)") simp_all

lemma write_queued_out_loop_mids:
  "n \<le> length (queued (md_of c mosq_md_out db)) \<Longrightarrow> out_mids c (write_queued_out_loop n c db) = out_mids c db"
proof (induction n arbitrary: db)
  case (Suc n)
  have ne: "queued (md_of c mosq_md_out db) \<noteq> []" using Suc.prems by auto
  let ?db = "db__message_dequeue_first c mosq_md_out
    (upd_queued c mosq_md_out 0 (\<lambda>m. m\<lparr>m_state := publish_state (m_qos m) (m_state m)\<rparr>) db)"
  have "n \<le> length (queued (md_of c mosq_md_out ?db))" unfolding promote_queued [OF ne] using Suc.prems by simp
  from Suc.IH [OF this] promote_mids [OF ne] show ?case by (simp add: Let_def)
qed simp

text \<open>
  C8: Moving queued messages into flight (\<open>db__message_write_queued_out\<close>) neither loses nor
  reorders one: the packet identifiers in flight followed by those queued stay the same sequence.
\<close>

theorem write_queued_out_fifo:
  "map m_mid (inflight (md_of c mosq_md_out (snd (db__message_write_queued_out c db)))
      @ queued (md_of c mosq_md_out (snd (db__message_write_queued_out c db))))
   = map m_mid (inflight (md_of c mosq_md_out db) @ queued (md_of c mosq_md_out db))"
  using write_queued_out_loop_mids [of _ c db] unfolding out_mids_def db__message_write_queued_out_def by simp

text \<open>
  C10: An acknowledgement is checked before anything changes: for a packet identifier in flight,
  \<open>db__message_delete_outgoing\<close> reports a protocol error and leaves the whole state as it is when
  the QoS differs or, for QoS 2, the message waits for something else. (As in the code the state of
  a message of QoS 1 is not looked at.)
\<close>

theorem delete_outgoing_rejects:
  assumes "inflight (md_of c mosq_md_out db) = as @ m # bs" "mid \<notin> m_mid ` set as" "m_mid m = mid"
    and "m_qos m \<noteq> qos \<or> (qos = 2 \<and> m_state m \<noteq> st)"
  shows "db__message_delete_outgoing c mid st qos db = (MOSQ_ERR_PROTOCOL, db)"
proof -
  have "find_index (\<lambda>m. m_mid m = mid) (as @ m # bs) = Some (length as)"
    using assms(2,3) by (induction as) auto
  then show ?thesis using assms(1,4) by (auto simp: db__message_delete_outgoing_def Let_def)
qed

theorem delete_outgoing_rejects_witness:
  "db__message_delete_outgoing 0 7 mosq_ms_wait_for_puback 2 one_message = (MOSQ_ERR_PROTOCOL, one_message)"
  by (rule delete_outgoing_rejects [where as = "[]" and bs = "[]" and m = "hd (inflight (md_of 0 mosq_md_out one_message))"])
     (simp_all add: one_message_md)

text \<open>A queued message as it is put into flight, and how many are.\<close>

definition promoted :: "mosquitto_db \<Rightarrow> mosquitto_client_msg \<Rightarrow> mosquitto_client_msg" where
  "promoted db m = m\<lparr>m_timestamp := d_now_s db, m_state := publish_state (m_qos m) (m_state m)\<rparr>"

definition window :: "u16 \<Rightarrow> nat \<Rightarrow> nat \<Rightarrow> nat" where
  "window maximum j n = (if maximum = 0 then n else min n (unat maximum - j))"

lemma state_upd_md [simp]:
  "c_state (get_ctx c' (upd_md c dir f db)) = c_state (get_ctx c' db)"
  "c_connected (get_ctx c' (upd_md c dir f db)) = c_connected (get_ctx c' db)"
  by (auto simp: upd_md_def ctx_simps set_md_def split: mosquitto_msg_direction.split)

lemma ref_dec_contexts [simp]:
  "get_ctx c (snd (db__msg_store_ref_dec p db)) = get_ctx c db" "get_ctx c (touch p db) = get_ctx c db"
  "md_of c dir (snd (db__msg_store_ref_dec p db)) = md_of c dir db" "md_of c dir (touch p db) = md_of c dir db"
  by (simp_all add: get_ctx_def md_of_def ref_dec_ctxs touch_ctxs)

lemma ref_dec_now [simp]: "d_now_s (touch p db) = d_now_s db" "d_now_s (snd (db__msg_store_ref_dec p db)) = d_now_s db"
  by (auto simp: db__msg_store_ref_dec_def upd_store_def db__msg_store_remove_def db__msg_store_free_def touch_def Let_def
      split: option.splits)

lemma promote_step:
  assumes "queued (md_of c mosq_md_out db) = m # q"
  defines "db' \<equiv> db__message_dequeue_first c mosq_md_out (upd_queued c mosq_md_out 0 (promoted db) db)"
  shows "queued (md_of c mosq_md_out db') = q"
    and "inflight (md_of c mosq_md_out db') = inflight (md_of c mosq_md_out db) @ [promoted db m]"
    and "inflight_maximum (md_of c mosq_md_out db') = inflight_maximum (md_of c mosq_md_out db)"
    and "promoted db' = promoted db"
    and "(c', d) \<noteq> (c, mosq_md_out) \<Longrightarrow> md_of c' d db' = md_of c' d db"
    and "c_state (get_ctx c db') = c_state (get_ctx c db) \<and> c_connected (get_ctx c db') = c_connected (get_ctx c db)"
proof -
  let ?F = "\<lambda>md. md\<lparr>queued := q, inflight := inflight md @ [promoted db m],
      inflight_quota := (if inflight_quota md > 0 then inflight_quota md - 1 else inflight_quota md)\<rparr>"
  let ?G = "\<lambda>md. md\<lparr>queued := (queued md)[0 := promoted db (queued md ! 0)]\<rparr>"
  have e: "db' = upd_md c mosq_md_out ?F (upd_md c mosq_md_out ?G db)"
    unfolding db'_def db__message_dequeue_first_def upd_queued_def using assms(1) by simp
  have p: "promoted (upd_md c' dir f db) = promoted db" for c' dir f db by (simp add: promoted_def [abs_def])
  show "queued (md_of c mosq_md_out db') = q"
    "inflight (md_of c mosq_md_out db') = inflight (md_of c mosq_md_out db) @ [promoted db m]"
    "inflight_maximum (md_of c mosq_md_out db') = inflight_maximum (md_of c mosq_md_out db)"
    "c_state (get_ctx c db') = c_state (get_ctx c db) \<and> c_connected (get_ctx c db') = c_connected (get_ctx c db)"
    unfolding e by simp_all
  show "promoted db' = promoted db" unfolding e p ..
  show "(c', d) \<noteq> (c, mosq_md_out) \<Longrightarrow> md_of c' d db' = md_of c' d db" unfolding e by auto
qed

lemma delete_promote_loop_lists:
  assumes "queued (md_of c mosq_md_out db) = q"
  shows "let db' = delete_promote_loop (length q) (int j) c db;
      k = window (inflight_maximum (md_of c mosq_md_out db)) j (length q)
    in inflight (md_of c mosq_md_out db') = inflight (md_of c mosq_md_out db) @ map (promoted db) (take k q)
    \<and> queued (md_of c mosq_md_out db') = drop k q
    \<and> (\<forall>c' d. (c', d) \<noteq> (c, mosq_md_out) \<longrightarrow> md_of c' d db' = md_of c' d db)
    \<and> c_state (get_ctx c db') = c_state (get_ctx c db) \<and> c_connected (get_ctx c db') = c_connected (get_ctx c db)"
  using assms unfolding Let_def
proof (induction q arbitrary: db j)
  case (Cons m q)
  let ?max = "inflight_maximum (md_of c mosq_md_out db)"
  have u: "int j \<ge> int (unat ?max) \<longleftrightarrow> unat ?max \<le> j" by (simp only: of_nat_le_iff)
  let ?db = "db__message_dequeue_first c mosq_md_out (upd_queued c mosq_md_out 0 (promoted db) db)"
  note s = promote_step [OF Cons.prems(1)]
  show ?case
  proof (cases "?max \<noteq> 0 \<and> unat ?max \<le> j")
    case True
    then show ?thesis using Cons.prems u by (simp add: window_def)
  next
    case False
    have w: "window ?max j (length (m # q)) = Suc (window ?max (Suc j) (length q))"
      using False by (auto simp: window_def)
    have d: "delete_promote_loop (length (m # q)) (int j) c db = delete_promote_loop (length q) (int (Suc j)) c ?db"
      using False u by (auto simp: promoted_def [abs_def] add.commute Let_def)
    from Cons.IH [OF s(1), of "Suc j"] show ?thesis unfolding w d s(3) s(4) s(2) using s(5,6) by simp
  qed
qed (simp add: window_def)

text \<open>
  C9: When the message is in flight as expected, its acknowledgement takes exactly this message
  away and fills the window from the front of the queue: what was in flight before and behind it
  stays in order, then come the messages that are moved, ready for their first transmission, and
  the rest of the queue stays. Nothing in another queue changes, and what is in flight is then
  transmitted. The window is counted from the front up to the acknowledged message only, so with
  messages behind it more than the maximum can be in flight.
\<close>

theorem delete_outgoing_order:
  assumes "inflight (md_of c mosq_md_out db) = as @ m # bs" "mid \<notin> m_mid ` set as" "m_mid m = mid"
    and "m_qos m = qos" "qos = 2 \<Longrightarrow> m_state m = st"
  shows "let q = queued (md_of c mosq_md_out db);
             k = window (inflight_maximum (md_of c mosq_md_out db)) (length as) (length q)
         in \<exists>db'. db__message_delete_outgoing c mid st qos db = db__message_write_inflight_out_latest c db'
           \<and> inflight (md_of c mosq_md_out db') = as @ bs @ map (promoted db) (take k q)
           \<and> queued (md_of c mosq_md_out db') = drop k q
           \<and> (\<forall>c' d. (c', d) \<noteq> (c, mosq_md_out) \<longrightarrow> md_of c' d db' = md_of c' d db)
           \<and> (c_state (get_ctx c db) \<noteq> mosq_cs_active \<or> \<not> c_connected (get_ctx c db) \<longrightarrow>
                db__message_delete_outgoing c mid st qos db = (MOSQ_ERR_SUCCESS, db'))"
proof -
  let ?q = "queued (md_of c mosq_md_out db)"
  let ?db = "db__message_remove c mosq_md_out (length as) db"
  let ?db1 = "delete_promote_loop (length ?q) (int (length as)) c ?db"
  let ?db2 = "?db1\<lparr>d_persistence_changes := d_persistence_changes ?db1 + 1\<rparr>"
  have i: "find_index (\<lambda>m. m_mid m = mid) (as @ m # bs) = Some (length as)"
    using assms(2,3) by (induction as) auto
  have r: "queued (md_of c mosq_md_out ?db) = ?q" "inflight (md_of c mosq_md_out ?db) = as @ bs"
    "inflight_maximum (md_of c mosq_md_out ?db) = inflight_maximum (md_of c mosq_md_out db)" "promoted ?db = promoted db"
    "\<And>c' d. (c', d) \<noteq> (c, mosq_md_out) \<Longrightarrow> md_of c' d ?db = md_of c' d db"
    "c_state (get_ctx c ?db) = c_state (get_ctx c db) \<and> c_connected (get_ctx c ?db) = c_connected (get_ctx c db)"
    using assms(1) unfolding db__message_remove_def Let_def by (auto simp: del_at_def promoted_def [abs_def])
  have f: "db__message_delete_outgoing c mid st qos db = db__message_write_inflight_out_latest c ?db2"
    using assms(1,4,5) i r(1) by (auto simp: db__message_delete_outgoing_def Let_def)
  note l = delete_promote_loop_lists [OF r(1), of "length as", unfolded Let_def]
  have m: "md_of c' d ?db2 = md_of c' d ?db1" "get_ctx c' ?db2 = get_ctx c' ?db1" for c' d
    by (simp_all add: md_of_def get_ctx_def)
  show ?thesis unfolding Let_def
    by (rule exI [of _ ?db2]) (use f l r m in \<open>auto simp: db__message_write_inflight_out_latest_def\<close>)
qed

text \<open>Two messages are in flight, the maximum, and after one acknowledgement there are three.\<close>

definition overrun :: mosquitto_db where
  "overrun = (let m = hd (inflight (md_of 0 mosq_md_out one_message))
     in upd_md 0 mosq_md_out (\<lambda>md. md\<lparr>inflight := [m, m\<lparr>m_mid := 8\<rparr>],
          queued := [m\<lparr>m_mid := 9, m_state := mosq_ms_queued\<rparr>, m\<lparr>m_mid := 10, m_state := mosq_ms_queued\<rparr>],
          inflight_maximum := 2\<rparr>) (upd_ctx 0 (\<lambda>ctx. ctx\<lparr>c_connected := False\<rparr>) one_message))"

theorem delete_outgoing_order_witness:
  "inflight_maximum (md_of 0 mosq_md_out overrun) = 2
   \<and> (\<exists>db'. db__message_delete_outgoing 0 7 mosq_ms_wait_for_puback 1 overrun = (MOSQ_ERR_SUCCESS, db')
     \<and> map m_mid (inflight (md_of 0 mosq_md_out db')) = [8, 9, 10] \<and> queued (md_of 0 mosq_md_out db') = [])"
proof -
  let ?m = "hd (inflight (md_of 0 mosq_md_out one_message))"
  let ?q = "[?m\<lparr>m_mid := 9, m_state := mosq_ms_queued\<rparr>, ?m\<lparr>m_mid := 10, m_state := mosq_ms_queued\<rparr>]"
  have o: "inflight (md_of 0 mosq_md_out overrun) = [] @ ?m # [?m\<lparr>m_mid := 8\<rparr>]"
    "queued (md_of 0 mosq_md_out overrun) = ?q" "inflight_maximum (md_of 0 mosq_md_out overrun) = 2"
    "\<not> c_connected (get_ctx 0 overrun)"
    unfolding overrun_def Let_def by (simp_all add: ctx_simps)
  have m: "m_mid ?m = 7" "m_qos ?m = 1" by (simp_all add: one_message_md)
  have w: "window 2 (length []) (length ?q) = 2" by (simp add: window_def)
  note d = delete_outgoing_order [OF o(1) _ m, of mosq_ms_wait_for_puback, unfolded Let_def o(2,3) w]
  from d obtain db' where "db__message_delete_outgoing 0 7 mosq_ms_wait_for_puback 1 overrun = (MOSQ_ERR_SUCCESS, db')"
    "inflight (md_of 0 mosq_md_out db') = [] @ [?m\<lparr>m_mid := 8\<rparr>] @ map (promoted overrun) (take 2 ?q)"
    "queued (md_of 0 mosq_md_out db') = drop 2 ?q"
    using o(4) by auto
  then show ?thesis using o(3) by (simp add: promoted_def)
qed

section \<open>Packet identifiers\<close>

primrec next_mids :: "nat \<Rightarrow> cptr \<Rightarrow> mosquitto_db \<Rightarrow> u16 list" where
  "next_mids 0 c db = []"
| "next_mids (Suc n) c db = (case mosquitto__mid_generate c db of (mid, db') \<Rightarrow> mid # next_mids n c db')"

lemma mid_generate_unat:
  "unat (fst (mosquitto__mid_generate c db)) = unat (c_last_mid (get_ctx c db)) mod 65535 + 1"
  "c_last_mid (get_ctx c (snd (mosquitto__mid_generate c db))) = fst (mosquitto__mid_generate c db)"
proof -
  let ?w = "c_last_mid (get_ctx c db)"
  have b: "unat ?w < 65536" using u16_less [of ?w] by simp
  show "unat (fst (mosquitto__mid_generate c db)) = unat ?w mod 65535 + 1"
  proof (cases "?w + 1 = 0")
    case True
    then have w: "?w = - 1" by (rule eq_neg_iff_add_eq_0 [THEN iffD2])
    have f: "fst (mosquitto__mid_generate c db) = 1" using True by (simp add: mosquitto__mid_generate_def Let_def)
    have "unat (- 1 :: u16) = 65535" by (simp add: unsigned_minus_1_eq_mask mask_eq_exp_minus_1)
    then show ?thesis unfolding f w by simp
  next
    case False
    have "unat (?w + 1) = unat ?w + 1" using unatSuc [of ?w] False by (simp add: add.commute)
    then have "unat ?w \<noteq> 65535" using False b
      using u16_less [of "?w + 1"] \<open>unat (?w + 1) = unat ?w + 1\<close> by linarith
    then have "unat ?w < 65535" using b by linarith
    then have "unat ?w mod 65535 = unat ?w" by (rule mod_less)
    then show ?thesis using False \<open>unat (?w + 1) = unat ?w + 1\<close> by (simp add: mosquitto__mid_generate_def Let_def)
  qed
  show "c_last_mid (get_ctx c (snd (mosquitto__mid_generate c db))) = fst (mosquitto__mid_generate c db)"
    by (simp add: mosquitto__mid_generate_def Let_def ctx_simps)
qed

lemma next_mids_unat:
  "map unat (next_mids n c db) = map (\<lambda>i. (unat (c_last_mid (get_ctx c db)) + i) mod 65535 + 1) [0..<n]"
proof (induction n arbitrary: db)
  case (Suc n)
  obtain mid db' where m: "mosquitto__mid_generate c db = (mid, db')" by (cases "mosquitto__mid_generate c db")
  have u: "unat mid = unat (c_last_mid (get_ctx c db)) mod 65535 + 1" "c_last_mid (get_ctx c db') = mid"
    using mid_generate_unat [of c db] by (simp_all add: m)
  have "map unat (next_mids n c db') = map (\<lambda>i. (unat (c_last_mid (get_ctx c db)) + Suc i) mod 65535 + 1) [0..<n]"
    unfolding Suc.IH u using mod_add_left_eq [of "unat (c_last_mid (get_ctx c db))" 65535 "Suc _"]
    by (intro map_cong refl) simp
  then show ?case using u(1) by (simp add: m upt_rec [of 0] map_Suc_upt [symmetric] del: upt_Suc)
qed simp

text \<open>
  C11: \<open>mosquitto__mid_generate\<close> never returns the forbidden packet identifier 0, and up to 65535
  successive identifiers of one client are different, also across the wrap-around.
\<close>

theorem mids_distinct:
  assumes "n \<le> 65535"
  shows "distinct (next_mids n c db) \<and> 0 \<notin> set (next_mids n c db)"
proof
  let ?l = "unat (c_last_mid (get_ctx c db))"
  have "inj_on (\<lambda>i. (?l + i) mod 65535 + 1) {0..<n}"
  proof (rule inj_onI)
    fix i j assume "i \<in> {0..<n}" "j \<in> {0..<n}" and e: "(?l + i) mod 65535 + 1 = (?l + j) mod 65535 + 1"
    then have "i < 65535" "j < 65535" "(?l + i) mod 65535 = (?l + j) mod 65535" using assms by auto
    then obtain q q' where "?l + i + 65535 * q = ?l + j + 65535 * q'" using nat_mod_eq_iff by blast
    then have "(i + 65535 * q) mod 65535 = (j + 65535 * q') mod 65535" by simp
    then show "i = j" using \<open>i < 65535\<close> \<open>j < 65535\<close> by simp
  qed
  then have "distinct (map unat (next_mids n c db))" unfolding next_mids_unat by (simp add: distinct_map)
  then show "distinct (next_mids n c db)" by (simp add: distinct_map)
  have "0 \<notin> set (map unat (next_mids n c db))" unfolding next_mids_unat by auto
  then show "0 \<notin> set (next_mids n c db)" by force
qed

theorem mids_distinct_witness:
  "distinct (next_mids 3 0 (upd_ctx 0 (\<lambda>c. c\<lparr>c_last_mid := 65534\<rparr>) empty_broker)) \<and>
   next_mids 3 0 (upd_ctx 0 (\<lambda>c. c\<lparr>c_last_mid := 65534\<rparr>) empty_broker) = [65535, 1, 2]"
proof
  show "distinct (next_mids 3 0 (upd_ctx 0 (\<lambda>c. c\<lparr>c_last_mid := 65534\<rparr>) empty_broker))"
    using mids_distinct [of 3] by simp
  show "next_mids 3 0 (upd_ctx 0 (\<lambda>c. c\<lparr>c_last_mid := 65534\<rparr>) empty_broker) = [65535, 1, 2]" by code_simp
qed

end
