(* ===== verification/Topic_Tok.thy ===== *)
theory Topic_Tok
  imports Topics
begin

text \<open>
  \<open>src/topic_tok.c\<close>: cutting a topic or a subscription into the array of its levels. The
  \<open>char *\<close> that \<open>strtok\_hier\<close> advances is the rest of the string; the array \<open>topics\<close> is a list of
  optional strings of the length that \<open>calloc\<close> was given, and a store behind it is \<open>Oob\<close>.
\<close>

section \<open>The code\<close>

text \<open>\<open>strchr(s, '/')\<close> with the NUL written at the separator: the string before and the one behind.\<close>

primrec cut_slash :: "string \<Rightarrow> (string \<times> string) option" where
  "cut_slash [] = None"
| "cut_slash (c # s) =
     (if c = CHR ''/'' then Some ([], s) else map_option (\<lambda>(a, b). (c # a, b)) (cut_slash s))"

definition strtok_hier :: "string option \<Rightarrow> string option \<Rightarrow> string option \<times> string option" where
  "strtok_hier str saveptr =
     (let saveptr = (if str \<noteq> None then str else saveptr)
      in case saveptr of
           None \<Rightarrow> (None, None)
         | Some s \<Rightarrow> (case cut_slash s of Some (tok, rst) \<Rightarrow> (Some tok, Some rst) | None \<Rightarrow> (Some s, None)))"

text \<open>The number of rounds of \<open>saveptr = strchr(&saveptr[1], '/')\<close>, started with a string that is not empty.\<close>

definition strchr_slash :: "string \<Rightarrow> string option" where
  "strchr_slash s = (case dropWhile (\<lambda>c. c \<noteq> CHR ''/'') s of [] \<Rightarrow> None | r \<Rightarrow> Some r)"

lemma strchr_slash_shorter: "strchr_slash s = Some r \<Longrightarrow> length r \<le> length s"
  using length_dropWhile_le [of "\<lambda>c. c \<noteq> CHR ''/''" s]
  by (cases "dropWhile (\<lambda>c. c \<noteq> CHR ''/'') s") (auto simp: strchr_slash_def)

function token_count :: "string \<Rightarrow> nat" where
  "token_count [] = 1"
| "token_count (c # s) = (case strchr_slash s of None \<Rightarrow> 1 | Some r \<Rightarrow> Suc (token_count r))"
  by pat_completeness auto
termination
  by (relation "measure length") (auto dest: strchr_slash_shorter)

lemma cut_slash_shorter: "cut_slash s = Some (a, b) \<Longrightarrow> length b < length s"
  by (induction s arbitrary: a) (auto split: if_splits)

function token_loop :: "string option \<Rightarrow> nat \<Rightarrow> string option list \<Rightarrow> string option list res" where
  "token_loop saveptr i topics =
     (case strtok_hier None saveptr of
        (None, _) \<Rightarrow> Inr topics
      | (Some token, saveptr') \<Rightarrow>
          if i < length topics then token_loop saveptr' (Suc i) (topics[i := Some token]) else Inl Oob)"
  by pat_completeness auto
termination
  by (relation "measure (\<lambda>(s, _). case s of None \<Rightarrow> 0 | Some s \<Rightarrow> Suc (length s))")
     (auto simp: strtok_hier_def Let_def dest: cut_slash_shorter split: option.splits prod.splits)

declare token_loop.simps [simp del]

text \<open>The array of a shared subscription without its first two levels.\<close>

definition share_shift :: "nat \<Rightarrow> string option list \<Rightarrow> string option list" where
  "share_shift count topics =
     (fold (\<lambda>i ts. ts[i := ts ! (i + 1)]) [1..<count - 1] topics)[0 := Some [], count - 1 := None]"

definition tokenise_array :: "string \<Rightarrow> nat \<Rightarrow> (string option list \<times> string option) res" where
  "tokenise_array local_sub count =
     (let topics = replicate (count + 3) None;
          (topics, i) = (if hd local_sub \<noteq> CHR ''$'' then (topics[0 := Some []], 1) else (topics, 0))
      in case token_loop (Some local_sub) i topics of
           Inl e \<Rightarrow> Inl e
         | Inr topics \<Rightarrow>
             (case topics ! 0 of
                None \<Rightarrow> Inl Null_deref
              | Some t \<Rightarrow>
                  if t = ''$share'' then
                    (if count < 2 then rc_fail MOSQ_ERR_PROTOCOL
                     else Inr (share_shift count topics, topics ! 1))
                  else Inr (topics, None)))"

definition sub__topic_tokenise :: "string \<Rightarrow> mem \<Rightarrow> (string option list \<times> string option) res \<times> mem" where
  "sub__topic_tokenise subtopic mem =
     (if length subtopic = 0 then (rc_fail MOSQ_ERR_INVAL, mem)
      else case malloc_ok mem of
        (False, mem) \<Rightarrow> (rc_fail MOSQ_ERR_NOMEM, mem)
      | (True, mem) \<Rightarrow>
          (case malloc_ok mem of
             (False, mem) \<Rightarrow> (rc_fail MOSQ_ERR_NOMEM, mem)
           | (True, mem) \<Rightarrow> (tokenise_array subtopic (token_count subtopic), mem)))"

text \<open>The array as its users read it: up to the first null pointer.\<close>

definition topics_of :: "string option list \<Rightarrow> string list" where
  "topics_of ts = map the (takeWhile (\<lambda>t. t \<noteq> None) ts)"

lemma tokenise_mem: "sub__topic_tokenise s mem = (res, mem') \<Longrightarrow> mem = [] \<Longrightarrow> mem' = []"
  by (auto simp: sub__topic_tokenise_def split: if_splits)

section \<open>The levels\<close>

lemma cut_slash_levels:
  "levels s = (case cut_slash s of None \<Rightarrow> [s] | Some (a, b) \<Rightarrow> a # levels b)"
proof (induction s)
  case (Cons c s)
  then show ?case
    by (cases "c = CHR ''/''") (simp_all add: levels_slash levels_char split: option.splits prod.splits)
qed simp

lemma token_loop_levels:
  "i + length (levels s) \<le> length ts \<Longrightarrow>
   token_loop (Some s) i ts = Inr (take i ts @ map Some (levels s) @ drop (i + length (levels s)) ts)"
proof (induction s arbitrary: i ts rule: measure_induct_rule [where f = length])
  case (less s)
  have i: "i < length ts" using less.prems levels_nonempty [of s] by (cases "levels s") auto
  have upd: "take (Suc i) (ts[i := x]) = take i ts @ [x]" for x
    using i by (simp add: take_Suc_conv_app_nth take_update_cancel)
  show ?case
  proof (cases "cut_slash s")
    case None
    have "token_loop None (Suc i) us = Inr us" for us by (simp add: token_loop.simps strtok_hier_def)
    then have "token_loop (Some s) i ts = Inr (ts[i := Some s])"
      using i None by (subst token_loop.simps) (simp add: strtok_hier_def Let_def)
    then show ?thesis using None i by (simp add: cut_slash_levels [of s] upd_conv_take_nth_drop)
  next
    case (Some ab)
    obtain a b where ab: "ab = (a, b)" by (cases ab)
    have L: "levels s = a # levels b" using Some ab by (simp add: cut_slash_levels [of s])
    have "length b < length s" using Some ab cut_slash_shorter by blast
    then have "token_loop (Some b) (Suc i) (ts[i := Some a]) =
        Inr (take (Suc i) (ts[i := Some a]) @ map Some (levels b) @ drop (Suc i + length (levels b)) (ts[i := Some a]))"
      using less.prems L by (intro less.IH) simp_all
    then show ?thesis using i Some ab L
      by (subst token_loop.simps) (simp add: strtok_hier_def Let_def upd)
  qed
qed

lemma strchr_slash_cut: "strchr_slash s = map_option (\<lambda>(a, b). CHR ''/'' # b) (cut_slash s)"
  by (induction s) (auto simp: strchr_slash_def option.map_comp comp_def split_beta)

lemma token_count_levels: "token_count (c # s) = length (levels s)"
proof (induction s arbitrary: c rule: measure_induct_rule [where f = length])
  case (less s)
  show ?case
  proof (cases "cut_slash s")
    case None then show ?thesis by (simp add: strchr_slash_cut cut_slash_levels [of s])
  next
    case (Some ab)
    obtain a b where ab: "ab = (a, b)" by (cases ab)
    have "length b < length s" using Some ab cut_slash_shorter by blast
    from less.IH [OF this] show ?thesis using Some ab by (simp add: strchr_slash_cut cut_slash_levels [of s])
  qed
qed

lemma length_levels_Cons: "length (levels (c # s)) = (if c = CHR ''/'' then Suc (length (levels s)) else length (levels s))"
  by (cases "c = CHR ''/''") (simp_all add: levels_slash levels_char)

lemma fold_shift:
  fixes ts :: "'a list"
  shows "Suc m \<le> length ts \<Longrightarrow> 1 \<le> m \<Longrightarrow>
   fold (\<lambda>i ts. ts[i := ts ! (i + 1)]) [1..<m] ts = take 1 ts @ drop 2 (take (Suc m) ts) @ drop m ts"
proof (induction m)
  case (Suc m)
  show ?case
  proof (cases "m = 0")
    case True then show ?thesis using Suc.prems
      by (cases ts) (auto simp: neq_Nil_conv Suc_le_length_iff)
  next
    case False
    let ?us = "take 1 ts @ drop 2 (take (Suc m) ts) @ drop m ts"
    have IH: "fold (\<lambda>i ts. ts[i := ts ! (i + 1)]) [1..<m] ts = ?us" using Suc False by simp
    have l: "length (take 1 ts @ drop 2 (take (Suc m) ts)) = m" using Suc.prems False by (simp add: min_def)
    have d: "drop m ts = ts ! m # ts ! Suc m # drop (Suc (Suc m)) ts"
      using Suc.prems by (simp add: Cons_nth_drop_Suc)
    have e: "drop (Suc m) ts = ts ! Suc m # drop (Suc (Suc m)) ts"
      using Suc.prems by (simp add: Cons_nth_drop_Suc)
    have nth2: "(as @ x # y # zs) ! Suc (length as) = y" for as :: "'a list" and x y zs by (simp add: nth_append)
    have n: "?us ! Suc m = ts ! Suc m"
      using nth2 [of "take 1 ts @ drop 2 (take (Suc m) ts)"] unfolding l d by simp
    have "?us[m := ts ! Suc m] = (take 1 ts @ drop 2 (take (Suc m) ts)) @ ts ! Suc m # drop (Suc m) ts"
      using l Suc.prems unfolding append_assoc [symmetric] list_update_append
      by (simp add: d e del: append_assoc)
    moreover have "drop 2 (take (Suc (Suc m)) ts) = drop 2 (take (Suc m) ts) @ [ts ! Suc m]"
      using Suc.prems False by (simp add: take_Suc_conv_app_nth [of "Suc m"])
    ultimately show ?thesis using IH n Suc.prems False by simp
  qed
qed simp

text \<open>The levels that a subscription or topic is filed under, and the group of a shared one.\<close>

definition filed_levels :: "string \<Rightarrow> string list" where
  "filed_levels s =
     (if hd s \<noteq> CHR ''$'' then [] # levels s
      else if hd (levels s) = ''$share'' then [] # drop 2 (levels s) else levels s)"

definition share_group :: "string \<Rightarrow> string option" where
  "share_group s = (if hd (levels s) = ''$share'' then Some (levels s ! 1) else None)"

lemma takeWhile_Some: "takeWhile (\<lambda>t. t \<noteq> None) (map Some xs @ None # ys) = map Some xs"
  by (induction xs) simp_all

lemma topics_of_Some: "topics_of (map Some xs @ None # ys) = xs"
  unfolding topics_of_def takeWhile_Some by (simp add: comp_def)

lemma hd_levels_dollar: "s \<noteq> [] \<Longrightarrow> hd (levels s) = ''$share'' \<Longrightarrow> hd s = CHR ''$''"
  by (cases s) (auto simp: levels_char levels_slash split: if_splits, metis levels_slash levels_char list.sel(1) list.inject list.distinct(1))

lemma share_shift_eq:
  "share_shift (Suc (Suc (length ls))) (map Some (a # b # ls) @ None # r) = map Some ([] # ls) @ None # None # r"
proof -
  let ?ts = "map Some (a # b # ls) @ None # r" and ?n = "Suc (length ls)"
  have "fold (\<lambda>i ts. ts[i := ts ! (i + 1)]) [1..<?n] ?ts = take 1 ?ts @ drop 2 (take (Suc ?n) ?ts) @ drop ?n ?ts"
    by (rule fold_shift) simp_all
  then have f: "fold (\<lambda>i ts. ts[i := ts ! (i + 1)]) [1..<?n] ?ts = Some a # map Some ls @ drop ?n ?ts" by simp
  have "\<exists>x. drop ?n ?ts = x # None # r"
  proof -
    have one: "length xs = 1 \<Longrightarrow> \<exists>x. xs = [x]" for xs :: "string option list" by (cases xs) auto
    have "length (drop (length ls) (map Some (b # ls))) = 1" by simp
    then have "\<exists>x. drop (length ls) (map Some (b # ls)) = [x]" by (rule one)
    moreover have "drop ?n ?ts = drop ?n (map Some (a # b # ls)) @ drop (?n - length (map Some (a # b # ls))) (None # r)"
      by (rule drop_append)
    ultimately show ?thesis by auto
  qed
  then obtain x where "drop ?n ?ts = x # None # r" by blast
  with f show ?thesis unfolding share_shift_def by (simp add: list_update_append)
qed

lemma tokenise_array_eq:
  assumes "s \<noteq> []"
  shows "tokenise_array s (token_count s) =
     (if levels s = [''$share''] then rc_fail MOSQ_ERR_PROTOCOL
      else Inr (map Some (filed_levels s) @ replicate (token_count s + 3 - length (filed_levels s)) None, share_group s))"
    and "length (filed_levels s) < token_count s + 3"
proof -
  obtain c s' where s: "s = c # s'" using assms by (cases s) auto
  let ?n = "token_count s" and ?L = "levels s"
  have n: "?n = length (levels s')" unfolding s by (rule token_count_levels)
  have len: "length ?L = (if c = CHR ''/'' then Suc ?n else ?n)" unfolding n unfolding s by (rule length_levels_Cons)
  have L1: "1 \<le> length ?L" by (cases ?L) simp_all
  show l3: "length (filed_levels s) < ?n + 3" using len by (auto simp: filed_levels_def)
  show "tokenise_array s ?n = (if ?L = [''$share''] then rc_fail MOSQ_ERR_PROTOCOL
      else Inr (map Some (filed_levels s) @ replicate (?n + 3 - length (filed_levels s)) None, share_group s))"
  proof (cases "hd s = CHR ''$''")
    case False
    then have nd: "hd ?L \<noteq> ''$share''" using hd_levels_dollar [OF assms] by blast
    have r: "(replicate (?n + 3) None)[0 := Some []] = Some [] # replicate (?n + 2) None"
      by (simp add: numeral_3_eq_3)
    have "token_loop (Some s) 1 ((replicate (?n + 3) None)[0 := Some []]) =
        Inr (map Some ([] # ?L) @ replicate (?n + 2 - length ?L) None)"
      unfolding r using len by (subst token_loop_levels) (simp_all del: replicate_Suc split: if_splits)
    then show ?thesis using False nd L1
      by (auto simp: tokenise_array_def filed_levels_def share_group_def Let_def)
  next
    case True
    then have len: "length ?L = ?n" using len s by simp
    have tl: "token_loop (Some s) 0 (replicate (?n + 3) None) = Inr (map Some ?L @ replicate 3 None)"
      by (subst token_loop_levels) (simp_all add: len)
    obtain l ls where L: "?L = l # ls" using levels_hd_tl [of s] by blast
    show ?thesis
    proof (cases "l = ''$share''")
      case False
      then show ?thesis using True tl L len by (auto simp: tokenise_array_def filed_levels_def share_group_def Let_def)
    next
      case share: True
      show ?thesis
      proof (cases ls)
        case Nil
        then show ?thesis using True tl L len share by (simp add: tokenise_array_def Let_def)
      next
        case (Cons g ms)
        have "?n = Suc (Suc (length ms))" using len L Cons by simp
        then show ?thesis using True tl L share Cons share_shift_eq [of ms l g "[None, None]"]
          by (simp add: tokenise_array_def Let_def filed_levels_def share_group_def numeral_eq_Suc)
      qed
    qed
  qed
qed

lemma tokenise_topics:
  assumes "s \<noteq> []"
  shows "topics_of (map Some (filed_levels s) @ replicate (token_count s + 3 - length (filed_levels s)) None) = filed_levels s"
proof -
  obtain k where "token_count s + 3 - length (filed_levels s) = Suc k"
    using tokenise_array_eq(2) [OF assms] by (cases "token_count s + 3 - length (filed_levels s)") auto
  then show ?thesis by (simp add: topics_of_Some)
qed

text \<open>What the users of \<open>sub\_\_topic\_tokenise\<close> get.\<close>

lemma sub__topic_tokenise_cases:
  assumes "s \<noteq> []"
  obtains "fst (sub__topic_tokenise s mem) = rc_fail MOSQ_ERR_NOMEM"
  | "levels s = [''$share'']" "fst (sub__topic_tokenise s mem) = rc_fail MOSQ_ERR_PROTOCOL"
  | ts where "fst (sub__topic_tokenise s mem) = Inr (ts, share_group s)" "topics_of ts = filed_levels s"
proof -
  have "fst (sub__topic_tokenise s mem) = rc_fail MOSQ_ERR_NOMEM
     \<or> fst (sub__topic_tokenise s mem) = tokenise_array s (token_count s)"
    using assms by (auto simp: sub__topic_tokenise_def split: prod.split bool.split)
  then show ?thesis using that tokenise_array_eq(1) [OF assms] tokenise_topics [OF assms] by metis
qed

section \<open>Properties\<close>

text \<open>
  C22: For every topic that is not empty, when memory suffices, \<open>sub__topic_tokenise\<close> writes only
  inside the array it allocated and returns the levels of the topic with an empty level in front
  unless the topic starts with a dollar sign. For a shared subscription \<open>$share/group/filter\<close> it
  returns the levels of the filter and the group; \<open>$share\<close> alone is a protocol error.
\<close>

theorem tokenise_correct:
  assumes "s \<noteq> []"
  shows "case fst (sub__topic_tokenise s []) of
      Inl e \<Rightarrow> e = Rc MOSQ_ERR_PROTOCOL \<and> s = ''$share''
    | Inr (ts, share) \<Rightarrow>
        length ts = token_count s + 3
      \<and> topics_of ts = (if hd s \<noteq> CHR ''$'' then [] # levels s
                        else if hd (levels s) = ''$share'' then [] # drop 2 (levels s) else levels s)
      \<and> share = (if hd (levels s) = ''$share'' then Some (levels s ! 1) else None)"
proof -
  have e: "fst (sub__topic_tokenise s []) = tokenise_array s (token_count s)"
    using assms by (simp add: sub__topic_tokenise_def)
  have sh: "s = ''$share''" if "levels s = [''$share'']"
  proof (cases "cut_slash s")
    case None then show ?thesis using that by (simp add: cut_slash_levels [of s])
  next
    case (Some ab)
    then obtain a b where "levels s = a # levels b" by (cases ab) (simp add: cut_slash_levels [of s])
    then show ?thesis using that levels_nonempty [of b] by auto
  qed
  show ?thesis
    using sh tokenise_topics [OF assms] tokenise_array_eq(2) [OF assms]
    unfolding e tokenise_array_eq(1) [OF assms] by (simp add: filed_levels_def share_group_def)
qed

theorem tokenise_correct_witness:
  "(case fst (sub__topic_tokenise ''$share/g/a/+'' []) of Inl e \<Rightarrow> False
    | Inr (ts, share) \<Rightarrow> topics_of ts = [[], ''a'', ''+''] \<and> share = Some ''g'')"
  using tokenise_correct [of "''$share/g/a/+''"] by (simp add: levels.simps split: sum.splits prod.splits)

end
