(* ===== verification/Retain.thy ===== *)
theory Retain
  imports Broker_Steps Topic_Tok
begin

text \<open>
  \<open>src/retain.c\<close>: the tree of retained messages. A function that changes a node returns the new
  node; the state of the broker is passed along. Access control runs the plugins that are loaded
  at run time, so \<open>mosquitto_acl_check\<close> and \<open>acl__find_acls\<close> are parameters.
\<close>

section \<open>Access control and subscription identifiers\<close>

datatype mosq_acl = MOSQ_ACL_READ | MOSQ_ACL_WRITE | MOSQ_ACL_SUBSCRIBE | MOSQ_ACL_UNSUBSCRIBE

record acl_env =
  acl_check :: "mosquitto \<Rightarrow> string option \<Rightarrow> mosquitto_msg_store \<Rightarrow> mosq_acl \<Rightarrow> mosq_err"
  find_acls :: "mosquitto \<Rightarrow> mosq_err"

text \<open>The properties of an outgoing message; a failure of the call leaves them empty.\<close>

definition sub_id_property :: "u32 \<Rightarrow> mosquitto_db \<Rightarrow> mqtt5__property list \<times> mosquitto_db" where
  "sub_id_property identifier db =
     (if identifier > 0 then
        ((case mosquitto_property_add_varint (Some []) MQTT_PROP_SUBSCRIPTION_IDENTIFIER identifier (d_mem db) of
            Inl _ \<Rightarrow> [] | Inr ps \<Rightarrow> ps),
         if identifier > 268435455 then db else snd (d_malloc db))
      else ([], db))"

section \<open>Building the tree\<close>

text \<open>
  The two allocations of \<open>retain__add_hier_entry\<close>, and the new element with its key, the first
  \<open>len\<close> bytes of \<open>topic\<close>. The caller adds it to the table. The length is the 16 bits that the
  callers convert \<open>strlen\<close> to, so a level of more than 65535 bytes is filed under a part of itself.
\<close>

definition retain__add_hier_entry ::
    "string \<Rightarrow> u16 \<Rightarrow> mosquitto_db \<Rightarrow> (string \<times> mosquitto__retainhier) option \<times> mosquitto_db" where
  "retain__add_hier_entry topic len db =
     (case d_malloc db of
        (False, db) \<Rightarrow> (None, db)
      | (True, db) \<Rightarrow> (case d_malloc db of
          (False, db) \<Rightarrow> (None, db)
        | (True, db) \<Rightarrow> (Some (take (unat len) topic, Retainhier None []), db)))"

text \<open>\<open>(uint16_t)strlen(s)\<close>\<close>

definition strlen16 :: "string \<Rightarrow> u16" where
  "strlen16 s = of_nat (length s)"

definition retain__init :: "mosquitto_db \<Rightarrow> mosq_err \<times> mosquitto_db" where
  "retain__init db =
     (case retain__add_hier_entry [] 0 db of
        (None, db) \<Rightarrow> (MOSQ_ERR_NOMEM, db)
      | (Some (name, e), db) \<Rightarrow>
          (case retain__add_hier_entry ''$SYS'' (strlen16 ''$SYS'') (db\<lparr>d_retains := ht_add name e (d_retains db)\<rparr>) of
             (None, db) \<Rightarrow> (MOSQ_ERR_NOMEM, db)
           | (Some (name, e), db) \<Rightarrow> (MOSQ_ERR_SUCCESS, db\<lparr>d_retains := ht_add name e (d_retains db)\<rparr>)))"

text \<open>
  The loop of \<open>retain__store\<close> that walks to the node of the topic and creates what is missing,
  with the assignment \<open>f\<close> to the node at the end. Nodes created before memory ran out stay.
\<close>

primrec retain_walk ::
    "string list \<Rightarrow> (mptr option \<Rightarrow> mosquitto_db \<Rightarrow> mptr option \<times> mosquitto_db) \<Rightarrow> mosquitto__retainhier \<Rightarrow>
     mosquitto_db \<Rightarrow> (mosq_err \<times> mosquitto__retainhier) \<times> mosquitto_db" where
  "retain_walk [] f node db =
     (case f (r_retained node) db of (r, db) \<Rightarrow> ((MOSQ_ERR_SUCCESS, Retainhier r (r_children node)), db))"
| "retain_walk (t # ts) f node db =
     (case ht_find t (r_children node) of
        Some branch \<Rightarrow>
          (case retain_walk ts f branch db of ((rc, branch), db) \<Rightarrow>
             ((rc, Retainhier (r_retained node) (ht_set t branch (r_children node))), db))
      | None \<Rightarrow>
          (case retain__add_hier_entry t (strlen16 t) db of
             (None, db) \<Rightarrow> ((MOSQ_ERR_NOMEM, node), db)
           | (Some (name, branch), db) \<Rightarrow>
               (case retain_walk ts f branch db of ((rc, branch), db) \<Rightarrow>
                  ((rc, Retainhier (r_retained node) (ht_add name branch (r_children node))), db))))"

definition retain_assign :: "string \<Rightarrow> mptr \<Rightarrow> mptr option \<Rightarrow> mosquitto_db \<Rightarrow> mptr option \<times> mosquitto_db" where
  "retain_assign topic stored old db =
     (let db = (if take 4 topic \<noteq> ''$SYS'' then db\<lparr>d_persistence_changes := d_persistence_changes db + 1\<rparr> else db);
          db = (case old of
                  None \<Rightarrow> db
                | Some p \<Rightarrow> (let db = snd (db__msg_store_ref_dec p db)
                            in db\<lparr>d_retained_count := d_retained_count db - 1\<rparr>));
          db = touch stored db
      in if s_payloadlen (stored_at stored db) > 0
         then (let db = db__msg_store_ref_inc stored db
               in (Some stored, db\<lparr>d_retained_count := d_retained_count db + 1\<rparr>))
         else (None, db))"

definition retain__store :: "string \<Rightarrow> mptr \<Rightarrow> string list \<Rightarrow> mosquitto_db \<Rightarrow> mosq_err \<times> mosquitto_db" where
  "retain__store topic stored split_topics db =
     (case split_topics of
        [] \<Rightarrow> (MOSQ_ERR_SUCCESS, db\<lparr>d_fault := True\<rparr>)
      | root # _ \<Rightarrow>
          (case ht_find root (d_retains db) of
             Some node \<Rightarrow>
               (case retain_walk split_topics (retain_assign topic stored) node db of ((rc, node), db) \<Rightarrow>
                  (rc, db\<lparr>d_retains := ht_set root node (d_retains db)\<rparr>))
           | None \<Rightarrow>
               (case retain__add_hier_entry root (strlen16 root) db of
                  (None, db) \<Rightarrow> (MOSQ_ERR_NOMEM, db)
                | (Some (name, node), db) \<Rightarrow>
                    (case retain_walk split_topics (retain_assign topic stored) node db of ((rc, node), db) \<Rightarrow>
                       (rc, db\<lparr>d_retains := ht_add name node (d_retains db)\<rparr>)))))"

section \<open>Sending a retained message\<close>

text \<open>A zeroed client with the name and the listener of the original publisher.\<close>

definition retain_ctxt :: "mosquitto_msg_store \<Rightarrow> mosquitto" where
  "retain_ctxt msg =
     (let md = \<lparr>inflight = [], queued = [], msg_bytes = 0, msg_bytes12 = 0, msg_count = 0, msg_count12 = 0,
                inflight_quota = 0, inflight_maximum = 0\<rparr>
      in \<lparr>c_id = s_source_id msg, c_username = s_source_username msg, c_connected = True,
          c_state = mosq_cs_new, c_protocol = mosq_p_invalid, c_max_qos = 0, c_clean_start = False,
          c_is_dropping = False, c_bridge = None, c_last_mid = 0, c_out_packet_count = 0,
          c_msgs_in = md, c_msgs_out = md, c_subs = [], c_shared_subs = [], c_listener = s_source_listener msg,
          c_is_bridge = False, c_aliases = [], c_ping_t = 0\<rparr>)"

text \<open>The code with which the check against the publisher returns, if it does.\<close>

definition retain_source_check :: "acl_env \<Rightarrow> mosquitto_msg_store \<Rightarrow> mosquitto_db \<Rightarrow> mosq_err option" where
  "retain_source_check env msg db =
     (if check_retain_source (d_config db) \<and> s_origin msg \<noteq> mosq_mo_broker \<and> s_source_id msg \<noteq> None then
        (let rc = find_acls env (retain_ctxt msg)
         in if rc \<noteq> MOSQ_ERR_SUCCESS then Some rc
            else
              let rc = acl_check env (retain_ctxt msg) (s_topic msg) msg MOSQ_ACL_WRITE
              in if rc = MOSQ_ERR_ACL_DENIED then Some MOSQ_ERR_SUCCESS
                 else if rc \<noteq> MOSQ_ERR_SUCCESS then Some rc else None)
      else None)"

definition retain_send ::
    "cptr \<Rightarrow> u8 \<Rightarrow> u32 \<Rightarrow> mptr \<Rightarrow> mosquitto_db \<Rightarrow> mosq_err \<times> mosquitto_db" where
  "retain_send c sub_qos subscription_identifier retained db =
     (let msg = stored_at retained db;
          qos = (if upgrade_outgoing_qos (d_config db) then sub_qos
                 else if s_qos msg > sub_qos then sub_qos else s_qos msg);
          (mid, db) = (if qos > 0 then mosquitto__mid_generate c db else (0, db));
          (properties, db) = sub_id_property subscription_identifier db
      in db__message_insert c mid mosq_md_out qos True retained properties False db)"

text \<open>The result is also the new value of \<open>branch->retained\<close>, which was \<open>retained\<close>.\<close>

definition retain__process ::
    "acl_env \<Rightarrow> cptr \<Rightarrow> u8 \<Rightarrow> u32 \<Rightarrow> mptr \<Rightarrow> mosquitto_db \<Rightarrow> (mosq_err \<times> mptr option) \<times> mosquitto_db" where
  "retain__process env c sub_qos subscription_identifier retained db =
     (let db = touch retained db; msg = stored_at retained db
      in if s_message_expiry_time msg > 0 \<and> d_now_real_s db \<ge> s_message_expiry_time msg then
           (let db = snd (db__msg_store_ref_dec retained db)
            in ((MOSQ_ERR_SUCCESS, None), db\<lparr>d_retained_count := d_retained_count db - 1\<rparr>))
         else
           let rc = acl_check env (get_ctx c db) (s_topic msg) msg MOSQ_ACL_READ
           in if rc = MOSQ_ERR_ACL_DENIED then ((MOSQ_ERR_SUCCESS, Some retained), db)
              else if rc \<noteq> MOSQ_ERR_SUCCESS then ((rc, Some retained), db)
              else
                case retain_source_check env msg db of
                  Some rc \<Rightarrow> ((rc, Some retained), db)
                | None \<Rightarrow>
                    (case retain_send c sub_qos subscription_identifier retained db of
                       (rc, db) \<Rightarrow> ((rc, Some retained), db)))"

section \<open>Searching\<close>

text \<open>
  The search calls \<open>retain__process\<close> at every node with a retained message that it hits. It is
  written for any such call \<open>proc\<close>, which yields the new retained message of the node.
\<close>

fun retain_search_all ::
    "(mptr \<Rightarrow> 's \<Rightarrow> mptr option \<times> 's) \<Rightarrow> (string \<times> mosquitto__retainhier) list \<Rightarrow> 's \<Rightarrow>
     (string \<times> mosquitto__retainhier) list \<times> 's" where
  "retain_search_all proc [] s = ([], s)"
| "retain_search_all proc ((t, Retainhier r children) # branches) s =
     (case (case r of None \<Rightarrow> (None, s) | Some p \<Rightarrow> proc p s) of (r, s) \<Rightarrow>
      (case (if children \<noteq> [] then retain_search_all proc children s else (children, s)) of (children, s) \<Rightarrow>
      (case retain_search_all proc branches s of (branches, s) \<Rightarrow>
         ((t, Retainhier r children) # branches, s))))"

definition retain_hit ::
    "(mptr \<Rightarrow> 's \<Rightarrow> mptr option \<times> 's) \<Rightarrow> mosquitto__retainhier \<Rightarrow> 's \<Rightarrow> mosquitto__retainhier \<times> 's" where
  "retain_hit proc branch s =
     (case r_retained branch of
        None \<Rightarrow> (branch, s)
      | Some p \<Rightarrow> (case proc p s of (r, s) \<Rightarrow> (Retainhier r (r_children branch), s)))"

text \<open>What both loops do with a branch; \<open>search\<close> is the recursive call on the rest of the levels.\<close>

definition retain_branch ::
    "(mptr \<Rightarrow> 's \<Rightarrow> mptr option \<times> 's) \<Rightarrow> string list \<Rightarrow> nat \<Rightarrow>
     (mosquitto__retainhier \<Rightarrow> 's \<Rightarrow> (int \<times> mosquitto__retainhier) \<times> 's) \<Rightarrow>
     mosquitto__retainhier \<Rightarrow> 's \<Rightarrow> mosquitto__retainhier \<times> 's" where
  "retain_branch proc rst level search branch s =
     (if rst \<noteq> [] then
        (case search branch s of ((rc, branch), s) \<Rightarrow>
           if rc = -1 \<or> (hd rst = ''#'' \<and> level > 0) then retain_hit proc branch s else (branch, s))
      else retain_hit proc branch s)"

primrec retain__search ::
    "string list \<Rightarrow> (mptr \<Rightarrow> 's \<Rightarrow> mptr option \<times> 's) \<Rightarrow> nat \<Rightarrow> mosquitto__retainhier \<Rightarrow> 's \<Rightarrow>
     (int \<times> mosquitto__retainhier) \<times> 's" where
  "retain__search [] proc level node s = ((0, node), s)"
| "retain__search (t # ts) proc level node s =
     (if t = ''#'' \<and> ts = [] then
        (case retain_search_all proc (r_children node) s of (children, s) \<Rightarrow>
           ((if r_children node \<noteq> [] then -1 else 0, Retainhier (r_retained node) children), s))
      else if t = ''+'' then
        (case ht_iter (retain_branch proc ts level (retain__search ts proc (Suc level))) (r_children node) s of
           (children, s) \<Rightarrow> ((0, Retainhier (r_retained node) children), s))
      else
        (case ht_find t (r_children node) of
           None \<Rightarrow> ((0, node), s)
         | Some branch \<Rightarrow>
             (case retain_branch proc ts level (retain__search ts proc (Suc level)) branch s of
                (branch, s) \<Rightarrow> ((0, Retainhier (r_retained node) (ht_set t branch (r_children node))), s))))"

definition retain__queue ::
    "acl_env \<Rightarrow> cptr \<Rightarrow> string \<Rightarrow> u8 \<Rightarrow> u32 \<Rightarrow> mosquitto_db \<Rightarrow> mosq_err \<times> mosquitto_db" where
  "retain__queue env c sub sub_qos subscription_identifier db =
     (case sub__topic_tokenise sub (d_mem db) of
        (Inl (Rc rc), mem) \<Rightarrow> (rc, db\<lparr>d_mem := mem\<rparr>)
      | (Inl _, mem) \<Rightarrow> (MOSQ_ERR_SUCCESS, db\<lparr>d_mem := mem, d_fault := True\<rparr>)
      | (Inr (topics, _), mem) \<Rightarrow>
          (let db = db\<lparr>d_mem := mem\<rparr>; split_topics = topics_of topics
           in case ht_find (hd split_topics) (d_retains db) of
                None \<Rightarrow> (MOSQ_ERR_SUCCESS, db)
              | Some node \<Rightarrow>
                  (case retain__search split_topics
                     (\<lambda>p db. case retain__process env c sub_qos subscription_identifier p db of
                        ((_, r), db) \<Rightarrow> (r, db)) 0 node db of
                     ((_, node), db) \<Rightarrow>
                        (MOSQ_ERR_SUCCESS, db\<lparr>d_retains := ht_set (hd split_topics) node (d_retains db)\<rparr>))))"

section \<open>Freeing the tree\<close>

fun retain__clean :: "(string \<times> mosquitto__retainhier) list \<Rightarrow> mosquitto_db \<Rightarrow> mosquitto_db" where
  "retain__clean [] db = db"
| "retain__clean ((t, Retainhier r children) # peers) db =
     retain__clean peers
       (retain__clean children (case r of None \<Rightarrow> db | Some p \<Rightarrow> snd (db__msg_store_ref_dec p db)))"

end
