(* ===== verification/Subs.thy ===== *)
theory Subs
  imports Retain
begin

text \<open>
  \<open>src/subs.c\<close>: the tree of subscriptions. A function that works on a node takes the node and
  returns the new one; a pointer to a node, which the clients keep for their subscriptions, is the
  list of keys on the way to the node. Following a pointer to a node that is not in the tree
  is an access to freed memory and sets \<open>d_fault\<close>.
\<close>

section \<open>Sending to one subscription\<close>

text \<open>\<open>db__message_insert\<close> returns \<open>MOSQ_ERR_NOMEM\<close>, which is the number 1, only when memory ran out.\<close>

definition subs__send ::
    "acl_env \<Rightarrow> mosquitto__subleaf \<Rightarrow> string \<Rightarrow> u8 \<Rightarrow> bool \<Rightarrow> mptr \<Rightarrow> mosquitto_db \<Rightarrow> mosq_err \<times> mosquitto_db" where
  "subs__send env leaf topic qos retain stored db =
     (let db = touch stored db; c = l_context leaf;
          rc2 = acl_check env (get_ctx c db) (Some topic) (stored_at stored db) MOSQ_ACL_READ
      in if rc2 = MOSQ_ERR_ACL_DENIED then (MOSQ_ERR_SUCCESS, db)
         else if rc2 = MOSQ_ERR_SUCCESS then
           let client_qos = l_qos leaf;
               msg_qos = (if upgrade_outgoing_qos (d_config db) then client_qos
                          else if qos > client_qos then client_qos else qos);
               (mid, db) = (if msg_qos > 0 then mosquitto__mid_generate c db else (0, db));
               client_retain = (if l_retain_as_published leaf then retain else False);
               (properties, db) = sub_id_property (l_identifier leaf) db
           in case db__message_insert c mid mosq_md_out msg_qos client_retain stored properties True db of
                (rc, db) \<Rightarrow> (if rc = MOSQ_ERR_NOMEM then MOSQ_ERR_NOMEM else MOSQ_ERR_SUCCESS, db)
         else (MOSQ_ERR_NOMEM, db))"

text \<open>
  A shared subscription sends to its first subscriber and moves it to the end. The loops carry the
  code that the function returns.
\<close>

definition shared_step ::
    "(mosquitto__subleaf \<Rightarrow> mosquitto_db \<Rightarrow> mosq_err \<times> mosquitto_db) \<Rightarrow> mosquitto__subleaf list \<Rightarrow>
     mosq_err \<times> mosquitto_db \<Rightarrow> mosquitto__subleaf list \<times> mosq_err \<times> mosquitto_db" where
  "shared_step send subs rs =
     (case subs of
        [] \<Rightarrow> (subs, fst rs, (snd rs)\<lparr>d_fault := True\<rparr>)
      | leaf # rest \<Rightarrow>
          (case send leaf (snd rs) of (rc2, db) \<Rightarrow>
             (rest @ [leaf], if rc2 \<noteq> MOSQ_ERR_SUCCESS then MOSQ_ERR_NOMEM else fst rs, db)))"

definition subs__shared_process ::
    "(mosquitto__subleaf \<Rightarrow> mosquitto_db \<Rightarrow> mosq_err \<times> mosquitto_db) \<Rightarrow> (string, mosquitto__subleaf list) ht \<Rightarrow>
     mosquitto_db \<Rightarrow> (mosq_err \<times> (string, mosquitto__subleaf list) ht) \<times> mosquitto_db" where
  "subs__shared_process send shared db =
     (case ht_iter (shared_step send) shared (MOSQ_ERR_SUCCESS, db) of (shared, rc, db) \<Rightarrow> ((rc, shared), db))"

text \<open>Whether the loop over the subscriptions passes one by; \<open>ids\<close> are the identifiers of the clients.\<close>

definition skips :: "(cptr \<Rightarrow> string option) \<Rightarrow> string \<Rightarrow> mosquitto__subleaf \<Rightarrow> bool" where
  "skips ids source_id leaf =
     (case ids (l_context leaf) of None \<Rightarrow> True | Some i \<Rightarrow> l_no_local leaf \<and> i = source_id)"

primrec subs_loop ::
    "(mosquitto__subleaf \<Rightarrow> mosquitto_db \<Rightarrow> mosq_err \<times> mosquitto_db) \<Rightarrow> string \<Rightarrow>
     mosquitto__subleaf list \<Rightarrow> mosq_err \<Rightarrow> mosquitto_db \<Rightarrow> mosq_err \<times> mosquitto_db" where
  "subs_loop send source_id [] rc db = (rc, db)"
| "subs_loop send source_id (leaf # leaves) rc db =
     (if skips (\<lambda>c. c_id (get_ctx c db)) source_id leaf then subs_loop send source_id leaves rc db
      else case send leaf db of (rc2, db) \<Rightarrow>
        subs_loop send source_id leaves (if rc2 \<noteq> MOSQ_ERR_SUCCESS then MOSQ_ERR_NOMEM else rc) db)"

definition subs__process ::
    "acl_env \<Rightarrow> string option \<Rightarrow> string \<Rightarrow> u8 \<Rightarrow> bool \<Rightarrow> mptr \<Rightarrow> mosquitto__subhier \<Rightarrow> mosquitto_db \<Rightarrow>
     (mosq_err \<times> mosquitto__subhier) \<times> mosquitto_db" where
  "subs__process env source_id topic qos retain stored hier db =
     (let send = (\<lambda>leaf db. subs__send env leaf topic qos retain stored db)
      in case subs__shared_process send (h_shared hier) db of ((rc, shared), db) \<Rightarrow>
         (case (case source_id of
                  None \<Rightarrow> (rc, db)
                | Some src \<Rightarrow> subs_loop send src (h_subs hier) rc db) of
            (rc, db) \<Rightarrow>
              ((if h_subs hier \<noteq> [] \<or> h_shared hier \<noteq> [] then rc else MOSQ_ERR_NO_SUBSCRIBERS,
                Subhier (h_subs hier) shared (h_children hier)), db)))"

section \<open>Adding a subscription\<close>

definition MQTT_SUB_OPT_NO_LOCAL :: u8 where "MQTT_SUB_OPT_NO_LOCAL = 0x04"
definition MQTT_SUB_OPT_RETAIN_AS_PUBLISHED :: u8 where "MQTT_SUB_OPT_RETAIN_AS_PUBLISHED = 0x08"

text \<open>The new element is the last one of the list that is returned with \<open>MOSQ_ERR_SUCCESS\<close>.\<close>

definition sub__add_leaf ::
    "cptr \<Rightarrow> u8 \<Rightarrow> u32 \<Rightarrow> u8 \<Rightarrow> mosquitto__subleaf list \<Rightarrow> mosquitto_db \<Rightarrow>
     (mosq_err \<times> mosquitto__subleaf list) \<times> mosquitto_db" where
  "sub__add_leaf c qos identifier options head db =
     (let cid = (\<lambda>c. c_id (get_ctx c db))
      in case find_index (\<lambda>leaf. cid (l_context leaf) \<noteq> None \<and> cid (l_context leaf) = cid c) head of
           Some i \<Rightarrow>
             ((MOSQ_ERR_SUB_EXISTS, head[i := (head ! i)\<lparr>l_qos := qos, l_identifier := identifier\<rparr>]), db)
         | None \<Rightarrow>
             (case d_malloc db of
                (False, db) \<Rightarrow> ((MOSQ_ERR_NOMEM, head), db)
              | (True, db) \<Rightarrow>
                  ((MOSQ_ERR_SUCCESS,
                    head @ [\<lparr>l_context = c, l_identifier = identifier, l_qos = qos,
                             l_no_local = (options AND MQTT_SUB_OPT_NO_LOCAL) \<noteq> 0,
                             l_retain_as_published = (options AND MQTT_SUB_OPT_RETAIN_AS_PUBLISHED) \<noteq> 0\<rparr>]), db)))"

text \<open>Unlinking the subscription at an index of a shared one, which goes when it becomes empty.\<close>

definition sub__remove_shared_leaf ::
    "string \<Rightarrow> nat \<Rightarrow> mosquitto__subleaf list \<Rightarrow> (string, mosquitto__subleaf list) ht \<Rightarrow>
     (string, mosquitto__subleaf list) ht" where
  "sub__remove_shared_leaf name i subs shared =
     (if del_at i subs = [] then ht_del name shared else ht_set name (del_at i subs) shared)"

text \<open>The first empty place of a client's array of references.\<close>

definition fill_slot :: "'a \<Rightarrow> 'a option list \<Rightarrow> 'a option list option" where
  "fill_slot x slots = (case find_index (\<lambda>s. s = None) slots of None \<Rightarrow> None | Some i \<Rightarrow> Some (slots[i := Some x]))"

definition added_code :: "cptr \<Rightarrow> mosq_err \<Rightarrow> mosquitto_db \<Rightarrow> mosq_err" where
  "added_code c rc db =
     (if c_protocol (get_ctx c db) = mosq_p_mqtt31 \<or> c_protocol (get_ctx c db) = mosq_p_mqtt5 then rc
      else MOSQ_ERR_SUCCESS)"

text \<open>
  Recording the reference to a shared subscription. When the array cannot grow, the code clears its
  last place, which is a live reference, or writes in front of an empty array.
\<close>

definition add_shared_ref :: "cptr \<Rightarrow> string list \<Rightarrow> string \<Rightarrow> mosquitto_db \<Rightarrow> bool \<times> mosquitto_db" where
  "add_shared_ref c path sharename db =
     (case fill_slot (path, sharename) (c_shared_subs (get_ctx c db)) of
        Some slots \<Rightarrow> (True, upd_ctx c (\<lambda>ctx. ctx\<lparr>c_shared_subs := slots\<rparr>) db)
      | None \<Rightarrow>
          (case d_malloc db of
             (True, db) \<Rightarrow>
               (True, upd_ctx c (\<lambda>ctx. ctx\<lparr>c_shared_subs := c_shared_subs ctx @ [Some (path, sharename)]\<rparr>) db)
           | (False, db) \<Rightarrow>
               (let n = length (c_shared_subs (get_ctx c db))
                in (False, if n = 0 then db\<lparr>d_fault := True\<rparr>
                           else upd_ctx c (\<lambda>ctx. ctx\<lparr>c_shared_subs := (c_shared_subs ctx)[n - 1 := None]\<rparr>) db))))"

text \<open>The table with an entry for the share, which is created when it is missing.\<close>

definition shared_entry ::
    "string \<Rightarrow> (string, mosquitto__subleaf list) ht \<Rightarrow> mosquitto_db \<Rightarrow>
     (string, mosquitto__subleaf list) ht option \<times> mosquitto_db" where
  "shared_entry sharename shared db =
     (if ht_find sharename shared \<noteq> None then (Some shared, db)
      else case d_malloc db of
        (False, db) \<Rightarrow> (None, db)
      | (True, db) \<Rightarrow> (case d_malloc db of
          (False, db) \<Rightarrow> (None, db)
        | (True, db) \<Rightarrow> (Some (ht_add sharename [] shared), db)))"

definition sub__add_shared ::
    "cptr \<Rightarrow> u8 \<Rightarrow> u32 \<Rightarrow> u8 \<Rightarrow> string list \<Rightarrow> string \<Rightarrow> mosquitto__subhier \<Rightarrow> mosquitto_db \<Rightarrow>
     (mosq_err \<times> mosquitto__subhier) \<times> mosquitto_db" where
  "sub__add_shared c qos identifier options path sharename subhier db =
     (let node = (\<lambda>shared. Subhier (h_subs subhier) shared (h_children subhier))
      in case shared_entry sharename (h_shared subhier) db of
           (None, db) \<Rightarrow> ((MOSQ_ERR_NOMEM, subhier), db)
         | (Some shared, db) \<Rightarrow>
             (let old = the (ht_find sharename shared)
              in case sub__add_leaf c qos identifier options old db of ((rc, subs), db) \<Rightarrow>
                 if rc = MOSQ_ERR_NOMEM then
                   ((rc, node (if subs = [] then ht_del sharename shared else ht_set sharename subs shared)), db)
                 else
                   let shared = ht_set sharename subs shared
                   in if rc = MOSQ_ERR_SUB_EXISTS then ((added_code c rc db, node shared), db)
                      else
                        let undo = node (sub__remove_shared_leaf sharename (length subs - 1) subs shared)
                        in (case d_malloc db of
                             (False, db) \<Rightarrow> ((MOSQ_ERR_NOMEM, undo), db)
                           | (True, db) \<Rightarrow>
                               (case add_shared_ref c path sharename db of
                                  (False, db) \<Rightarrow> ((MOSQ_ERR_NOMEM, undo), db)
                                | (True, db) \<Rightarrow>
                                    (let db = db\<lparr>d_shared_subscription_count := d_shared_subscription_count db + 1\<rparr>
                                     in ((added_code c rc db, node shared), db))))))"

definition add_ref :: "cptr \<Rightarrow> string list \<Rightarrow> mosquitto_db \<Rightarrow> bool \<times> mosquitto_db" where
  "add_ref c path db =
     (case fill_slot path (c_subs (get_ctx c db)) of
        Some slots \<Rightarrow> (True, upd_ctx c (\<lambda>ctx. ctx\<lparr>c_subs := slots\<rparr>) db)
      | None \<Rightarrow>
          (case d_malloc db of
             (True, db) \<Rightarrow> (True, upd_ctx c (\<lambda>ctx. ctx\<lparr>c_subs := c_subs ctx @ [Some path]\<rparr>) db)
           | (False, db) \<Rightarrow> (False, db)))"

definition sub__add_normal ::
    "cptr \<Rightarrow> u8 \<Rightarrow> u32 \<Rightarrow> u8 \<Rightarrow> string list \<Rightarrow> mosquitto__subhier \<Rightarrow> mosquitto_db \<Rightarrow>
     (mosq_err \<times> mosquitto__subhier) \<times> mosquitto_db" where
  "sub__add_normal c qos identifier options path subhier db =
     (let node = (\<lambda>subs. Subhier subs (h_shared subhier) (h_children subhier))
      in case sub__add_leaf c qos identifier options (h_subs subhier) db of ((rc, subs), db) \<Rightarrow>
         if rc = MOSQ_ERR_NOMEM then ((rc, node subs), db)
         else if rc = MOSQ_ERR_SUB_EXISTS then ((added_code c rc db, node subs), db)
         else (case add_ref c path db of
                 (False, db) \<Rightarrow> ((MOSQ_ERR_NOMEM, node (del_at (length subs - 1) subs)), db)
               | (True, db) \<Rightarrow>
                   (let db = db\<lparr>d_subscription_count := d_subscription_count db + 1\<rparr>
                    in ((added_code c rc db, node subs), db))))"

definition sub__add_hier_entry :: "mosquitto_db \<Rightarrow> mosquitto__subhier option \<times> mosquitto_db" where
  "sub__add_hier_entry db =
     (case d_malloc db of
        (False, db) \<Rightarrow> (None, db)
      | (True, db) \<Rightarrow> (case d_malloc db of
          (False, db) \<Rightarrow> (None, db)
        | (True, db) \<Rightarrow> (Some (Subhier [] [] []), db)))"

text \<open>The walk to the node; \<open>add\<close> is what happens there. Nodes that were created stay.\<close>

primrec sub_walk ::
    "string list \<Rightarrow> (mosquitto__subhier \<Rightarrow> mosquitto_db \<Rightarrow> (mosq_err \<times> mosquitto__subhier) \<times> mosquitto_db) \<Rightarrow>
     mosquitto__subhier \<Rightarrow> mosquitto_db \<Rightarrow> (mosq_err \<times> mosquitto__subhier) \<times> mosquitto_db" where
  "sub_walk [] add subhier db = add subhier db"
| "sub_walk (t # ts) add subhier db =
     (let node = (\<lambda>children. Subhier (h_subs subhier) (h_shared subhier) children)
      in if length t > 65535 then ((MOSQ_ERR_INVAL, subhier), db)
         else case ht_find t (h_children subhier) of
           Some branch \<Rightarrow>
             (case sub_walk ts add branch db of ((rc, branch), db) \<Rightarrow>
                ((rc, node (ht_set t branch (h_children subhier))), db))
         | None \<Rightarrow>
             (case sub__add_hier_entry db of
                (None, db) \<Rightarrow> ((MOSQ_ERR_NOMEM, subhier), db)
              | (Some branch, db) \<Rightarrow>
                  (case sub_walk ts add branch db of ((rc, branch), db) \<Rightarrow>
                     ((rc, node (ht_add t branch (h_children subhier))), db))))"

definition add_at ::
    "cptr \<Rightarrow> u8 \<Rightarrow> u32 \<Rightarrow> u8 \<Rightarrow> string list \<Rightarrow> string option \<Rightarrow> mosquitto__subhier \<Rightarrow> mosquitto_db \<Rightarrow>
     (mosq_err \<times> mosquitto__subhier) \<times> mosquitto_db" where
  "add_at c qos identifier options path sharename subhier db =
     (if c_id (get_ctx c db) = None then ((MOSQ_ERR_SUCCESS, subhier), db)
      else case sharename of
        Some s \<Rightarrow> sub__add_shared c qos identifier options path s subhier db
      | None \<Rightarrow> sub__add_normal c qos identifier options path subhier db)"

definition sub__add_context ::
    "cptr \<Rightarrow> u8 \<Rightarrow> u32 \<Rightarrow> u8 \<Rightarrow> string \<Rightarrow> mosquitto__subhier \<Rightarrow> string list \<Rightarrow> string option \<Rightarrow> mosquitto_db \<Rightarrow>
     (mosq_err \<times> mosquitto__subhier) \<times> mosquitto_db" where
  "sub__add_context c qos identifier options root subhier topics sharename db =
     sub_walk topics (add_at c qos identifier options (root # topics) sharename) subhier db"

definition sub__add :: "cptr \<Rightarrow> string \<Rightarrow> u8 \<Rightarrow> u32 \<Rightarrow> u8 \<Rightarrow> mosquitto_db \<Rightarrow> mosq_err \<times> mosquitto_db" where
  "sub__add c sub qos identifier options db =
     (case sub__topic_tokenise sub (d_mem db) of
        (Inl (Rc rc), mem) \<Rightarrow> (rc, db\<lparr>d_mem := mem\<rparr>)
      | (Inl _, mem) \<Rightarrow> (MOSQ_ERR_SUCCESS, db\<lparr>d_mem := mem, d_fault := True\<rparr>)
      | (Inr (topics, sharename), mem) \<Rightarrow>
          (let db = db\<lparr>d_mem := mem\<rparr>; topics = topics_of topics; root = hd topics
           in if length root > 65535 then (MOSQ_ERR_INVAL, db)
              else case ht_find root (d_subs db) of
                Some subhier \<Rightarrow>
                  (case sub__add_context c qos identifier options root subhier topics sharename db of
                     ((rc, subhier), db) \<Rightarrow> (rc, db\<lparr>d_subs := ht_set root subhier (d_subs db)\<rparr>))
              | None \<Rightarrow>
                  (case sub__add_hier_entry db of
                     (None, db) \<Rightarrow> (MOSQ_ERR_NOMEM, db)
                   | (Some subhier, db) \<Rightarrow>
                       (case sub__add_context c qos identifier options root subhier topics sharename db of
                          ((rc, subhier), db) \<Rightarrow> (rc, db\<lparr>d_subs := ht_add root subhier (d_subs db)\<rparr>)))))"

section \<open>Removing a subscription\<close>

definition MQTT_RC_NO_SUBSCRIPTION_EXISTED :: u8 where "MQTT_RC_NO_SUBSCRIPTION_EXISTED = 17"

text \<open>Clearing the first reference of a client to \<open>x\<close>.\<close>

definition drop_slot :: "'a \<Rightarrow> 'a option list \<Rightarrow> 'a option list" where
  "drop_slot x slots = (case find_index (\<lambda>s. s = Some x) slots of None \<Rightarrow> slots | Some i \<Rightarrow> slots[i := None])"

definition sub__remove_normal ::
    "cptr \<Rightarrow> string list \<Rightarrow> mosquitto__subhier \<Rightarrow> u8 \<Rightarrow> mosquitto_db \<Rightarrow> (mosq_err \<times> mosquitto__subhier \<times> u8) \<times> mosquitto_db" where
  "sub__remove_normal c path subhier reason db =
     (case find_index (\<lambda>leaf. l_context leaf = c) (h_subs subhier) of
        None \<Rightarrow> ((MOSQ_ERR_NO_SUBSCRIBERS, subhier, reason), db)
      | Some i \<Rightarrow>
          (let db = db\<lparr>d_subscription_count := d_subscription_count db - 1\<rparr>;
               db = upd_ctx c (\<lambda>ctx. ctx\<lparr>c_subs := drop_slot path (c_subs ctx)\<rparr>) db
           in ((MOSQ_ERR_SUCCESS, Subhier (del_at i (h_subs subhier)) (h_shared subhier) (h_children subhier), 0), db)))"

definition sub__remove_shared ::
    "cptr \<Rightarrow> string list \<Rightarrow> mosquitto__subhier \<Rightarrow> u8 \<Rightarrow> string \<Rightarrow> mosquitto_db \<Rightarrow>
     (mosq_err \<times> mosquitto__subhier \<times> u8) \<times> mosquitto_db" where
  "sub__remove_shared c path subhier reason sharename db =
     (case ht_find sharename (h_shared subhier) of
        None \<Rightarrow> ((MOSQ_ERR_NO_SUBSCRIBERS, subhier, reason), db)
      | Some subs \<Rightarrow>
          (case find_index (\<lambda>leaf. l_context leaf = c) subs of
             None \<Rightarrow> ((MOSQ_ERR_NO_SUBSCRIBERS, subhier, reason), db)
           | Some i \<Rightarrow>
               (let db = db\<lparr>d_shared_subscription_count := d_shared_subscription_count db - 1\<rparr>;
                    db = upd_ctx c (\<lambda>ctx. ctx\<lparr>c_shared_subs := drop_slot (path, sharename) (c_shared_subs ctx)\<rparr>) db;
                    shared = (if del_at i subs = [] then ht_del sharename (h_shared subhier)
                              else ht_set sharename (del_at i subs) (h_shared subhier))
                in ((MOSQ_ERR_SUCCESS, Subhier (h_subs subhier) shared (h_children subhier), 0), db))))"

definition hier_empty :: "mosquitto__subhier \<Rightarrow> bool" where
  "hier_empty hier \<longleftrightarrow> h_children hier = [] \<and> h_subs hier = [] \<and> h_shared hier = []"

text \<open>\<open>path\<close> is the place of \<open>subhier\<close>; the codes of the recursive calls are dropped.\<close>

primrec sub__remove_recurse ::
    "string list \<Rightarrow> cptr \<Rightarrow> string list \<Rightarrow> mosquitto__subhier \<Rightarrow> u8 \<Rightarrow> string option \<Rightarrow> mosquitto_db \<Rightarrow>
     (mosq_err \<times> mosquitto__subhier \<times> u8) \<times> mosquitto_db" where
  "sub__remove_recurse [] c path subhier reason sharename db =
     (case sharename of
        Some s \<Rightarrow> sub__remove_shared c path subhier reason s db
      | None \<Rightarrow> sub__remove_normal c path subhier reason db)"
| "sub__remove_recurse (t # ts) c path subhier reason sharename db =
     (case ht_find t (h_children subhier) of
        None \<Rightarrow> ((MOSQ_ERR_SUCCESS, subhier, reason), db)
      | Some branch \<Rightarrow>
          (case sub__remove_recurse ts c (path @ [t]) branch reason sharename db of ((rc, branch, reason), db) \<Rightarrow>
             ((MOSQ_ERR_SUCCESS,
               Subhier (h_subs subhier) (h_shared subhier)
                 (if hier_empty branch then ht_del t (h_children subhier) else ht_set t branch (h_children subhier)),
               reason), db)))"

text \<open>The reason code is an in-out parameter.\<close>

definition sub__remove :: "cptr \<Rightarrow> string \<Rightarrow> u8 \<Rightarrow> mosquitto_db \<Rightarrow> (mosq_err \<times> u8) \<times> mosquitto_db" where
  "sub__remove c sub reason db =
     (case sub__topic_tokenise sub (d_mem db) of
        (Inl (Rc rc), mem) \<Rightarrow> ((rc, reason), db\<lparr>d_mem := mem\<rparr>)
      | (Inl _, mem) \<Rightarrow> ((MOSQ_ERR_SUCCESS, reason), db\<lparr>d_mem := mem, d_fault := True\<rparr>)
      | (Inr (topics, sharename), mem) \<Rightarrow>
          (let db = db\<lparr>d_mem := mem\<rparr>; topics = topics_of topics; root = hd topics
           in case ht_find root (d_subs db) of
                None \<Rightarrow> ((MOSQ_ERR_SUCCESS, reason), db)
              | Some subhier \<Rightarrow>
                  (case sub__remove_recurse topics c [root] subhier MQTT_RC_NO_SUBSCRIPTION_EXISTED sharename db of
                     ((rc, subhier, reason), db) \<Rightarrow>
                       ((rc, reason), db\<lparr>d_subs := ht_set root subhier (d_subs db)\<rparr>))))"

section \<open>Publishing\<close>

text \<open>
  The search is written for any way \<open>process\<close> to process the subscriptions of a node, which yields a
  code and the new node. \<open>sub_found\<close> is what follows every call.
\<close>

definition sub_found ::
    "bool \<Rightarrow> mosq_err \<Rightarrow> mosq_err + bool" where
  "sub_found found rc =
     (if rc = MOSQ_ERR_SUCCESS then Inr True
      else if rc \<noteq> MOSQ_ERR_NO_SUBSCRIBERS then Inl rc else Inr found)"

text \<open>What the search does with the branch for a key: search below it, and process it at the end of the topic.\<close>

definition sub_branch ::
    "(mosquitto__subhier \<Rightarrow> 's \<Rightarrow> (mosq_err \<times> mosquitto__subhier) \<times> 's) \<Rightarrow>
     (mosquitto__subhier \<Rightarrow> 's \<Rightarrow> (mosq_err \<times> mosquitto__subhier) \<times> 's) \<Rightarrow> bool \<Rightarrow> string \<Rightarrow>
     bool \<Rightarrow> mosquitto__subhier \<Rightarrow> 's \<Rightarrow> ((mosq_err + bool) \<times> mosquitto__subhier) \<times> 's" where
  "sub_branch process search end_of_list k found subhier s =
     (let node = (\<lambda>b. Subhier (h_subs subhier) (h_shared subhier) (ht_set k b (h_children subhier)))
      in case ht_find k (h_children subhier) of
           None \<Rightarrow> ((Inr found, subhier), s)
         | Some branch \<Rightarrow>
             (case search branch s of ((rc, branch), s) \<Rightarrow>
                (case sub_found found rc of
                  Inl rc \<Rightarrow> ((Inl rc, node branch), s)
                | Inr found \<Rightarrow>
                    if end_of_list then
                      (case process branch s of ((rc, branch), s) \<Rightarrow> ((sub_found found rc, node branch), s))
                    else ((Inr found, node branch), s))))"

definition sub_hash ::
    "(mosquitto__subhier \<Rightarrow> 's \<Rightarrow> (mosq_err \<times> mosquitto__subhier) \<times> 's) \<Rightarrow> bool \<Rightarrow> mosquitto__subhier \<Rightarrow> 's \<Rightarrow>
     (mosq_err \<times> mosquitto__subhier) \<times> 's" where
  "sub_hash process found subhier s =
     (let code = (\<lambda>found. if found then MOSQ_ERR_SUCCESS else MOSQ_ERR_NO_SUBSCRIBERS)
      in case ht_find ''#'' (h_children subhier) of
           None \<Rightarrow> ((code found, subhier), s)
         | Some branch \<Rightarrow>
             if h_children branch \<noteq> [] then ((code found, subhier), s)
             else (case process branch s of ((rc, branch), s) \<Rightarrow>
               ((case sub_found found rc of Inl rc \<Rightarrow> rc | Inr found \<Rightarrow> code found,
                 Subhier (h_subs subhier) (h_shared subhier) (ht_set ''#'' branch (h_children subhier))), s)))"

primrec sub__search ::
    "string list \<Rightarrow> (mosquitto__subhier \<Rightarrow> 's \<Rightarrow> (mosq_err \<times> mosquitto__subhier) \<times> 's) \<Rightarrow>
     mosquitto__subhier \<Rightarrow> 's \<Rightarrow> (mosq_err \<times> mosquitto__subhier) \<times> 's" where
  "sub__search [] process subhier s = sub_hash process False subhier s"
| "sub__search (t # ts) process subhier s =
     (case sub_branch process (sub__search ts process) (ts = []) t False subhier s of
        ((Inl rc, subhier), s) \<Rightarrow> ((rc, subhier), s)
      | ((Inr found, subhier), s) \<Rightarrow>
          (case sub_branch process (sub__search ts process) (ts = []) ''+'' found subhier s of
             ((Inl rc, subhier), s) \<Rightarrow> ((rc, subhier), s)
           | ((Inr found, subhier), s) \<Rightarrow> sub_hash process found subhier s))"

text \<open>The result is the code and the new value of \<open>*stored\<close>.\<close>

definition sub__messages_queue ::
    "acl_env \<Rightarrow> string option \<Rightarrow> string \<Rightarrow> u8 \<Rightarrow> bool \<Rightarrow> mptr \<Rightarrow> mosquitto_db \<Rightarrow>
     (mosq_err \<times> mptr option) \<times> mosquitto_db" where
  "sub__messages_queue env source_id topic qos retain stored db =
     (case sub__topic_tokenise topic (d_mem db) of
        (Inl (Rc rc), mem) \<Rightarrow> ((MOSQ_ERR_NOMEM, Some stored), db\<lparr>d_mem := mem\<rparr>)
      | (Inl _, mem) \<Rightarrow> ((MOSQ_ERR_SUCCESS, Some stored), db\<lparr>d_mem := mem, d_fault := True\<rparr>)
      | (Inr (topics, _), mem) \<Rightarrow>
          (let db = db__msg_store_ref_inc stored (db\<lparr>d_mem := mem\<rparr>);
               split_topics = topics_of topics; root = hd split_topics;
               (rc, db) =
                 (case ht_find root (d_subs db) of
                    None \<Rightarrow> (MOSQ_ERR_SUCCESS, db)
                  | Some subhier \<Rightarrow>
                      (case sub__search split_topics (subs__process env source_id topic qos retain stored) subhier db of
                         ((rc, subhier), db) \<Rightarrow> (rc, db\<lparr>d_subs := ht_set root subhier (d_subs db)\<rparr>)));
               (rc, db) =
                 (if retain then
                    (case retain__store topic stored split_topics db of
                       (rc2, db) \<Rightarrow> (if rc2 \<noteq> MOSQ_ERR_SUCCESS then rc2 else rc, db))
                  else (rc, db))
           in case db__msg_store_ref_dec stored db of (stored, db) \<Rightarrow> ((rc, stored), db)))"

section \<open>Ending a session\<close>

text \<open>The node at a path, and writing it.\<close>

fun hier_at :: "string list \<Rightarrow> (string, mosquitto__subhier) ht \<Rightarrow> mosquitto__subhier option" where
  "hier_at [] roots = None"
| "hier_at [k] roots = ht_find k roots"
| "hier_at (k # ks) roots = (case ht_find k roots of None \<Rightarrow> None | Some n \<Rightarrow> hier_at ks (h_children n))"

fun hier_update ::
    "string list \<Rightarrow> (mosquitto__subhier \<Rightarrow> mosquitto__subhier) \<Rightarrow> (string, mosquitto__subhier) ht \<Rightarrow>
     (string, mosquitto__subhier) ht" where
  "hier_update [] f roots = roots"
| "hier_update (k # ks) f roots =
     (case ht_find k roots of
        None \<Rightarrow> roots
      | Some n \<Rightarrow>
          ht_set k (if ks = [] then f n
                    else Subhier (h_subs n) (h_shared n) (hier_update ks f (h_children n))) roots)"

text \<open>
  Unlinking a node that has become empty; the result is its parent when that is to be unlinked next.
  A node without a parent is at a path of one key.
\<close>

definition tmp_remove_subs :: "string list \<Rightarrow> mosquitto_db \<Rightarrow> string list option \<times> mosquitto_db" where
  "tmp_remove_subs path db =
     (case hier_at path (d_subs db) of
        None \<Rightarrow> (None, db\<lparr>d_fault := True\<rparr>)
      | Some sub \<Rightarrow>
          if length path \<le> 1 then (None, db)
          else if h_children sub \<noteq> [] \<or> h_subs sub \<noteq> [] then (None, db)
          else
            let parent = butlast path;
                db = db\<lparr>d_subs := hier_update parent (\<lambda>p. Subhier (h_subs p) (h_shared p)
                                      (ht_del (last path) (h_children p))) (d_subs db)\<rparr>
            in (case hier_at parent (d_subs db) of
                  None \<Rightarrow> (None, db\<lparr>d_fault := True\<rparr>)
                | Some p \<Rightarrow> (if hier_empty p \<and> length parent > 1 then Some parent else None, db)))"

lemma tmp_remove_subs_shorter: "fst (tmp_remove_subs path db) = Some p \<Longrightarrow> length p < length path"
  by (auto simp: tmp_remove_subs_def Let_def split: option.splits if_splits)

function remove_upwards :: "string list \<Rightarrow> mosquitto_db \<Rightarrow> mosquitto_db" where
  "remove_upwards path db =
     (case tmp_remove_subs path db of
        (None, db) \<Rightarrow> db
      | (Some parent, db) \<Rightarrow> remove_upwards parent db)"
  by pat_completeness auto
termination
  by (relation "measure (length \<circ> fst)") (simp, metis comp_apply fst_conv in_measure tmp_remove_subs_shorter)

declare remove_upwards.simps [simp del]

text \<open>What follows the removal of the leaf, for both kinds of subscriptions.\<close>

definition prune :: "string list \<Rightarrow> mosquitto_db \<Rightarrow> mosquitto_db" where
  "prune path db =
     (case hier_at path (d_subs db) of
        None \<Rightarrow> db\<lparr>d_fault := True\<rparr>
      | Some hier \<Rightarrow> if hier_empty hier \<and> length path > 1 then remove_upwards path db else db)"

definition clean_shared_ref :: "cptr \<Rightarrow> (string list \<times> string) option \<Rightarrow> mosquitto_db \<Rightarrow> mosquitto_db" where
  "clean_shared_ref c ref db =
     (case ref of
        None \<Rightarrow> db
      | Some (path, name) \<Rightarrow>
          (case hier_at path (d_subs db) of
             None \<Rightarrow> db\<lparr>d_fault := True\<rparr>
           | Some hier \<Rightarrow>
               (case ht_find name (h_shared hier) of
                  None \<Rightarrow> db\<lparr>d_fault := True\<rparr>
                | Some subs \<Rightarrow>
                    prune path
                      (case find_index (\<lambda>leaf. l_context leaf = c) subs of
                         None \<Rightarrow> db
                       | Some i \<Rightarrow>
                           db\<lparr>d_shared_subscription_count := d_shared_subscription_count db - 1,
                              d_subs := hier_update path (\<lambda>h. Subhier (h_subs h)
                                (sub__remove_shared_leaf name i subs (h_shared h)) (h_children h)) (d_subs db)\<rparr>))))"

definition sub__clean_session_shared :: "cptr \<Rightarrow> mosquitto_db \<Rightarrow> mosq_err \<times> mosquitto_db" where
  "sub__clean_session_shared c db =
     (let db = fold (clean_shared_ref c) (c_shared_subs (get_ctx c db)) db
      in (MOSQ_ERR_SUCCESS, upd_ctx c (\<lambda>ctx. ctx\<lparr>c_shared_subs := []\<rparr>) db))"

definition clean_ref :: "cptr \<Rightarrow> string list option \<Rightarrow> mosquitto_db \<Rightarrow> mosquitto_db" where
  "clean_ref c ref db =
     (case ref of
        None \<Rightarrow> db
      | Some path \<Rightarrow>
          (case hier_at path (d_subs db) of
             None \<Rightarrow> db\<lparr>d_fault := True\<rparr>
           | Some hier \<Rightarrow>
               prune path
                 (case find_index (\<lambda>leaf. l_context leaf = c) (h_subs hier) of
                    None \<Rightarrow> db
                  | Some i \<Rightarrow>
                      db\<lparr>d_subscription_count := d_subscription_count db - 1,
                         d_subs := hier_update path (\<lambda>h. Subhier (del_at i (h_subs h))
                           (h_shared h) (h_children h)) (d_subs db)\<rparr>)))"

definition sub__clean_session :: "cptr \<Rightarrow> mosquitto_db \<Rightarrow> mosq_err \<times> mosquitto_db" where
  "sub__clean_session c db =
     (let db = fold (clean_ref c) (c_subs (get_ctx c db)) db;
          db = upd_ctx c (\<lambda>ctx. ctx\<lparr>c_subs := []\<rparr>) db
      in sub__clean_session_shared c db)"

end
