(* ===== verification/Subs_Tree.thy ===== *)
theory Subs_Tree
  imports Subs
begin

text \<open>
  The tree of subscriptions as a map from paths to what is subscribed there. Every update of the
  tree is shown to be a replacement at one path; the nodes in between and the removal of empty
  nodes do not show.
\<close>

section \<open>The nodes of a tree\<close>

abbreviation no_hier :: mosquitto__subhier where
  "no_hier \<equiv> Subhier [] [] []"

primrec node_below :: "string list \<Rightarrow> mosquitto__subhier \<Rightarrow> mosquitto__subhier option" where
  "node_below [] n = Some n"
| "node_below (t # ts) n = (case ht_find t (h_children n) of None \<Rightarrow> None | Some b \<Rightarrow> node_below ts b)"

definition the_node :: "string list \<Rightarrow> mosquitto__subhier \<Rightarrow> mosquitto__subhier" where
  "the_node us n = (case node_below us n of None \<Rightarrow> no_hier | Some b \<Rightarrow> b)"

text \<open>What belongs to the node itself.\<close>

type_synonym own = "mosquitto__subleaf list \<times> (string, mosquitto__subleaf list) ht"

definition own :: "mosquitto__subhier \<Rightarrow> own" where
  "own n = (h_subs n, h_shared n)"

lemma own_simp [simp]: "own (Subhier s sh ch) = (s, sh)"
  by (simp add: own_def)

lemma own_fold [simp]: "(h_subs n, h_shared n) = own n"
  by (simp add: own_def)

lemma own_select: "fst (own n) = h_subs n" "snd (own n) = h_shared n"
  by (simp_all add: own_def del: own_fold)

lemma the_node_simps [simp]:
  "the_node [] n = n"
  "the_node (t # ts) n = (case ht_find t (h_children n) of None \<Rightarrow> no_hier | Some b \<Rightarrow> the_node ts b)"
  by (auto simp: the_node_def split: option.split)

lemma the_node_none [simp]: "the_node us no_hier = no_hier"
  by (cases us) simp_all

text \<open>Well-formed: no duplicate keys and no empty shares.\<close>

definition shares_ok :: "(string, mosquitto__subleaf list) ht \<Rightarrow> bool" where
  "shares_ok shared \<longleftrightarrow> ht_wf shared \<and> (\<forall>(name, subs) \<in> set shared. subs \<noteq> [])"

fun sub_wf :: "(string \<times> mosquitto__subhier) list \<Rightarrow> bool" where
  "sub_wf [] = True"
| "sub_wf ((t, Subhier subs shared children) # bs) =
     (t \<notin> fst ` set bs \<and> shares_ok shared \<and> sub_wf children \<and> sub_wf bs)"

definition hier_wf :: "mosquitto__subhier \<Rightarrow> bool" where
  "hier_wf n \<longleftrightarrow> shares_ok (h_shared n) \<and> sub_wf (h_children n)"

lemma shares_ok_Nil [simp]: "shares_ok []"
  by (simp add: shares_ok_def)

lemma sub_wf_Cons [simp]: "sub_wf ((t, b) # bs) = (t \<notin> fst ` set bs \<and> hier_wf b \<and> sub_wf bs)"
  by (cases b) (auto simp: hier_wf_def)

lemma hier_wf_simp [simp]: "hier_wf (Subhier s sh ch) = (shares_ok sh \<and> sub_wf ch)"
  by (simp add: hier_wf_def)

lemma sub_wf_iff: "sub_wf bs \<longleftrightarrow> ht_wf bs \<and> (\<forall>(t, b) \<in> set bs. hier_wf b)"
  by (induction bs) (force simp: ht_wf_def)+

lemma sub_wf_find: "sub_wf bs \<Longrightarrow> ht_find t bs = Some b \<Longrightarrow> hier_wf b"
  by (induction bs) (auto split: if_splits)

lemma sub_wf_set: "sub_wf bs \<Longrightarrow> hier_wf b \<Longrightarrow> sub_wf (ht_set t b bs)"
  unfolding sub_wf_iff by (auto dest!: set_ht_set)

lemma sub_wf_add: "sub_wf bs \<Longrightarrow> hier_wf b \<Longrightarrow> ht_find t bs = None \<Longrightarrow> sub_wf (ht_add t b bs)"
  unfolding sub_wf_iff by (auto simp: ht_wf_add) (auto simp: ht_add_def)

lemma sub_wf_del: "sub_wf bs \<Longrightarrow> sub_wf (ht_del t bs)"
  unfolding sub_wf_iff by (auto simp: ht_wf_del dest!: set_ht_del)

text \<open>Sums over all nodes.\<close>

fun tree_sum :: "(own \<Rightarrow> nat) \<Rightarrow> (string \<times> mosquitto__subhier) list \<Rightarrow> nat" where
  "tree_sum f [] = 0"
| "tree_sum f ((t, Subhier subs shared children) # bs) = f (subs, shared) + tree_sum f children + tree_sum f bs"

definition hier_total :: "(own \<Rightarrow> nat) \<Rightarrow> mosquitto__subhier \<Rightarrow> nat" where
  "hier_total f n = f (own n) + tree_sum f (h_children n)"

lemma total_Cons: "tree_sum f ((t, b) # bs) = hier_total f b + tree_sum f bs"
  by (cases b) (simp add: hier_total_def)

lemma hier_total_simp [simp]: "hier_total f (Subhier s sh ch) = f (s, sh) + tree_sum f ch"
  by (simp add: hier_total_def)

lemma total_set: "ht_find t bs = Some b \<Longrightarrow> tree_sum f (ht_set t b' bs) + hier_total f b = tree_sum f bs + hier_total f b'"
  by (induction bs) (auto simp: total_Cons split: if_splits)

lemma total_add: "tree_sum f (ht_add t b bs) = tree_sum f bs + hier_total f b"
  unfolding ht_add_def by (induction bs) (auto simp: total_Cons)

lemma total_del: "ht_find t bs = Some b \<Longrightarrow> tree_sum f (ht_del t bs) + hier_total f b = tree_sum f bs"
  by (induction bs) (auto simp: total_Cons split: if_splits)

section \<open>Replacing at a path\<close>

definition replaces :: "string list \<Rightarrow> own \<Rightarrow> mosquitto__subhier \<Rightarrow> mosquitto__subhier \<Rightarrow> bool" where
  "replaces us q n n' \<longleftrightarrow> (hier_wf n \<and> shares_ok (snd q) \<longrightarrow>
     hier_wf n'
   \<and> (\<forall>vs. own (the_node vs n') = (if vs = us then q else own (the_node vs n)))
   \<and> (\<forall>f. f ([], []) = 0 \<longrightarrow> hier_total f n' + f (own (the_node us n)) = hier_total f n + f q))"

lemma replacesD:
  assumes "replaces us q n n'" "hier_wf n" "shares_ok (snd q)"
  shows "hier_wf n'" "own (the_node vs n') = (if vs = us then q else own (the_node vs n))"
    "f ([], []) = 0 \<Longrightarrow> hier_total f n' + f (own (the_node us n)) = hier_total f n + f q"
  using assms unfolding replaces_def by blast+

lemma replaces_here: "replaces [] (s, sh) n (Subhier s sh (h_children n))"
  by (auto simp: replaces_def hier_wf_def hier_total_def neq_Nil_conv)

lemma replaces_self [simp]: "replaces us (own (the_node us n)) n n"
  by (simp add: replaces_def)

lemma replaces_set:
  assumes r: "replaces ts q b b'" and b: "ht_find t (h_children n) = Some b"
  shows "replaces (t # ts) q n (Subhier (h_subs n) (h_shared n) (ht_set t b' (h_children n)))"
  unfolding replaces_def
proof (intro impI conjI allI)
  let ?n = "Subhier (h_subs n) (h_shared n) (ht_set t b' (h_children n))"
  assume wf: "hier_wf n \<and> shares_ok (snd q)"
  then have wb: "hier_wf b" using sub_wf_find [OF _ b] by (simp add: hier_wf_def)
  note d = replacesD [OF r wb conjunct2 [OF wf]]
  show "hier_wf ?n" using wf d(1) by (simp add: hier_wf_def sub_wf_set)
  show "own (the_node vs ?n) = (if vs = t # ts then q else own (the_node vs n))" for vs
    using b d(2) by (cases vs) (simp, simp add: ht_find_set)
  fix f :: "own \<Rightarrow> nat" assume "f ([], []) = 0"
  from d(3) [of f, OF this] total_set [OF b, of f b'] b
  show "hier_total f ?n + f (own (the_node (t # ts) n)) = hier_total f n + f q"
    by (simp add: hier_total_def)
qed

lemma replaces_add:
  assumes r: "replaces ts q no_hier b'" and b: "ht_find t (h_children n) = None"
  shows "replaces (t # ts) q n (Subhier (h_subs n) (h_shared n) (ht_add t b' (h_children n)))"
  unfolding replaces_def
proof (intro impI conjI allI)
  let ?n = "Subhier (h_subs n) (h_shared n) (ht_add t b' (h_children n))"
  assume wf: "hier_wf n \<and> shares_ok (snd q)"
  have "hier_wf no_hier" by simp
  note d = replacesD [OF r this conjunct2 [OF wf]]
  show "hier_wf ?n" using wf d(1) b by (simp add: hier_wf_def sub_wf_add)
  show "own (the_node vs ?n) = (if vs = t # ts then q else own (the_node vs n))" for vs
    using b d(2) by (cases vs) (simp, simp add: ht_find_add)
  fix f :: "own \<Rightarrow> nat" assume "f ([], []) = 0"
  from d(3) [of f, OF this] b this
  show "hier_total f ?n + f (own (the_node (t # ts) n)) = hier_total f n + f q"
    by (simp add: hier_total_def total_add)
qed

text \<open>A node that has become empty goes.\<close>

lemma replaces_del:
  assumes r: "replaces ts q b b'" and b: "ht_find t (h_children n) = Some b" and e: "hier_empty b'"
  shows "replaces (t # ts) q n (Subhier (h_subs n) (h_shared n) (ht_del t (h_children n)))"
  unfolding replaces_def
proof (intro impI conjI allI)
  let ?n = "Subhier (h_subs n) (h_shared n) (ht_del t (h_children n))"
  assume wf: "hier_wf n \<and> shares_ok (snd q)"
  then have sw: "sub_wf (h_children n)" by (simp add: hier_wf_def)
  have wb: "hier_wf b" using sub_wf_find [OF sw b] .
  have hw: "ht_wf (h_children n)" using sw unfolding sub_wf_iff [of "h_children n"] by blast
  have b': "b' = no_hier" using e by (cases b') (simp add: hier_empty_def)
  note d = replacesD [OF r wb conjunct2 [OF wf], unfolded b']
  show "hier_wf ?n" using wf by (simp add: hier_wf_def sub_wf_del)
  have d2: "own (the_node vs b) = ([], [])" if "vs \<noteq> ts" for vs using d(2) [of vs] that by simp
  have q: "q = ([], [])" using d(2) [of ts] by simp
  show "own (the_node vs ?n) = (if vs = t # ts then q else own (the_node vs n))" for vs
  proof (cases vs)
    case (Cons u us)
    show ?thesis
    proof (cases "u = t")
      case True
      then show ?thesis using Cons b d2 [of us] q ht_find_del [OF hw, of u t] by auto
    next
      case False
      then show ?thesis using Cons ht_find_del [OF hw, of u t] by simp
    qed
  qed simp
  fix f :: "own \<Rightarrow> nat" assume "f ([], []) = 0"
  from d(3) [of f, OF this] total_del [OF b, of f] b this
  show "hier_total f ?n + f (own (the_node (t # ts) n)) = hier_total f n + f q"
    by (simp add: hier_total_def)
qed

text \<open>Replacing what is there leaves everything as it is; so do steps after a replacement that change nothing.\<close>

definition same_hier :: "mosquitto__subhier \<Rightarrow> mosquitto__subhier \<Rightarrow> bool" where
  "same_hier n n' \<longleftrightarrow> (hier_wf n \<longrightarrow> hier_wf n' \<and> (\<forall>vs. own (the_node vs n') = own (the_node vs n))
     \<and> (\<forall>f. f ([], []) = 0 \<longrightarrow> hier_total f n' = hier_total f n))"

lemma same_hier_refl [simp]: "same_hier n n"
  by (simp add: same_hier_def)

lemma same_hier_trans: "same_hier n n' \<Longrightarrow> same_hier n' n'' \<Longrightarrow> same_hier n n''"
  by (simp add: same_hier_def)

lemma replaces_same:
  assumes "replaces us (own (the_node us n)) n n'" "hier_wf n \<Longrightarrow> shares_ok (snd (own (the_node us n)))"
  shows "same_hier n n'"
  using assms unfolding replaces_def same_hier_def by (metis add_right_cancel)

lemma replaces_same_trans: "replaces us q n n' \<Longrightarrow> same_hier n' n'' \<Longrightarrow> replaces us q n n''"
  unfolding replaces_def same_hier_def by auto

lemma the_node_wf: "hier_wf n \<Longrightarrow> hier_wf (the_node us n)"
proof (induction us arbitrary: n)
  case (Cons t ts)
  then show ?case using sub_wf_find [of "h_children n" t] by (auto simp: hier_wf_def split: option.split)
qed simp

end
