(* ===== verification/Broker_Lift.thy ===== *)
theory Broker_Lift
  imports Broker_Steps
begin

text \<open>
  How the operations outside of \<open>src/database.c\<close> are proved to keep the invariant of the whole
  broker: \<open>bgood cs E db E' db'\<close> is a step after which the references \<open>E'\<close> are held outside the
  queues where it was \<open>E\<close>, with rules for taking and dropping a reference, for memory and for every
  operation on one client.
\<close>

section \<open>Allocation only\<close>

text \<open>The states differ in the outcomes of the allocations still to come.\<close>

definition mallocs :: "mosquitto_db \<Rightarrow> mosquitto_db \<Rightarrow> bool" where
  "mallocs db db' \<longleftrightarrow> (\<exists>mem. db' = db\<lparr>d_mem := mem\<rparr> \<and> (d_mem db = [] \<longrightarrow> mem = []))"

lemma mallocs_refl [simp]: "mallocs db db"
  unfolding mallocs_def by (rule exI [of _ "d_mem db"]) simp

lemma mallocs_trans: "mallocs db db' \<Longrightarrow> mallocs db' db'' \<Longrightarrow> mallocs db db''"
  unfolding mallocs_def by force

lemma mallocs_malloc: "mallocs db (snd (d_malloc db))"
  unfolding mallocs_def d_malloc_def by (auto split: prod.split)

lemma mallocs_calm: "mallocs db db' \<Longrightarrow> calm c db db'"
  unfolding mallocs_def by (auto intro!: calm_fields)

lemma mallocs_retains: "mallocs db db' \<Longrightarrow> d_retains db' = d_retains db"
  by (auto simp: mallocs_def)

lemma mem_mallocs: "(d_mem db = [] \<Longrightarrow> mem = []) \<Longrightarrow> mallocs db (db\<lparr>d_mem := mem\<rparr>)"
  by (auto simp: mallocs_def)

section \<open>Steps of the whole broker\<close>

definition clients :: "cptr list \<Rightarrow> bool" where
  "clients cs \<longleftrightarrow> cs \<noteq> [] \<and> distinct cs"

lemma clients_ex: "clients cs \<Longrightarrow> \<exists>c. c \<in> set cs"
  by (cases cs) (auto simp: clients_def)

text \<open>What every step leaves alone: the contents of the messages, the maximal QoS of the clients, the configuration.\<close>

definition bcore :: "mosquitto_db \<Rightarrow> mosquitto_db \<Rightarrow> bool" where
  "bcore db db' \<longleftrightarrow>
     (\<forall>p s'. d_heap db' p = Some s' \<longrightarrow> (\<exists>s. d_heap db p = Some s \<and> same_msg s s'))
   \<and> (\<forall>c. ctx_core (get_ctx c db') = ctx_core (get_ctx c db))
   \<and> d_config db' = d_config db \<and> d_now_real_s db' = d_now_real_s db
   \<and> d_subscription_count db' = d_subscription_count db
   \<and> d_shared_subscription_count db' = d_shared_subscription_count db \<and> d_next db' = d_next db
   \<and> dests_calm db db'"

definition beff :: "mosquitto_db \<Rightarrow> mosquitto_db \<Rightarrow> bool" where
  "beff db db' \<longleftrightarrow> bcore db db' \<and> d_retains db' = d_retains db \<and> d_subs db' = d_subs db"

lemma bcore_refl [simp]: "bcore db db"
  by (auto simp: bcore_def)

lemma beff_refl [simp]: "beff db db"
  by (simp add: beff_def)

lemma bcore_trans:
  assumes "bcore db db'" "bcore db' db''"
  shows "bcore db db''"
proof -
  have "\<exists>s. d_heap db p = Some s \<and> same_msg s s''" if s: "d_heap db'' p = Some s''" for p s''
  proof -
    obtain s' where s': "d_heap db' p = Some s'" "same_msg s' s''" using assms(2) s unfolding bcore_def by blast
    obtain s where "d_heap db p = Some s" "same_msg s s'" using assms(1) s'(1) unfolding bcore_def by blast
    then show ?thesis using s'(2) same_msg_trans by blast
  qed
  then show ?thesis using assms dests_calm_trans [of db db' db''] by (simp add: bcore_def)
qed

lemma beff_trans: "beff db db' \<Longrightarrow> beff db' db'' \<Longrightarrow> beff db db''"
  unfolding beff_def using bcore_trans by metis

lemma eff_beff: "eff c db db' \<Longrightarrow> beff db db'"
  unfolding beff_def bcore_def eff_defs by metis

definition bgood :: "cptr list \<Rightarrow> mptr multiset \<Rightarrow> mosquitto_db \<Rightarrow> mptr multiset \<Rightarrow> mosquitto_db \<Rightarrow> bool" where
  "bgood cs E db E' db' \<longleftrightarrow> (broker_ok cs E db \<longrightarrow> broker_ok cs E' db' \<and> beff db db')"

lemma bgoodD: "bgood cs E db E' db' \<Longrightarrow> broker_ok cs E db \<Longrightarrow> broker_ok cs E' db' \<and> beff db db'"
  by (simp add: bgood_def)

lemma bgood_refl [simp]: "bgood cs E db E db"
  by (simp add: bgood_def)

lemma bgood_trans: "bgood cs E db E' db' \<Longrightarrow> bgood cs E' db' E'' db'' \<Longrightarrow> bgood cs E db E'' db''"
  unfolding bgood_def using beff_trans by blast

lemma bgoodI: "(broker_ok cs E db \<Longrightarrow> bgood cs E db E' db') \<Longrightarrow> bgood cs E db E' db'"
  unfolding bgood_def by blast

lemma bgood_good:
  assumes "clients cs" "c \<in> set cs" "good c db db'"
  shows "bgood cs E db E db'"
  unfolding bgood_def
proof
  assume b: "broker_ok cs E db"
  have d: "distinct cs" using assms(1) by (simp add: clients_def)
  have "accounted (all_held (remove1 c cs) db + E) c db" using b broker_ok_split [OF assms(2) d] by blast
  then have "eff c db db'" using assms(3) by (simp add: good_def)
  then show "broker_ok cs E db' \<and> beff db db'" using broker_good [OF b assms(2) d assms(3)] eff_beff by blast
qed

lemma bgood_calm_all:
  assumes "clients cs" "\<And>c. calm c db db'"
  shows "bgood cs E db E db'"
proof -
  obtain c where "c \<in> set cs" using clients_ex [OF assms(1)] by blast
  then show ?thesis using bgood_good [OF assms(1)] calm_good assms(2) by blast
qed

lemma bgood_step:
  assumes "clients cs" "db_step cs (E, db) (E', db')" "broker_ok cs E db \<Longrightarrow> beff db db'"
  shows "bgood cs E db E' db'"
proof -
  obtain c where c: "c \<in> set cs" using clients_ex [OF assms(1)] by blast
  have "distinct cs" using assms(1) by (simp add: clients_def)
  from db_step_ok [OF assms(2) c this] assms(3) show ?thesis by (simp add: bgood_def)
qed

lemma bgood_drop:
  assumes "clients cs"
  shows "bgood cs (add_mset p E) db E (snd (db__msg_store_ref_dec p db))"
proof (rule bgood_step [OF assms db_step.drop])
  obtain c where c: "c \<in> set cs" using clients_ex [OF assms] by blast
  assume "broker_ok cs (add_mset p E) db"
  then have "inv (keys_of c db) (add_mset p (all_held (remove1 c cs) db + E)) c db"
    using broker_ok_split [OF c] assms by (simp add: accounted_def clients_def)
  from inv_ref_dec(2) [OF this] show "beff db (snd (db__msg_store_ref_dec p db))" by (rule eff_beff)
qed

lemma broker_live:
  assumes "clients cs" "broker_ok cs E db" "p \<in># E"
  shows "live p db" "touch p db = db"
proof -
  obtain c where c: "c \<in> set cs" using clients_ex [OF assms(1)] by blast
  have "inv (keys_of c db) (all_held (remove1 c cs) db + E) c db"
    using broker_ok_split [OF c] assms by (simp add: accounted_def clients_def)
  moreover have "p \<in># held c db + (all_held (remove1 c cs) db + E)" using assms(3) by simp
  ultimately show l: "live p db" by (rule liveI)
  then show "touch p db = db" by (auto simp: live_def touch_def)
qed

lemma bgood_take_live:
  assumes cs: "clients cs" and l: "live p db"
  shows "bgood cs E db (add_mset p E) (db__msg_store_ref_inc p db)"
proof (rule bgood_step [OF cs db_step.take [OF l]])
  obtain c where c: "c \<in> set cs" using clients_ex [OF cs] by blast
  assume "broker_ok cs E db"
  then have "inv (keys_of c db) (all_held (remove1 c cs) db + E) c db"
    using broker_ok_split [OF c] cs by (simp add: accounted_def clients_def)
  from inv_ref_inc(2) [OF this, of p] l have "eff c db (db__msg_store_ref_inc p db)" by (simp add: live_def)
  then show "beff db (db__msg_store_ref_inc p db)" by (rule eff_beff)
qed

lemma bgood_take: "clients cs \<Longrightarrow> p \<in># E \<Longrightarrow> bgood cs E db (add_mset p E) (db__msg_store_ref_inc p db)"
  using bgood_take_live broker_live(1) by (metis bgoodI)

text \<open>The content of a message that stays alive.\<close>

lemma bcore_msg:
  assumes "bcore db db'" "live p db'"
  shows "s_payloadlen (stored_at p db') = s_payloadlen (stored_at p db)"
    "s_topic (stored_at p db') = s_topic (stored_at p db)" "s_qos (stored_at p db') = s_qos (stored_at p db)"
proof -
  obtain s' where s': "d_heap db' p = Some s'" using assms(2) by (auto simp: live_def)
  then obtain s where "d_heap db p = Some s" "same_msg s s'" using assms(1) unfolding bcore_def by blast
  then show "s_payloadlen (stored_at p db') = s_payloadlen (stored_at p db)"
    "s_topic (stored_at p db') = s_topic (stored_at p db)" "s_qos (stored_at p db') = s_qos (stored_at p db)"
    using s' same_msg_fields by (simp_all add: stored_at_def)
qed

lemma bgood_mallocs: "clients cs \<Longrightarrow> mallocs db db' \<Longrightarrow> bgood cs E db E db'"
  by (rule bgood_calm_all) (auto simp: mallocs_calm)

lemma broker_ok_trees [simp]:
  "broker_ok cs E (db\<lparr>d_retains := t\<rparr>) = broker_ok cs E db" "broker_ok cs E (db\<lparr>d_subs := u\<rparr>) = broker_ok cs E db"
  by (simp_all add: broker_ok_def all_held_def client_ok_def held_def md_of_def get_ctx_def keys_of_def md_ok_def store_ok_def
    rc_at_def plen_def stored_at_def)

lemma bcore_trees [simp]: "bcore db (db'\<lparr>d_retains := t\<rparr>) = bcore db db'" "bcore db (db'\<lparr>d_subs := u\<rparr>) = bcore db db'"
  by (simp_all add: bcore_def get_ctx_def dests_calm_def dest_ok_def stored_at_def)

end
