(* ===== verification/Subs_Ok.thy ===== *)
theory Subs_Ok
  imports Subs_Tree Broker_Lift
begin

text \<open>
  The books of the subscriptions: every client's references, which are what it is released by at
  the end of its session, stand for exactly the subscriptions that it has in the tree, and the two
  counters are the numbers of subscriptions.
\<close>

section \<open>The books\<close>

definition roots :: "mosquitto_db \<Rightarrow> mosquitto__subhier" where
  "roots db = Subhier [] [] (d_subs db)"

definition who :: "mosquitto__subleaf list \<Rightarrow> cptr multiset" where
  "who subs = mset (map l_context subs)"

definition share :: "string \<Rightarrow> own \<Rightarrow> mosquitto__subleaf list" where
  "share name q = (case ht_find name (snd q) of None \<Rightarrow> [] | Some subs \<Rightarrow> subs)"

definition subs_of :: "own \<Rightarrow> nat" where
  "subs_of q = length (fst q)"

definition shared_of :: "own \<Rightarrow> nat" where
  "shared_of q = (\<Sum>e\<leftarrow>snd q. length (snd e))"

lemma of_nothing [simp]: "subs_of ([], []) = 0" "shared_of ([], []) = 0" "share name (s, []) = []" "who [] = {#}"
  by (simp_all add: subs_of_def shared_of_def share_def who_def)

definition ref_count :: "cptr \<Rightarrow> string list \<Rightarrow> mosquitto_db \<Rightarrow> nat" where
  "ref_count c path db = count (mset (c_subs (get_ctx c db))) (Some path)"

definition shared_ref_count :: "cptr \<Rightarrow> string list \<Rightarrow> string \<Rightarrow> mosquitto_db \<Rightarrow> nat" where
  "shared_ref_count c path name db = count (mset (c_shared_subs (get_ctx c db))) (Some (path, name))"

text \<open>
  \<open>rc c path\<close> and \<open>src c path name\<close> are the numbers of references that are accounted for; between the
  operations they are those in the arrays of the clients.
\<close>

definition bookkeep ::
    "(cptr \<Rightarrow> string list \<Rightarrow> nat) \<Rightarrow> (cptr \<Rightarrow> string list \<Rightarrow> string \<Rightarrow> nat) \<Rightarrow> mosquitto_db \<Rightarrow> bool" where
  "bookkeep rc src db \<longleftrightarrow> sub_wf (d_subs db)
   \<and> (\<forall>c path. rc c path = count (who (fst (own (the_node path (roots db))))) c)
   \<and> (\<forall>c path name. src c path name = count (who (share name (own (the_node path (roots db))))) c)
   \<and> d_subscription_count db = int (tree_sum subs_of (d_subs db))
   \<and> d_shared_subscription_count db = int (tree_sum shared_of (d_subs db))"

definition books :: "mosquitto_db \<Rightarrow> bool" where
  "books db \<longleftrightarrow> bookkeep (\<lambda>c path. ref_count c path db) (\<lambda>c path name. shared_ref_count c path name db) db"

lemmas books_defs = books_def bookkeep_def

lemma hier_sum_roots: "f ([], []) = 0 \<Longrightarrow> hier_total f (roots db) = tree_sum f (d_subs db)"
  by (simp add: roots_def)

text \<open>The change of the books that goes with replacing what is at a path.\<close>

lemma bookkeep_replaces:
  assumes b: "bookkeep rc src db" and r: "replaces us q (roots db) n" and n: "roots db' = n" and q: "shares_ok (snd q)"
    and c: "\<And>c path. rc' c path + (if path = us then count (who (fst (own (the_node us (roots db))))) c else 0)
        = rc c path + (if path = us then count (who (fst q)) c else 0)"
    and s: "\<And>c path name. src' c path name
        + (if path = us then count (who (share name (own (the_node us (roots db))))) c else 0)
        = src c path name + (if path = us then count (who (share name q)) c else 0)"
    and k: "d_subscription_count db' + int (subs_of (own (the_node us (roots db)))) = d_subscription_count db + int (subs_of q)"
    and ks: "d_shared_subscription_count db' + int (shared_of (own (the_node us (roots db))))
        = d_shared_subscription_count db + int (shared_of q)"
  shows "bookkeep rc' src' db'"
proof -
  have wf: "hier_wf (roots db)" using b by (simp add: bookkeep_def roots_def)
  note d = replacesD [OF r wf q]
  have "rc' c path = count (who (fst (own (the_node path (roots db'))))) c" for c path
    using c [of c path] d(2) [of path] b unfolding n bookkeep_def by (cases "path = us") simp_all
  moreover have "src' c path name = count (who (share name (own (the_node path (roots db'))))) c" for c path name
    using s [of c path name] d(2) [of path] b unfolding n bookkeep_def by (cases "path = us") simp_all
  moreover have "hier_total subs_of n + subs_of (own (the_node us (roots db))) = hier_total subs_of (roots db) + subs_of q"
    "hier_total shared_of n + shared_of (own (the_node us (roots db))) = hier_total shared_of (roots db) + shared_of q"
    by (rule d(3), simp)+
  then have "d_subscription_count db' = int (tree_sum subs_of (d_subs db'))"
    "d_shared_subscription_count db' = int (tree_sum shared_of (d_subs db'))"
    using k ks b unfolding n [symmetric] by (simp_all add: hier_sum_roots bookkeep_def)
  moreover have "sub_wf (d_subs db')" using d(1) unfolding n [symmetric] by (simp add: roots_def)
  ultimately show ?thesis by (simp add: bookkeep_def)
qed

lemma books_replaces:
  assumes b: "books db" and r: "replaces us q (roots db) n" and n: "roots db' = n" and q: "shares_ok (snd q)"
    and c: "\<And>c path. ref_count c path db' + (if path = us then count (who (fst (own (the_node us (roots db))))) c else 0)
        = ref_count c path db + (if path = us then count (who (fst q)) c else 0)"
    and s: "\<And>c path name. shared_ref_count c path name db'
        + (if path = us then count (who (share name (own (the_node us (roots db))))) c else 0)
        = shared_ref_count c path name db + (if path = us then count (who (share name q)) c else 0)"
    and k: "d_subscription_count db' + int (subs_of (own (the_node us (roots db)))) = d_subscription_count db + int (subs_of q)"
    and ks: "d_shared_subscription_count db' + int (shared_of (own (the_node us (roots db))))
        = d_shared_subscription_count db + int (shared_of q)"
  shows "books db'"
  unfolding books_def by (rule bookkeep_replaces [OF b [unfolded books_def] r n q c s k ks])

text \<open>Changes that do not touch the books.\<close>

lemma bookkeep_same:
  assumes "bookkeep rc src db" "same_hier (roots db) (roots db')"
    and "d_subscription_count db' = d_subscription_count db"
    and "d_shared_subscription_count db' = d_shared_subscription_count db"
  shows "bookkeep rc src db'"
proof -
  have wf: "hier_wf (roots db)" using assms(1) by (simp add: bookkeep_def roots_def)
  then have s: "hier_wf (roots db')" "own (the_node vs (roots db')) = own (the_node vs (roots db))"
    "f ([], []) = 0 \<Longrightarrow> hier_total f (roots db') = hier_total f (roots db)" for vs f
    using assms(2) unfolding same_hier_def by blast+
  have "tree_sum subs_of (d_subs db') = tree_sum subs_of (d_subs db)"
    "tree_sum shared_of (d_subs db') = tree_sum shared_of (d_subs db)"
    using s(3) [of subs_of] s(3) [of shared_of] by (simp_all add: hier_sum_roots)
  then show ?thesis using assms s(1) s(2) unfolding bookkeep_def by (simp add: roots_def)
qed

lemma books_same:
  assumes "books db" "same_hier (roots db) (roots db')"
    and "\<And>c. c_subs (get_ctx c db') = c_subs (get_ctx c db)" "\<And>c. c_shared_subs (get_ctx c db') = c_shared_subs (get_ctx c db)"
    and "d_subscription_count db' = d_subscription_count db"
    and "d_shared_subscription_count db' = d_shared_subscription_count db"
  shows "books db'"
  using bookkeep_same [OF assms(1) [unfolded books_def] assms(2,5,6)] assms(3,4)
  by (simp add: books_def ref_count_def shared_ref_count_def)

lemma books_mallocs: "mallocs db db' \<Longrightarrow> books db = books db'"
  by (auto simp: mallocs_def books_defs ref_count_def shared_ref_count_def get_ctx_def roots_def)

section \<open>Places in the arrays of references\<close>

lemma fill_slot_count:
  assumes "fill_slot x slots = Some slots'"
  shows "count (mset slots') (Some y) = count (mset slots) (Some y) + (if y = x then 1 else 0)"
proof -
  obtain i where i: "find_index (\<lambda>s. s = None) slots = Some i" "slots' = slots[i := Some x]"
    using assms by (auto simp: fill_slot_def split: option.splits)
  have "i < length slots" "slots ! i = None" using find_index_Some [OF i(1)] by simp_all
  then show ?thesis unfolding i(2) by (simp add: mset_update)
qed

lemma drop_slot_count:
  assumes "Some x \<in> set slots"
  shows "count (mset (drop_slot x slots)) (Some y) + (if y = x then 1 else 0) = count (mset slots) (Some y)"
proof -
  obtain i where i: "find_index (\<lambda>s. s = Some x) slots = Some i"
    using assms find_index_None [of "\<lambda>s. s = Some x" slots] by (cases "find_index (\<lambda>s. s = Some x) slots") auto
  have b: "i < length slots" "slots ! i = Some x" using find_index_Some [OF i] by simp_all
  then have "Some x \<in># mset slots" by (metis nth_mem set_mset_mset)
  then show ?thesis using b by (auto simp: drop_slot_def i mset_update)
qed

lemma who_append [simp]: "who (xs @ ys) = who xs + who ys"
  by (simp add: who_def)

lemma who_Cons [simp]: "who (x # xs) = add_mset (l_context x) (who xs)"
  by (simp add: who_def)

lemma who_update: "i < length xs \<Longrightarrow> l_context x = l_context (xs ! i) \<Longrightarrow> who (xs[i := x]) = who xs"
  unfolding who_def map_update by (metis length_map list_update_id nth_map)

lemma who_del_at: "i < length xs \<Longrightarrow> who xs = add_mset (l_context (xs ! i)) (who (del_at i xs))"
  unfolding who_def mset_map del_at_mset [of i xs] by simp

section \<open>Walking to a node\<close>

lemma mallocs_hier: "mallocs db (snd (sub__add_hier_entry db))"
proof -
  obtain ok1 db1 where 1: "d_malloc db = (ok1, db1)" by (cases "d_malloc db")
  obtain ok2 db2 where 2: "d_malloc db1 = (ok2, db2)" by (cases "d_malloc db1")
  have "mallocs db db1" "mallocs db1 db2" using mallocs_malloc [of db] mallocs_malloc [of db1] 1 2 by simp_all
  then have "mallocs db db1" "mallocs db db2" using mallocs_trans by blast+
  then show ?thesis by (cases ok1; cases ok2) (simp_all add: sub__add_hier_entry_def 1 2)
qed

lemma hier_fresh: "sub__add_hier_entry db = (Some n, db') \<Longrightarrow> n = no_hier"
  by (auto simp: sub__add_hier_entry_def split: prod.splits bool.splits)

text \<open>Replacing the lists of the node that is there, or the node that was just created.\<close>

definition puts :: "string list \<Rightarrow> mosquitto__subhier \<Rightarrow> mosquitto__subhier \<Rightarrow> mosquitto__subhier \<Rightarrow> bool" where
  "puts us m n n' \<longleftrightarrow> (h_children m = h_children (the_node us n) \<longrightarrow> replaces us (own m) n n')"

lemma puts_here: "puts [] m n m"
proof -
  have "m = Subhier (fst (own m)) (snd (own m)) (h_children m)" by (cases m) simp
  then show ?thesis unfolding puts_def using replaces_here by (metis prod.collapse the_node_simps(1))
qed

lemma sub_walk_spec:
  "sub_walk ts add n db = ((rc, n'), db') \<Longrightarrow>
   (\<exists>db1 m. mallocs db db1 \<and> add (the_node ts n) db1 = ((rc, m), db') \<and> puts ts m n n')
   \<or> rc \<in> {MOSQ_ERR_NOMEM, MOSQ_ERR_INVAL} \<and> mallocs db db' \<and> same_hier n n'"
proof (induction ts arbitrary: n db rc n' db')
  case Nil
  then show ?case using puts_here [of n' n] by (intro disjI1 exI [of _ db] exI [of _ n']) simp
next
  case (Cons t ts)
  show ?case
  proof (cases "length t > 65535")
    case True
    then show ?thesis using Cons.prems by simp
  next
    case short: False
    show ?thesis
    proof (cases "ht_find t (h_children n)")
      case (Some b)
      obtain rc1 b1 db1 where w: "sub_walk ts add b db = ((rc1, b1), db1)" by (metis surj_pair)
      have e: "rc = rc1" "db' = db1" "n' = Subhier (h_subs n) (h_shared n) (ht_set t b1 (h_children n))"
        using Cons.prems Some w short by simp_all
      have same: "same_hier n n'" if "same_hier b b1"
      proof (rule replaces_same)
        have "replaces [] (own b) b b" using replaces_self [of "[]" b] by simp
        from replaces_set [OF replaces_same_trans [OF this that] Some]
        show "replaces [t] (own (the_node [t] n)) n n'" using Some by (simp add: e)
        show "shares_ok (snd (own (the_node [t] n)))" if "hier_wf n"
          using the_node_wf [OF that, of "[t]"] by (simp add: hier_wf_def own_select)
      qed
      have "puts (t # ts) m n n'" if "puts ts m b b1" for m
        using that replaces_set [OF _ Some] Some by (simp add: puts_def e)
      then show ?thesis using Cons.IH [OF w] Some same by (auto simp: e)
    next
      case None
      obtain nb db0 where nb: "sub__add_hier_entry db = (nb, db0)" by (cases "sub__add_hier_entry db")
      have m0: "mallocs db db0" using mallocs_hier [of db] nb by simp
      show ?thesis
      proof (cases nb)
        case None': None
        then show ?thesis using Cons.prems None nb m0 short by simp
      next
        case (Some b)
        then have b: "b = no_hier" using nb hier_fresh by blast
        obtain rc1 b1 db1 where w: "sub_walk ts add b db0 = ((rc1, b1), db1)" by (metis surj_pair)
        have e: "rc = rc1" "db' = db1" "n' = Subhier (h_subs n) (h_shared n) (ht_add t b1 (h_children n))"
          using Cons.prems None Some nb w short by simp_all
        have same: "same_hier n n'" if "same_hier b b1"
        proof (rule replaces_same)
          have "replaces [] ([], []) no_hier no_hier" using replaces_self [of "[]" no_hier] by simp
          from replaces_add [OF replaces_same_trans [OF this that [unfolded b]] None]
          show "replaces [t] (own (the_node [t] n)) n n'" using None by (simp add: e)
          show "shares_ok (snd (own (the_node [t] n)))" if "hier_wf n"
            using the_node_wf [OF that, of "[t]"] by (simp add: hier_wf_def own_select)
        qed
        have "puts (t # ts) m n n'" if "puts ts m b b1" for m
          using that replaces_add [OF _ None] None by (simp add: puts_def e b)
        then show ?thesis using Cons.IH [OF w] None same mallocs_trans [OF m0] by (auto simp: e b)
      qed
    qed
  qed
qed

section \<open>Adding\<close>

lemma mallocs_fields:
  assumes "mallocs db db'"
  shows "d_subs db' = d_subs db" "d_contexts db' = d_contexts db" "get_ctx c db' = get_ctx c db"
    "d_subscription_count db' = d_subscription_count db" "d_shared_subscription_count db' = d_shared_subscription_count db"
    "d_fault db' = d_fault db"
  using assms by (auto simp: mallocs_def get_ctx_def)

text \<open>A client is subscribed when a leaf of a client with its identifier is there.\<close>

definition serves :: "cptr \<Rightarrow> u8 \<Rightarrow> u32 \<Rightarrow> mosquitto_db \<Rightarrow> mosquitto__subleaf list \<Rightarrow> bool" where
  "serves c qos identifier db subs \<longleftrightarrow> (\<exists>l \<in> set subs. c_id (get_ctx (l_context l) db) = c_id (get_ctx c db)
     \<and> l_qos l = qos \<and> l_identifier l = identifier)"

lemma add_leaf_cases:
  assumes "sub__add_leaf c qos identifier options subs db = ((rc, subs'), db')" "c_id (get_ctx c db) \<noteq> None"
  obtains (exists) "rc = MOSQ_ERR_SUB_EXISTS" "db' = db" "who subs' = who subs" "length subs' = length subs"
      "serves c qos identifier db subs'"
    | (nomem) "rc = MOSQ_ERR_NOMEM" "subs' = subs" "mallocs db db'"
    | (added) l where "rc = MOSQ_ERR_SUCCESS" "mallocs db db'" "subs' = subs @ [l]" "l_context l = c"
      "l_qos l = qos" "l_identifier l = identifier" "\<not> serves c qos identifier db subs"
proof -
  let ?P = "\<lambda>leaf. c_id (get_ctx (l_context leaf) db) \<noteq> None \<and> c_id (get_ctx (l_context leaf) db) = c_id (get_ctx c db)"
  show thesis
  proof (cases "find_index ?P subs")
    case (Some i)
    let ?l = "(subs ! i)\<lparr>l_qos := qos, l_identifier := identifier\<rparr>"
    have i: "i < length subs" "?P (subs ! i)" using find_index_Some [OF Some] by blast+
    have e: "rc = MOSQ_ERR_SUB_EXISTS" "db' = db" "subs' = subs[i := ?l]"
      using assms(1) Some by (simp_all add: sub__add_leaf_def Let_def)
    have "?l \<in> set subs'" using i(1) unfolding e(3) by (rule set_update_memI)
    then have "serves c qos identifier db subs'" using i(2) unfolding serves_def by (intro bexI [of _ ?l]) simp_all
    then show ?thesis using exists [OF e(1,2)] i by (simp add: e(3) who_update)
  next
    case None
    obtain ok db1 where m: "d_malloc db = (ok, db1)" by (cases "d_malloc db")
    have mm: "mallocs db db1" using mallocs_malloc [of db] m by simp
    have "\<not> serves c qos identifier db subs"
      using None assms(2) unfolding find_index_None serves_def by metis
    then show ?thesis using assms(1) None m mm nomem added by (cases ok) (auto simp: sub__add_leaf_def Let_def)
  qed
qed

lemma del_last [simp]: "del_at (length xs) (xs @ [x]) = xs"
  by (simp add: del_at_def)

definition slots_with :: "'a \<Rightarrow> 'a option list \<Rightarrow> 'a option list \<Rightarrow> bool" where
  "slots_with x slots slots' \<longleftrightarrow>
     (\<forall>y. count (mset slots') (Some y) = count (mset slots) (Some y) + (if y = x then 1 else 0))"

lemma slots_append: "slots_with x slots (slots @ [Some x])"
  by (simp add: slots_with_def)

lemma add_ref_cases:
  assumes "add_ref c path db = (ok, db')"
  obtains (fail) "\<not> ok" "mallocs db db'"
    | (filed) db1 slots where "ok" "mallocs db db1" "db' = upd_ctx c (\<lambda>ctx. ctx\<lparr>c_subs := slots\<rparr>) db1"
      "slots_with path (c_subs (get_ctx c db)) slots"
proof (cases "fill_slot path (c_subs (get_ctx c db))")
  case (Some slots)
  then have "slots_with path (c_subs (get_ctx c db)) slots" unfolding slots_with_def by (intro allI fill_slot_count)
  then show ?thesis using assms Some filed [of db slots] by (simp add: add_ref_def)
next
  case None
  obtain b db1 where m: "d_malloc db = (b, db1)" by (cases "d_malloc db")
  have mm: "mallocs db db1" using mallocs_malloc [of db] m by simp
  have e: "upd_ctx c (\<lambda>ctx. ctx\<lparr>c_subs := c_subs ctx @ [Some path]\<rparr>) db1 =
      upd_ctx c (\<lambda>ctx. ctx\<lparr>c_subs := c_subs (get_ctx c db) @ [Some path]\<rparr>) db1"
    using mallocs_fields(3) [OF mm, of c] by (simp add: upd_ctx_def get_ctx_def)
  show ?thesis using assms None m mm fail filed [OF _ mm _ slots_append] e by (cases b) (auto simp: add_ref_def)
qed

lemma add_normal_cases:
  assumes "sub__add_normal c qos identifier options path n db = ((rc, m), db')" "c_id (get_ctx c db) \<noteq> None"
  obtains (same) "own m = own n" "h_children m = h_children n" "rc = MOSQ_ERR_NOMEM" "mallocs db db'"
    | (exists) "who (h_subs m) = who (h_subs n)" "length (h_subs m) = length (h_subs n)" "h_shared m = h_shared n"
      "h_children m = h_children n" "db' = db" "serves c qos identifier db (h_subs m)"
      "rc = added_code c MOSQ_ERR_SUB_EXISTS db"
    | (added) l db1 slots where "own m = (h_subs n @ [l], h_shared n)" "h_children m = h_children n"
      "l_context l = c" "l_qos l = qos" "l_identifier l = identifier" "mallocs db db1"
      "db' = (upd_ctx c (\<lambda>ctx. ctx\<lparr>c_subs := slots\<rparr>) db1)\<lparr>d_subscription_count := d_subscription_count db1 + 1\<rparr>"
      "slots_with path (c_subs (get_ctx c db)) slots" "rc = MOSQ_ERR_SUCCESS"
proof -
  obtain rc1 subs db1 where l: "sub__add_leaf c qos identifier options (h_subs n) db = ((rc1, subs), db1)"
    by (metis surj_pair)
  from l assms(2) show thesis
  proof (cases rule: add_leaf_cases)
    case exists
    then show ?thesis using assms(1) that(2) by (auto simp: sub__add_normal_def l)
  next
    case nomem
    then show ?thesis using assms(1) that(1) by (auto simp: sub__add_normal_def l)
  next
    case (added x)
    obtain ok db2 where r: "add_ref c path db1 = (ok, db2)" by (cases "add_ref c path db1")
    have ctx: "get_ctx c db1 = get_ctx c db" using mallocs_fields(3) [OF added(2)] .
    from r show ?thesis
    proof (cases rule: add_ref_cases)
      case fail
      then show ?thesis using assms(1) that(1) added mallocs_trans [OF added(2) fail(2)] r
        by (auto simp: sub__add_normal_def l)
    next
      case (filed db3 slots)
      have "added_code c MOSQ_ERR_SUCCESS d = MOSQ_ERR_SUCCESS" for d by (simp add: added_code_def)
      then show ?thesis using assms(1) that(3) [of x db3 slots] added filed r mallocs_trans [OF added(2) filed(2)] ctx
        by (auto simp: sub__add_normal_def l upd_ctx_def)
    qed
  qed
qed

text \<open>The shared subscriptions of a node.\<close>

lemma share_update:
  assumes "shares_ok sh" "subs \<noteq> []"
  shows "shares_ok (ht_set name subs sh)"
    and "ht_find name sh = Some old \<Longrightarrow> share n (s, ht_set name subs sh) = (if n = name then subs else share n (s, sh))"
    and "ht_find name sh = Some old \<Longrightarrow> shared_of (s, ht_set name subs sh) + length old = shared_of (s, sh) + length subs"
proof -
  show "shares_ok (ht_set name subs sh)" using assms unfolding shares_ok_def by (auto dest!: set_ht_set)
  assume f: "ht_find name sh = Some old"
  then show "share n (s, ht_set name subs sh) = (if n = name then subs else share n (s, sh))"
    by (simp add: share_def ht_find_set)
  show "shared_of (s, ht_set name subs sh) + length old = shared_of (s, sh) + length subs"
    using f unfolding shared_of_def by (induction sh) (auto split: if_splits)
qed

lemma share_create:
  assumes "shares_ok sh" "subs \<noteq> []" "ht_find name sh = None"
  shows "shares_ok (ht_add name subs sh)"
    and "share n (s, ht_add name subs sh) = (if n = name then subs else share n (s, sh))"
    and "shared_of (s, ht_add name subs sh) = shared_of (s, sh) + length subs"
  using assms by (auto simp: shares_ok_def ht_wf_add share_def ht_find_add shared_of_def) (auto simp: ht_add_def)

lemma share_remove:
  assumes "shares_ok sh" "ht_find name sh = Some old"
  shows "shares_ok (ht_del name sh)"
    and "share n (s, ht_del name sh) = (if n = name then [] else share n (s, sh))"
    and "shared_of (s, ht_del name sh) + length old = shared_of (s, sh)"
proof -
  show "shares_ok (ht_del name sh)" using assms unfolding shares_ok_def by (auto simp: ht_wf_del dest!: set_ht_del)
  show "share n (s, ht_del name sh) = (if n = name then [] else share n (s, sh))"
    using assms by (simp add: share_def shares_ok_def ht_find_del)
  show "shared_of (s, ht_del name sh) + length old = shared_of (s, sh)"
    using assms(2) unfolding shared_of_def by (induction sh) (auto split: if_splits)
qed

lemma set_after_add: "ht_find name sh = None \<Longrightarrow> ht_set name subs (ht_add name old sh) = ht_add name subs sh"
  unfolding ht_add_def by (induction sh) auto

lemma del_after_add: "ht_find name sh = None \<Longrightarrow> ht_del name (ht_add name old sh) = sh"
  unfolding ht_add_def by (induction sh) auto

lemma shared_entry_cases:
  assumes "shared_entry name shared db = (r, db')"
  obtains (nomem) "r = None" "mallocs db db'"
    | (old) subs where "r = Some shared" "ht_find name shared = Some subs" "db' = db"
    | (new) "r = Some (ht_add name [] shared)" "ht_find name shared = None" "mallocs db db'"
proof (cases "ht_find name shared")
  case (Some subs)
  then show ?thesis using old assms by (simp add: shared_entry_def)
next
  case None
  obtain ok1 db1 where 1: "d_malloc db = (ok1, db1)" by (cases "d_malloc db")
  obtain ok2 db2 where 2: "d_malloc db1 = (ok2, db2)" by (cases "d_malloc db1")
  have "mallocs db db1" "mallocs db1 db2" using mallocs_malloc [of db] mallocs_malloc [of db1] 1 2 by simp_all
  then have "mallocs db db1" "mallocs db db2" using mallocs_trans by blast+
  then show ?thesis using None assms nomem new
    by (cases ok1; cases ok2) (simp_all add: shared_entry_def 1 2)
qed

lemma add_shared_ref_cases:
  assumes "add_shared_ref c path name db = (ok, db')"
  obtains (fail) "\<not> ok"
    | (filed) db1 slots where "ok" "mallocs db db1" "db' = upd_ctx c (\<lambda>ctx. ctx\<lparr>c_shared_subs := slots\<rparr>) db1"
      "slots_with (path, name) (c_shared_subs (get_ctx c db)) slots"
proof (cases "fill_slot (path, name) (c_shared_subs (get_ctx c db))")
  case (Some slots)
  then have "slots_with (path, name) (c_shared_subs (get_ctx c db)) slots"
    unfolding slots_with_def by (intro allI fill_slot_count)
  then show ?thesis using assms Some filed [of db slots] by (simp add: add_shared_ref_def)
next
  case None
  obtain b db1 where m: "d_malloc db = (b, db1)" by (cases "d_malloc db")
  have mm: "mallocs db db1" using mallocs_malloc [of db] m by simp
  have e: "upd_ctx c (\<lambda>ctx. ctx\<lparr>c_shared_subs := c_shared_subs ctx @ [Some (path, name)]\<rparr>) db1 =
      upd_ctx c (\<lambda>ctx. ctx\<lparr>c_shared_subs := c_shared_subs (get_ctx c db) @ [Some (path, name)]\<rparr>) db1"
    using mallocs_fields(3) [OF mm, of c] by (simp add: upd_ctx_def get_ctx_def)
  show ?thesis using assms None m mm fail filed [OF _ mm _ slots_append] e
    by (cases b) (auto simp: add_shared_ref_def Let_def)
qed

text \<open>What one more subscription of \<open>c\<close> to the share \<open>name\<close> means for the shares of the node.\<close>

definition share_joined :: "cptr \<Rightarrow> u8 \<Rightarrow> u32 \<Rightarrow> string \<Rightarrow> own \<Rightarrow> own \<Rightarrow> bool" where
  "share_joined c qos identifier name q q' \<longleftrightarrow> fst q' = fst q \<and> shares_ok (snd q')
   \<and> shared_of q' = shared_of q + 1
   \<and> (\<exists>l. l_context l = c \<and> l_qos l = qos \<and> l_identifier l = identifier
        \<and> (\<forall>n. share n q' = (if n = name then share n q @ [l] else share n q)))"

definition share_updated :: "own \<Rightarrow> own \<Rightarrow> bool" where
  "share_updated q q' \<longleftrightarrow> fst q' = fst q \<and> shares_ok (snd q') \<and> shared_of q' = shared_of q
   \<and> (\<forall>n. who (share n q') = who (share n q))"

lemma add_shared_cases:
  assumes a: "sub__add_shared c qos identifier options path name n db = ((rc, m), db')" "c_id (get_ctx c db) \<noteq> None"
    and ok: "shares_ok (h_shared n)"
  obtains (nomem) "rc = MOSQ_ERR_NOMEM"
    | (exists) "share_updated (own n) (own m)" "h_children m = h_children n" "mallocs db db'"
      "serves c qos identifier db (share name (own m))"
    | (added) db1 slots where "share_joined c qos identifier name (own n) (own m)" "h_children m = h_children n"
      "mallocs db db1" "rc = MOSQ_ERR_SUCCESS"
      "db' = (upd_ctx c (\<lambda>ctx. ctx\<lparr>c_shared_subs := slots\<rparr>) db1)\<lparr>d_shared_subscription_count := d_shared_subscription_count db1 + 1\<rparr>"
      "slots_with (path, name) (c_shared_subs (get_ctx c db)) slots"
proof -
  obtain r db0 where e: "shared_entry name (h_shared n) db = (r, db0)" by (cases "shared_entry name (h_shared n) db")
  have m0: "mallocs db db0" using e by (cases rule: shared_entry_cases) simp_all
  show thesis
  proof (cases r)
    case None
    then show ?thesis using a(1) e nomem by (simp add: sub__add_shared_def Let_def)
  next
    case (Some shared)
    define old where "old = (case ht_find name (h_shared n) of None \<Rightarrow> [] | Some subs \<Rightarrow> subs)"
    have f: "the (ht_find name shared) = old"
      using e Some by (cases rule: shared_entry_cases) (auto simp: old_def ht_find_add)
    have sh: "share name (own n) = old" by (simp add: share_def own_select old_def)
    obtain rc1 subs db1 where l: "sub__add_leaf c qos identifier options old db0 = ((rc1, subs), db1)" by (metis surj_pair)
    have set: "subs \<noteq> [] \<Longrightarrow> shares_ok (ht_set name subs shared)
        \<and> (\<forall>k. share k (h_subs n, ht_set name subs shared) = (if k = name then subs else share k (own n)))
        \<and> shared_of (h_subs n, ht_set name subs shared) + length old = shared_of (own n) + length subs"
      using e
    proof (cases rule: shared_entry_cases)
      case (old subs0)
      assume "subs \<noteq> []"
      then show ?thesis using share_update [OF ok, of subs name] old Some old_def by simp
    next
      case new
      assume "subs \<noteq> []"
      then show ?thesis using share_create [OF ok _ new(2), of subs] new Some old_def by (simp add: set_after_add)
    qed (use Some in simp)
    have id: "c_id (get_ctx c db0) \<noteq> None" using a(2) mallocs_fields(3) [OF m0] by simp
    from l id show ?thesis
    proof (cases rule: add_leaf_cases)
      case nomem
      then show ?thesis using a(1) e Some f l that(1) by (simp add: sub__add_shared_def Let_def)
    next
      case exists
      have ne: "subs \<noteq> []" using exists(5) by (auto simp: serves_def)
      have m: "m = Subhier (h_subs n) (ht_set name subs shared) (h_children n)" "db' = db1"
        using a(1) e Some f l exists(1) by (simp_all add: sub__add_shared_def Let_def)
      have sv: "serves c qos identifier db (share name (own m))"
        using exists(5) set [OF ne] mallocs_fields(3) [OF m0] by (simp add: m serves_def)
      have "share_updated (own n) (own m)" using set [OF ne] exists(3,4) sh by (simp add: m share_updated_def own_select)
      then show ?thesis using that(2) sv m exists(2) m0 by simp
    next
      case (added x)
      have ne: "subs \<noteq> []" using added(3) by simp
      obtain b db2 where m2: "d_malloc db1 = (b, db2)" by (cases "d_malloc db1")
      have mm: "mallocs db db2" using mallocs_trans [OF mallocs_trans [OF m0 added(2)]] mallocs_malloc [of db1] m2 by simp
      obtain ok3 db3 where r: "add_shared_ref c path name db2 = (ok3, db3)" by (cases "add_shared_ref c path name db2")
      show ?thesis
      proof (cases b)
        case False
        then show ?thesis using a(1) e Some f l added(1) m2 that(1) by (simp add: sub__add_shared_def Let_def)
      next
        case True
        from r show ?thesis
        proof (cases rule: add_shared_ref_cases)
          case fail
          then show ?thesis using a(1) e Some f l added(1) m2 True r that(1) by (simp add: sub__add_shared_def Let_def)
        next
          case (filed db4 slots)
          have m: "m = Subhier (h_subs n) (ht_set name subs shared) (h_children n)" "rc = MOSQ_ERR_SUCCESS"
            "db' = db3\<lparr>d_shared_subscription_count := d_shared_subscription_count db3 + 1\<rparr>"
            using a(1) e Some f l added(1) m2 True r filed(1)
            by (auto simp: sub__add_shared_def Let_def added_code_def)
          have "share_joined c qos identifier name (own n) (own m)"
            unfolding share_joined_def using set [OF ne] added sh by (auto simp: m own_select)
          then show ?thesis
            using that(3) [of db4 slots] m filed mallocs_trans [OF mm filed(2)] mallocs_fields(3) [OF mm, of c]
            by (simp add: upd_ctx_def)
        qed
      qed
    qed
  qed
qed

text \<open>\<open>sub__add\<close> walks from above the roots.\<close>

lemma malloc_subs: "d_malloc db = (ok, db') \<Longrightarrow> d_subs db' = d_subs db"
  using mallocs_fields(1) mallocs_malloc by (metis snd_conv)

lemma upd_ctx_subs [simp]: "d_subs (upd_ctx c f db) = d_subs db"
  by (simp add: upd_ctx_def)

lemma add_leaf_subs: "sub__add_leaf c qos identifier options subs db = (x, db') \<Longrightarrow> d_subs db' = d_subs db"
  by (auto simp: sub__add_leaf_def Let_def dest: malloc_subs split: option.splits prod.splits bool.splits)

lemma add_normal_subs: "sub__add_normal c qos identifier options path n db = (x, db') \<Longrightarrow> d_subs db' = d_subs db"
  by (auto simp: sub__add_normal_def add_ref_def Let_def dest!: malloc_subs add_leaf_subs
      split: option.splits prod.splits bool.splits if_splits)

lemma add_shared_subs:
  assumes a: "sub__add_shared c qos identifier options path name n db = (x, db')"
  shows "d_subs db' = d_subs db"
proof -
  obtain r db0 where e: "shared_entry name (h_shared n) db = (r, db0)" by (cases "shared_entry name (h_shared n) db")
  have s0: "d_subs db0 = d_subs db" using e mallocs_fields(1) by (cases rule: shared_entry_cases) simp_all
  show ?thesis
  proof (cases r)
    case None
    then show ?thesis using a e s0 by (auto simp: sub__add_shared_def Let_def)
  next
    case (Some shared)
    obtain rc1 subs db1 where l: "sub__add_leaf c qos identifier options (the (ht_find name shared)) db0 = ((rc1, subs), db1)"
      by (metis surj_pair)
    obtain b db2 where m2: "d_malloc db1 = (b, db2)" by (cases "d_malloc db1")
    obtain ok3 db3 where r: "add_shared_ref c path name db2 = (ok3, db3)" by (cases "add_shared_ref c path name db2")
    have s: "d_subs db1 = d_subs db" "d_subs db2 = d_subs db"
      using add_leaf_subs [OF l] malloc_subs [OF m2] s0 by simp_all
    have "d_subs db3 = d_subs db" using r s(2)
      by (auto simp: add_shared_ref_def Let_def dest!: malloc_subs split: option.splits prod.splits bool.splits if_splits)
    then show ?thesis using a e Some l m2 r s
      by (cases b; cases ok3) (auto simp: sub__add_shared_def Let_def split: if_splits)
  qed
qed

lemma add_at_subs: "add_at c qos identifier options path sharename n db = (x, db') \<Longrightarrow> d_subs db' = d_subs db"
  using add_normal_subs add_shared_subs by (auto simp: add_at_def split: if_splits option.splits)

lemma sub_walk_subs:
  assumes "\<And>n db x db'. add n db = (x, db') \<Longrightarrow> d_subs db' = d_subs db"
  shows "sub_walk ts add n db = (x, db') \<Longrightarrow> d_subs db' = d_subs db"
proof -
  obtain rc n' where x: "x = (rc, n')" by (cases x)
  assume "sub_walk ts add n db = (x, db')"
  from sub_walk_spec [OF this [unfolded x]] show ?thesis using assms mallocs_fields(1) by metis
qed

lemma sub_add_walk:
  assumes tok: "sub__topic_tokenise sub (d_mem db) = (Inr (topics, sharename), mem)"
    and ts: "topics_of topics = ts" "ts \<noteq> []" and db0: "db0 = db\<lparr>d_mem := mem\<rparr>"
    and w: "sub_walk (hd ts # ts) (add_at c qos identifier options (hd ts # ts) sharename) (roots db0) db0 = ((rc, n), db')"
  shows "sub__add c sub qos identifier options db = (rc, db'\<lparr>d_subs := h_children n\<rparr>)"
proof -
  let ?add = "add_at c qos identifier options (hd ts # ts) sharename"
  have same: "d\<lparr>d_subs := d_subs d\<rparr> = d" for d :: mosquitto_db by simp
  have dd: "d_subs db = d_subs db0" by (simp add: db0)
  have keep: "d_subs d' = d_subs d" if "sub_walk us ?add m d = (x, d')" for us m d x d'
    by (rule sub_walk_subs [OF _ that], erule add_at_subs)
  show ?thesis
  proof (cases "length (hd ts) > 65535")
    case True
    then show ?thesis using w tok ts by (auto simp: sub__add_def Let_def roots_def db0)
  next
    case False
    show ?thesis
    proof (cases "ht_find (hd ts) (d_subs db0)")
      case (Some b)
      obtain rc1 b1 db1 where w1: "sub_walk ts ?add b db0 = ((rc1, b1), db1)" by (metis surj_pair)
      have "d_subs db1 = d_subs db0" using keep [OF w1] .
      then show ?thesis using w w1 tok ts False Some
        by (auto simp: sub__add_def Let_def roots_def db0 sub__add_context_def)
    next
      case None
      obtain nb db1 where nb: "sub__add_hier_entry db0 = (nb, db1)" by (cases "sub__add_hier_entry db0")
      have s1: "d_subs db1 = d_subs db0" using mallocs_fields(1) [OF mallocs_hier [of db0]] nb by simp
      show ?thesis
      proof (cases nb)
        case None': None
        then have "rc = MOSQ_ERR_NOMEM" "n = roots db0" "db' = db1" using w False None nb by (auto simp: roots_def)
        then show ?thesis using tok ts False None None' nb s1 same [of db1]
          by (simp add: sub__add_def Let_def roots_def dd db0 [symmetric])
      next
        case (Some b)
        obtain rc1 b1 db2 where w1: "sub_walk ts ?add b db1 = ((rc1, b1), db2)" by (metis surj_pair)
        have s2: "d_subs db2 = d_subs db0" using keep [OF w1] s1 by simp
        have "rc = rc1" "n = Subhier [] [] (ht_add (hd ts) b1 (d_subs db0))" "db' = db2"
          using w w1 False None Some nb by (auto simp: roots_def)
        then show ?thesis using tok ts False None Some nb w1 s2
          by (simp add: sub__add_def Let_def sub__add_context_def dd db0 [symmetric])
      qed
    qed
  qed
qed

lemma books_at_root: "books db \<Longrightarrow> shares_ok (snd (own (the_node us (roots db))))"
  using the_node_wf [of "roots db" us] by (simp add: books_defs roots_def hier_wf_def own_select)

lemma count_who_single: "count (add_mset l A) c = count A c + (if c = l then 1 else 0)"
  by simp

lemma roots_children: "n = Subhier [] [] (h_children n) \<Longrightarrow> roots (db\<lparr>d_subs := h_children n\<rparr>) = n"
  by (simp add: roots_def)

lemma sub_walk_top: "sub_walk (t # ts) add (roots db) db0 = ((rc, n), db') \<Longrightarrow> n = Subhier [] [] (h_children n)"
  by (auto simp: roots_def Let_def split: if_splits option.splits prod.splits)

text \<open>The change that a successful step at a node makes to the whole broker.\<close>

lemma add_at_books:
  assumes b: "books db" and m: "mallocs db db1" and n: "n = the_node us (roots db)"
    and a: "add_at c qos identifier options us sharename n db1 = ((rc, m), db')"
    and p: "puts us m (roots db) n'" and top: "n' = Subhier [] [] (h_children n')"
  shows "sharename \<noteq> None \<and> rc = MOSQ_ERR_NOMEM
    \<or> books (db'\<lparr>d_subs := h_children n'\<rparr>)
      \<and> (\<forall>vs. vs \<noteq> us \<longrightarrow> own (the_node vs n') = own (the_node vs (roots db)))
      \<and> (c_id (get_ctx c db) = None \<or> rc = MOSQ_ERR_NOMEM \<or>
         serves c qos identifier db (case sharename of None \<Rightarrow> h_subs (the_node us n') | Some s \<Rightarrow> share s (own (the_node us n'))))"
proof -
  let ?db = "db'\<lparr>d_subs := h_children n'\<rparr>"
  have rt: "roots ?db = n'" using roots_children [OF top] .
  have b1: "books db1" using b books_mallocs [OF m] by simp
  have r1: "roots db1 = roots db" using mallocs_fields(1) [OF m] by (simp add: roots_def)
  have ctx: "get_ctx c' db1 = get_ctx c' db" for c' using mallocs_fields(3) [OF m] .
  have wf: "hier_wf (roots db)" using b by (simp add: books_defs roots_def)
  have okn: "shares_ok (h_shared n)" using books_at_root [OF b, of us] by (simp add: n own_select)
  have rep: "replaces us (own m) (roots db1) n'" if "h_children m = h_children n" using p that n r1 by (simp add: puts_def)
  have oth: "own (the_node vs n') = (if vs = us then own m else own (the_node vs (roots db)))"
    if "h_children m = h_children n" "shares_ok (h_shared m)" for vs
    using replacesD(2) [OF rep [OF that(1)]] wf that(2) r1 by (simp add: own_select)
  have kept: ?thesis if s: "own m = own n" "h_children m = h_children n" "mallocs db1 db'"
      "c_id (get_ctx c db) = None \<or> rc = MOSQ_ERR_NOMEM"
  proof -
    have b2: "books db'" using b1 books_mallocs [OF s(3)] by simp
    have r2: "roots db' = roots db" using mallocs_fields(1) [OF s(3)] r1 by (simp add: roots_def)
    have sh: "shares_ok (h_shared m)" using okn s(1) by (metis own_select(2))
    have "same_hier (roots db') n'"
      by (rule replaces_same) (use rep [OF s(2)] r1 r2 s(1) n books_at_root [OF b, of us] in simp_all)
    then have "books ?db" using rt by (intro books_same [OF b2]) (simp_all add: get_ctx_def)
    then show ?thesis using oth [OF s(2) sh] s n by auto
  qed
  show ?thesis
  proof (cases "c_id (get_ctx c db) = None")
    case True
    then show ?thesis using a kept by (simp add: add_at_def ctx)
  next
    case id: False
    then have id1: "c_id (get_ctx c db1) \<noteq> None" by (simp add: ctx)
    show ?thesis
    proof (cases sharename)
      case None
      with a id1 have "sub__add_normal c qos identifier options us n db1 = ((rc, m), db')" by (simp add: add_at_def)
      from this id1 show ?thesis
      proof (cases rule: add_normal_cases)
        case same
        then show ?thesis using kept by simp
      next
        case exists
        have om: "own m = (h_subs m, h_shared n)" using exists(3) by (metis own_fold)
        have sh: "shares_ok (snd (own m))" using okn by (simp add: om)
        have "books ?db"
          by (rule books_replaces [OF b1 rep [OF exists(4)] rt sh])
             (use exists in \<open>simp_all add: r1 n [symmetric] om ref_count_def shared_ref_count_def get_ctx_def own_select
               share_def subs_of_def shared_of_def\<close>)
        moreover have "serves c qos identifier db (h_subs m)" using exists(6) by (simp add: serves_def ctx)
        moreover have "h_subs (the_node us n') = h_subs m" using oth [OF exists(4), of us] sh by (metis own_select)
        ultimately show ?thesis using oth [OF exists(4)] sh None by (auto simp: own_select)
      next
        case (added l db2 slots)
        note am = added(1)
        have sh: "shares_ok (snd (own m))" using okn by (simp add: am)
        have c2: "get_ctx c' db2 = get_ctx c' db1" for c' using mallocs_fields(3) [OF added(6)] .
        have cs: "c_subs (get_ctx c' ?db) = (if c' = c then slots else c_subs (get_ctx c' db1))"
          "c_shared_subs (get_ctx c' ?db) = c_shared_subs (get_ctx c' db1)" for c'
          using c2 by (simp_all add: added(7) get_ctx_def upd_ctx_def)
        have "books ?db"
        proof (rule books_replaces [OF b1 rep [OF added(2)] rt sh])
          fix c' path name
          show "ref_count c' path ?db + (if path = us then count (who (fst (own (the_node us (roots db1))))) c' else 0)
              = ref_count c' path db1 + (if path = us then count (who (fst (own m))) c' else 0)"
            using added(8) by (simp add: ref_count_def cs slots_with_def r1 n [symmetric] am own_select added(3))
          show "shared_ref_count c' path name ?db + (if path = us then count (who (share name (own (the_node us (roots db1))))) c' else 0)
              = shared_ref_count c' path name db1 + (if path = us then count (who (share name (own m))) c' else 0)"
            by (simp add: shared_ref_count_def cs r1 n [symmetric] am share_def own_select)
        qed (use mallocs_fields [OF added(6)] in \<open>simp_all add: r1 n [symmetric] am subs_of_def shared_of_def own_select
            added(7) upd_ctx_def\<close>)
        moreover have "h_subs (the_node us n') = h_subs n @ [l]" using oth [OF added(2), of us] sh am by (metis fst_conv own_select)
        then have "serves c qos identifier db (h_subs (the_node us n'))" using added(3-5) by (simp add: serves_def)
        ultimately show ?thesis using oth [OF added(2)] sh None by (auto simp: own_select)
      qed
    next
      case (Some s)
      with a id1 have "sub__add_shared c qos identifier options us s n db1 = ((rc, m), db')" by (simp add: add_at_def)
      from this id1 okn show ?thesis
      proof (cases rule: add_shared_cases)
        case nomem
        then show ?thesis using Some by simp
      next
        case exists
        note u = exists(1) [unfolded share_updated_def]
        have sh: "shares_ok (snd (own m))" using u by simp
        have f: "fst (own m) = fst (own n)" using u by simp
        have cs: "get_ctx c' ?db = get_ctx c' db1" for c' using mallocs_fields(3) [OF exists(3), of c'] by (simp add: get_ctx_def)
        have "books ?db"
          by (rule books_replaces [OF b1 rep [OF exists(2)] rt sh])
             (use u mallocs_fields [OF exists(3)] in \<open>simp_all add: r1 n [symmetric] f ref_count_def shared_ref_count_def cs
               subs_of_def\<close>)
        moreover have "serves c qos identifier db (share s (own m))" using exists(4) by (simp add: serves_def ctx)
        ultimately show ?thesis using oth [OF exists(2)] sh Some by (simp add: own_select)
      next
        case (added db2 slots)
        note u = added(1) [unfolded share_joined_def]
        obtain l where l: "l_context l = c" "l_qos l = qos" "l_identifier l = identifier"
          "\<And>k. share k (own m) = (if k = s then share k (own n) @ [l] else share k (own n))" using u by blast
        have sh: "shares_ok (snd (own m))" using u by simp
        have f: "fst (own m) = fst (own n)" using u by simp
        have c2: "get_ctx c' db2 = get_ctx c' db1" for c' using mallocs_fields(3) [OF added(3)] .
        have cs: "c_shared_subs (get_ctx c' ?db) = (if c' = c then slots else c_shared_subs (get_ctx c' db1))"
          "c_subs (get_ctx c' ?db) = c_subs (get_ctx c' db1)" for c'
          using c2 by (simp_all add: added(5) get_ctx_def upd_ctx_def)
        have "books ?db"
        proof (rule books_replaces [OF b1 rep [OF added(2)] rt sh])
          fix c' path name
          show "ref_count c' path ?db + (if path = us then count (who (fst (own (the_node us (roots db1))))) c' else 0)
              = ref_count c' path db1 + (if path = us then count (who (fst (own m))) c' else 0)"
            by (simp add: ref_count_def cs r1 n [symmetric] f)
          show "shared_ref_count c' path name ?db + (if path = us then count (who (share name (own (the_node us (roots db1))))) c' else 0)
              = shared_ref_count c' path name db1 + (if path = us then count (who (share name (own m))) c' else 0)"
            using added(6) by (simp add: shared_ref_count_def cs slots_with_def r1 n [symmetric] l)
        qed (use u mallocs_fields [OF added(3)] in \<open>simp_all add: r1 n [symmetric] subs_of_def f added(5) upd_ctx_def\<close>)
        moreover have "serves c qos identifier db (share s (own m))" using l by (simp add: serves_def)
        ultimately show ?thesis using oth [OF added(2)] sh Some by (simp add: own_select)
      qed
    qed
  qed
qed

text \<open>The whole of \<open>sub__add\<close>; the path of a subscription starts with its root.\<close>

definition sub_path :: "string \<Rightarrow> string list" where
  "sub_path sub = hd (filed_levels sub) # filed_levels sub"

definition subscribed :: "cptr \<Rightarrow> u8 \<Rightarrow> u32 \<Rightarrow> string \<Rightarrow> mosquitto_db \<Rightarrow> mosquitto_db \<Rightarrow> bool" where
  "subscribed c qos identifier sub db0 db \<longleftrightarrow> serves c qos identifier db0
     (case share_group sub of
        None \<Rightarrow> h_subs (the_node (sub_path sub) (roots db))
      | Some s \<Rightarrow> share s (own (the_node (sub_path sub) (roots db))))"

lemma sub_add_ok:
  assumes b: "books db" and ne: "sub \<noteq> []" and a: "sub__add c sub qos identifier options db = (rc, db')"
  shows "share_group sub \<noteq> None \<and> rc = MOSQ_ERR_NOMEM
    \<or> books db'
      \<and> (\<forall>vs. vs \<noteq> sub_path sub \<longrightarrow> own (the_node vs (roots db')) = own (the_node vs (roots db)))
      \<and> (rc \<in> {MOSQ_ERR_SUCCESS, MOSQ_ERR_SUB_EXISTS} \<longrightarrow> c_id (get_ctx c db) = None \<or> subscribed c qos identifier sub db db')"
proof -
  obtain r mem where t: "sub__topic_tokenise sub (d_mem db) = (r, mem)" by (cases "sub__topic_tokenise sub (d_mem db)")
  let ?db = "db\<lparr>d_mem := mem\<rparr>"
  have m0: "mallocs db ?db" by (rule mem_mallocs) (rule tokenise_mem [OF t])
  have b0: "books ?db" using b books_mallocs [OF m0] by simp
  have r0: "roots ?db = roots db" by (simp add: roots_def)
  show ?thesis
  proof (rule sub__topic_tokenise_cases [OF ne, of "d_mem db"], goal_cases)
    case 1
    then have "rc = MOSQ_ERR_NOMEM" "db' = ?db" using a t by (simp_all add: sub__add_def)
    then show ?thesis using b0 r0 by simp
  next
    case 2
    then have "rc = MOSQ_ERR_PROTOCOL" "db' = ?db" using a t by (simp_all add: sub__add_def)
    then show ?thesis using b0 r0 by simp
  next
    case (3 ts)
    then have tt: "sub__topic_tokenise sub (d_mem db) = (Inr (ts, share_group sub), mem)" using t by simp
    let ?add = "add_at c qos identifier options (sub_path sub) (share_group sub)"
    obtain rc1 n db1 where w: "sub_walk (sub_path sub) ?add (roots ?db) ?db = ((rc1, n), db1)" by (metis surj_pair)
    have e: "rc = rc1" "db' = db1\<lparr>d_subs := h_children n\<rparr>"
      using sub_add_walk [OF tt 3(2) _ refl w [unfolded sub_path_def]] a by (simp_all add: filed_levels_def)
    have top: "n = Subhier [] [] (h_children n)" using sub_walk_top [OF w [unfolded sub_path_def]] .
    have rt: "roots db' = n" using roots_children [OF top] by (simp add: e)
    have e3: "db1\<lparr>d_subs := h_children (roots db')\<rparr> = db'" by (simp add: e(2) roots_def)
    from sub_walk_spec [OF w] show ?thesis
    proof (elim disjE exE conjE)
      fix db2 m assume s: "mallocs ?db db2" "?add (the_node (sub_path sub) (roots ?db)) db2 = ((rc1, m), db1)"
        "puts (sub_path sub) m (roots ?db) n"
      from add_at_books [OF b0 s(1) refl s(2,3) top] show ?thesis
        unfolding e(1) [symmetric] rt [symmetric] e3 r0 subscribed_def serves_def
        by (auto simp: get_ctx_def split: option.splits)
    next
      assume s: "rc1 \<in> {MOSQ_ERR_NOMEM, MOSQ_ERR_INVAL}" "mallocs ?db db1" "same_hier (roots ?db) n"
      have b1: "books db1" "roots db1 = roots db"
        using b0 books_mallocs [OF s(2)] mallocs_fields(1) [OF s(2)] by (simp_all add: roots_def)
      have "books db'"
        by (rule books_same [OF b1(1)]) (use s(3) rt b1(2) r0 in \<open>simp_all add: e get_ctx_def\<close>)
      moreover have "hier_wf (roots db)" using b by (simp add: books_defs roots_def)
      then have "own (the_node vs n) = own (the_node vs (roots db))" for vs using s(3) r0 by (simp add: same_hier_def)
      ultimately show ?thesis using s(1) e(1) rt by auto
    qed
  qed
qed

end
