(* ===== verification/Subs_Remove.thy ===== *)
theory Subs_Remove
  imports Subs_Ok
begin

text \<open>
  Unsubscribing and the end of a session: both take away exactly the subscriptions they are about,
  the nodes that become empty go with them, and no reference to a freed node is followed.
\<close>

section \<open>Unsubscribing\<close>

lemma slot_of_ref: "ref_count c path db > 0 \<Longrightarrow> Some path \<in> set (c_subs (get_ctx c db))"
  unfolding ref_count_def count_greater_zero_iff by simp

lemma slot_of_shared_ref: "shared_ref_count c path name db > 0 \<Longrightarrow> Some (path, name) \<in> set (c_shared_subs (get_ctx c db))"
  unfolding shared_ref_count_def count_greater_zero_iff by simp

lemma find_context:
  "(case find_index (\<lambda>l. l_context l = c) subs of
      None \<Rightarrow> c \<notin># who subs
    | Some i \<Rightarrow> i < length subs \<and> who subs = add_mset c (who (del_at i subs)))"
proof (cases "find_index (\<lambda>l. l_context l = c) subs")
  case None
  moreover have "c \<notin># who subs" using None unfolding find_index_None by (auto simp: who_def)
  ultimately show ?thesis by simp
next
  case (Some i)
  then show ?thesis using find_index_Some [OF Some] who_del_at [of i subs] by simp
qed

text \<open>What the removal at a node does.\<close>

definition removed :: "cptr \<Rightarrow> string list \<Rightarrow> string option \<Rightarrow> u8 \<Rightarrow> mosquitto__subhier \<Rightarrow> mosquitto_db \<Rightarrow>
    mosquitto__subhier \<Rightarrow> u8 \<Rightarrow> mosquitto_db \<Rightarrow> bool" where
  "removed c path sharename reason n db m reason' db' \<longleftrightarrow>
     (\<exists>rc. (case sharename of
        Some s \<Rightarrow> sub__remove_shared c path n reason s db
      | None \<Rightarrow> sub__remove_normal c path n reason db) = ((rc, m, reason'), db'))"

lemma removed_children: "removed c path sharename reason n db m reason' db' \<Longrightarrow> h_children m = h_children n"
  by (auto simp: removed_def sub__remove_shared_def sub__remove_normal_def Let_def split: option.splits)

lemma remove_recurse_spec:
  "sub__remove_recurse ts c path n reason sharename db = ((rc, n', reason'), db') \<Longrightarrow>
   (node_below ts n = None \<and> db' = db \<and> reason' = reason \<and> replaces ts ([], []) n n')
   \<or> (\<exists>b m. node_below ts n = Some b \<and> removed c (path @ ts) sharename reason b db m reason' db' \<and> replaces ts (own m) n n')"
proof (induction ts arbitrary: n path rc n' reason' db')
  case Nil
  then have "removed c path sharename reason n db n' reason' db'" by (auto simp: removed_def split: option.splits)
  note r = this
  have "replaces [] (own n') n n'"
    using puts_here [of n' n] removed_children [OF r] by (simp add: puts_def)
  then show ?case using r by auto
next
  case (Cons t ts)
  show ?case
  proof (cases "ht_find t (h_children n)")
    case None
    then show ?thesis using Cons.prems replaces_self [of "t # ts" n] by simp
  next
    case (Some b)
    obtain rc1 b1 r1 db1 where w: "sub__remove_recurse ts c (path @ [t]) b reason sharename db = ((rc1, b1, r1), db1)"
      by (metis surj_pair)
    have e: "reason' = r1" "db' = db1" "n' = Subhier (h_subs n) (h_shared n)
        (if hier_empty b1 then ht_del t (h_children n) else ht_set t b1 (h_children n))"
      using Cons.prems Some w by auto
    have up: "replaces (t # ts) q n n'" if "replaces ts q b b1" for q
      unfolding e(3) using replaces_set [OF that Some] replaces_del [OF that Some] by simp
    from Cons.IH [OF w] show ?thesis
    proof (elim disjE exE conjE)
      assume a: "node_below ts b = None" "db1 = db" "r1 = reason" "replaces ts ([], []) b b1"
      show ?thesis by (rule disjI1) (use a(1-3) e(1,2) Some up [OF a(4)] in simp)
    next
      fix b' m assume a: "node_below ts b = Some b'" "removed c ((path @ [t]) @ ts) sharename reason b' db m r1 db1"
        "replaces ts (own m) b b1"
      show ?thesis by (rule disjI2, rule exI [of _ b'], rule exI [of _ m]) (use a(1,2) e(1,2) Some up [OF a(3)] in simp)
    qed
  qed
qed

text \<open>The list that a subscription is in.\<close>

definition sub_list :: "string option \<Rightarrow> own \<Rightarrow> mosquitto__subleaf list" where
  "sub_list sharename q = (case sharename of None \<Rightarrow> fst q | Some s \<Rightarrow> share s q)"

lemma removed_books:
  assumes b: "books db" and at: "node_below us (roots db) = Some n"
    and r: "removed c us sharename reason n db m reason' db1" and rep: "replaces us (own m) (roots db) n'"
    and top: "n' = Subhier [] [] (h_children n')"
  shows "books (db1\<lparr>d_subs := h_children n'\<rparr>)
    \<and> (\<forall>vs. vs \<noteq> us \<longrightarrow> own (the_node vs n') = own (the_node vs (roots db)))
    \<and> d_fault db1 = d_fault db
    \<and> (if c \<in># who (sub_list sharename (own n))
       then reason' = 0 \<and> who (sub_list sharename (own n)) = add_mset c (who (sub_list sharename (own (the_node us n'))))
       else reason' = reason \<and> own (the_node us n') = own n)"
proof -
  let ?db = "db1\<lparr>d_subs := h_children n'\<rparr>"
  have rt: "roots ?db = n'" using roots_children [OF top] .
  have n: "the_node us (roots db) = n" using at by (simp add: the_node_def)
  have wf: "hier_wf (roots db)" using b by (simp add: books_defs roots_def)
  have okn: "shares_ok (h_shared n)" using books_at_root [OF b, of us] by (simp add: n own_select)
  have oth: "own (the_node vs n') = (if vs = us then own m else own (the_node vs (roots db)))" if "shares_ok (snd (own m))" for vs
    using replacesD(2) [OF rep wf that] .
  have kept: ?thesis if "m = n" "db1 = db" "reason' = reason" "c \<notin># who (sub_list sharename (own n))"
  proof -
    have sh: "shares_ok (snd (own m))" using okn that(1) by (simp add: own_select)
    have "same_hier (roots db) n'"
      by (rule replaces_same [of us]) (use rep that(1) n books_at_root [OF b, of us] in simp_all)
    then have "books ?db" using rt that(2) by (intro books_same [OF b]) (simp_all add: get_ctx_def)
    then show ?thesis using oth [OF sh] that by simp
  qed
  show ?thesis
  proof (cases sharename)
    case None
    note f = find_context [of c "h_subs n"]
    show ?thesis
    proof (cases "find_index (\<lambda>l. l_context l = c) (h_subs n)")
      case None': None
      then show ?thesis using r kept f None by (auto simp: removed_def sub__remove_normal_def sub_list_def own_select)
    next
      case (Some i)
      have m: "own m = (del_at i (h_subs n), h_shared n)" "reason' = 0"
        "db1 = upd_ctx c (\<lambda>ctx. ctx\<lparr>c_subs := drop_slot us (c_subs ctx)\<rparr>)
          (db\<lparr>d_subscription_count := d_subscription_count db - 1\<rparr>)"
        using r None Some by (auto simp: removed_def sub__remove_normal_def Let_def)
      have w: "i < length (h_subs n)" "who (h_subs n) = add_mset c (who (del_at i (h_subs n)))" using f Some by simp_all
      have sh: "shares_ok (snd (own m))" using okn by (simp add: m)
      have "ref_count c us db = count (who (h_subs n)) c" using b n by (simp add: books_defs own_select)
      then have sl: "Some us \<in> set (c_subs (get_ctx c db))" using w by (intro slot_of_ref) simp
      have cs: "c_subs (get_ctx c' ?db) = (if c' = c then drop_slot us (c_subs (get_ctx c db)) else c_subs (get_ctx c' db))"
        "c_shared_subs (get_ctx c' ?db) = c_shared_subs (get_ctx c' db)" for c'
        by (simp_all add: m(3) get_ctx_def upd_ctx_def)
      have "books ?db"
      proof (rule books_replaces [OF b rep rt sh])
        fix c' path name
        show "ref_count c' path ?db + (if path = us then count (who (fst (own (the_node us (roots db))))) c' else 0)
            = ref_count c' path db + (if path = us then count (who (fst (own m))) c' else 0)"
          using drop_slot_count [OF sl, of path] w(2) unfolding ref_count_def cs n m(1)
            by (cases "c' = c") (auto simp: own_select split: if_splits)
        show "shared_ref_count c' path name ?db + (if path = us then count (who (share name (own (the_node us (roots db))))) c' else 0)
            = shared_ref_count c' path name db + (if path = us then count (who (share name (own m))) c' else 0)"
          unfolding shared_ref_count_def cs n m(1) by (simp add: share_def own_select)
      qed (use w(1) in \<open>simp_all add: n m subs_of_def shared_of_def own_select upd_ctx_def length_del_at\<close>)
      moreover have "d_fault db1 = d_fault db" by (simp add: m(3) upd_ctx_def)
      ultimately show ?thesis using oth [OF sh] w(2) m(1,2) None by (simp add: sub_list_def own_select)
    qed
  next
    case (Some s)
    show ?thesis
    proof (cases "ht_find s (h_shared n)")
      case None
      then show ?thesis using r kept Some by (auto simp: removed_def sub__remove_shared_def sub_list_def share_def own_select)
    next
      case f0: (Some subs)
      have sl: "share s (own n) = subs" using f0 by (simp add: share_def own_select)
      note f = find_context [of c subs]
      show ?thesis
      proof (cases "find_index (\<lambda>l. l_context l = c) subs")
        case None
        then show ?thesis using r kept f f0 sl Some by (auto simp: removed_def sub__remove_shared_def sub_list_def)
      next
        case found: (Some i)
        let ?sh = "if del_at i subs = [] then ht_del s (h_shared n) else ht_set s (del_at i subs) (h_shared n)"
        have m: "own m = (h_subs n, ?sh)" "reason' = 0"
          "db1 = upd_ctx c (\<lambda>ctx. ctx\<lparr>c_shared_subs := drop_slot (us, s) (c_shared_subs ctx)\<rparr>)
            (db\<lparr>d_shared_subscription_count := d_shared_subscription_count db - 1\<rparr>)"
          using r Some f0 found by (auto simp: removed_def sub__remove_shared_def Let_def)
        have w: "i < length subs" "who subs = add_mset c (who (del_at i subs))" using f found by simp_all
        have shx: "shares_ok ?sh" using share_update(1) [OF okn] share_remove(1) [OF okn f0] by simp
        then have sh: "shares_ok (snd (own m))" by (simp add: m)
        have shm: "share k (own m) = (if k = s then del_at i subs else share k (own n))" for k
          using share_update(2) [OF okn _ f0, of "del_at i subs" k "h_subs n"] share_remove(2) [OF okn f0, of k "h_subs n"]
          by (cases "del_at i subs = []"; cases "k = s") (simp_all add: m)
        have cnt: "shared_of (own m) + 1 = shared_of (own n)"
          using share_update(3) [OF okn _ f0, of "del_at i subs" "h_subs n"] share_remove(3) [OF okn f0, of "h_subs n"]
            length_del_at [OF w(1)] w(1) by (cases "del_at i subs = []") (simp_all add: m)
        have "shared_ref_count c us s db = count (who subs) c" using b n sl by (simp add: books_defs)
        then have slot: "Some (us, s) \<in> set (c_shared_subs (get_ctx c db))" using w by (intro slot_of_shared_ref) simp
        have cs: "c_shared_subs (get_ctx c' ?db) = (if c' = c then drop_slot (us, s) (c_shared_subs (get_ctx c db))
            else c_shared_subs (get_ctx c' db))" "c_subs (get_ctx c' ?db) = c_subs (get_ctx c' db)" for c'
          by (simp_all add: m(3) get_ctx_def upd_ctx_def)
        have "books ?db"
        proof (rule books_replaces [OF b rep rt sh])
          fix c' path name
          show "ref_count c' path ?db + (if path = us then count (who (fst (own (the_node us (roots db))))) c' else 0)
              = ref_count c' path db + (if path = us then count (who (fst (own m))) c' else 0)"
            unfolding ref_count_def cs n m(1) by (simp add: own_select)
          show "shared_ref_count c' path name ?db + (if path = us then count (who (share name (own (the_node us (roots db))))) c' else 0)
              = shared_ref_count c' path name db + (if path = us then count (who (share name (own m))) c' else 0)"
            using drop_slot_count [OF slot, of "(path, name)"] w(2) sl unfolding shared_ref_count_def cs n shm
              by (cases "c' = c") (auto split: if_splits)
        next
          show "d_subscription_count ?db + int (subs_of (own (the_node us (roots db)))) = d_subscription_count db + int (subs_of (own m))"
            by (simp add: n m subs_of_def own_select upd_ctx_def)
          show "d_shared_subscription_count ?db + int (shared_of (own (the_node us (roots db))))
              = d_shared_subscription_count db + int (shared_of (own m))"
            using cnt by (simp add: n m(3) upd_ctx_def)
        qed
        moreover have "d_fault db1 = d_fault db" by (simp add: m(3) upd_ctx_def)
        moreover have "share s (own (the_node us n')) = del_at i subs" using oth [OF sh, of us] shm by simp
        ultimately show ?thesis using oth [OF sh] w(2) m(2) sl Some by (simp add: sub_list_def)
      qed
    qed
  qed
qed

text \<open>The subscriptions with the given filter.\<close>

definition subscribers :: "string \<Rightarrow> mosquitto_db \<Rightarrow> mosquitto__subleaf list" where
  "subscribers sub db = sub_list (share_group sub) (own (the_node (sub_path sub) (roots db)))"

lemma removed_subs: "removed c us sharename reason n db m reason' db' \<Longrightarrow> d_subs db' = d_subs db"
  by (auto simp: removed_def sub__remove_shared_def sub__remove_normal_def Let_def upd_ctx_def split: option.splits)

lemma sub_remove_ok:
  assumes b: "books db" and ne: "sub \<noteq> []" and r: "sub__remove c sub reason0 db = ((rc, reason), db')"
  shows "books db' \<and> d_fault db' = d_fault db
    \<and> (\<forall>vs. vs \<noteq> sub_path sub \<longrightarrow> own (the_node vs (roots db')) = own (the_node vs (roots db)))
    \<and> (if rc \<in> {MOSQ_ERR_NOMEM, MOSQ_ERR_PROTOCOL}
       then reason = reason0 \<and> own (the_node (sub_path sub) (roots db')) = own (the_node (sub_path sub) (roots db))
       else if c \<in># who (subscribers sub db)
       then reason = 0 \<and> who (subscribers sub db) = add_mset c (who (subscribers sub db'))
       else reason \<in> {reason0, MQTT_RC_NO_SUBSCRIPTION_EXISTED}
         \<and> own (the_node (sub_path sub) (roots db')) = own (the_node (sub_path sub) (roots db)))"
proof -
  obtain x mem where t: "sub__topic_tokenise sub (d_mem db) = (x, mem)" by (cases "sub__topic_tokenise sub (d_mem db)")
  define db0 where "db0 = db\<lparr>d_mem := mem\<rparr>"
  have m0: "mallocs db db0" unfolding db0_def by (rule mem_mallocs) (rule tokenise_mem [OF t])
  have b0: "books db0" using b books_mallocs [OF m0] by simp
  have r0: "roots db0 = roots db" "d_fault db0 = d_fault db" "d_subs db0 = d_subs db" by (simp_all add: db0_def roots_def)
  show ?thesis
  proof (rule sub__topic_tokenise_cases [OF ne, of "d_mem db"], goal_cases)
    case 1
    then have "rc = MOSQ_ERR_NOMEM" "reason = reason0" "db' = db0" using r t by (simp_all add: sub__remove_def db0_def)
    then show ?thesis using b0 r0 by simp
  next
    case 2
    then have "rc = MOSQ_ERR_PROTOCOL" "reason = reason0" "db' = db0" using r t by (simp_all add: sub__remove_def db0_def)
    then show ?thesis using b0 r0 by simp
  next
    case (3 ts)
    define fs where "fs = filed_levels sub"
    define g where "g = share_group sub"
    have us: "sub_path sub = hd fs # fs" by (simp add: sub_path_def fs_def)
    have tt: "sub__topic_tokenise sub (d_mem db) = (Inr (ts, g), mem)" "topics_of ts = fs"
      using 3 t by (simp_all add: fs_def g_def)
    show ?thesis
    proof (cases "ht_find (hd fs) (d_subs db)")
      case None
      then have e: "reason = reason0" "db' = db0" "rc = MOSQ_ERR_SUCCESS"
        using r tt by (simp_all add: sub__remove_def Let_def db0_def)
      have "the_node (sub_path sub) (roots db) = no_hier" using None by (simp add: us roots_def)
      then have "subscribers sub db = []"
        by (simp add: subscribers_def sub_list_def split: option.split)
      then show ?thesis using b0 r0 e by simp
    next
      case (Some h)
      obtain rc1 h1 rs1 db1 where w: "sub__remove_recurse fs c [hd fs] h MQTT_RC_NO_SUBSCRIPTION_EXISTED g db0 = ((rc1, h1, rs1), db1)"
        by (metis surj_pair)
      have e: "rc = rc1" "reason = rs1" "db' = db1\<lparr>d_subs := ht_set (hd fs) h1 (d_subs db1)\<rparr>"
        using r tt Some w by (simp_all add: sub__remove_def Let_def db0_def [symmetric])
      define n' where "n' = Subhier [] [] (ht_set (hd fs) h1 (d_subs db))"
      have up: "replaces (sub_path sub) q (roots db0) n'" if "replaces fs q h h1" for q
        using replaces_set [OF that, of "hd fs" "roots db0"] Some by (simp add: us n'_def roots_def r0)
      have below: "node_below (sub_path sub) (roots db0) = node_below fs h" using Some by (simp add: us roots_def r0)
      have top: "n' = Subhier [] [] (h_children n')" by (simp add: n'_def)
      have code: "rc \<notin> {MOSQ_ERR_NOMEM, MOSQ_ERR_PROTOCOL}"
        using w by (cases fs) (auto simp: e(1) sub__remove_shared_def sub__remove_normal_def Let_def
            split: option.splits prod.splits)
      from remove_recurse_spec [OF w] show ?thesis
      proof (elim disjE exE conjE)
        assume a: "node_below fs h = None" "db1 = db0" "rs1 = MQTT_RC_NO_SUBSCRIPTION_EXISTED" "replaces fs ([], []) h h1"
        have e': "roots db' = n'" by (simp add: e(3) a(2) roots_def n'_def r0)
        have n0: "the_node (sub_path sub) (roots db0) = no_hier" using below a(1) by (simp add: the_node_def)
        have sh: "same_hier (roots db0) n'" by (rule replaces_same [of "sub_path sub"]) (use up [OF a(4)] n0 in simp_all)
        have bk: "books db'"
          by (rule books_same [OF b0]) (use sh e' in \<open>simp_all add: e(3) a(2) get_ctx_def\<close>)
        have "hier_wf (roots db0)" using b0 by (simp add: books_defs roots_def)
        then have ow: "own (the_node vs (roots db')) = own (the_node vs (roots db))" for vs
          using sh e' r0 by (simp add: same_hier_def)
        have "subscribers sub db = []" using n0 r0 by (simp add: subscribers_def sub_list_def split: option.split)
        then show ?thesis using bk ow e(2) a(3) r0 code by (simp add: e(3) a(2))
      next
        fix b' m assume a: "node_below fs h = Some b'"
          "removed c ([hd fs] @ fs) g MQTT_RC_NO_SUBSCRIPTION_EXISTED b' db0 m rs1 db1" "replaces fs (own m) h h1"
        have a2: "removed c (sub_path sub) g MQTT_RC_NO_SUBSCRIPTION_EXISTED b' db0 m rs1 db1" using a(2) by (simp add: us)
        have at: "node_below (sub_path sub) (roots db0) = Some b'" using below a(1) by simp
        have e': "db' = db1\<lparr>d_subs := h_children n'\<rparr>" using removed_subs [OF a2] by (simp add: e(3) n'_def r0)
        have rt: "roots db' = n'" using e' roots_children [OF top] by simp
        note x = removed_books [OF b0 at a2 up [OF a(3)] top]
        have own: "own b' = own (the_node (sub_path sub) (roots db))" using at r0 by (simp add: the_node_def)
        have q: "db1\<lparr>d_subs := h_children (roots db')\<rparr> = db'" "d_fault db' = d_fault db1" by (simp_all add: e' roots_def)
        show ?thesis using x code unfolding rt [symmetric] q(1) own subscribers_def e(2) g_def r0 q(2)
          by (simp split: if_splits)
      qed
    qed
  qed
qed

end
