(* ===== verification/Subs_Clean.thy ===== *)
theory Subs_Clean
  imports Subs_Remove
begin

text \<open>
  The end of a session: every reference of the client is followed to the node it names, which
  is still there, the client's leaf is taken away, and the nodes that became empty are unlinked.
\<close>

section \<open>Writing at a path\<close>

lemma hier_at_below: "us \<noteq> [] \<Longrightarrow> hier_at us rs = node_below us (Subhier [] [] rs)"
proof (induction us rs rule: hier_at.induct)
  case (3 k k' ks roots)
  have "node_below (k' # ks) n = node_below (k' # ks) (Subhier [] [] (h_children n))" for n by simp
  then show ?case using 3 by (auto split: option.split)
qed (auto split: option.split)

lemma below_append: "node_below (us @ vs) n = (case node_below us n of None \<Rightarrow> None | Some m \<Rightarrow> node_below vs m)"
  by (induction us arbitrary: n) (auto split: option.split)

text \<open>A node with the update below it.\<close>

definition updated :: "string list \<Rightarrow> (mosquitto__subhier \<Rightarrow> mosquitto__subhier) \<Rightarrow> mosquitto__subhier \<Rightarrow> mosquitto__subhier" where
  "updated us f n = (if us = [] then f n else Subhier (h_subs n) (h_shared n) (hier_update us f (h_children n)))"

lemma updated_Cons:
  "ht_find k (h_children n) = Some b \<Longrightarrow>
   updated (k # ks) f n = Subhier (h_subs n) (h_shared n) (ht_set k (updated ks f b) (h_children n))"
  by (simp add: updated_def)

lemma updated_replaces:
  "node_below us n = Some m \<Longrightarrow> replaces ts q m (f m) \<Longrightarrow> replaces (us @ ts) q n (updated us f n)"
proof (induction us arbitrary: n)
  case Nil
  then show ?case by (simp add: updated_def)
next
  case (Cons k ks)
  then obtain b where b: "ht_find k (h_children n) = Some b" by (auto split: option.splits)
  have "replaces (ks @ ts) q b (updated ks f b)" using Cons b by simp
  from replaces_set [OF this b] show ?case by (simp add: updated_Cons [OF b])
qed

lemma updated_below: "node_below us n = Some m \<Longrightarrow> node_below us (updated us f n) = Some (f m)"
proof (induction us arbitrary: n)
  case Nil
  then show ?case by (simp add: updated_def)
next
  case (Cons k ks)
  then obtain b where b: "ht_find k (h_children n) = Some b" by (auto split: option.splits)
  then show ?case using Cons by (simp add: updated_Cons [OF b] ht_find_set)
qed

lemma roots_update:
  "us \<noteq> [] \<Longrightarrow> roots (db\<lparr>d_subs := hier_update us f (d_subs db)\<rparr>) = updated us f (roots db)"
  by (simp add: updated_def roots_def)

lemma hier_at_roots: "us \<noteq> [] \<Longrightarrow> hier_at us (d_subs db) = node_below us (roots db)"
  by (simp add: hier_at_below roots_def)

section \<open>Unlinking empty nodes\<close>

text \<open>Only the shape of the tree changes.\<close>

definition reshaped :: "mosquitto_db \<Rightarrow> mosquitto_db \<Rightarrow> bool" where
  "reshaped db db' \<longleftrightarrow> (\<exists>subs. db' = db\<lparr>d_subs := subs\<rparr>) \<and> same_hier (roots db) (roots db')"

lemma reshaped_refl [simp]: "reshaped db db"
  unfolding reshaped_def by (intro conjI exI [of _ "d_subs db"]) simp_all

lemma reshaped_trans: "reshaped db db' \<Longrightarrow> reshaped db' db'' \<Longrightarrow> reshaped db db''"
  unfolding reshaped_def by (auto intro: same_hier_trans)

lemma unlink_step:
  assumes s: "hier_at path (d_subs db) = Some sub" "hier_empty sub" "length path > 1"
    and t: "tmp_remove_subs path db = (next, db')"
  shows "reshaped db db'"
    and "next = Some parent \<Longrightarrow> \<exists>p. hier_at parent (d_subs db') = Some p \<and> hier_empty p \<and> length parent > 1"
proof -
  let ?parent = "butlast path" and ?k = "last path"
  let ?f = "\<lambda>p. Subhier (h_subs p) (h_shared p) (ht_del ?k (h_children p))"
  let ?db = "db\<lparr>d_subs := hier_update ?parent ?f (d_subs db)\<rparr>"
  have ne: "path \<noteq> []" "?parent \<noteq> []" using s(3) by (cases path; auto simp: butlast_conv_take)+
  have pk: "path = ?parent @ [?k]" using ne by simp
  have "node_below (?parent @ [?k]) (roots db) = Some sub" using s(1) hier_at_roots [OF ne(1), of db] pk by simp
  then obtain p where p: "node_below ?parent (roots db) = Some p" "ht_find ?k (h_children p) = Some sub"
    by (auto simp: below_append split: option.splits)
  have r: "roots ?db = updated ?parent ?f (roots db)" using roots_update [OF ne(2)] .
  have "replaces [] (own sub) sub sub" using replaces_self [of "[]" sub] by simp
  from replaces_del [OF this p(2) s(2)]
  have "replaces [?k] (own sub) p (?f p)" .
  from updated_replaces [where f = ?f, OF p(1) this]
  have rep: "replaces path (own sub) (roots db) (roots ?db)" unfolding r using pk by simp
  have "the_node path (roots db) = sub" using s(1) hier_at_roots [OF ne(1), of db] by (simp add: the_node_def)
  moreover have "own sub = ([], [])" using s(2) by (cases sub) (simp add: hier_empty_def)
  ultimately have "same_hier (roots db) (roots ?db)" using replaces_same [of path "roots db"] rep by simp
  then have rs: "reshaped db ?db" by (auto simp: reshaped_def)
  have at: "hier_at ?parent (d_subs ?db) = Some (?f p)"
    using updated_below [OF p(1), of ?f] hier_at_roots [OF ne(2), of ?db] r by simp
  have e: "tmp_remove_subs path db = (if hier_empty (?f p) \<and> length ?parent > 1 then Some ?parent else None, ?db)"
    using s at by (simp add: tmp_remove_subs_def Let_def hier_empty_def)
  show "reshaped db db'" using e t rs by simp
  show "\<exists>p. hier_at parent (d_subs db') = Some p \<and> hier_empty p \<and> length parent > 1" if "next = Some parent"
    using e t at that by (auto split: if_splits)
qed

lemma remove_upwards_ok:
  "hier_at path (d_subs db) = Some sub \<Longrightarrow> hier_empty sub \<Longrightarrow> length path > 1 \<Longrightarrow> reshaped db (remove_upwards path db)"
proof (induction "length path" arbitrary: path db sub rule: less_induct)
  case less
  obtain r db1 where t: "tmp_remove_subs path db = (r, db1)" by (cases "tmp_remove_subs path db")
  note u = unlink_step [OF less.prems t]
  show ?case
  proof (cases r)
    case None
    then show ?thesis using u(1) t by (simp add: remove_upwards.simps [of path])
  next
    case (Some parent)
    obtain p where p: "hier_at parent (d_subs db1) = Some p" "hier_empty p" "length parent > 1" using u(2) [OF Some] by blast
    have "length parent < length path" using tmp_remove_subs_shorter [of path db parent] t Some by simp
    from less.hyps [OF this p] show ?thesis using reshaped_trans [OF u(1)] t Some
      by (simp add: remove_upwards.simps [of path])
  qed
qed

lemma prune_ok: "hier_at path (d_subs db) = Some sub \<Longrightarrow> reshaped db (prune path db)"
  using remove_upwards_ok [of path db sub] by (simp add: prune_def)

section \<open>Following the references\<close>

text \<open>The books while the references \<open>rs\<close> and \<open>ss\<close> of the client \<open>c\<close> are still to be followed.\<close>

definition pending :: "cptr \<Rightarrow> string list option multiset \<Rightarrow> (string list \<times> string) option multiset \<Rightarrow>
    mosquitto_db \<Rightarrow> bool" where
  "pending c rs ss db \<longleftrightarrow> bookkeep
     (\<lambda>c' path. if c' = c then count rs (Some path) else ref_count c' path db)
     (\<lambda>c' path name. if c' = c then count ss (Some (path, name)) else shared_ref_count c' path name db) db"

lemma pending_cong:
  assumes "pending c rs ss db"
    and "\<And>path. count rs' (Some path) = count rs (Some path)" "\<And>x. count ss' (Some x) = count ss (Some x)"
  shows "pending c rs' ss' db"
  using assms(1) unfolding pending_def assms(2,3) .

lemma pending_ctx:
  assumes "\<And>c'. c' \<noteq> c \<Longrightarrow> get_ctx c' db' = get_ctx c' db"
  shows "pending c rs ss db' = bookkeep
     (\<lambda>c' path. if c' = c then count rs (Some path) else ref_count c' path db)
     (\<lambda>c' path name. if c' = c then count ss (Some (path, name)) else shared_ref_count c' path name db) db'"
proof -
  have "(\<lambda>c' path. if c' = c then count rs (Some path) else ref_count c' path db')
      = (\<lambda>c' path. if c' = c then count rs (Some path) else ref_count c' path db)"
    using assms by (auto simp: fun_eq_iff ref_count_def)
  moreover have "(\<lambda>c' path name. if c' = c then count ss (Some (path, name)) else shared_ref_count c' path name db')
      = (\<lambda>c' path name. if c' = c then count ss (Some (path, name)) else shared_ref_count c' path name db)"
    using assms by (auto simp: fun_eq_iff shared_ref_count_def)
  ultimately show ?thesis by (simp only: pending_def)
qed

lemma reshaped_pending:
  assumes p: "pending c rs ss db" and r: "reshaped db db'"
  shows "pending c rs ss db'"
proof -
  have e: "get_ctx c' db' = get_ctx c' db" "d_subscription_count db' = d_subscription_count db"
    "d_shared_subscription_count db' = d_shared_subscription_count db" "same_hier (roots db) (roots db')" for c'
    using r by (auto simp: reshaped_def get_ctx_def)
  show ?thesis unfolding pending_ctx [OF e(1)] by (rule bookkeep_same [OF p [unfolded pending_def] e(4,2,3)])
qed

text \<open>What the steps of the end of a session leave alone.\<close>

definition quiet :: "mosquitto_db \<Rightarrow> mosquitto_db \<Rightarrow> bool" where
  "quiet db db' \<longleftrightarrow> d_contexts db' = d_contexts db \<and> d_fault db' = d_fault db"

lemma quiet_ctx: "quiet db db' \<Longrightarrow> get_ctx c db' = get_ctx c db"
  by (simp add: quiet_def get_ctx_def)

lemma reshaped_quiet: "reshaped db db' \<Longrightarrow> quiet db db'"
  by (auto simp: reshaped_def quiet_def)

lemma pending_tree: "pending c rs ss db \<Longrightarrow> hier_wf (roots db)"
  by (simp add: pending_def bookkeep_def roots_def)

lemma node_there:
  assumes "c \<in># who (fst (own (the_node path n))) \<or> c \<in># who (share name (own (the_node path n)))"
  shows "node_below path n = Some (the_node path n)"
  using assms by (auto simp: the_node_def split: option.splits)

lemma path_there: "bookkeep rc src db \<Longrightarrow> the_node [] (roots db) = roots db"
  by simp

lemma clean_ref_ok:
  assumes p: "pending c (add_mset r rs) ss db"
  shows "pending c rs ss (clean_ref c r db) \<and> quiet db (clean_ref c r db)"
proof (cases r)
  case None
  then show ?thesis using pending_cong [OF p, of rs ss] by (simp add: clean_ref_def quiet_def)
next
  case (Some path)
  define n where "n = the_node path (roots db)"
  have cnt: "count (who (h_subs n)) c = count rs (Some path) + 1"
    using p Some unfolding pending_def bookkeep_def n_def own_select by (metis count_add_mset add.commute plus_1_eq_Suc)
  then have c: "c \<in># who (h_subs n)" unfolding count_greater_zero_iff [symmetric] by simp
  then have below: "node_below path (roots db) = Some n"
    using node_there [of c path "roots db"] by (simp add: n_def own_select)
  have ne: "path \<noteq> []"
  proof
    assume "path = []"
    then show False using c by (simp add: n_def roots_def)
  qed
  obtain i where i: "find_index (\<lambda>l. l_context l = c) (h_subs n) = Some i"
    using find_context [of c "h_subs n"] c by (cases "find_index (\<lambda>l. l_context l = c) (h_subs n)") simp_all
  have w: "i < length (h_subs n)" "who (h_subs n) = add_mset c (who (del_at i (h_subs n)))"
    using find_context [of c "h_subs n"] i by simp_all
  let ?f = "\<lambda>h. Subhier (del_at i (h_subs h)) (h_shared h) (h_children h)"
  define db1 where "db1 = db\<lparr>d_subscription_count := d_subscription_count db - 1, d_subs := hier_update path ?f (d_subs db)\<rparr>"
  have e: "clean_ref c r db = prune path db1"
    using Some below i hier_at_roots [OF ne, of db] by (simp add: clean_ref_def db1_def)
  have rt: "roots db1 = updated path ?f (roots db)"
    using roots_update [where f = ?f, OF ne, of "db\<lparr>d_subscription_count := d_subscription_count db - 1\<rparr>"]
    by (simp add: db1_def roots_def)
  define q where "q = (del_at i (h_subs n), h_shared n)"
  have rep: "replaces path q (roots db) (roots db1)"
    using updated_replaces [where f = ?f and ts = "[]" and q = q, OF below]
      replaces_here [of "del_at i (h_subs n)" "h_shared n" n] by (simp add: rt q_def)
  have q: "shares_ok (snd q)" using the_node_wf [OF pending_tree [OF p], of path] by (simp add: q_def n_def hier_wf_def)
  have ctx: "get_ctx c' db1 = get_ctx c' db" for c' by (simp add: db1_def get_ctx_def)
  have "pending c rs ss db1"
    unfolding pending_def
  proof (rule bookkeep_replaces [OF p [unfolded pending_def] rep refl q])
    fix c' path' name
    show "(if c' = c then count rs (Some path') else ref_count c' path' db1)
        + (if path' = path then count (who (fst (own (the_node path (roots db))))) c' else 0)
        = (if c' = c then count (add_mset r rs) (Some path') else ref_count c' path' db)
        + (if path' = path then count (who (fst q)) c' else 0)"
      using w(2) Some unfolding n_def [symmetric] q_def ref_count_def ctx own_select by auto
    show "(if c' = c then count ss (Some (path', name)) else shared_ref_count c' path' name db1)
        + (if path' = path then count (who (share name (own (the_node path (roots db))))) c' else 0)
        = (if c' = c then count ss (Some (path', name)) else shared_ref_count c' path' name db)
        + (if path' = path then count (who (share name q)) c' else 0)"
      unfolding n_def [symmetric] q_def shared_ref_count_def ctx by (simp add: share_def own_select)
  qed (use w(1) in \<open>simp_all add: n_def [symmetric] q_def db1_def subs_of_def shared_of_def own_select length_del_at\<close>)
  moreover have "hier_at path (d_subs db1) = Some (?f n)"
    using updated_below [OF below, of ?f] hier_at_roots [OF ne, of db1] rt by simp
  then have "reshaped db1 (prune path db1)" by (rule prune_ok)
  moreover have "quiet db db1" by (simp add: quiet_def db1_def)
  ultimately show ?thesis unfolding e using reshaped_pending reshaped_quiet [of db1 "prune path db1"]
    by (auto simp: quiet_def)
qed

lemma clean_shared_ref_ok:
  assumes p: "pending c rs (add_mset r ss) db"
  shows "pending c rs ss (clean_shared_ref c r db) \<and> quiet db (clean_shared_ref c r db)"
proof (cases r)
  case None
  then show ?thesis using pending_cong [OF p, of rs ss] by (simp add: clean_shared_ref_def quiet_def)
next
  case (Some r')
  obtain path s where r: "r = Some (path, s)" using Some by (cases r') simp
  define n where "n = the_node path (roots db)"
  define subs where "subs = share s (own n)"
  have cnt: "count (who subs) c = count ss (Some (path, s)) + 1"
    using p r unfolding pending_def bookkeep_def n_def subs_def by (metis count_add_mset add.commute plus_1_eq_Suc)
  then have c: "c \<in># who subs" unfolding count_greater_zero_iff [symmetric] by simp
  then have below: "node_below path (roots db) = Some n"
    using node_there [of c path "roots db" s] by (simp add: n_def subs_def)
  have ne: "path \<noteq> []"
  proof
    assume "path = []"
    then show False using c by (simp add: n_def subs_def roots_def)
  qed
  have f0: "ht_find s (h_shared n) = Some subs"
    using c by (auto simp: subs_def share_def own_select split: option.splits)
  obtain i where i: "find_index (\<lambda>l. l_context l = c) subs = Some i"
    using find_context [of c subs] c by (cases "find_index (\<lambda>l. l_context l = c) subs") simp_all
  have w: "i < length subs" "who subs = add_mset c (who (del_at i subs))"
    using find_context [of c subs] i by simp_all
  let ?f = "\<lambda>h. Subhier (h_subs h) (sub__remove_shared_leaf s i subs (h_shared h)) (h_children h)"
  define db1 where "db1 = db\<lparr>d_shared_subscription_count := d_shared_subscription_count db - 1,
      d_subs := hier_update path ?f (d_subs db)\<rparr>"
  have e: "clean_shared_ref c r db = prune path db1"
    using r below i f0 hier_at_roots [OF ne, of db] by (simp add: clean_shared_ref_def db1_def)
  have rt: "roots db1 = updated path ?f (roots db)"
    using roots_update [where f = ?f, OF ne, of "db\<lparr>d_shared_subscription_count := d_shared_subscription_count db - 1\<rparr>"]
    by (simp add: db1_def roots_def)
  define sh where "sh = sub__remove_shared_leaf s i subs (h_shared n)"
  define q where "q = (h_subs n, sh)"
  have rep: "replaces path q (roots db) (roots db1)"
    using updated_replaces [where f = ?f and ts = "[]" and q = q, OF below]
      replaces_here [of "h_subs n" sh n] by (simp add: rt q_def sh_def)
  have okn: "shares_ok (h_shared n)" using the_node_wf [OF pending_tree [OF p], of path] by (simp add: n_def hier_wf_def)
  have q: "shares_ok (snd q)" using share_update(1) [OF okn] share_remove(1) [OF okn f0]
    by (simp add: q_def sh_def sub__remove_shared_leaf_def)
  have sq: "share k q = (if k = s then del_at i subs else share k (own n))" for k
    using share_update(2) [OF okn _ f0, of "del_at i subs" k "h_subs n"] share_remove(2) [OF okn f0, of k "h_subs n"]
    by (cases "del_at i subs = []"; cases "k = s") (simp_all add: q_def sh_def sub__remove_shared_leaf_def)
  have cq: "shared_of q + 1 = shared_of (own n)"
    using share_update(3) [OF okn _ f0, of "del_at i subs" "h_subs n"] share_remove(3) [OF okn f0, of "h_subs n"]
      length_del_at [OF w(1)] w(1)
    by (cases "del_at i subs = []") (simp_all add: q_def sh_def sub__remove_shared_leaf_def)
  have ctx: "get_ctx c' db1 = get_ctx c' db" for c' by (simp add: db1_def get_ctx_def)
  have "pending c rs ss db1"
    unfolding pending_def
  proof (rule bookkeep_replaces [OF p [unfolded pending_def] rep refl q])
    fix c' path' name
    show "(if c' = c then count rs (Some path') else ref_count c' path' db1)
        + (if path' = path then count (who (fst (own (the_node path (roots db))))) c' else 0)
        = (if c' = c then count rs (Some path') else ref_count c' path' db)
        + (if path' = path then count (who (fst q)) c' else 0)"
      unfolding n_def [symmetric] ref_count_def ctx own_select by (simp add: q_def)
    show "(if c' = c then count ss (Some (path', name)) else shared_ref_count c' path' name db1)
        + (if path' = path then count (who (share name (own (the_node path (roots db))))) c' else 0)
        = (if c' = c then count (add_mset r ss) (Some (path', name)) else shared_ref_count c' path' name db)
        + (if path' = path then count (who (share name q)) c' else 0)"
      using w(2) r unfolding n_def [symmetric] shared_ref_count_def ctx sq subs_def [symmetric]
      by (auto simp: subs_def)
  next
    show "d_subscription_count db1 + int (subs_of (own (the_node path (roots db)))) = d_subscription_count db + int (subs_of q)"
      by (simp add: n_def [symmetric] q_def db1_def subs_of_def own_select)
    show "d_shared_subscription_count db1 + int (shared_of (own (the_node path (roots db))))
        = d_shared_subscription_count db + int (shared_of q)"
      using cq by (simp add: n_def [symmetric] db1_def)
  qed
  moreover have "hier_at path (d_subs db1) = Some (?f n)"
    using updated_below [OF below, of ?f] hier_at_roots [OF ne, of db1] rt by simp
  then have "reshaped db1 (prune path db1)" by (rule prune_ok)
  moreover have "quiet db db1" by (simp add: quiet_def db1_def)
  ultimately show ?thesis unfolding e using reshaped_pending reshaped_quiet [of db1 "prune path db1"]
    by (auto simp: quiet_def)
qed

lemma clean_refs_ok:
  "pending c (mset refs) ss db \<Longrightarrow>
   pending c {#} ss (fold (clean_ref c) refs db) \<and> quiet db (fold (clean_ref c) refs db)"
proof (induction refs arbitrary: db)
  case (Cons r refs)
  have "pending c (mset refs) ss (clean_ref c r db) \<and> quiet db (clean_ref c r db)"
    using Cons.prems by (intro clean_ref_ok) simp
  then show ?case using Cons.IH [of "clean_ref c r db"] by (simp add: quiet_def)
qed (simp add: quiet_def)

lemma clean_shared_refs_ok:
  "pending c rs (mset refs) db \<Longrightarrow>
   pending c rs {#} (fold (clean_shared_ref c) refs db) \<and> quiet db (fold (clean_shared_ref c) refs db)"
proof (induction refs arbitrary: db)
  case (Cons r refs)
  have "pending c rs (mset refs) (clean_shared_ref c r db) \<and> quiet db (clean_shared_ref c r db)"
    using Cons.prems by (intro clean_shared_ref_ok) simp
  then show ?case using Cons.IH [of "clean_shared_ref c r db"] by (simp add: quiet_def)
qed (simp add: quiet_def)

section \<open>The end of a session\<close>

definition subscriber_count :: "cptr \<Rightarrow> string list \<Rightarrow> string option \<Rightarrow> mosquitto_db \<Rightarrow> nat" where
  "subscriber_count c path sharename db = count (who (sub_list sharename (own (the_node path (roots db))))) c"

lemma clean_session_ok:
  assumes b: "books db" and e: "sub__clean_session c db = (rc, db')"
  shows "books db' \<and> rc = MOSQ_ERR_SUCCESS \<and> d_fault db' = d_fault db
    \<and> (\<forall>c' path sharename. subscriber_count c' path sharename db' =
         (if c' = c then 0 else subscriber_count c' path sharename db))"
proof -
  define db1 where "db1 = fold (clean_ref c) (c_subs (get_ctx c db)) db"
  define db2 where "db2 = upd_ctx c (\<lambda>ctx. ctx\<lparr>c_subs := []\<rparr>) db1"
  define db3 where "db3 = fold (clean_shared_ref c) (c_shared_subs (get_ctx c db2)) db2"
  have r: "rc = MOSQ_ERR_SUCCESS" "db' = upd_ctx c (\<lambda>ctx. ctx\<lparr>c_shared_subs := []\<rparr>) db3"
    using e by (simp_all add: sub__clean_session_def sub__clean_session_shared_def Let_def db1_def db2_def db3_def)
  have "pending c (mset (c_subs (get_ctx c db))) (mset (c_shared_subs (get_ctx c db))) db"
    using b unfolding pending_def books_defs ref_count_def shared_ref_count_def by auto
  from clean_refs_ok [OF this] have 1: "pending c {#} (mset (c_shared_subs (get_ctx c db))) db1" "quiet db db1"
    by (simp_all add: db1_def)
  have other: "get_ctx c' db2 = get_ctx c' db" if "c' \<noteq> c" for c'
    using that quiet_ctx [OF 1(2)] by (simp add: db2_def upd_ctx_def get_ctx_def)
  have sh: "c_shared_subs (get_ctx c db2) = c_shared_subs (get_ctx c db)" "c_subs (get_ctx c db2) = []"
    using quiet_ctx [OF 1(2)] by (simp_all add: db2_def upd_ctx_def get_ctx_def)
  have "pending c {#} (mset (c_shared_subs (get_ctx c db2))) db2"
  proof -
    have "roots db2 = roots db1" "d_subs db2 = d_subs db1" "d_subscription_count db2 = d_subscription_count db1"
      "d_shared_subscription_count db2 = d_shared_subscription_count db1" by (simp_all add: db2_def upd_ctx_def roots_def)
    moreover have "get_ctx c' db2 = get_ctx c' db1" if "c' \<noteq> c" for c' using other [OF that] quiet_ctx [OF 1(2)] by simp
    note pending_ctx [of c db2 db1, OF this]
    ultimately show ?thesis using 1(1) unfolding sh by (simp add: pending_def bookkeep_def)
  qed
  from clean_shared_refs_ok [OF this] have 3: "pending c {#} {#} db3" "quiet db2 db3" by (simp_all add: db3_def)
  have ctx: "c_subs (get_ctx c' db') = (if c' = c then [] else c_subs (get_ctx c' db))"
    "c_shared_subs (get_ctx c' db') = (if c' = c then [] else c_shared_subs (get_ctx c' db))" for c'
    using other [of c'] sh quiet_ctx [OF 3(2), of c'] by (auto simp: r(2) upd_ctx_def get_ctx_def)
  have refs: "ref_count c' path db' = (if c' = c then 0 else ref_count c' path db)"
    "shared_ref_count c' path s db' = (if c' = c then 0 else shared_ref_count c' path s db)" for c' path s
    by (auto simp: ref_count_def shared_ref_count_def ctx)
  have same: "roots db' = roots db3" "d_subs db' = d_subs db3" "d_subscription_count db' = d_subscription_count db3"
    "d_shared_subscription_count db' = d_shared_subscription_count db3" by (simp_all add: r(2) upd_ctx_def roots_def)
  have db3: "get_ctx c' db3 = get_ctx c' db" if "c' \<noteq> c" for c'
    using other [OF that] quiet_ctx [OF 3(2), of c'] by simp
  have "(\<lambda>c' path. ref_count c' path db') = (\<lambda>c' path. if c' = c then count {#} (Some path) else ref_count c' path db)"
    "(\<lambda>c' path name. shared_ref_count c' path name db')
      = (\<lambda>c' path name. if c' = c then count {#} (Some (path, name)) else shared_ref_count c' path name db)"
    by (auto simp: fun_eq_iff refs)
  then have bk: "books db'"
    using iffD1 [OF pending_ctx [of c db3 db, OF db3] 3(1)] unfolding books_def by (simp add: bookkeep_def same)
  have "subscriber_count c' path sharename db' = (if c' = c then 0 else subscriber_count c' path sharename db)"
    for c' path sharename
  proof (cases sharename)
    case None
    then show ?thesis using b bk refs(1) [of c' path]
      by (auto simp: subscriber_count_def sub_list_def books_defs)
  next
    case (Some s)
    then show ?thesis using b bk refs(2) [of c' path s]
      by (auto simp: subscriber_count_def sub_list_def books_defs)
  qed
  moreover have "d_fault db' = d_fault db" using 1(2) 3(2) by (simp add: quiet_def r(2) db2_def upd_ctx_def)
  ultimately show ?thesis using bk r(1) by blast
qed

end
