(* ===== verification/Subs_Search.thy ===== *)
theory Subs_Search
  imports Subs_Ok Topics
begin

text \<open>
  The search of the tree of subscriptions. Whatever \<open>process\<close> does with the subscriptions of a node, the
  search calls it for the nodes whose path matches the topic, once for each, until a call fails,
  and rotates nothing but shared subscriptions.
\<close>

section \<open>Calling \<open>process\<close> for a list of nodes\<close>

type_synonym 's process = "mosquitto__subhier \<Rightarrow> 's \<Rightarrow> (mosq_err \<times> mosquitto__subhier) \<times> 's"

text \<open>\<open>Inl rc\<close> is a failure; \<open>Inr found\<close> says whether there were subscriptions.\<close>

primrec visits :: "'s process \<Rightarrow> mosquitto__subhier list \<Rightarrow> bool \<Rightarrow> 's \<Rightarrow> (mosq_err + bool) \<times> 's" where
  "visits process [] found s = (Inr found, s)"
| "visits process (b # bs) found s =
     (case process b s of ((rc, _), s) \<Rightarrow>
        (case sub_found found rc of Inl rc \<Rightarrow> (Inl rc, s) | Inr found \<Rightarrow> visits process bs found s))"

definition code_of :: "mosq_err + bool \<Rightarrow> mosq_err" where
  "code_of r = (case r of Inl rc \<Rightarrow> rc | Inr found \<Rightarrow> if found then MOSQ_ERR_SUCCESS else MOSQ_ERR_NO_SUBSCRIBERS)"

definition also_found :: "bool \<Rightarrow> mosq_err + bool \<Rightarrow> mosq_err + bool" where
  "also_found found r = (case r of Inl rc \<Rightarrow> Inl rc | Inr f \<Rightarrow> Inr (f \<or> found))"

lemma also_found_simps [simp]: "also_found found (Inl rc) = Inl rc" "also_found found (Inr f) = Inr (f \<or> found)"
  "also_found False r = r"
  by (auto simp: also_found_def split: sum.split)

lemma code_of_simps [simp]: "code_of (Inl rc) = rc" "code_of (Inr True) = MOSQ_ERR_SUCCESS"
  "code_of (Inr False) = MOSQ_ERR_NO_SUBSCRIBERS"
  by (simp_all add: code_of_def)

lemma sub_found_split: "sub_found found rc = also_found found (sub_found False rc)"
  by (simp add: sub_found_def)

lemma visits_split: "visits process bs found s = apfst (also_found found) (visits process bs False s)"
proof (induction bs arbitrary: found s)
  case (Cons b bs)
  obtain rc b' s' where p: "process b s = ((rc, b'), s')" by (metis surj_pair)
  show ?case
  proof (cases "sub_found False rc")
    case (Inl e)
    then show ?thesis using sub_found_split [of found rc] by (simp add: p)
  next
    case (Inr f)
    have "also_found found (also_found f r) = also_found (f \<or> found) r" for r
      by (auto simp: also_found_def split: sum.split)
    then show ?thesis using Inr sub_found_split [of found rc] Cons.IH [of "f \<or> found" s'] Cons.IH [of f s']
      by (simp add: p prod.map_comp apfst_def comp_def id_def)
  qed
qed simp

lemma visits_append:
  "visits process (as @ bs) found s =
     (case visits process as found s of (Inl rc, s) \<Rightarrow> (Inl rc, s) | (Inr found, s) \<Rightarrow> visits process bs found s)"
  by (induction as arbitrary: found s) (auto split: prod.split sum.split)

text \<open>The code of a search says as much as its result.\<close>

lemma visits_error: "visits process bs found s = (Inl rc, s') \<Longrightarrow> rc \<notin> {MOSQ_ERR_SUCCESS, MOSQ_ERR_NO_SUBSCRIBERS}"
  by (induction bs arbitrary: found s) (auto simp: sub_found_def split: prod.splits sum.splits if_splits)

lemma sub_found_code: "visits process bs False s = (r, s') \<Longrightarrow> sub_found found (code_of r) = also_found found r"
  using visits_error [of process bs False s] by (cases r) (auto simp: sub_found_def code_of_def)

lemma visits_keeps:
  "(\<And>b s. b \<in> set bs \<Longrightarrow> P s \<Longrightarrow> P (snd (process b s))) \<Longrightarrow> P s \<Longrightarrow> P (snd (visits process bs found s))"
proof (induction bs arbitrary: found s)
  case (Cons b bs)
  obtain rc b' s' where p: "process b s = ((rc, b'), s')" by (metis surj_pair)
  then have "P s'" using Cons.prems(1) [of b s] Cons.prems(2) by simp
  then show ?case using Cons.IH [of s'] Cons.prems(1) by (simp add: p split: sum.split)
qed simp

section \<open>The nodes of a search\<close>

definition hash_paths :: "mosquitto__subhier \<Rightarrow> string list list" where
  "hash_paths n = (case ht_find ''#'' (h_children n) of None \<Rightarrow> [] | Some b \<Rightarrow> if h_children b = [] then [[''#'']] else [])"

primrec search_paths :: "string list \<Rightarrow> mosquitto__subhier \<Rightarrow> string list list" where
  "search_paths [] n = hash_paths n"
| "search_paths (t # ts) n =
     (case ht_find t (h_children n) of None \<Rightarrow> []
      | Some b \<Rightarrow> map ((#) t) (search_paths ts b @ (if ts = [] then [[]] else [])))
   @ (case ht_find ''+'' (h_children n) of None \<Rightarrow> []
      | Some b \<Rightarrow> map ((#) ''+'') (search_paths ts b @ (if ts = [] then [[]] else [])))
   @ hash_paths n"

definition plain_levels :: "string list \<Rightarrow> bool" where
  "plain_levels ts \<longleftrightarrow> ''+'' \<notin> set ts \<and> ''#'' \<notin> set ts"

lemma plain_Cons [simp]: "plain_levels (t # ts) \<longleftrightarrow> t \<noteq> ''+'' \<and> t \<noteq> ''#'' \<and> plain_levels ts"
  by (auto simp: plain_levels_def)

lemma plain_Nil [simp]: "plain_levels []"
  by (simp add: plain_levels_def)

lemma hash_paths_mem: "p \<in> set (hash_paths n) \<longleftrightarrow>
    p = [''#''] \<and> (\<exists>b. ht_find ''#'' (h_children n) = Some b \<and> h_children b = [])"
  by (cases "ht_find ''#'' (h_children n)") (auto simp: hash_paths_def)

lemma distinct_hash_paths: "distinct (hash_paths n)"
  by (auto simp: hash_paths_def split: option.splits)

lemma search_paths_ne: "p \<in> set (search_paths ts n) \<Longrightarrow> p \<noteq> []"
  by (cases ts) (auto simp: hash_paths_mem split: option.splits)

lemma search_paths_distinct: "plain_levels ts \<Longrightarrow> distinct (search_paths ts n)"
proof (induction ts arbitrary: n)
  case (Cons t ts)
  have d: "distinct (map ((#) k) (search_paths ts b @ (if ts = [] then [[]] else [])))" for k b
    using Cons search_paths_ne [of "[]" ts b] by (auto simp: distinct_map)
  show ?case using d Cons.prems distinct_hash_paths [of n] by (auto simp: hash_paths_mem split: option.split)
qed (simp add: distinct_hash_paths)

text \<open>A level \<open>#\<close> is the last one of every filter.\<close>

definition hash_leaf :: "mosquitto__subhier \<Rightarrow> bool" where
  "hash_leaf n \<longleftrightarrow> (\<forall>us b. node_below (us @ [''#'']) n = Some b \<longrightarrow> h_children b = [])"

lemma hash_leaf_child: "hash_leaf n \<Longrightarrow> ht_find k (h_children n) = Some b \<Longrightarrow> hash_leaf b"
  unfolding hash_leaf_def by (metis append_Cons node_below.simps(2) option.simps(5))

lemma hash_leaf_here: "hash_leaf n \<Longrightarrow> ht_find ''#'' (h_children n) = Some b \<Longrightarrow> h_children b = []"
  unfolding hash_leaf_def by (metis append_Nil node_below.simps option.simps(5))

lemma node_below_leaf: "h_children b = [] \<Longrightarrow> node_below us b \<noteq> None \<longleftrightarrow> us = []"
  by (cases us) simp_all

lemma search_paths_match:
  "plain_levels ts \<Longrightarrow> hash_leaf n \<Longrightarrow>
   p \<in> set (search_paths ts n) \<longleftrightarrow> p \<noteq> [] \<and> node_below p n \<noteq> None \<and> match_levels p ts"
proof (induction ts arbitrary: n p)
  case Nil
  show ?case
  proof (cases p)
    case (Cons k p')
    then show ?thesis using hash_leaf_here [OF Nil(2)] node_below_leaf [of _ p']
      by (auto simp: hash_paths_mem split: option.splits)
  qed (simp add: hash_paths_mem)
next
  case (Cons t ts)
  show ?case
  proof (cases p)
    case Nil
    then show ?thesis by (auto simp: hash_paths_mem split: option.splits)
  next
    case p: (Cons k p')
    have pl: "plain_levels ts" "t \<noteq> ''+''" "t \<noteq> ''#''" using Cons.prems(1) by simp_all
    have br: "(case ht_find k (h_children n) of None \<Rightarrow> False
        | Some b \<Rightarrow> p' \<in> set (search_paths ts b @ (if ts = [] then [[]] else [])))
        \<longleftrightarrow> node_below (k # p') n \<noteq> None \<and> match_levels p' ts"
      using Cons.IH [OF pl(1) hash_leaf_child [OF Cons.prems(2)], of k _ p'] by (auto split: option.split)
    have mem: "p \<in> set (search_paths (t # ts) n) \<longleftrightarrow>
        ((k = t \<or> k = ''+'') \<and> (case ht_find k (h_children n) of None \<Rightarrow> False
        | Some b \<Rightarrow> p' \<in> set (search_paths ts b @ (if ts = [] then [[]] else []))))
        \<or> p \<in> set (hash_paths n)"
      unfolding p by (auto split: option.splits)
    show ?thesis
    proof (cases "k = ''#''")
      case True
      then show ?thesis unfolding mem using pl p hash_leaf_here [OF Cons.prems(2)] node_below_leaf [of _ p']
        by (auto simp: hash_paths_mem split: option.splits)
    next
      case False
      then show ?thesis unfolding mem br using p by (auto simp: hash_paths_mem)
    qed
  qed
qed

section \<open>The search\<close>

text \<open>The same subscriptions, with those of every share in another order.\<close>

definition alike :: "own \<Rightarrow> own \<Rightarrow> bool" where
  "alike q q' \<longleftrightarrow> fst q' = fst q \<and> list_all2 (\<lambda>e e'. fst e' = fst e \<and> mset (snd e') = mset (snd e)) (snd q) (snd q')"

lemma alike_refl [simp]: "alike q q"
  by (auto simp: alike_def intro: list_all2_refl)

lemma alike_trans: "alike q q' \<Longrightarrow> alike q' q'' \<Longrightarrow> alike q q''"
proof -
  have "list_all2 R sh sh' \<Longrightarrow> list_all2 R sh' sh'' \<Longrightarrow> (\<And>x y z. R x y \<Longrightarrow> R y z \<Longrightarrow> R x z) \<Longrightarrow> list_all2 R sh sh''"
    for R and sh sh' sh'' :: "(string, mosquitto__subleaf list) ht"
    using list_all2_trans [of R R R] by blast
  then show "alike q q' \<Longrightarrow> alike q' q'' \<Longrightarrow> ?thesis" unfolding alike_def by fastforce
qed

lemma alike_share: "alike q q' \<Longrightarrow> mset (share name q') = mset (share name q)"
proof -
  have "list_all2 (\<lambda>e e'. fst e' = fst e \<and> mset (snd e') = mset (snd e)) sh sh' \<Longrightarrow>
      mset (share name (s, sh')) = mset (share name (s, sh))" for s sh sh'
    by (induction rule: list_all2_induct) (auto simp: share_def)
  then show "alike q q' \<Longrightarrow> ?thesis" by (cases q; cases q') (auto simp: alike_def share_def)
qed

lemma alike_shares_ok: "alike q q' \<Longrightarrow> shares_ok (snd q) \<Longrightarrow> shares_ok (snd q')"
proof -
  have "list_all2 (\<lambda>e e'. fst e' = fst e \<and> mset (snd e') = mset (snd e)) sh sh' \<Longrightarrow>
      map fst sh' = map fst sh \<and> ((\<forall>(name, subs) \<in> set sh. subs \<noteq> []) \<longrightarrow> (\<forall>(name, subs) \<in> set sh'. subs \<noteq> []))" for sh sh'
    by (induction rule: list_all2_induct) auto
  from this [of "snd q" "snd q'"] show "alike q q' \<Longrightarrow> shares_ok (snd q) \<Longrightarrow> shares_ok (snd q')"
    unfolding alike_def shares_ok_def ht_wf_def by simp
qed

lemma alike_counts: "alike q q' \<Longrightarrow> subs_of q' = subs_of q \<and> shared_of q' = shared_of q"
proof -
  have "list_all2 (\<lambda>e e'. fst e' = fst e \<and> mset (snd e') = mset (snd e)) sh sh' \<Longrightarrow>
      (\<Sum>e\<leftarrow>sh'. length (snd e)) = (\<Sum>e\<leftarrow>sh. length (snd e))" for sh sh' :: "(string, mosquitto__subleaf list) ht"
    by (induction rule: list_all2_induct) (auto dest: mset_eq_length)
  then show "alike q q' \<Longrightarrow> ?thesis" by (auto simp: alike_def subs_of_def shared_of_def)
qed

definition rotated :: "mosquitto__subhier \<Rightarrow> mosquitto__subhier \<Rightarrow> bool" where
  "rotated n n' \<longleftrightarrow>
     (hier_wf n \<longrightarrow> hier_wf n')
   \<and> (\<forall>vs. alike (own (the_node vs n)) (own (the_node vs n')))
   \<and> (\<forall>f. (\<forall>q q'. alike q q' \<longrightarrow> f q' = f q) \<longrightarrow> hier_total f n' = hier_total f n)"

lemma rotated_refl [simp]: "rotated n n"
  by (simp add: rotated_def)

lemma rotated_trans: "rotated n n' \<Longrightarrow> rotated n' n'' \<Longrightarrow> rotated n n''"
  unfolding rotated_def using alike_trans by (metis (no_types, lifting))

lemma rotated_here:
  assumes "h_children n' = h_children n" "alike (own n) (own n')"
  shows "rotated n n'"
  unfolding rotated_def
proof (intro conjI impI allI)
  show "hier_wf n'" if "hier_wf n" using that alike_shares_ok [OF assms(2)] assms(1) by (simp add: hier_wf_def own_select)
  show "alike (own (the_node vs n)) (own (the_node vs n'))" for vs using assms by (cases vs) (simp_all split: option.split)
  show "hier_total f n' = hier_total f n" if "\<forall>q q'. alike q q' \<longrightarrow> f q' = f q" for f
    using assms that [rule_format, OF assms(2)] by (simp add: hier_total_def)
qed

lemma rotated_set:
  assumes r: "rotated b b'" and b: "ht_find t (h_children n) = Some b"
  shows "rotated n (Subhier (h_subs n) (h_shared n) (ht_set t b' (h_children n)))"
  unfolding rotated_def
proof (intro conjI impI allI)
  let ?n = "Subhier (h_subs n) (h_shared n) (ht_set t b' (h_children n))"
  show "hier_wf ?n" if w: "hier_wf n"
  proof -
    have "hier_wf b" using w sub_wf_find [OF _ b] by (simp add: hier_wf_def)
    then show ?thesis using w r by (simp add: hier_wf_def sub_wf_set rotated_def)
  qed
  show "alike (own (the_node vs n)) (own (the_node vs ?n))" for vs
    using b r by (cases vs) (auto simp: ht_find_set rotated_def split: option.split)
  show "hier_total f ?n = hier_total f n" if "\<forall>q q'. alike q q' \<longrightarrow> f q' = f q" for f
    using r that total_set [OF b, of f b'] by (simp add: hier_total_def rotated_def)
qed

text \<open>What the search relies on: processing a node rotates its shares and no more.\<close>

locale node_process =
  fixes process :: "'s process"
  assumes children: "process b s = ((rc, b'), s') \<Longrightarrow> h_children b' = h_children b"
    and alike: "process b s = ((rc, b'), s') \<Longrightarrow> alike (own b) (own b')"
    and by_own: "own b = own c \<Longrightarrow> process b s = ((rc, b'), s') \<Longrightarrow> \<exists>c'. process c s = ((rc, c'), s')"
begin

lemma process_rotates: "process b s = ((rc, b'), s') \<Longrightarrow> rotated b b'"
  by (rule rotated_here [OF children alike])

lemma hash_rotates: "sub_hash process found n s = ((rc, n'), s') \<Longrightarrow> rotated n n'"
  by (auto simp: sub_hash_def Let_def split: option.splits if_splits prod.splits
      intro: rotated_set [OF process_rotates])

lemma branch_rotates:
  assumes "\<And>b s rc b' s'. search b s = ((rc, b'), s') \<Longrightarrow> rotated b b'"
    and "sub_branch process search e k found n s = ((r, n'), s')"
  shows "rotated n n'"
proof (cases "ht_find k (h_children n)")
  case (Some b)
  obtain rc1 b1 s1 where 1: "search b s = ((rc1, b1), s1)" by (metis surj_pair)
  obtain rc2 b2 s2 where 2: "process b1 s1 = ((rc2, b2), s2)" by (metis surj_pair)
  have r1: "rotated b b1" by (rule assms(1) [OF 1])
  have r2: "rotated b b2" by (rule rotated_trans [OF r1 process_rotates [OF 2]])
  show ?thesis using assms(2) Some 1 2 rotated_set [OF r1 Some] rotated_set [OF r2 Some]
    by (auto simp: sub_branch_def Let_def split: sum.splits if_splits)
qed (use assms(2) in \<open>simp add: sub_branch_def\<close>)

lemma search_rotates: "sub__search ts process n s = ((rc, n'), s') \<Longrightarrow> rotated n n'"
proof (induction ts arbitrary: n s rc n' s')
  case Nil
  then show ?case using hash_rotates by simp
next
  case (Cons t ts)
  obtain r1 n1 s1 where 1: "sub_branch process (sub__search ts process) (ts = []) t False n s = ((r1, n1), s1)"
    by (metis surj_pair)
  have a: "rotated n n1" by (rule branch_rotates [OF Cons.IH 1])
  show ?case
  proof (cases r1)
    case (Inl e)
    then show ?thesis using Cons.prems 1 a by simp
  next
    case (Inr f)
    obtain r2 n2 s2 where 2: "sub_branch process (sub__search ts process) (ts = []) ''+'' f n1 s1 = ((r2, n2), s2)"
      by (metis surj_pair)
    have b: "rotated n n2" by (rule rotated_trans [OF a branch_rotates [OF Cons.IH 2]])
    show ?thesis
    proof (cases r2)
      case (Inl e)
      then show ?thesis using Cons.prems 1 2 Inr b by simp
    next
      case (Inr f2)
      then have "sub_hash process f2 n2 s2 = ((rc, n'), s')" using Cons.prems 1 2 \<open>r1 = Inr f\<close> by simp
      then show ?thesis using rotated_trans [OF b hash_rotates] by blast
    qed
  qed
qed

text \<open>The calls of the search.\<close>

lemma hash_calls:
  assumes "ht_find ''#'' (h_children n') = ht_find ''#'' (h_children n)"
  shows "\<exists>n''. sub_hash process found n' s =
    ((code_of (fst (visits process (map (\<lambda>p. the_node p n) (hash_paths n)) found s)), n''),
     snd (visits process (map (\<lambda>p. the_node p n) (hash_paths n)) found s))"
  using assms by (auto simp: sub_hash_def hash_paths_def Let_def code_of_def split: option.split sum.split prod.split)

text \<open>The search from every node calls \<open>process\<close> for the nodes at \<open>search_paths\<close>.\<close>

definition searched :: "string list \<Rightarrow> bool" where
  "searched ts \<longleftrightarrow> (\<forall>n s. \<exists>n'. sub__search ts process n s =
    ((code_of (fst (visits process (map (\<lambda>p. the_node p n) (search_paths ts n)) False s)), n'),
     snd (visits process (map (\<lambda>p. the_node p n) (search_paths ts n)) False s))
    \<and> own n' = own n)"

definition branch_nodes :: "string list \<Rightarrow> string \<Rightarrow> mosquitto__subhier \<Rightarrow> mosquitto__subhier list" where
  "branch_nodes ts k n = (case ht_find k (h_children n) of None \<Rightarrow> []
     | Some b \<Rightarrow> map (\<lambda>p. the_node p b) (search_paths ts b @ (if ts = [] then [[]] else [])))"

lemma visits_here:
  assumes "own b1 = own b" "process b1 s = ((rc, b2), s')"
  shows "visits process [b] found s = (sub_found found rc, s')"
  using by_own [OF assms] by (auto split: sum.split)

lemma branch_calls:
  assumes se: "searched ts" and k: "ht_find k (h_children n') = ht_find k (h_children n)"
  shows "\<exists>n''. sub_branch process (sub__search ts process) (ts = []) k found n' s =
      ((fst (visits process (branch_nodes ts k n) found s), n''), snd (visits process (branch_nodes ts k n) found s))
    \<and> own n'' = own n' \<and> (\<forall>j. j \<noteq> k \<longrightarrow> ht_find j (h_children n'') = ht_find j (h_children n'))"
proof (cases "ht_find k (h_children n)")
  case None
  then show ?thesis using k by (simp add: sub_branch_def branch_nodes_def)
next
  case (Some b)
  let ?bs = "map (\<lambda>p. the_node p b) (search_paths ts b)"
  obtain r s1 where v: "visits process ?bs False s = (r, s1)" by (cases "visits process ?bs False s")
  obtain b1 where 1: "sub__search ts process b s = ((code_of r, b1), s1)" "own b1 = own b"
    using se v unfolding searched_def by (metis fst_conv snd_conv)
  have f: "sub_found found (code_of r) = also_found found r" by (rule sub_found_code [OF v])
  have vf: "visits process ?bs found s = (also_found found r, s1)" using v visits_split [of process ?bs found s] by simp
  show ?thesis
  proof (cases "ts = []")
    case False
    then show ?thesis using Some k vf f 1
      by (auto simp: sub_branch_def branch_nodes_def Let_def ht_find_set split: sum.split)
  next
    case True
    obtain rc b2 s2 where 2: "process b1 s1 = ((rc, b2), s2)" by (metis surj_pair)
    have bn: "branch_nodes ts k n = ?bs @ [b]" using Some True by (simp add: branch_nodes_def)
    show ?thesis unfolding bn visits_append using Some k vf f 1 True visits_here [OF 1(2) 2] 2
      by (cases r) (simp_all del: visits.simps sub__search.simps add: sub_branch_def Let_def ht_find_set)
  qed
qed

lemma search_nodes:
  "map (\<lambda>p. the_node p n) (search_paths (t # ts) n) =
     branch_nodes ts t n @ branch_nodes ts ''+'' n @ map (\<lambda>p. the_node p n) (hash_paths n)"
  by (auto simp: branch_nodes_def split: option.split)

lemma hash_own: "sub_hash process found n s = ((rc, n'), s') \<Longrightarrow> own n' = own n"
  by (auto simp: sub_hash_def Let_def split: option.splits if_splits prod.splits)

lemma search_calls: "plain_levels ts \<Longrightarrow> searched ts"
proof (induction ts)
  case Nil
  show ?case unfolding searched_def
  proof (intro allI)
    fix n s
    obtain n' where "sub_hash process False n s =
      ((code_of (fst (visits process (map (\<lambda>p. the_node p n) (hash_paths n)) False s)), n'),
       snd (visits process (map (\<lambda>p. the_node p n) (hash_paths n)) False s))"
      using hash_calls [of n n] by blast
    then show "\<exists>n'. sub__search [] process n s =
      ((code_of (fst (visits process (map (\<lambda>p. the_node p n) (search_paths [] n)) False s)), n'),
       snd (visits process (map (\<lambda>p. the_node p n) (search_paths [] n)) False s)) \<and> own n' = own n"
      using hash_own by fastforce
  qed
next
  case (Cons t ts)
  then have se: "searched ts" and ne: "t \<noteq> ''+''" "t \<noteq> ''#''" by simp_all
  show ?case unfolding searched_def search_nodes visits_append
  proof (intro allI)
    fix n s
    let ?b1 = "branch_nodes ts t n" and ?b2 = "branch_nodes ts ''+'' n"
    obtain r1 s1 where v1: "visits process ?b1 False s = (r1, s1)" by (cases "visits process ?b1 False s")
    obtain n1 where 1: "sub_branch process (sub__search ts process) (ts = []) t False n s = ((r1, n1), s1)" "own n1 = own n"
      "\<And>j. j \<noteq> t \<Longrightarrow> ht_find j (h_children n1) = ht_find j (h_children n)"
      using branch_calls [where k = t and n' = n and found = False and s = s, OF se refl] v1 by auto
    let ?goal = "\<exists>n'. sub__search (t # ts) process n s =
      ((code_of (fst (case visits process ?b1 False s of (Inl rc, s) \<Rightarrow> (Inl rc, s)
         | (Inr found, s) \<Rightarrow> (case visits process ?b2 found s of (Inl rc, s) \<Rightarrow> (Inl rc, s)
            | (Inr found, s) \<Rightarrow> visits process (map (\<lambda>p. the_node p n) (hash_paths n)) found s))), n'),
       snd (case visits process ?b1 False s of (Inl rc, s) \<Rightarrow> (Inl rc, s)
         | (Inr found, s) \<Rightarrow> (case visits process ?b2 found s of (Inl rc, s) \<Rightarrow> (Inl rc, s)
            | (Inr found, s) \<Rightarrow> visits process (map (\<lambda>p. the_node p n) (hash_paths n)) found s))) \<and> own n' = own n"
    show ?goal
    proof (cases r1)
      case (Inl e)
      then show ?thesis using v1 1 by simp
    next
      case (Inr f)
      obtain r2 s2 where v2: "visits process ?b2 f s1 = (r2, s2)" by (cases "visits process ?b2 f s1")
      obtain n2 where 2: "sub_branch process (sub__search ts process) (ts = []) ''+'' f n1 s1 = ((r2, n2), s2)" "own n2 = own n1"
        "\<And>j. j \<noteq> ''+'' \<Longrightarrow> ht_find j (h_children n2) = ht_find j (h_children n1)"
        using branch_calls [where k = "''+''" and n' = n1 and n = n and found = f and s = s1, OF se] v2 1(3) [of "''+''"] ne by auto
      show ?thesis
      proof (cases r2)
        case (Inl e)
        then show ?thesis using v1 v2 1 2 Inr by simp
      next
        case (Inr f2)
        have "ht_find ''#'' (h_children n2) = ht_find ''#'' (h_children n)" using 1(3) 2(3) ne by simp
        from hash_calls [OF this, of f2 s2] obtain n3 where "sub_hash process f2 n2 s2 =
            ((code_of (fst (visits process (map (\<lambda>p. the_node p n) (hash_paths n)) f2 s2)), n3),
             snd (visits process (map (\<lambda>p. the_node p n) (hash_paths n)) f2 s2))" by blast
        moreover note hash_own [OF this]
        ultimately show ?thesis using v1 v2 1(1,2) 2(1,2) Inr \<open>r1 = Inr f\<close> by simp
      qed
    qed
  qed
qed

text \<open>The nodes of the search are those whose path matches, each of them once.\<close>

lemma search_exact:
  assumes "plain_levels ts" "hash_leaf n"
  shows "\<exists>ps n'. distinct ps
    \<and> (\<forall>p. p \<in> set ps \<longleftrightarrow> p \<noteq> [] \<and> node_below p n \<noteq> None \<and> match_levels p ts)
    \<and> sub__search ts process n s =
       ((code_of (fst (visits process (map (\<lambda>p. the_node p n) ps) False s)), n'),
        snd (visits process (map (\<lambda>p. the_node p n) ps) False s))
    \<and> rotated n n'"
proof -
  obtain n' where s: "sub__search ts process n s =
       ((code_of (fst (visits process (map (\<lambda>p. the_node p n) (search_paths ts n)) False s)), n'),
        snd (visits process (map (\<lambda>p. the_node p n) (search_paths ts n)) False s))"
    using search_calls [OF assms(1)] unfolding searched_def by blast
  show ?thesis
    using search_paths_distinct [OF assms(1)] search_paths_match [OF assms] s search_rotates [OF s] by blast
qed

end

end
