(* ===== verification/Retain_Ok.thy ===== *)
theory Retain_Ok
  imports Retain Broker_Lift
begin

text \<open>
  The tree of retained messages holds one reference to each of its messages: storing, searching,
  expiry and freeing keep the reference counts of the broker exact, and storing changes what is
  retained for one topic only.
\<close>


section \<open>The references of the tree\<close>

definition opt_ref :: "mptr option \<Rightarrow> mptr multiset" where
  "opt_ref r = (case r of None \<Rightarrow> {#} | Some p \<Rightarrow> {#p#})"

lemma opt_ref_simps [simp]: "opt_ref None = {#}" "opt_ref (Some p) = {#p#}"
  by (simp_all add: opt_ref_def)

fun branch_refs :: "(string \<times> mosquitto__retainhier) list \<Rightarrow> mptr multiset" where
  "branch_refs [] = {#}"
| "branch_refs ((t, Retainhier r children) # branches) = opt_ref r + branch_refs children + branch_refs branches"

definition node_refs :: "mosquitto__retainhier \<Rightarrow> mptr multiset" where
  "node_refs node = opt_ref (r_retained node) + branch_refs (r_children node)"

lemma branch_refs_Cons: "branch_refs ((t, b) # bs) = node_refs b + branch_refs bs"
  by (cases b) (simp add: node_refs_def)

lemma branch_refs_add: "branch_refs (ht_add t b bs) = branch_refs bs + node_refs b"
  unfolding ht_add_def by (induction bs) (auto simp: branch_refs_Cons)

lemma branch_refs_set:
  "ht_find t bs = Some b \<Longrightarrow> branch_refs (ht_set t b' bs) + node_refs b = branch_refs bs + node_refs b'"
  by (induction bs) (auto simp: branch_refs_Cons split: if_splits)

lemma branch_refs_find: "ht_find t bs = Some b \<Longrightarrow> node_refs b \<subseteq># branch_refs bs"
  by (induction bs) (auto simp: branch_refs_Cons subset_mset.add_increasing split: if_splits)

section \<open>Looking a topic up\<close>

primrec retain_at :: "string list \<Rightarrow> mosquitto__retainhier \<Rightarrow> mptr option" where
  "retain_at [] node = r_retained node"
| "retain_at (t # ts) node = (case ht_find t (r_children node) of None \<Rightarrow> None | Some b \<Rightarrow> retain_at ts b)"

lemma retain_at_empty [simp]: "retain_at us (Retainhier None []) = None"
  by (cases us) simp_all

lemma retain_at_refs: "retain_at ts node = Some p \<Longrightarrow> p \<in># node_refs node"
proof (induction ts arbitrary: node)
  case Nil then show ?case by (simp add: node_refs_def)
next
  case (Cons t ts)
  then obtain b where b: "ht_find t (r_children node) = Some b" "retain_at ts b = Some p" by (auto split: option.splits)
  have "p \<in># branch_refs (r_children node)"
    using mset_subset_eqD [OF branch_refs_find [OF b(1)] Cons.IH [OF b(2)]] .
  then show ?case by (simp add: node_refs_def)
qed

section \<open>Walking down\<close>

lemma mallocs_entry: "mallocs db (snd (retain__add_hier_entry topic len db))"
proof -
  obtain ok1 db1 where 1: "d_malloc db = (ok1, db1)" by (cases "d_malloc db")
  obtain ok2 db2 where 2: "d_malloc db1 = (ok2, db2)" by (cases "d_malloc db1")
  have "mallocs db db1" "mallocs db1 db2" using mallocs_malloc [of db] mallocs_malloc [of db1] 1 2 by simp_all
  then have "mallocs db db1" "mallocs db db2" using mallocs_trans by blast+
  then show ?thesis by (cases ok1; cases ok2) (simp_all add: retain__add_hier_entry_def 1 2)
qed

lemma entry_fresh: "retain__add_hier_entry topic len db = (Some n, db') \<Longrightarrow> n = (take (unat len) topic, Retainhier None [])"
  by (auto simp: retain__add_hier_entry_def split: prod.splits bool.splits)

text \<open>Levels whose length is not changed by the conversion to 16 bits.\<close>

definition short :: "string list \<Rightarrow> bool" where
  "short ts \<longleftrightarrow> list_all (\<lambda>t. length t < 65536) ts"

lemma short_simps [simp]: "short []" "short (t # ts) \<longleftrightarrow> length t < 65536 \<and> short ts"
  by (simp_all add: short_def)

lemma short_key: "length t < 65536 \<Longrightarrow> take (unat (strlen16 t)) t = t"
  by (simp add: strlen16_def unat_of_nat take_bit_eq_mod)

text \<open>Walking down: what the tree holds afterwards, and in which state the assignment ran.\<close>

lemma retain_walk_spec:
  "retain_walk ts f node db = ((rc, node'), db') \<Longrightarrow>
   (rc = MOSQ_ERR_SUCCESS \<and>
      (\<exists>db1 r. mallocs db db1 \<and> f (retain_at ts node) db1 = (r, db')
        \<and> (short ts \<longrightarrow> (\<forall>us. retain_at us node' = (if us = ts then r else retain_at us node)))
        \<and> node_refs node' + opt_ref (retain_at ts node) = node_refs node + opt_ref r))
   \<or> (rc = MOSQ_ERR_NOMEM \<and> mallocs db db' \<and> (short ts \<longrightarrow> (\<forall>us. retain_at us node' = retain_at us node))
        \<and> node_refs node' = node_refs node)"
proof (induction ts arbitrary: node db rc node' db')
  case Nil
  obtain r db1 where "f (r_retained node) db = (r, db1)" by (cases "f (r_retained node) db")
  moreover have "retain_at us (Retainhier r (r_children node)) = (if us = [] then r else retain_at us node)" for us
    by (cases us) simp_all
  ultimately show ?case using Nil by (auto simp: node_refs_def intro!: exI [of _ db])
next
  case (Cons t ts)
  show ?case
  proof (cases "ht_find t (r_children node)")
    case (Some b)
    obtain rc1 b1 db1 where w: "retain_walk ts f b db = ((rc1, b1), db1)" by (metis surj_pair)
    have e: "rc = rc1" "db' = db1" "node' = Retainhier (r_retained node) (ht_set t b1 (r_children node))"
      using Cons.prems Some w by simp_all
    have at: "retain_at us node' = (case us of [] \<Rightarrow> r_retained node
        | u # us \<Rightarrow> if u = t then retain_at us b1 else retain_at (u # us) node)" for us
      using Some by (cases us) (simp_all add: e ht_find_set)
    have refs: "node_refs node' + node_refs b = node_refs node + node_refs b1"
      using branch_refs_set [OF Some, of b1] by (simp add: e node_refs_def)
    have eq: "retain_at us node = (case us of [] \<Rightarrow> r_retained node
        | u # us \<Rightarrow> if u = t then retain_at us b else retain_at (u # us) node)" for us
      using Some by (cases us) simp_all
    from Cons.IH [OF w] show ?thesis
    proof (elim disjE conjE exE, goal_cases)
      case (1 db2 r)
      have "short (t # ts) \<longrightarrow> (\<forall>us. retain_at us node' = (if us = t # ts then r else retain_at us node))"
        unfolding at using 1(4) Some by (auto split: list.split)
      moreover have "node_refs node' + opt_ref (retain_at (t # ts) node) = node_refs node + opt_ref r"
      proof -
        have "node_refs node' + node_refs b + opt_ref (retain_at ts b) = node_refs node + (node_refs b1 + opt_ref (retain_at ts b))"
          unfolding refs by simp
        then show ?thesis unfolding 1(5) using Some by simp
      qed
      ultimately show ?thesis using 1 Some e by auto
    next
      case 2
      have "short (t # ts) \<longrightarrow> (\<forall>us. retain_at us node' = retain_at us node)"
        unfolding at using 2(3) Some by (auto split: list.split)
      moreover have "node_refs node' = node_refs node" using refs 2(4) by simp
      ultimately show ?thesis using 2 e by simp
    qed
  next
    case None
    obtain n db0 where n: "retain__add_hier_entry t (strlen16 t) db = (n, db0)" by (metis surj_pair)
    have m0: "mallocs db db0" using mallocs_entry [of db t "strlen16 t"] n by simp
    show ?thesis
    proof (cases n)
      case None': None
      then show ?thesis using Cons.prems None n m0 by simp
    next
      case (Some kb)
      obtain k b where kb: "kb = (k, b)" by (cases kb)
      then have k: "k = take (unat (strlen16 t)) t" and b: "b = Retainhier None []"
        using n entry_fresh Some by blast+
      have nb: "node_refs b = {#}" by (simp add: b node_refs_def)
      obtain rc1 b1 db1 where w: "retain_walk ts f b db0 = ((rc1, b1), db1)" by (metis surj_pair)
      have e: "rc = rc1" "db' = db1" "node' = Retainhier (r_retained node) (ht_add k b1 (r_children node))"
        using Cons.prems None Some n w kb by simp_all
      have at: "retain_at us node' = (case us of [] \<Rightarrow> r_retained node
          | u # us \<Rightarrow> if u = t then retain_at us b1 else retain_at (u # us) node)" if "length t < 65536" for us
        using None by (cases us) (simp_all add: e k short_key [OF that] ht_find_add)
      have refs: "node_refs node' = node_refs node + node_refs b1"
        by (simp add: e node_refs_def branch_refs_add)
      from Cons.IH [OF w] show ?thesis
      proof (elim disjE conjE exE, goal_cases)
        case (1 db2 r)
        have "short (t # ts) \<longrightarrow> (\<forall>us. retain_at us node' = (if us = t # ts then r else retain_at us node))"
          using 1(4) None by (auto simp: at b split: list.split)
        moreover have "node_refs node' + opt_ref (retain_at (t # ts) node) = node_refs node + opt_ref r"
          using 1(5) nb None by (simp add: refs b)
        moreover have "mallocs db db2" using mallocs_trans [OF m0 1(2)] .
        moreover have "f (retain_at (t # ts) node) db2 = (r, db')" using 1(3) None e by (simp add: b)
        ultimately show ?thesis using 1(1) e by auto
      next
        case 2
        have "short (t # ts) \<longrightarrow> (\<forall>us. retain_at us node' = retain_at us node)"
          using 2(3) None by (auto simp: at b split: list.split)
        moreover have "node_refs node' = node_refs node" using refs 2(4) nb by simp
        ultimately show ?thesis using 2(1) e(1,2) mallocs_trans [OF m0 2(2)] by simp
      qed
    qed
  qed
qed
section \<open>Storing\<close>

lemma retain_assign_ok:
  assumes cs: "clients cs" and b: "broker_ok cs (opt_ref old + add_mset stored E) db"
    and r: "retain_assign topic stored old db = (r, db')"
  shows "broker_ok cs (opt_ref r + add_mset stored E) db' \<and> beff db db'"
    and "r = (if s_payloadlen (stored_at stored db) > 0 then Some stored else None)"
proof -
  let ?E = "add_mset stored E"
  let ?db1 = "if take 4 topic \<noteq> ''$SYS'' then db\<lparr>d_persistence_changes := d_persistence_changes db + 1\<rparr> else db"
  let ?db2 = "case old of None \<Rightarrow> ?db1 | Some p \<Rightarrow> (snd (db__msg_store_ref_dec p ?db1))
                            \<lparr>d_retained_count := d_retained_count (snd (db__msg_store_ref_dec p ?db1)) - 1\<rparr>"
  have 1: "bgood cs (opt_ref old + ?E) db (opt_ref old + ?E) ?db1"
    by (rule bgood_calm_all [OF cs]) (simp add: calm_fields)
  have "bgood cs (opt_ref old + ?E) ?db1 ?E ?db2"
  proof (cases old)
    case None then show ?thesis by simp
  next
    case (Some p)
    have "bgood cs E db E (db\<lparr>d_retained_count := n\<rparr>)" for E n and db :: mosquitto_db
      by (rule bgood_calm_all [OF cs]) (simp add: calm_fields)
    note s = bgood_trans [OF bgood_drop [OF cs, of p ?E ?db1] this]
    have "opt_ref old + ?E = add_mset p ?E" using Some by simp
    then show ?thesis unfolding Some option.case using s by (simp only: Some)
  qed
  from bgood_trans [OF 1 this] b have 2: "broker_ok cs ?E ?db2" "beff db ?db2" by (simp_all add: bgood_def)
  note l = broker_live [OF cs 2(1), of stored]
  have t: "touch stored ?db2 = ?db2" using l(2) by simp
  have pl: "s_payloadlen (stored_at stored ?db2) = s_payloadlen (stored_at stored db)"
    using bcore_msg(1) [of db ?db2] 2(2) l(1) by (simp add: beff_def)
  let ?db3 = "db__msg_store_ref_inc stored ?db2"
  let ?db4 = "?db3\<lparr>d_retained_count := d_retained_count ?db3 + 1\<rparr>"
  have e: "(r, db') = (if s_payloadlen (stored_at stored db) > 0 then (Some stored, ?db4) else (None, ?db2))"
    using r [symmetric] unfolding retain_assign_def Let_def t pl .
  show "r = (if s_payloadlen (stored_at stored db) > 0 then Some stored else None)" using e by (simp split: if_splits)
  have "bgood cs (add_mset stored ?E) ?db3 (add_mset stored ?E) ?db4"
    by (rule bgood_calm_all [OF cs]) (simp add: calm_fields)
  note inc = this
  have "bgood cs ?E ?db2 (add_mset stored ?E) ?db3" by (rule bgood_take [OF cs]) simp
  from bgoodD [OF bgood_trans [OF this inc] 2(1)] have "broker_ok cs (add_mset stored ?E) ?db4 \<and> beff ?db2 ?db4" .
  then have "broker_ok cs (add_mset stored ?E) ?db4 \<and> beff db ?db4" using beff_trans [OF 2(2)] by blast
  then show "broker_ok cs (opt_ref r + ?E) db' \<and> beff db db'" using e 2 by (auto split: if_splits)
qed

text \<open>The references of all retained messages, and the message retained for a topic.\<close>

definition retained_refs :: "mosquitto_db \<Rightarrow> mptr multiset" where
  "retained_refs db = branch_refs (d_retains db)"

definition retained_for :: "string list \<Rightarrow> mosquitto_db \<Rightarrow> mptr option" where
  "retained_for ts db = (case ts of [] \<Rightarrow> None | root # _ \<Rightarrow>
     (case ht_find root (d_retains db) of None \<Rightarrow> None | Some node \<Rightarrow> retain_at ts node))"



lemma store_step:
  assumes cs: "clients cs" and w: "retain_walk ts (retain_assign topic stored) node db = ((rc, node'), db')"
    and b: "broker_ok cs (node_refs node + add_mset stored E) db"
  shows "broker_ok cs (node_refs node' + add_mset stored E) db' \<and> beff db db'"
    and "short ts \<Longrightarrow> rc = MOSQ_ERR_SUCCESS \<and> (\<forall>us. retain_at us node' =
        (if us = ts then (if s_payloadlen (stored_at stored db) > 0 then Some stored else None) else retain_at us node))
     \<or> rc = MOSQ_ERR_NOMEM \<and> (\<forall>us. retain_at us node' = retain_at us node)"
proof -
  let ?E = "add_mset stored E"
  have "(broker_ok cs (node_refs node' + ?E) db' \<and> beff db db') \<and>
     (short ts \<longrightarrow> rc = MOSQ_ERR_SUCCESS \<and> (\<forall>us. retain_at us node' =
        (if us = ts then (if s_payloadlen (stored_at stored db) > 0 then Some stored else None) else retain_at us node))
     \<or> rc = MOSQ_ERR_NOMEM \<and> (\<forall>us. retain_at us node' = retain_at us node))"
    using retain_walk_spec [OF w]
  proof (elim disjE conjE exE, goal_cases)
    case (1 db1 r)
    let ?o = "retain_at ts node"
    obtain F where F: "node_refs node = F + opt_ref ?o"
    proof (cases ?o)
      case None then show ?thesis using that [of "node_refs node"] by simp
    next
      case (Some p)
      from multi_member_split [OF retain_at_refs [OF Some]] obtain A where "node_refs node = add_mset p A" by blast
      then show ?thesis using that [of A] Some by simp
    qed
    have F': "node_refs node' = F + opt_ref r" using 1(5) unfolding F by simp
    have b1: "broker_ok cs (opt_ref ?o + add_mset stored (F + E)) db1" "beff db db1"
      using bgood_mallocs [OF cs 1(2)] b unfolding bgood_def F by (simp_all add: ac_simps)
    have st: "stored_at stored db1 = stored_at stored db" using 1(2) by (auto simp: mallocs_def stored_at_def)
    note a = retain_assign_ok [OF cs b1(1) 1(3)]
    have "broker_ok cs (node_refs node' + ?E) db' \<and> beff db db'"
      using a(1) beff_trans [OF b1(2)] unfolding F' by (simp add: ac_simps)
    then show ?case using 1(1,4) a(2) st by simp
  next
    case 2
    then show ?case using bgood_mallocs [OF cs 2(2)] b by (simp add: bgood_def)
  qed
  then show "broker_ok cs (node_refs node' + ?E) db' \<and> beff db db'"
    and "short ts \<Longrightarrow> rc = MOSQ_ERR_SUCCESS \<and> (\<forall>us. retain_at us node' =
        (if us = ts then (if s_payloadlen (stored_at stored db) > 0 then Some stored else None) else retain_at us node))
     \<or> rc = MOSQ_ERR_NOMEM \<and> (\<forall>us. retain_at us node' = retain_at us node)" by blast+
qed

text \<open>An update below one root, seen from the whole table.\<close>

lemma update_below_root:
  fixes rf rf' :: "string list \<Rightarrow> mptr option"
  assumes new: "\<And>us. rf' us = (if us \<noteq> [] \<and> hd us = root then at1 us else rf us)"
    and old: "\<And>us. us \<noteq> [] \<Longrightarrow> hd us = root \<Longrightarrow> rf us = at us"
    and sp: "rc = S \<and> (\<forall>us. at1 us = (if us = root # rs then X else at us)) \<or> rc = N \<and> (\<forall>us. at1 us = at us)"
  shows "rc = S \<and> (\<forall>us. rf' us = (if us = root # rs then X else rf us)) \<or> rc = N \<and> (\<forall>us. rf' us = rf us)"
  using sp
proof (elim disjE conjE, goal_cases)
  case 1
  have "rf' us = (if us = root # rs then X else rf us)" for us
    using new [of us] old [of us] 1(2) by (cases "us \<noteq> [] \<and> hd us = root") auto
  then show ?case using 1(1) by blast
next
  case 2
  have "rf' us = rf us" for us using new [of us] old [of us] 2(2) by (cases "us \<noteq> [] \<and> hd us = root") auto
  then show ?case using 2(1) by blast
qed

lemma retain_store_ok:
  assumes cs: "clients cs" and b: "broker_ok cs (retained_refs db + add_mset stored E) db"
    and r: "retain__store topic stored ts db = (rc, db')" and ne: "ts \<noteq> []"
  shows "broker_ok cs (retained_refs db' + add_mset stored E) db' \<and> bcore db db' \<and> d_subs db' = d_subs db"
    and "short ts \<Longrightarrow> rc = MOSQ_ERR_SUCCESS \<and> (\<forall>us. retained_for us db' =
        (if us = ts then (if s_payloadlen (stored_at stored db) > 0 then Some stored else None) else retained_for us db))
     \<or> rc = MOSQ_ERR_NOMEM \<and> (\<forall>us. retained_for us db' = retained_for us db)"
proof -
  obtain root rs where ts: "ts = root # rs" using ne by (cases ts) auto
  let ?E = "add_mset stored E" and ?P = "if s_payloadlen (stored_at stored db) > 0 then Some stored else None"
  have "(broker_ok cs (retained_refs db' + ?E) db' \<and> bcore db db' \<and> d_subs db' = d_subs db) \<and>
     (short ts \<longrightarrow> rc = MOSQ_ERR_SUCCESS \<and> (\<forall>us. retained_for us db' = (if us = ts then ?P else retained_for us db))
     \<or> rc = MOSQ_ERR_NOMEM \<and> (\<forall>us. retained_for us db' = retained_for us db))"
  proof (cases "ht_find root (d_retains db)")
    case (Some node)
    obtain rc1 node1 db1 where w: "retain_walk ts (retain_assign topic stored) node db = ((rc1, node1), db1)"
      by (metis surj_pair)
    have e: "rc = rc1" "db' = db1\<lparr>d_retains := ht_set root node1 (d_retains db1)\<rparr>"
      using r Some w by (simp_all add: retain__store_def ts)
    obtain F where F: "retained_refs db = node_refs node + F"
      using branch_refs_find [OF Some] unfolding retained_refs_def by (metis mset_subset_eq_exists_conv)
    have "broker_ok cs (node_refs node + add_mset stored (F + E)) db" using b unfolding F by (simp add: ac_simps)
    note s = store_step [OF cs w this]
    have rt: "d_retains db1 = d_retains db" using s(1) by (simp add: beff_def)
    have F': "retained_refs db' = node_refs node1 + F"
    proof -
      have "branch_refs (ht_set root node1 (d_retains db)) + node_refs node = node_refs node + F + node_refs node1"
        using branch_refs_set [OF Some, of node1] F by (simp add: retained_refs_def)
      then show ?thesis by (simp add: retained_refs_def e rt)
    qed
    have "broker_ok cs (retained_refs db' + ?E) db1 \<and> beff db db1" using s(1) unfolding F' by (simp add: ac_simps)
    moreover have "broker_ok cs Z db' = broker_ok cs Z db1" "bcore db db' = bcore db db1" "d_subs db' = d_subs db1" for Z by (simp_all add: e(2))
    ultimately have g: "broker_ok cs (retained_refs db' + ?E) db' \<and> bcore db db' \<and> d_subs db' = d_subs db" by (simp only: beff_def)
    have new: "retained_for us db' = (if us \<noteq> [] \<and> hd us = root then retain_at us node1 else retained_for us db)" for us
      using Some by (cases us) (simp_all add: retained_for_def e rt ht_find_set)
    have old: "us \<noteq> [] \<Longrightarrow> hd us = root \<Longrightarrow> retained_for us db = retain_at us node" for us
      using Some by (cases us) (simp_all add: retained_for_def)
    note u = update_below_root [of "\<lambda>us. retained_for us db'", OF new old s(2) [unfolded ts]]
    show ?thesis using g u unfolding e(1) ts by blast
  next
    case None
    obtain n db0 where n: "retain__add_hier_entry root (strlen16 root) db = (n, db0)" by (metis surj_pair)
    have m0: "mallocs db db0" using mallocs_entry [of db root "strlen16 root"] n by simp
    have b0: "broker_ok cs (retained_refs db + ?E) db0" "beff db db0"
      using bgood_mallocs [OF cs m0] b by (auto simp: bgood_def)
    have r0: "d_retains db0 = d_retains db" using mallocs_retains [OF m0] .
    show ?thesis
    proof (cases n)
      case None': None
      then have "rc = MOSQ_ERR_NOMEM" "db' = db0" using r None n by (simp_all add: retain__store_def ts)
      moreover have "retained_for us db0 = retained_for us db" for us unfolding retained_for_def r0 by (rule refl)
      ultimately show ?thesis using b0 r0 by (simp add: retained_refs_def beff_def)
    next
      case (Some kb)
      obtain k node where kb: "kb = (k, node)" by (cases kb)
      then have k: "k = take (unat (strlen16 root)) root" and nd: "node = Retainhier None []"
        using n entry_fresh Some by blast+
      obtain rc1 node1 db1 where w: "retain_walk ts (retain_assign topic stored) node db0 = ((rc1, node1), db1)"
        by (metis surj_pair)
      have e: "rc = rc1" "db' = db1\<lparr>d_retains := ht_add k node1 (d_retains db1)\<rparr>"
        using r None Some n w kb by (simp_all add: retain__store_def ts)
      have "broker_ok cs (node_refs node + add_mset stored (retained_refs db + E)) db0"
        using b0(1) by (simp add: nd node_refs_def ac_simps)
      note s = store_step [OF cs w this]
      have rt: "d_retains db1 = d_retains db" using s(1) r0 by (simp add: beff_def)
      have F': "retained_refs db' = node_refs node1 + retained_refs db"
        by (simp add: retained_refs_def e rt branch_refs_add)
      have "broker_ok cs (retained_refs db' + ?E) db1 \<and> beff db db1"
        using s(1) beff_trans [OF b0(2)] unfolding F' by (simp add: ac_simps)
      moreover have "broker_ok cs Z db' = broker_ok cs Z db1" "bcore db db' = bcore db db1" "d_subs db' = d_subs db1" for Z by (simp_all add: e(2))
      ultimately have g: "broker_ok cs (retained_refs db' + ?E) db' \<and> bcore db db' \<and> d_subs db' = d_subs db" by (simp only: beff_def)
      have new: "retained_for us db' = (if us \<noteq> [] \<and> hd us = root then retain_at us node1 else retained_for us db)"
        if "short ts" for us
        using None that by (cases us) (simp_all add: retained_for_def e rt k short_key ts ht_find_add)
      have old: "us \<noteq> [] \<Longrightarrow> hd us = root \<Longrightarrow> retained_for us db = retain_at us node" for us
        using None by (cases us) (simp_all add: retained_for_def nd)
      have st: "stored_at stored db0 = stored_at stored db" using m0 by (auto simp: mallocs_def stored_at_def)
      note u = update_below_root [of "\<lambda>us. retained_for us db'", OF new [unfolded ts] old s(2) [unfolded ts st]]
      show ?thesis using g u unfolding e(1) ts by blast
    qed
  qed
  then show "broker_ok cs (retained_refs db' + ?E) db' \<and> bcore db db' \<and> d_subs db' = d_subs db"
    and "short ts \<Longrightarrow> rc = MOSQ_ERR_SUCCESS \<and> (\<forall>us. retained_for us db' = (if us = ts then ?P else retained_for us db))
     \<or> rc = MOSQ_ERR_NOMEM \<and> (\<forall>us. retained_for us db' = retained_for us db)" by blast+
qed


section \<open>The search keeps what its callback keeps\<close>

definition proc_keeps :: "(mptr multiset \<Rightarrow> 's \<Rightarrow> bool) \<Rightarrow> (mptr \<Rightarrow> 's \<Rightarrow> mptr option \<times> 's) \<Rightarrow> bool" where
  "proc_keeps P proc \<longleftrightarrow> (\<forall>E p s. P (add_mset p E) s \<longrightarrow> P (opt_ref (fst (proc p s)) + E) (snd (proc p s)))"

definition branch_keeps ::
    "(mptr multiset \<Rightarrow> 's \<Rightarrow> bool) \<Rightarrow> (mosquitto__retainhier \<Rightarrow> 's \<Rightarrow> mosquitto__retainhier \<times> 's) \<Rightarrow> bool" where
  "branch_keeps P f \<longleftrightarrow> (\<forall>E b s. P (node_refs b + E) s \<longrightarrow> P (node_refs (fst (f b s)) + E) (snd (f b s)))"

lemma proc_keepsD: "proc_keeps P proc \<Longrightarrow> proc p s = (r, s') \<Longrightarrow> P (add_mset p E) s \<Longrightarrow> P (opt_ref r + E) s'"
  unfolding proc_keeps_def by (metis fst_conv snd_conv)

lemma branch_keepsD: "branch_keeps P f \<Longrightarrow> f b s = (b', s') \<Longrightarrow> P (node_refs b + E) s \<Longrightarrow> P (node_refs b' + E) s'"
  unfolding branch_keeps_def by (metis fst_conv snd_conv)

lemma search_all_keeps:
  "proc_keeps P proc \<Longrightarrow> P (branch_refs bs + E) s \<Longrightarrow>
   P (branch_refs (fst (retain_search_all proc bs s)) + E) (snd (retain_search_all proc bs s))"
proof (induction proc bs s arbitrary: E rule: retain_search_all.induct)
  case (1 proc s)
  then show ?case by simp
next
  case (2 proc t r children branches s)
  obtain r1 s1 where 1: "(case r of None \<Rightarrow> (None, s) | Some p \<Rightarrow> proc p s) = (r1, s1)" by (metis surj_pair)
  obtain ch s2 where c: "(if children \<noteq> [] then retain_search_all proc children s1 else (children, s1)) = (ch, s2)"
    by (metis surj_pair)
  obtain bs s3 where b: "retain_search_all proc branches s2 = (bs, s3)" by (metis surj_pair)
  have "P (opt_ref r1 + (branch_refs children + branch_refs branches + E)) s1"
    using 1 2(4) proc_keepsD [OF 2(3), of _ s r1 s1] by (cases r) (simp_all add: add.assoc)
  then have p1: "P (branch_refs children + (opt_ref r1 + branch_refs branches + E)) s1" by (simp add: ac_simps)
  have "P (branch_refs ch + (opt_ref r1 + branch_refs branches + E)) s2"
  proof (cases "children = []")
    case True then show ?thesis using c p1 by simp
  next
    case False
    then show ?thesis using 2(1) [OF 1 [symmetric] False 2(3) p1] c by simp
  qed
  then have "P (branch_refs branches + (opt_ref r1 + branch_refs ch + E)) s2" by (simp add: ac_simps)
  from 2(2) [OF 1 [symmetric] c [symmetric] 2(3) this] b
  have "P (branch_refs bs + (opt_ref r1 + branch_refs ch + E)) s3" by simp
  then show ?case using 1 c b by (simp add: ac_simps)
qed

lemma hit_keeps: "proc_keeps P proc \<Longrightarrow> branch_keeps P (retain_hit proc)"
  unfolding branch_keeps_def
proof (intro allI impI)
  fix E b s assume k: "proc_keeps P proc" and p: "P (node_refs b + E) s"
  show "P (node_refs (fst (retain_hit proc b s)) + E) (snd (retain_hit proc b s))"
  proof (cases "r_retained b")
    case None then show ?thesis using p by (simp add: retain_hit_def)
  next
    case (Some q)
    obtain r s1 where a: "proc q s = (r, s1)" by (metis surj_pair)
    have "P (add_mset q (branch_refs (r_children b) + E)) s" using p Some by (simp add: node_refs_def)
    from proc_keepsD [OF k a this] show ?thesis using Some a by (simp add: retain_hit_def node_refs_def add.assoc)
  qed
qed

lemma iter_keeps:
  "branch_keeps P f \<Longrightarrow> P (branch_refs bs + E) s \<Longrightarrow> P (branch_refs (fst (ht_iter f bs s)) + E) (snd (ht_iter f bs s))"
proof (induction bs arbitrary: s E)
  case (Cons kb bs)
  obtain k b where kb: "kb = (k, b)" by (cases kb)
  obtain b1 s1 where 1: "f b s = (b1, s1)" by (cases "f b s")
  obtain bs2 s2 where 2: "ht_iter f bs s1 = (bs2, s2)" by (cases "ht_iter f bs s1")
  have "P (node_refs b + (branch_refs bs + E)) s" using Cons.prems(2) by (simp add: kb branch_refs_Cons ac_simps)
  then have "P (node_refs b1 + (branch_refs bs + E)) s1" using Cons.prems(1) 1 unfolding branch_keeps_def by fastforce
  then have "P (branch_refs bs + (node_refs b1 + E)) s1" by (simp add: ac_simps)
  from Cons.IH [OF Cons.prems(1) this] 2 have "P (branch_refs bs2 + (node_refs b1 + E)) s2" by simp
  then show ?case by (simp add: kb 1 2 branch_refs_Cons ac_simps)
qed simp

lemma branch_keeps_comp:
  assumes "proc_keeps P proc"
    and "branch_keeps P (\<lambda>b s. (snd (fst (search b s)), snd (search b s)))"
  shows "branch_keeps P (retain_branch proc rst level search)"
  unfolding branch_keeps_def
proof (intro allI impI)
  fix E b s assume p: "P (node_refs b + E) s"
  obtain rc b1 s1 where 1: "search b s = ((rc, b1), s1)" by (metis surj_pair)
  have "P (node_refs b1 + E) s1" using assms(2) p 1 unfolding branch_keeps_def by fastforce
  then show "P (node_refs (fst (retain_branch proc rst level search b s)) + E) (snd (retain_branch proc rst level search b s))"
    using hit_keeps [OF assms(1)] p unfolding retain_branch_def 1 branch_keeps_def by simp
qed

text \<open>
  The contract of the call at each hit: it gets the reference of the node and leaves it the one that
  it returns. Under it the search keeps \<open>P\<close>.
\<close>

locale retain_callback =
  fixes P :: "mptr multiset \<Rightarrow> 's \<Rightarrow> bool" and proc :: "mptr \<Rightarrow> 's \<Rightarrow> mptr option \<times> 's"
  assumes keeps: "P (add_mset p E) s \<Longrightarrow> P (opt_ref (fst (proc p s)) + E) (snd (proc p s))"
begin

lemma kept: "proc_keeps P proc"
  using keeps by (simp add: proc_keeps_def)

lemma search_keeps:
  "branch_keeps P (\<lambda>node s. (snd (fst (retain__search ts proc level node s)), snd (retain__search ts proc level node s)))"
proof (induction ts arbitrary: level)
  case Nil then show ?case by (simp add: branch_keeps_def)
next
  case (Cons t ts)
  note bk = branch_keeps_comp [OF kept Cons.IH, of ts level "Suc level"]
  let ?f = "retain_branch proc ts level (retain__search ts proc (Suc level))"
  show ?case unfolding branch_keeps_def
  proof (intro allI impI)
    fix E node s assume p: "P (node_refs node + E) s"
    let ?E = "opt_ref (r_retained node) + E"
    have p': "P (branch_refs (r_children node) + ?E) s" using p by (simp add: node_refs_def ac_simps)
    let ?r = "retain__search (t # ts) proc level node s"
    show "P (node_refs (fst (snd (fst ?r), snd ?r)) + E) (snd (snd (fst ?r), snd ?r))"
    proof (cases "t = ''#'' \<and> ts = []")
      case True
      obtain ch s1 where a: "retain_search_all proc (r_children node) s = (ch, s1)" by (metis surj_pair)
      have "P (branch_refs ch + ?E) s1" using search_all_keeps [OF kept p'] a by simp
      then show ?thesis using True a by (simp add: node_refs_def ac_simps)
    next
      case hash: False
      show ?thesis
      proof (cases "t = ''+''")
        case True
        obtain ch s1 where a: "ht_iter ?f (r_children node) s = (ch, s1)" by (metis surj_pair)
        have "P (branch_refs ch + ?E) s1" using iter_keeps [OF bk p'] a by simp
        then show ?thesis using True hash a by (simp add: node_refs_def ac_simps)
      next
        case False
        show ?thesis
        proof (cases "ht_find t (r_children node)")
          case None then show ?thesis using False hash p by auto
        next
          case (Some b)
          obtain b1 s1 where a: "?f b s = (b1, s1)" by (metis surj_pair)
          obtain F where F: "branch_refs (r_children node) = node_refs b + F"
            using branch_refs_find [OF Some] by (metis mset_subset_eq_exists_conv)
          have F': "branch_refs (ht_set t b1 (r_children node)) = node_refs b1 + F"
            using branch_refs_set [OF Some, of b1] unfolding F by (simp add: ac_simps)
          have "P (node_refs b + (F + ?E)) s" using p' unfolding F by (simp add: ac_simps)
          then have "P (node_refs b1 + (F + ?E)) s1" using bk a unfolding branch_keeps_def by fastforce
          then show ?thesis using False hash Some a by (auto simp: node_refs_def F' ac_simps)
        qed
      qed
    qed
  qed
qed

lemma search_state:
  "retain__search ts proc level node s = ((rc, node'), s') \<Longrightarrow> P (node_refs node + E) s \<Longrightarrow> P (node_refs node' + E) s'"
  using branch_keepsD [OF search_keeps [of ts level], of node s node' s' E] by simp

end

section \<open>Sending keeps the broker's invariant\<close>

definition qos_ready :: "cptr \<Rightarrow> u8 \<Rightarrow> mosquitto_db \<Rightarrow> bool" where
  "qos_ready c qos db \<longleftrightarrow> qos \<le> 2 \<and> (qos = 0 \<or> c_max_qos (get_ctx c db) > 0)"

lemma mallocs_sub_id: "mallocs db (snd (sub_id_property i db))"
  by (auto simp: sub_id_property_def mallocs_malloc)

lemma retain_send_ok:
  assumes cs: "clients cs" "c \<in> set cs" and b: "broker_ok cs (add_mset p E) db" and q: "qos_ready c sub_qos db"
  shows "broker_ok cs (add_mset p E) (snd (retain_send c sub_qos i p db)) \<and> beff db (snd (retain_send c sub_qos i p db))"
proof -
  let ?qos = "if upgrade_outgoing_qos (d_config db) then sub_qos
     else if s_qos (stored_at p db) > sub_qos then sub_qos else s_qos (stored_at p db)"
  obtain mid db1 where m: "(if ?qos > 0 then mosquitto__mid_generate c db else (0, db)) = (mid, db1)" by (metis surj_pair)
  obtain ps db2 where s: "sub_id_property i db1 = (ps, db2)" by (metis surj_pair)
  have "calm c db db1" using calm_mid_generate [of c db] m by (auto split: if_splits)
  then have c2: "calm c db db2" using mallocs_calm [OF mallocs_sub_id [of db1 i]] calm_trans s by fastforce
  have b2: "broker_ok cs (add_mset p E) db2" "beff db db2"
    using bgood_good [OF cs calm_good [OF c2]] b by (auto simp: bgood_def)
  have live: "live p db2" using broker_live [OF cs(1) b2(1)] by simp
  have le: "?qos \<le> sub_qos" by auto
  have q2: "?qos \<le> 2" "?qos = 0 \<or> c_max_qos (get_ctx c db2) > 0"
    using q le b2(2) unfolding qos_ready_def beff_def bcore_def by (auto simp: ctx_core_def word_le_nat_alt unat_eq_0)
  have d: "insert_duplicate c mosq_md_out True p db2 \<noteq> None" by (simp add: insert_duplicate_def)
  have "retain_send c sub_qos i p db = db__message_insert c mid mosq_md_out ?qos True p ps False db2"
    unfolding retain_send_def Let_def m s prod.case by simp
  then show ?thesis
    using bgood_good [OF cs good_insert [OF live q2 d]] b2 beff_trans unfolding bgood_def by simp
qed

lemma retain_process_ok:
  assumes cs: "clients cs" "c \<in> set cs" and b: "broker_ok cs (add_mset p E) db" and q: "qos_ready c sub_qos db"
    and r: "retain__process env c sub_qos i p db = ((rc, r), db')"
  shows "broker_ok cs (opt_ref r + E) db' \<and> beff db db'"
proof -
  have t: "touch p db = db" using broker_live [OF cs(1) b] by simp
  let ?msg = "stored_at p db"
  show ?thesis
  proof (cases "s_message_expiry_time ?msg > 0 \<and> d_now_real_s db \<ge> s_message_expiry_time ?msg")
    case True
    have "bgood cs E' db (E' :: mptr multiset) (db\<lparr>d_retained_count := n\<rparr>)" for E' n and db :: mosquitto_db
      by (rule bgood_calm_all [OF cs(1)]) (simp add: calm_fields)
    from bgood_trans [OF bgood_drop [OF cs(1), of p E db] this] b r True show ?thesis
      by (auto simp: retain__process_def t Let_def bgood_def)
  next
    case False
    obtain rc1 db1 where s: "retain_send c sub_qos i p db = (rc1, db1)" by (metis surj_pair)
    have 1: "broker_ok cs (add_mset p E) db1 \<and> beff db db1" using retain_send_ok [OF cs b q, of i] s by simp
    have "r = Some p \<and> (db' = db \<or> db' = db1)"
      using r False unfolding retain__process_def Let_def t s by (auto split: if_splits option.splits)
    then show ?thesis using 1 b by auto
  qed
qed

lemma filed_levels_ne [simp]: "filed_levels s \<noteq> []"
  by (simp add: filed_levels_def)

definition sending :: "cptr list \<Rightarrow> cptr \<Rightarrow> u8 \<Rightarrow> mosquitto_db \<Rightarrow> mptr multiset \<Rightarrow> mosquitto_db \<Rightarrow> bool" where
  "sending cs c sub_qos db0 E db \<longleftrightarrow>
     clients cs \<and> c \<in> set cs \<and> broker_ok cs E db \<and> qos_ready c sub_qos db \<and> beff db0 db"

definition process_call :: "acl_env \<Rightarrow> cptr \<Rightarrow> u8 \<Rightarrow> u32 \<Rightarrow> mptr \<Rightarrow> mosquitto_db \<Rightarrow> mptr option \<times> mosquitto_db" where
  "process_call env c sub_qos i p db = (case retain__process env c sub_qos i p db of ((_, r), db) \<Rightarrow> (r, db))"

interpretation process: retain_callback "sending cs c sub_qos db0" "process_call env c sub_qos i"
  for cs c sub_qos db0 env i
proof
  fix p E db assume a: "sending cs c sub_qos db0 (add_mset p E) db"
  then have s: "clients cs" "c \<in> set cs" "broker_ok cs (add_mset p E) db" "qos_ready c sub_qos db" "beff db0 db"
    by (simp_all add: sending_def)
  obtain rc r db' where r: "retain__process env c sub_qos i p db = ((rc, r), db')" by (metis surj_pair)
  note k = retain_process_ok [OF s(1-4) r]
  then have "qos_ready c sub_qos db'" using s(4) by (simp add: qos_ready_def beff_def bcore_def ctx_core_def)
  then show "sending cs c sub_qos db0 (opt_ref (fst (process_call env c sub_qos i p db)) + E)
      (snd (process_call env c sub_qos i p db))"
    using k beff_trans [OF s(5)] s(1,2) by (simp add: process_call_def sending_def r)
qed

lemma retain_queue_ok:
  assumes cs: "clients cs" "c \<in> set cs" and b: "broker_ok cs (retained_refs db + E) db"
    and q: "qos_ready c sub_qos db" and ne: "sub \<noteq> []"
  shows "broker_ok cs (retained_refs (snd (retain__queue env c sub sub_qos i db)) + E) (snd (retain__queue env c sub sub_qos i db))
    \<and> bcore db (snd (retain__queue env c sub sub_qos i db)) \<and> d_subs (snd (retain__queue env c sub sub_qos i db)) = d_subs db"
proof -
  obtain res mem where tok: "sub__topic_tokenise sub (d_mem db) = (res, mem)" by (metis surj_pair)
  let ?db = "db\<lparr>d_mem := mem\<rparr>"
  have b0: "broker_ok cs (retained_refs db + E) ?db" and f0: "bcore db ?db"
    using bgood_mallocs [OF cs(1) mem_mallocs [OF tokenise_mem [OF tok]]] b unfolding bgood_def beff_def by blast+
  have r0: "retained_refs ?db = retained_refs db" by (simp add: retained_refs_def)
  show ?thesis
  proof (rule sub__topic_tokenise_cases [OF ne, of "d_mem db"], goal_cases)
    case 1 then show ?case using b0 f0 r0 by (simp add: retain__queue_def tok)
  next
    case 2 then show ?case using b0 f0 r0 by (simp add: retain__queue_def tok)
  next
    case (3 ts)
    let ?root = "hd (filed_levels sub)" and ?proc = "process_call env c sub_qos i"
    show ?case
    proof (cases "ht_find ?root (d_retains db)")
      case None then show ?thesis using 3 b0 f0 r0 by (simp add: retain__queue_def tok)
    next
      case (Some node)
      obtain f node1 db1 where s: "retain__search (filed_levels sub) ?proc 0 node ?db = ((f, node1), db1)" by (metis surj_pair)
      obtain F where F: "retained_refs db = node_refs node + F"
        using branch_refs_find [OF Some] unfolding retained_refs_def by (metis mset_subset_eq_exists_conv)
      have "sending cs c sub_qos ?db (node_refs node + (F + E)) ?db"
        using b0 q cs unfolding F by (simp add: sending_def qos_ready_def get_ctx_def ac_simps)
      from process.search_state [OF s this]
      have k: "broker_ok cs (node_refs node1 + (F + E)) db1" "beff ?db db1" by (simp_all add: sending_def)
      have rt: "d_retains db1 = d_retains db" using k(2) by (simp add: beff_def)
      have "branch_refs (ht_set ?root node1 (d_retains db)) + node_refs node = node_refs node + F + node_refs node1"
        using branch_refs_set [OF Some, of node1] F by (simp add: retained_refs_def)
      then have F': "branch_refs (ht_set ?root node1 (d_retains db)) = node_refs node1 + F" by simp
      have "snd (retain__queue env c sub sub_qos i db) = db1\<lparr>d_retains := ht_set ?root node1 (d_retains db1)\<rparr>"
        using 3 Some s unfolding process_call_def [abs_def] by (simp add: retain__queue_def tok)
      moreover have "bcore db db1" "d_subs db1 = d_subs db" using k(2) bcore_trans [OF f0] by (simp_all add: beff_def)
      ultimately show ?thesis using k(1) by (simp add: retained_refs_def rt F' ac_simps)
    qed
  qed
qed

section \<open>Freeing the tree\<close>

lemma retain_clean_ok:
  assumes "clients cs"
  shows "bgood cs (branch_refs bs + E) db E (retain__clean bs db)"
proof (induction bs db arbitrary: E rule: retain__clean.induct)
  case (2 t r children peers db)
  let ?db = "case r of None \<Rightarrow> db | Some p \<Rightarrow> snd (db__msg_store_ref_dec p db)"
  have e: "branch_refs ((t, Retainhier r children) # peers) + E = opt_ref r + (branch_refs children + (branch_refs peers + E))"
    by (simp add: ac_simps)
  have "bgood cs (opt_ref r + (branch_refs children + (branch_refs peers + E))) db
      (branch_refs children + (branch_refs peers + E)) ?db"
    by (cases r) (simp_all add: bgood_drop [OF assms])
  from bgood_trans [OF bgood_trans [OF this 2(1)] 2(2)] show ?case unfolding e by simp
qed simp

end
