(* ===== verification/Subs_Queue.thy ===== *)
theory Subs_Queue
  imports Subs_Search Retain_Ok
begin

text \<open>
  Publishing: \<open>subs__process\<close> is what the search calls. A publication keeps the counters
  and reference counts of the broker and the books of its subscriptions.
\<close>

section \<open>Processing the subscriptions of a node\<close>

lemma shared_step_rotates: "mset (fst (shared_step send subs s)) = mset subs"
  by (auto simp: shared_step_def split: list.split prod.split)

lemma iter_rotates:
  "list_all2 (\<lambda>e e'. fst e' = fst e \<and> mset (snd e') = mset (snd e)) sh (fst (ht_iter (shared_step send) sh s))"
proof (induction sh arbitrary: s)
  case (Cons kv sh)
  obtain v s1 where 1: "shared_step send (snd kv) s = (v, s1)" by (cases "shared_step send (snd kv) s")
  have "mset v = mset (snd kv)" using shared_step_rotates [of send "snd kv" s] 1 by simp
  then show ?case using Cons [of s1] by (simp add: 1 split_beta)
qed simp

interpretation publish: node_process "subs__process env source_id topic qos retain stored"
  for env source_id topic qos retain stored
proof
  fix b s rc b' s' assume "subs__process env source_id topic qos retain stored b s = ((rc, b'), s')"
  then obtain sh where sh: "sh = fst (ht_iter (shared_step (\<lambda>leaf db. subs__send env leaf topic qos retain stored db))
      (h_shared b) (MOSQ_ERR_SUCCESS, s))" "b' = Subhier (h_subs b) sh (h_children b)"
    by (auto simp: subs__process_def subs__shared_process_def Let_def split: prod.splits option.splits)
  then show "h_children b' = h_children b" "alike (own b) (own b')"
    using iter_rotates [of "h_shared b"] by (simp_all add: alike_def own_select)
next
  fix b c s rc b' s'
  assume o: "own b = own c" and p: "subs__process env source_id topic qos retain stored b s = ((rc, b'), s')"
  have "h_subs b = h_subs c" "h_shared b = h_shared c" using o by (metis own_select)+
  then show "\<exists>c'. subs__process env source_id topic qos retain stored c s = ((rc, c'), s')"
    using p by (auto simp: subs__process_def Let_def split: prod.splits option.splits)
qed

section \<open>Counters and references\<close>

text \<open>No \<open>strdup\<close> of an identifier has failed, or the identifiers are not looked at.\<close>

definition no_null :: "mptr \<Rightarrow> mosquitto_db \<Rightarrow> bool" where
  "no_null stored db \<longleftrightarrow> allow_duplicate_messages (d_config db) \<or> (d_mem db = [] \<and> dest_ok stored db)"

lemma dest_scan_ok: "None \<notin> set ids \<Longrightarrow> dest_scan i ids \<noteq> None"
  by (induction ids) (auto split: option.split, metis not_None_eq)

lemma no_null_duplicate: "no_null stored db \<Longrightarrow> insert_duplicate c dir retain stored db \<noteq> None"
  using dest_scan_ok [of "ids_of (stored_at stored db)"]
  by (auto simp: insert_duplicate_def no_null_def dest_ok_def ids_of_def split: option.split)

lemma no_null_beff: "no_null stored db \<Longrightarrow> beff db db' \<Longrightarrow> no_null stored db'"
  by (auto simp: no_null_def beff_def bcore_def dests_calm_def)

definition leaf_ready :: "cptr list \<Rightarrow> mosquitto_db \<Rightarrow> mosquitto__subleaf \<Rightarrow> bool" where
  "leaf_ready cs db leaf \<longleftrightarrow> l_context leaf \<in> set cs \<and> qos_ready (l_context leaf) (l_qos leaf) db"

lemma leaf_ready_beff: "leaf_ready cs db leaf \<Longrightarrow> beff db db' \<Longrightarrow> leaf_ready cs db' leaf"
  by (simp add: leaf_ready_def qos_ready_def beff_def bcore_def ctx_core_def)

text \<open>The state during a publication.\<close>

definition publishing :: "cptr list \<Rightarrow> mptr \<Rightarrow> mptr multiset \<Rightarrow> mosquitto_db \<Rightarrow> mosquitto_db \<Rightarrow> bool" where
  "publishing cs stored E db0 db \<longleftrightarrow> broker_ok cs (add_mset stored E) db \<and> beff db0 db \<and> no_null stored db"

lemma publishing_step:
  assumes "publishing cs stored E db0 db" "bgood cs (add_mset stored E) db (add_mset stored E) db'"
  shows "publishing cs stored E db0 db'"
  using assms beff_trans no_null_beff unfolding publishing_def bgood_def by blast

lemma send_ok:
  assumes cs: "clients cs" and p: "publishing cs stored E db0 db" and l: "leaf_ready cs db0 leaf"
  shows "publishing cs stored E db0 (snd (subs__send env leaf topic qos retain stored db))"
proof -
  let ?c = "l_context leaf"
  have b: "broker_ok cs (add_mset stored E) db" and f0: "beff db0 db" using p by (simp_all add: publishing_def)
  have t: "touch stored db = db" using broker_live [OF cs b] by simp
  have c: "?c \<in> set cs" and q: "qos_ready ?c (l_qos leaf) db" using leaf_ready_beff [OF l f0] by (simp_all add: leaf_ready_def)
  let ?qos = "if upgrade_outgoing_qos (d_config db) then l_qos leaf else if qos > l_qos leaf then l_qos leaf else qos"
  obtain mid db1 where m: "(if ?qos > 0 then mosquitto__mid_generate ?c db else (0, db)) = (mid, db1)" by (rule prod.exhaust)
  obtain ps db2 where s: "sub_id_property (l_identifier leaf) db1 = (ps, db2)" by (rule prod.exhaust)
  have "calm ?c db db1" using calm_mid_generate [of ?c db] m by (auto split: if_splits)
  then have c2: "calm ?c db db2" using mallocs_calm [OF mallocs_sub_id [of db1 "l_identifier leaf"]] calm_trans s by fastforce
  have p2: "publishing cs stored E db0 db2" by (rule publishing_step [OF p bgood_good [OF cs c calm_good [OF c2]]])
  have f2: "beff db db2" using bgood_good [OF cs c calm_good [OF c2]] b by (simp add: bgood_def)
  have live: "live stored db2" using broker_live(1) [OF cs, of "add_mset stored E" db2 stored] p2 by (simp add: publishing_def)
  have le: "?qos \<le> l_qos leaf" by auto
  have q2: "?qos \<le> 2" "?qos = 0 \<or> c_max_qos (get_ctx ?c db2) > 0"
    using q le f2 unfolding qos_ready_def beff_def bcore_def by (auto simp: ctx_core_def word_le_nat_alt unat_eq_0)
  have d: "insert_duplicate ?c mosq_md_out r stored db2 \<noteq> None" for r
    using p2 no_null_duplicate by (simp add: publishing_def)
  let ?r = "if l_retain_as_published leaf then retain else False"
  obtain rc db3 where i: "db__message_insert ?c mid mosq_md_out ?qos ?r stored ps True db2 = (rc, db3)" by (rule prod.exhaust)
  have "publishing cs stored E db0 db3"
    using publishing_step [OF p2 bgood_good [OF cs c good_insert [OF live q2 d]], of mid ?r ps True] i by simp
  then show ?thesis using p unfolding subs__send_def Let_def t m s i prod.case by (simp split: prod.split)
qed

definition node_ready :: "cptr list \<Rightarrow> mosquitto_db \<Rightarrow> own \<Rightarrow> bool" where
  "node_ready cs db q \<longleftrightarrow> shares_ok (snd q) \<and> (\<forall>l \<in> set (fst q). leaf_ready cs db l)
     \<and> (\<forall>e \<in> set (snd q). \<forall>l \<in> set (snd e). leaf_ready cs db l)"

lemma shared_ok:
  assumes cs: "clients cs" and p: "publishing cs stored E db0 (snd rs)"
    and r: "\<forall>e \<in> set sh. snd e \<noteq> [] \<and> (\<forall>l \<in> set (snd e). leaf_ready cs db0 l)"
  shows "publishing cs stored E db0 (snd (snd (ht_iter (shared_step
    (\<lambda>leaf db. subs__send env leaf topic qos retain stored db)) sh rs)))"
  using p r
proof (induction sh arbitrary: rs)
  case (Cons kv sh)
  let ?send = "\<lambda>leaf db. subs__send env leaf topic qos retain stored db"
  obtain leaf rest where l: "snd kv = leaf # rest" using Cons.prems(2) by (cases "snd kv") auto
  obtain rc2 db1 where s: "subs__send env leaf topic qos retain stored (snd rs) = (rc2, db1)" by (rule prod.exhaust)
  have "publishing cs stored E db0 db1" 
    using send_ok [OF cs Cons.prems(1), of leaf env topic qos retain] Cons.prems(2) l s by simp
  then have "publishing cs stored E db0 (snd (snd (shared_step ?send (snd kv) rs)))" by (simp add: shared_step_def l s)
  then show ?case using Cons.IH [of "snd (shared_step ?send (snd kv) rs)"] Cons.prems(2) by (simp add: split_beta)
qed simp

lemma loop_ok:
  assumes cs: "clients cs" and p: "publishing cs stored E db0 db" and r: "\<forall>l \<in> set leaves. leaf_ready cs db0 l"
  shows "publishing cs stored E db0 (snd (subs_loop
    (\<lambda>leaf db. subs__send env leaf topic qos retain stored db) src leaves rc db))"
  using p r
proof (induction leaves arbitrary: rc db)
  case (Cons leaf leaves)
  obtain rc2 db1 where s: "subs__send env leaf topic qos retain stored db = (rc2, db1)" by (rule prod.exhaust)
  have "publishing cs stored E db0 db1" 
    using send_ok [OF cs Cons.prems(1), of leaf env topic qos retain] Cons.prems(2) s by simp
  then show ?case using Cons.IH Cons.prems by (simp add: s)
qed simp

lemma process_ok:
  assumes cs: "clients cs" and p: "publishing cs stored E db0 db" and r: "node_ready cs db0 (own b)"
  shows "publishing cs stored E db0 (snd (subs__process env source_id topic qos retain stored b db))"
proof -
  let ?send = "\<lambda>leaf db. subs__send env leaf topic qos retain stored db"
  obtain sh rc db1 where 1: "ht_iter (shared_step ?send) (h_shared b) (MOSQ_ERR_SUCCESS, db) = (sh, rc, db1)" by (metis surj_pair)
  have "\<forall>e \<in> set (h_shared b). snd e \<noteq> [] \<and> (\<forall>l \<in> set (snd e). leaf_ready cs db0 l)"
    using r by (auto simp: node_ready_def shares_ok_def own_select)
  then have p1: "publishing cs stored E db0 db1" using shared_ok [OF cs, of stored E db0 "(MOSQ_ERR_SUCCESS, db)" "h_shared b"
      env topic qos retain] p 1 by simp
  have rl: "\<forall>l \<in> set (h_subs b). leaf_ready cs db0 l" using r by (simp add: node_ready_def own_select)
  obtain rc2 db2 where 2: "(case source_id of None \<Rightarrow> (rc, db1) | Some src \<Rightarrow> subs_loop ?send src (h_subs b) rc db1) = (rc2, db2)"
    by (rule prod.exhaust)
  have "publishing cs stored E db0 db2"
    using loop_ok [OF cs p1 rl, of env topic qos retain _ rc] p1 2 by (cases source_id) (auto simp: split_beta, metis snd_conv)
  then show ?thesis unfolding subs__process_def subs__shared_process_def Let_def 1 prod.case 2 by simp
qed

section \<open>A publication\<close>

lemma books_rotated:
  assumes b: "books db" and r: "rotated (roots db) (roots db')"
    and c: "\<And>c. c_subs (get_ctx c db') = c_subs (get_ctx c db)" "\<And>c. c_shared_subs (get_ctx c db') = c_shared_subs (get_ctx c db)"
    and k: "d_subscription_count db' = d_subscription_count db" "d_shared_subscription_count db' = d_shared_subscription_count db"
  shows "books db'"
proof -
  have wf: "hier_wf (roots db)" using b by (simp add: books_defs roots_def)
  have a: "alike (own (the_node vs (roots db))) (own (the_node vs (roots db')))" for vs using r by (simp add: rotated_def)
  have w: "fst (own (the_node vs (roots db'))) = fst (own (the_node vs (roots db)))"
    "who (share name (own (the_node vs (roots db')))) = who (share name (own (the_node vs (roots db))))" for vs name
    using a [of vs] alike_share [OF a] by (simp_all add: alike_def who_def)
  have "hier_total subs_of (roots db') = hier_total subs_of (roots db)" "hier_total shared_of (roots db') = hier_total shared_of (roots db)"
    using r alike_counts unfolding rotated_def by blast+
  then have "tree_sum subs_of (d_subs db') = tree_sum subs_of (d_subs db)" "tree_sum shared_of (d_subs db') = tree_sum shared_of (d_subs db)"
    by (simp_all add: roots_def)
  moreover have "sub_wf (d_subs db')" using r wf by (simp add: rotated_def roots_def)
  ultimately show ?thesis using b unfolding books_defs ref_count_def shared_ref_count_def c k w by simp
qed

text \<open>All subscriptions are of known clients.\<close>

definition tree_ready :: "cptr list \<Rightarrow> mosquitto_db \<Rightarrow> bool" where
  "tree_ready cs db \<longleftrightarrow> (\<forall>vs. node_ready cs db (own (the_node vs (roots db))))"

lemma the_node_root: "ht_find k (d_subs db) = Some h \<Longrightarrow> the_node (k # vs) (roots db) = the_node vs h"
  by (simp add: roots_def)

lemma search_step:
  assumes cs: "clients cs" and p1: "publishing cs stored E db db1" and tr: "tree_ready cs db" and pl: "plain_levels fs"
    and s: "(case ht_find (hd fs) (d_subs db1) of None \<Rightarrow> (MOSQ_ERR_SUCCESS, db1)
        | Some subhier \<Rightarrow> (case sub__search fs (subs__process env source_id topic qos retain stored) subhier db1 of
            ((rc, subhier), db) \<Rightarrow> (rc, db\<lparr>d_subs := ht_set (hd fs) subhier (d_subs db)\<rparr>))) = (rc2, db2)"
  shows "broker_ok cs (add_mset stored E) db2 \<and> bcore db db2 \<and> d_retains db2 = d_retains db
        \<and> rotated (roots db) (roots db2)"
proof (cases "ht_find (hd fs) (d_subs db)")
  case None
  have s1: "d_subs db1 = d_subs db" using p1 by (simp add: publishing_def beff_def)
  have "db2 = db1" using s None s1 by simp
  then show ?thesis using p1 s1 by (simp add: publishing_def beff_def roots_def)
next
  case (Some h)
  let ?proc = "subs__process env source_id topic qos retain stored"
  have s1: "d_subs db1 = d_subs db" using p1 by (simp add: publishing_def beff_def)
  obtain rc3 h3 db3 where 3: "sub__search fs ?proc h db1 = ((rc3, h3), db3)" by (metis surj_pair)
  define ns where "ns = map (\<lambda>p. the_node p h) (search_paths fs h)"
  have ready: "node_ready cs db (own n)" if "n \<in> set ns" for n
  proof -
    obtain p where "n = the_node p h" using \<open>n \<in> set ns\<close> by (auto simp: ns_def)
    then have "n = the_node (hd fs # p) (roots db)" using the_node_root [OF Some] by simp
    then show ?thesis using tr by (simp add: tree_ready_def del: the_node_simps)
  qed
  have v: "db3 = snd (visits ?proc ns False db1)"
    using publish.search_calls [OF pl] 3 unfolding publish.searched_def ns_def by (metis snd_conv)
  have p3: "publishing cs stored E db db3" unfolding v
    by (rule visits_keeps [where P = "publishing cs stored E db", OF _ p1]) (rule process_ok [OF cs _ ready])
  have e2: "db2 = db3\<lparr>d_subs := ht_set (hd fs) h3 (d_subs db3)\<rparr>" using s 3 Some s1 by simp
  have s3: "d_subs db3 = d_subs db" "d_retains db3 = d_retains db" using p3 by (simp_all add: publishing_def beff_def)
  have "rotated h h3" by (rule publish.search_rotates [OF 3])
  from rotated_set [OF this, of "hd fs" "roots db"] Some
  have "rotated (roots db) (roots db2)" by (simp add: e2 roots_def s3)
  then show ?thesis using p3 s3 by (simp add: e2 publishing_def beff_def)
qed

lemma messages_queue_ok:
  assumes cs: "clients cs" and b: "broker_ok cs (retained_refs db + E) db" and live: "live stored db"
    and nn: "no_null stored db" and tr: "tree_ready cs db" and ne: "topic \<noteq> []" and pl: "plain_levels (filed_levels topic)"
    and q: "sub__messages_queue env source_id topic qos retain stored db = ((rc, r), db')"
  shows "broker_ok cs (retained_refs db' + E) db' \<and> bcore db db' \<and> rotated (roots db) (roots db')"
proof -
  obtain x mem where t: "sub__topic_tokenise topic (d_mem db) = (x, mem)" by (cases "sub__topic_tokenise topic (d_mem db)")
  define db0 where "db0 = db\<lparr>d_mem := mem\<rparr>"
  have m0: "mallocs db db0" unfolding db0_def by (rule mem_mallocs) (rule tokenise_mem [OF t])
  have b0: "broker_ok cs (retained_refs db + E) db0" "beff db db0"
    using bgood_mallocs [OF cs m0] b unfolding bgood_def by blast+
  have rr0: "retained_refs db0 = retained_refs db" "roots db0 = roots db" using m0 by (auto simp: mallocs_def retained_refs_def roots_def)
  have live0: "live stored db0" using live by (simp add: live_def db0_def)
  show ?thesis
  proof (rule sub__topic_tokenise_cases [OF ne, of "d_mem db"], goal_cases)
    case 1
    then have "db' = db0" using q t by (simp add: sub__messages_queue_def db0_def)
    then show ?thesis using b0 rr0 by (simp add: beff_def)
  next
    case 2
    then have "db' = db0" using q t by (simp add: sub__messages_queue_def db0_def)
    then show ?thesis using b0 rr0 by (simp add: beff_def)
  next
    case (3 ts)
    define fs where "fs = filed_levels topic"
    have tt: "sub__topic_tokenise topic (d_mem db) = (Inr (ts, share_group topic), mem)" "topics_of ts = fs"
      using 3 t by (simp_all add: fs_def)
    define db1 where "db1 = db__msg_store_ref_inc stored db0"
    have g1: "bgood cs (retained_refs db + E) db0 (add_mset stored (retained_refs db + E)) db1"
      unfolding db1_def by (rule bgood_take_live [OF cs live0])
    have f01: "beff db db1" using g1 b0 beff_trans unfolding bgood_def by blast
    have p1: "publishing cs stored (retained_refs db + E) db db1"
      using g1 b0 f01 no_null_beff [OF nn f01] by (simp add: publishing_def bgood_def)
    have s1: "d_subs db1 = d_subs db" using f01 by (simp add: beff_def)
    let ?proc = "subs__process env source_id topic qos retain stored"
    obtain rc2 db2 where 2: "(case ht_find (hd fs) (d_subs db1) of None \<Rightarrow> (MOSQ_ERR_SUCCESS, db1)
        | Some subhier \<Rightarrow> (case sub__search fs ?proc subhier db1 of
            ((rc, subhier), db) \<Rightarrow> (rc, db\<lparr>d_subs := ht_set (hd fs) subhier (d_subs db)\<rparr>))) = (rc2, db2)"
      by (rule prod.exhaust)
    note p2 = search_step [OF cs p1 tr pl [folded fs_def] 2]
    obtain rc4 db4 where 4: "(if retain then (case retain__store topic stored fs db2 of
          (rc3, db) \<Rightarrow> (if rc3 \<noteq> MOSQ_ERR_SUCCESS then rc3 else rc2, db)) else (rc2, db2)) = (rc4, db4)"
      by (rule prod.exhaust)
    have p4: "broker_ok cs (retained_refs db4 + add_mset stored E) db4 \<and> bcore db db4 \<and> rotated (roots db) (roots db4)"
    proof (cases retain)
      case False
      then have "db4 = db2" using 4 by simp
      then show ?thesis using p2 by (simp add: retained_refs_def)
    next
      case True
      obtain rc3 where r: "retain__store topic stored fs db2 = (rc3, db4)" using 4 True by (auto split: prod.splits)
      have "broker_ok cs (retained_refs db2 + add_mset stored E) db2" using p2 by (simp add: retained_refs_def)
      from retain_store_ok(1) [OF cs this r] p2 bcore_trans show ?thesis by (auto simp: fs_def roots_def)
    qed
    have "sub__messages_queue env source_id topic qos retain stored db
        = (case db__msg_store_ref_dec stored db4 of (r, db) \<Rightarrow> ((rc4, r), db))"
      by (simp only: sub__messages_queue_def tt prod.case sum.case Let_def db0_def [symmetric] db1_def [symmetric] 2 4)
    then have e: "db' = snd (db__msg_store_ref_dec stored db4)" using q by (simp split: prod.splits)
    have "bgood cs (retained_refs db4 + add_mset stored E) db4 (retained_refs db4 + E) db'"
      unfolding e using bgood_drop [OF cs, of stored "retained_refs db4 + E" db4] by simp
    then have "broker_ok cs (retained_refs db4 + E) db' \<and> beff db4 db'" using p4 by (simp add: bgood_def)
    then show ?thesis using p4 bcore_trans by (auto simp: beff_def retained_refs_def roots_def)
  qed
qed

end
