(* ===== verification/Retain_Search.thy ===== *)
theory Retain_Search
  imports Retain_Ok Topics
begin

text \<open>
  A search of the tree of retained messages visits exactly the messages whose topic matches the
  filter, once each, with one exception at the root that \<open>retain_hits_root\<close> states.
\<close>


section \<open>What a search finds\<close>

text \<open>All retained messages below a node: the path, whether its node has children, the message.\<close>

fun entries :: "(string \<times> mosquitto__retainhier) list \<Rightarrow> (string list \<times> bool \<times> mptr) list" where
  "entries [] = []"
| "entries ((t, Retainhier r children) # branches) =
     (case r of None \<Rightarrow> [] | Some p \<Rightarrow> [([t], children \<noteq> [], p)])
     @ map (\<lambda>(us, b, p). (t # us, b, p)) (entries children) @ entries branches"

fun wf_branches :: "(string \<times> mosquitto__retainhier) list \<Rightarrow> bool" where
  "wf_branches [] = True"
| "wf_branches ((t, Retainhier r children) # branches) =
     (t \<notin> fst ` set branches \<and> wf_branches children \<and> wf_branches branches)"

text \<open>Whether the search for the levels \<open>fs\<close>, at depth \<open>level\<close>, hits a path; \<open>b\<close> says that its node has children.\<close>

fun retain_hits :: "nat \<Rightarrow> string list \<Rightarrow> string list \<Rightarrow> bool \<Rightarrow> bool" where
  "retain_hits level [] us b = False"
| "retain_hits level (f # fs) [] b = False"
| "retain_hits level (f # fs) (u # us) b =
     (if f = ''#'' \<and> fs = [] then True
      else (f = ''+'' \<or> f = u) \<and>
        (if us = [] then fs = [] \<or> (fs = [''#''] \<and> b) \<or> (hd fs = ''#'' \<and> level > 0)
         else retain_hits (Suc level) fs us b))"

text \<open>One call of \<open>proc\<close>, as a step of the state.\<close>

definition visit :: "(mptr \<Rightarrow> 's \<Rightarrow> mptr option \<times> 's) \<Rightarrow> mptr \<Rightarrow> 's \<Rightarrow> 's" where
  "visit proc p s = snd (proc p s)"

definition ptr :: "string list \<times> bool \<times> mptr \<Rightarrow> mptr" where
  "ptr e = snd (snd e)"

lemma ptr_simp [simp]: "ptr (us, b, p) = p"
  by (simp add: ptr_def)

lemma search_all_visits: "snd (retain_search_all proc bs s) = fold (visit proc) (map ptr (entries bs)) s"
proof (induction proc bs s rule: retain_search_all.induct)
  case (2 proc t r children branches s)
  have p: "map ptr (map (\<lambda>(us, b, p). (t # us, b, p)) es) = map ptr es" for es
    by (induction es) auto
  show ?case unfolding entries.simps map_append p using 2
    by (cases r; cases "children = []") (auto simp: visit_def split: prod.splits)
qed simp

lemma entries_Cons: "entries ((t, b) # bs) =
    (case r_retained b of None \<Rightarrow> [] | Some p \<Rightarrow> [([t], r_children b \<noteq> [], p)])
    @ map (\<lambda>(us, b, p). (t # us, b, p)) (entries (r_children b)) @ entries bs"
proof (cases b)
  case (Retainhier r children)
  then show ?thesis by (cases r) simp_all
qed

lemma entries_paths: "e \<in> set (entries bs) \<Longrightarrow> fst e \<noteq> [] \<and> hd (fst e) \<in> fst ` set bs"
  by (induction bs rule: entries.induct) (auto split: option.splits)

lemma entries_find:
  "wf_branches bs \<Longrightarrow> filter (\<lambda>e. hd (fst e) = t) (entries bs) =
     (case ht_find t bs of None \<Rightarrow> [] | Some b \<Rightarrow> entries [(t, b)])"
proof (induction bs rule: wf_branches.induct)
  case (2 t' r children branches)
  show ?case
  proof (cases "t = t'")
    case True
    have "filter (\<lambda>e. hd (fst e) = t) (entries branches) = []"
      using 2(3) entries_paths [of _ branches] True by (fastforce simp: filter_empty_conv)
    then show ?thesis using True by (simp add: filter_map comp_def split_beta split: option.split)
  next
    case False
    have "filter (\<lambda>e. hd (fst e) = t) (map (\<lambda>(us, b, p). (t' # us, b, p)) (entries children)) = []"
      using False by (auto simp: filter_empty_conv)
    then show ?thesis using 2 False by (simp split: option.split)
  qed
qed simp

lemma wf_branches_find: "wf_branches bs \<Longrightarrow> ht_find t bs = Some b \<Longrightarrow> wf_branches (r_children b)"
  by (induction bs rule: wf_branches.induct) (auto split: if_splits)

lemma wf_branches_member: "wf_branches bs \<Longrightarrow> (k, b) \<in> set bs \<Longrightarrow> wf_branches (r_children b)"
  by (induction bs rule: wf_branches.induct) auto

text \<open>One branch in both loops.\<close>

definition hits_below :: "nat \<Rightarrow> string list \<Rightarrow> mosquitto__retainhier \<Rightarrow> mptr list \<Rightarrow> bool" where
  "hits_below level ts b l \<longleftrightarrow> mset l = mset (map ptr (filter (\<lambda>(us, c, p).
      if tl us = [] then ts = [] \<or> (ts = [''#''] \<and> c) \<or> (hd ts = ''#'' \<and> level > 0)
      else ts \<noteq> [] \<and> retain_hits (Suc level) ts (tl us) c) (entries [([], b)])))"

definition search_visits ::
    "(mptr \<Rightarrow> 's \<Rightarrow> mptr option \<times> 's) \<Rightarrow> nat \<Rightarrow> string list \<Rightarrow> mosquitto__retainhier \<Rightarrow> bool" where
  "search_visits proc level ts node \<longleftrightarrow> (\<forall>s. \<exists>l node'. retain__search ts proc level node s =
      ((if ts = [''#''] \<and> r_children node \<noteq> [] then -1 else 0, node'), fold (visit proc) l s)
    \<and> r_retained node' = r_retained node
    \<and> mset l = mset (map ptr (filter (\<lambda>(us, c, p). retain_hits level ts us c) (entries (r_children node)))))"

lemma filter_below:
  "map ptr (filter P (map (\<lambda>(us, c, p). (t # us, c, p)) es)) = map ptr (filter (\<lambda>(us, c, p). P (t # us, c, p)) es)"
  by (induction es) auto

lemma branch_visits:
  assumes "ts \<noteq> [] \<Longrightarrow> search_visits proc (Suc level) ts b"
  shows "\<exists>l b'. retain_branch proc ts level (retain__search ts proc (Suc level)) b s = (b', fold (visit proc) l s)
    \<and> hits_below level ts b l"
proof -
  let ?Q = "\<lambda>(us, c, p). if tl us = [] then ts = [] \<or> (ts = [''#''] \<and> c) \<or> (hd ts = ''#'' \<and> level > 0)
      else ts \<noteq> [] \<and> retain_hits (Suc level) ts (tl us) c"
  let ?here = "ts = [] \<or> (ts = [''#''] \<and> r_children b \<noteq> []) \<or> (hd ts = ''#'' \<and> level > 0)"
  let ?at = "case r_retained b of None \<Rightarrow> [] | Some p \<Rightarrow> [p]"
  have hit: "\<exists>b''. retain_hit proc b' s = (b'', fold (visit proc) ?at s)" if "r_retained b' = r_retained b" for b' s
    using that by (auto simp: retain_hit_def visit_def split: option.split prod.split)
  have below: "map ptr (filter ?Q (entries [([], b)])) = (if ?here then ?at else [])
      @ map ptr (filter (\<lambda>(us, c, p). ts \<noteq> [] \<and> retain_hits (Suc level) ts us c) (entries (r_children b)))"
  proof -
    have ne: "us \<noteq> []" if "(us, c, p) \<in> set (entries (r_children b))" for us c p using entries_paths [OF that] by simp
    have f: "filter (\<lambda>(us, c, p). ?Q ([] # us, c, p)) (entries (r_children b)) =
        filter (\<lambda>(us, c, p). ts \<noteq> [] \<and> retain_hits (Suc level) ts us c) (entries (r_children b))"
      using ne by (intro filter_cong refl) auto
    show ?thesis unfolding entries_Cons filter_append map_append filter_below f
      by (auto split: option.split)
  qed
  show ?thesis
  proof (cases "ts = []")
    case True
    then show ?thesis using hit [of b s] unfolding hits_below_def below by (simp add: retain_branch_def) metis
  next
    case False
    obtain l b' where l: "retain__search ts proc (Suc level) b s =
        ((if ts = [''#''] \<and> r_children b \<noteq> [] then -1 else 0, b'), fold (visit proc) l s)" "r_retained b' = r_retained b"
      "mset l = mset (map ptr (filter (\<lambda>(us, c, p). retain_hits (Suc level) ts us c) (entries (r_children b))))"
      using assms [OF False] unfolding search_visits_def by blast
    let ?l = "l @ (if ?here then ?at else [])"
    have "\<exists>b''. retain_branch proc ts level (retain__search ts proc (Suc level)) b s = (b'', fold (visit proc) ?l s)"
      using False hit [OF l(2), of "fold (visit proc) l s"] unfolding retain_branch_def l(1) by auto
    moreover have "hits_below level ts b ?l" unfolding hits_below_def below using l(3) False by simp
    ultimately show ?thesis by blast
  qed
qed

lemma hits_below_key:
  assumes "hits_below level ts b l" "\<not> (t = ''#'' \<and> ts = [])" "t = ''+'' \<or> t = k"
  shows "mset l = mset (map ptr (filter (\<lambda>(us, c, p). retain_hits level (t # ts) us c) (entries [(k, b)])))"
proof -
  have e: "entries [(x, b)] = map (\<lambda>(us, c, p). (x # tl us, c, p)) (entries [([], b)])" for x
    by (auto simp: entries_Cons split: option.split)
  have m: "map ptr (filter P (map (\<lambda>(us, c, p). (x # tl us, c, p)) es)) =
      map ptr (filter (\<lambda>(us, c, p). P (x # tl us, c, p)) es)" for P x es
    by (induction es) auto
  have h: "retain_hits level (t # ts) (k # tl us) c =
      (if tl us = [] then ts = [] \<or> (ts = [''#''] \<and> c) \<or> (hd ts = ''#'' \<and> level > 0)
      else ts \<noteq> [] \<and> retain_hits (Suc level) ts (tl us) c)" for us c
    using assms(2,3) by (cases ts) auto
  show ?thesis using assms(1) unfolding hits_below_def e [of k] m prod.case h .
qed

lemma iter_visits:
  assumes "\<And>k b s. (k, b) \<in> set bs \<Longrightarrow> \<exists>l b'. f b s = (b', fold g l s) \<and> R k b l"
    and R: "\<And>k b l. R k b l \<Longrightarrow> mset l = mset (map ptr (filter P (entries [(k, b)])))"
  shows "\<exists>l bs'. ht_iter f bs s = (bs', fold g l s) \<and> mset l = mset (map ptr (filter P (entries bs)))"
  using assms(1)
proof (induction bs arbitrary: s)
  case (Cons kb bs)
  obtain k b where kb: "kb = (k, b)" by (cases kb)
  obtain l1 b' where l1: "f b s = (b', fold g l1 s)" "R k b l1" using Cons.prems [of k b s] kb by auto
  obtain l2 bs' where l2: "ht_iter f bs (fold g l1 s) = (bs', fold g l2 (fold g l1 s))"
      "mset l2 = mset (map ptr (filter P (entries bs)))"
    using Cons.IH [of "fold g l1 s"] Cons.prems by auto
  have "entries ((k, b) # bs) = entries [(k, b)] @ entries bs" by (simp add: entries_Cons)
  then have "mset (l1 @ l2) = mset (map ptr (filter P (entries (kb # bs))))"
    using R [OF l1(2)] l2(2) by (simp add: kb)
  moreover have "ht_iter f (kb # bs) s = ((k, b') # bs', fold g (l1 @ l2) s)" using l1(1) l2(1) by (simp add: kb)
  ultimately show ?case by blast
qed simp

lemma search_visits: "wf_branches (r_children node) \<Longrightarrow> search_visits proc level ts node"
proof (induction ts arbitrary: level node)
  case Nil
  have "filter (\<lambda>(us, c, p). retain_hits level [] us c) es = []" for es :: "(string list \<times> bool \<times> mptr) list"
    by (auto simp: filter_empty_conv)
  then show ?case by (simp add: search_visits_def)
next
  case (Cons t ts)
  let ?bs = "r_children node"
  let ?f = "retain_branch proc ts level (retain__search ts proc (Suc level))"
  let ?P = "\<lambda>(us, c, p). retain_hits level (t # ts) us c"
  show ?case unfolding search_visits_def
  proof
    fix s
    show "\<exists>l node'. retain__search (t # ts) proc level node s =
        ((if t # ts = [''#''] \<and> ?bs \<noteq> [] then -1 else 0, node'), fold (visit proc) l s)
      \<and> r_retained node' = r_retained node \<and> mset l = mset (map ptr (filter ?P (entries ?bs)))"
    proof (cases "t = ''#'' \<and> ts = []")
      case True
      have "filter ?P (entries ?bs) = entries ?bs"
      proof (rule filter_True, rule ballI, clarify)
        fix us c p assume "(us, c, p) \<in> set (entries ?bs)"
        then have "us \<noteq> []" using entries_paths by fastforce
        then show "retain_hits level (t # ts) us c" using True by (cases us) simp_all
      qed
      then show ?thesis using True search_all_visits [of proc ?bs s]
        by (cases "retain_search_all proc ?bs s") auto
    next
      case nh: False
      show ?thesis
      proof (cases "t = ''+''")
        case True
        have f: "\<exists>l b'. ?f b s = (b', fold (visit proc) l s) \<and> hits_below level ts b l" if "(k, b) \<in> set ?bs" for k b s
          using branch_visits [OF Cons.IH] wf_branches_member [OF Cons.prems that] by blast
        have g: "mset l = mset (map ptr (filter ?P (entries [(k, b)])))" if "hits_below level ts b l" for k b l
          by (rule hits_below_key [OF that nh disjI1 [OF True]])
        have "\<exists>l bs'. ht_iter ?f ?bs s = (bs', fold (visit proc) l s) \<and> mset l = mset (map ptr (filter ?P (entries ?bs)))"
          by (rule iter_visits [where R = "\<lambda>k b l. hits_below level ts b l"], erule f, erule g)
        then show ?thesis using nh True by auto
      next
        case np: False
        have hd: "hd us = t" if "retain_hits level (t # ts) us c" for us c
          using that nh np by (cases us) auto
        have lit: "filter ?P (entries ?bs) = filter ?P (filter (\<lambda>e. hd (fst e) = t) (entries ?bs))"
          unfolding filter_filter by (intro filter_cong refl) (auto dest: hd)
        show ?thesis
        proof (cases "ht_find t ?bs")
          case None
          then have "filter ?P (entries ?bs) = []" using lit entries_find [OF Cons.prems, of t] by simp
          then show ?thesis using nh np None by auto
        next
          case (Some b)
          obtain l b' where l: "?f b s = (b', fold (visit proc) l s)" "hits_below level ts b l"
            using branch_visits [OF Cons.IH] wf_branches_find [OF Cons.prems Some] by blast
          have "mset l = mset (map ptr (filter ?P (entries ?bs)))"
            unfolding lit entries_find [OF Cons.prems] Some option.case
            by (rule hits_below_key [OF l(2) nh disjI2 [OF refl]])
          then show ?thesis using nh np Some l(1) by auto
        qed
      qed
    qed
  qed
qed

section \<open>The search and the match of MQTT\<close>

text \<open>Below the root the search hits what MQTT matches. At the root it misses a message for \<open>$x\<close> itself
  when \<open>$x/#\<close> is asked for and nothing is stored below \<open>$x\<close>.\<close>

lemma retain_hits_match:
  "filter_levels_ok fs \<Longrightarrow> us \<noteq> [] \<Longrightarrow> level > 0 \<Longrightarrow> retain_hits level fs us b = match_levels fs us"
proof (induction fs arbitrary: us level)
  case (Cons f fs)
  obtain u us' where us: "us = u # us'" using Cons.prems(2) by (cases us) auto
  have ok: "filter_levels_ok fs" using Cons.prems(1) by simp
  show ?case
  proof (cases "f = ''#''")
    case True
    then have "fs = []" using Cons.prems(1) by simp
    then show ?thesis using True us by simp
  next
    case nh: False
    show ?thesis
    proof (cases us')
      case Nil
      show ?thesis
      proof (cases fs)
        case (Cons g gs)
        then show ?thesis using Nil us nh \<open>level > 0\<close> ok by (simp; blast)
      qed (use Nil us nh in simp)
    next
      case u2: (Cons v vs)
      have "retain_hits (Suc level) fs us' b = match_levels fs us'" using Cons.IH [OF ok, of us' "Suc level"] u2 by simp
      then show ?thesis using us nh u2 by (simp del: retain_hits.simps match_levels.simps add: retain_hits.simps(3) match_levels.simps(2))
    qed
  qed
qed simp

lemma retain_hits_root:
  assumes "filter_levels_ok fs" "us \<noteq> []"
  shows "retain_hits 0 fs us b = (match_levels fs us \<and> \<not> (length us = 1 \<and> length fs = 2 \<and> \<not> b))"
proof -
  obtain u us' where us: "us = u # us'" using assms(2) by (cases us) auto
  show ?thesis
  proof (cases fs)
    case (Cons f fs')
    have ok: "filter_levels_ok fs'" using assms(1) Cons by simp
    show ?thesis
    proof (cases "f = ''#''")
      case True
      then have "fs' = []" using assms(1) Cons by simp
      then show ?thesis using True us Cons by simp
    next
      case nh: False
      show ?thesis
      proof (cases us')
        case Nil
        show ?thesis
        proof (cases fs')
          case c2: (Cons g gs)
          then show ?thesis using Nil us Cons nh ok by (cases "g = ''#''"; cases gs) auto
        qed (use Nil us Cons nh in simp)
      next
        case u2: (Cons v vs)
        have "retain_hits (Suc 0) fs' us' b = match_levels fs' us'" using retain_hits_match [OF ok, of us' "Suc 0" b] u2 by simp
        then show ?thesis using us nh u2 Cons
          by (simp del: retain_hits.simps match_levels.simps add: retain_hits.simps(3) match_levels.simps(2))
      qed
    qed
  qed (use assms in simp)
qed

end
