(* ===== verification/Retain_Props.thy ===== *)
theory Retain_Props
  imports Retain_Search Broker_Props
begin

text \<open>
  The properties of \<open>src/retain.c\<close>: storing and finding retained messages.
\<close>

section \<open>The tables of children have no duplicates\<close>

lemma wf_branches_iff: "wf_branches bs \<longleftrightarrow> distinct (map fst bs) \<and> (\<forall>(t, b) \<in> set bs. wf_branches (r_children b))"
  by (induction bs rule: wf_branches.induct) auto

lemma wf_branches_set: "wf_branches bs \<Longrightarrow> wf_branches (r_children b) \<Longrightarrow> wf_branches (ht_set t b bs)"
  unfolding wf_branches_iff [of bs] wf_branches_iff [of "ht_set t b bs"]
  by (auto dest!: set_ht_set)

lemma wf_branches_add:
  "wf_branches bs \<Longrightarrow> wf_branches (r_children b) \<Longrightarrow> ht_find t bs = None \<Longrightarrow> wf_branches (ht_add t b bs)"
  unfolding wf_branches_iff [of bs] wf_branches_iff [of "ht_add t b bs"]
  by (auto simp: ht_add_def ht_find_None_iff)

lemma retain_walk_wf:
  "retain_walk ts f node db = ((rc, node'), db') \<Longrightarrow> wf_branches (r_children node) \<Longrightarrow> short ts \<Longrightarrow> wf_branches (r_children node')"
proof (induction ts arbitrary: node db node' rc db')
  case (Cons t ts)
  show ?case
  proof (cases "ht_find t (r_children node)")
    case None
    then show ?thesis using Cons entry_fresh [of t "strlen16 t" db] short_key [of t]
      by (fastforce split: prod.splits option.splits intro: wf_branches_add)
  next
    case (Some b)
    then show ?thesis using Cons wf_branches_find [OF Cons.prems(2) Some]
      by (fastforce split: prod.splits intro: wf_branches_set)
  qed
qed (auto split: prod.splits)

lemma retain_store_wf:
  assumes cs: "clients cs" and b: "broker_ok cs (retained_refs db + add_mset stored E) db"
    and r: "retain__store topic stored ts db = (rc, db')" and wf: "wf_branches (d_retains db)" "short ts"
  shows "wf_branches (d_retains db')"
proof (cases ts)
  case Nil
  then show ?thesis using r wf(1) by (auto simp: retain__store_def)
next
  case (Cons root rs)
  show ?thesis
  proof (cases "ht_find root (d_retains db)")
    case (Some node)
    obtain rc1 node1 db1 where w: "retain_walk ts (retain_assign topic stored) node db = ((rc1, node1), db1)"
      by (metis surj_pair)
    obtain F where F: "retained_refs db = node_refs node + F"
      using branch_refs_find [OF Some] unfolding retained_refs_def by (metis mset_subset_eq_exists_conv)
    have "broker_ok cs (node_refs node + add_mset stored (F + E)) db" using b unfolding F by (simp add: ac_simps)
    from store_step(1) [OF cs w this] have "d_retains db1 = d_retains db" by (simp add: beff_def)
    then show ?thesis
      using r Some w Cons wf wf_branches_set [OF wf(1) retain_walk_wf [OF w wf_branches_find [OF wf(1) Some] wf(2)]]
      by (auto simp: retain__store_def simp del: retain_walk.simps)
  next
    case None
    obtain n db0 where n: "retain__add_hier_entry root (strlen16 root) db = (n, db0)" by (metis surj_pair)
    have m0: "mallocs db db0" using mallocs_entry [of db root "strlen16 root"] n by simp
    show ?thesis
    proof (cases n)
      case None': None
      then show ?thesis using r None n wf Cons mallocs_retains [OF m0] by (simp add: retain__store_def)
    next
      case (Some kb)
      obtain k node where kb: "kb = (k, node)" by (cases kb)
      then have k: "k = root" and nd: "node = Retainhier None []"
        using n entry_fresh [of root "strlen16 root"] Some wf(2) short_key [of root] Cons by auto
      obtain rc1 node1 db1 where w: "retain_walk ts (retain_assign topic stored) node db0 = ((rc1, node1), db1)"
        by (metis surj_pair)
      have "broker_ok cs (node_refs node + add_mset stored (retained_refs db + E)) db0"
        using bgood_mallocs [OF cs m0] b by (auto simp: bgood_def nd node_refs_def ac_simps)
      from store_step(1) [OF cs w this] have "d_retains db1 = d_retains db"
        using mallocs_retains [OF m0] by (simp add: beff_def)
      then show ?thesis
        using r None Some n w Cons wf wf_branches_add [OF wf(1) retain_walk_wf [OF w _ wf(2)] None]
        by (auto simp: retain__store_def nd kb k simp del: retain_walk.simps)
    qed
  qed
qed

section \<open>What the tree holds\<close>

primrec node_at :: "string list \<Rightarrow> mosquitto__retainhier \<Rightarrow> mosquitto__retainhier option" where
  "node_at [] node = Some node"
| "node_at (t # ts) node = (case ht_find t (r_children node) of None \<Rightarrow> None | Some b \<Rightarrow> node_at ts b)"

lemma retain_at_node: "retain_at us node = (case node_at us node of None \<Rightarrow> None | Some b \<Rightarrow> r_retained b)"
  by (induction us arbitrary: node) (auto split: option.splits)

text \<open>No topic is filed below this one.\<close>

definition childless :: "string list \<Rightarrow> mosquitto_db \<Rightarrow> bool" where
  "childless us db = (case ht_find (hd us) (d_retains db) of None \<Rightarrow> True
     | Some node \<Rightarrow> (case node_at us node of None \<Rightarrow> True | Some b \<Rightarrow> r_children b = []))"

lemma entries_at:
  "wf_branches bs \<Longrightarrow> (us, c, p) \<in> set (entries bs) \<longleftrightarrow>
     (case us of [] \<Rightarrow> False | u # us \<Rightarrow>
       (case ht_find u bs of None \<Rightarrow> False | Some b \<Rightarrow>
          (\<exists>b'. node_at us b = Some b' \<and> r_retained b' = Some p \<and> c = (r_children b' \<noteq> []))))"
proof (induction bs arbitrary: us rule: wf_branches.induct)
  case 1
  then show ?case by (cases us) auto
next
  case (2 t r children branches)
  have wf: "wf_branches children" "wf_branches branches" "t \<notin> fst ` set branches" using 2(3) by auto
  have nt: "ht_find t branches = None" using wf(3) by (simp add: ht_find_None_iff)
  show ?case
  proof (cases us)
    case Nil
    then show ?thesis using entries_paths [of "([], c, p)" branches] by (auto split: option.splits)
  next
    case (Cons u us')
    have "(u # us', c, p) \<in> set (entries branches) \<Longrightarrow> u \<noteq> t"
      using 2(2) [OF wf(2), of "u # us'"] nt by auto
    then show ?thesis using 2(1) [OF wf(1), of us'] 2(2) [OF wf(2), of us] Cons nt
      by (cases us') (auto split: option.splits)
  qed
qed

lemma entries_distinct: "wf_branches bs \<Longrightarrow> distinct (map fst (entries bs))"
proof (induction bs rule: wf_branches.induct)
  case (2 t r children branches)
  have m: "map fst (map (\<lambda>(us, b, p). (t # us, b, p)) es) = map ((#) t) (map fst es)" for es :: "(string list \<times> bool \<times> mptr) list"
    by (induction es) auto
  have d: "distinct (map fst (map (\<lambda>(us, b, p). (t # us, b, p)) es))" if "distinct (map fst es)" for es :: "(string list \<times> bool \<times> mptr) list"
    unfolding m using that by (simp add: distinct_map del: map_map)
  have "us \<noteq> []" if "(us, b, p) \<in> set (entries children)" for us b p using entries_paths [OF that] by simp
  moreover have "hd us \<noteq> t" if "(us, b, p) \<in> set (entries branches)" for us b p
    using entries_paths [OF that] 2(3) by auto
  ultimately show ?case using 2 d [of "entries children"] by (fastforce split: option.splits)
qed simp

lemma perm_map: "mset xs = mset (map f ys) \<Longrightarrow> \<exists>zs. xs = map f zs \<and> mset zs = mset ys"
proof (induction xs arbitrary: ys)
  case (Cons x xs)
  then have "x \<in> set (map f ys)" by (metis list.set_intros(1) set_mset_mset)
  then obtain y where y: "y \<in> set ys" "f y = x" by auto
  then obtain as bs where ys: "ys = as @ y # bs" by (meson split_list)
  have "mset xs = mset (map f (as @ bs))" using Cons.prems y by (simp add: ys)
  from Cons.IH [OF this] obtain zs where "xs = map f zs" "mset zs = mset (as @ bs)" by blast
  then show ?case using y by (intro exI [of _ "y # zs"]) (simp add: ys)
qed simp

lemma queue_visits:
  assumes ne: "sub \<noteq> []" and ok: "filter_levels_ok (filed_levels sub)" and wf: "wf_branches (d_retains db)"
    and tok: "fst (sub__topic_tokenise sub (d_mem db)) = Inr t"
    and node: "ht_find (hd (filed_levels sub)) (d_retains db) = Some node"
  shows "\<exists>es r. snd (retain__queue env c sub q i db) =
      (fold (\<lambda>e db. snd (retain__process env c q i (ptr e) db)) es
         (db\<lparr>d_mem := snd (sub__topic_tokenise sub (d_mem db))\<rparr>))\<lparr>d_retains := r\<rparr>
    \<and> mset es = mset (filter (\<lambda>(us, b, p). match_levels (filed_levels sub) us
        \<and> \<not> (length us = 1 \<and> length (filed_levels sub) = 2 \<and> \<not> b)) (entries (r_children node)))"
proof -
  obtain mem where tm: "sub__topic_tokenise sub (d_mem db) = (Inr t, mem)"
    using tok by (cases "sub__topic_tokenise sub (d_mem db)") auto
  let ?proc = "process_call env c q i" and ?db = "db\<lparr>d_mem := mem\<rparr>" and ?fs = "filed_levels sub"
  have t: "topics_of (fst t) = ?fs"
    by (rule sub__topic_tokenise_cases [OF ne, of "d_mem db"]) (use tm in auto)
  have wfn: "wf_branches (r_children node)" using wf_branches_find [OF wf node] .
  have v: "search_visits ?proc 0 ?fs node" by (rule search_visits [OF wfn])
  obtain l node' where l: "retain__search ?fs ?proc 0 node ?db =
      ((if ?fs = [''#''] \<and> r_children node \<noteq> [] then -1 else 0, node'), fold (visit ?proc) l ?db)"
    "mset l = mset (map ptr (filter (\<lambda>(us, b, p). retain_hits 0 ?fs us b) (entries (r_children node))))"
    using v unfolding search_visits_def by blast
  have h: "filter (\<lambda>(us, b, p). retain_hits 0 ?fs us b) (entries (r_children node)) =
      filter (\<lambda>(us, b, p). match_levels ?fs us \<and> \<not> (length us = 1 \<and> length ?fs = 2 \<and> \<not> b)) (entries (r_children node))"
    using entries_paths retain_hits_root [OF ok] by (intro filter_cong refl) fastforce
  obtain es where es: "l = map ptr es" "mset es = mset (filter (\<lambda>(us, b, p). match_levels ?fs us
        \<and> \<not> (length us = 1 \<and> length ?fs = 2 \<and> \<not> b)) (entries (r_children node)))"
    using perm_map [OF l(2)] unfolding h by blast
  have "snd (retain__queue env c sub q i db) =
      (fold (visit ?proc) l ?db)\<lparr>d_retains := ht_set (hd ?fs) node' (d_retains (fold (visit ?proc) l ?db))\<rparr>"
    using tm t node l(1) unfolding process_call_def [abs_def] by (cases t) (auto simp: retain__queue_def)
  moreover have "fold (visit ?proc) l = fold (\<lambda>e db. snd (retain__process env c q i (ptr e) db)) es"
    unfolding es(1) fold_map comp_def visit_def process_call_def by (simp add: split_beta)
  ultimately show ?thesis using es(2) tm by auto
qed

lemma entries_retained:
  assumes "wf_branches (r_children node)" "us \<noteq> []" "ht_find (hd us) (d_retains db) = Some node"
  shows "(us, b, p) \<in> set (entries (r_children node)) \<longleftrightarrow> retained_for us db = Some p \<and> b = (\<not> childless us db)"
  unfolding entries_at [OF assms(1)] using assms(2,3)
  by (cases us) (auto simp: retained_for_def childless_def retain_at_node split: option.splits)

text \<open>The first level of a filed filter is literal.\<close>

lemma filed_hd:
  assumes "s \<noteq> []"
  shows "hd (filed_levels s) \<noteq> ''#''" "hd (filed_levels s) \<noteq> ''+''"
proof -
  have "hd (hd (levels s)) = CHR ''$''" if "hd s = CHR ''$''"
    using assms that by (cases s) (auto simp: levels.simps split: list.splits)
  then show "hd (filed_levels s) \<noteq> ''#''" "hd (filed_levels s) \<noteq> ''+''"
    by (auto simp: filed_levels_def)
qed

lemma match_filed: "s \<noteq> [] \<Longrightarrow> match_levels (filed_levels s) us \<Longrightarrow> us \<noteq> [] \<and> hd us = hd (filed_levels s)"
  using filed_hd [of s] by (cases "filed_levels s"; cases us) auto

section \<open>Enough memory\<close>

lemma malloc_always: "d_mem db = [] \<Longrightarrow> d_malloc db = (True, db)"
  by (cases db) (simp add: d_malloc_def)

lemma entry_always: "d_mem db = [] \<Longrightarrow> retain__add_hier_entry t len db = (Some (take (unat len) t, Retainhier None []), db)"
  by (simp add: retain__add_hier_entry_def malloc_always)

lemma retain_walk_memory: "d_mem db = [] \<Longrightarrow> fst (fst (retain_walk ts f node db)) = MOSQ_ERR_SUCCESS"
proof (induction ts arbitrary: node)
  case (Cons t ts)
  then show ?case by (cases "ht_find t (r_children node)") (simp_all add: entry_always split_beta)
qed (simp add: split_beta)

lemma retain_store_memory: "d_mem db = [] \<Longrightarrow> ts \<noteq> [] \<Longrightarrow> fst (retain__store topic stored ts db) = MOSQ_ERR_SUCCESS"
proof (cases ts)
  case (Cons root rs)
  assume "d_mem db = []"
  then show ?thesis using retain_walk_memory [of db ts "retain_assign topic stored"] Cons
    by (cases "ht_find root (d_retains db)")
       (simp_all add: retain__store_def entry_always split_beta del: retain_walk.simps)
qed simp

section \<open>Concrete retained messages\<close>

definition open_acl :: acl_env where
  "open_acl = \<lparr>acl_check = (\<lambda>_ _ _ _. MOSQ_ERR_SUCCESS), find_acls = (\<lambda>_. MOSQ_ERR_SUCCESS)\<rparr>"

text \<open>The message of \<open>one_message\<close> with one more reference, then retained for the topic \<open>a\<close>.\<close>

definition held_message :: mosquitto_db where
  "held_message = db__msg_store_ref_inc 1 one_message"

definition retained_message :: mosquitto_db where
  "retained_message = held_message\<lparr>d_retains := [([], Retainhier None [([], Retainhier None [(''a'', Retainhier (Some 1) [])])])]\<rparr>"

lemma ref_inc_fields: "d_retains (db__msg_store_ref_inc p db) = d_retains db" "d_mem (db__msg_store_ref_inc p db) = d_mem db"
  "d_contexts (db__msg_store_ref_inc p db) = d_contexts db"
  by (simp_all add: db__msg_store_ref_inc_def upd_store_def split: option.split)

lemma held_message_trees: "d_retains held_message = []" "d_mem held_message = []"
proof -
  have "d_retains one_message = [] \<and> d_mem one_message = []" by code_simp
  then show "d_retains held_message = []" "d_mem held_message = []" by (simp_all add: held_message_def ref_inc_fields)
qed

lemma held_message_ok: "broker_ok [0] {#1#} held_message"
proof -
  have "live 1 one_message" unfolding live_def by code_simp
  from db_reachable.step [OF one_message_reachable db_step.take [OF this]]
  have "db_reachable [0] ({#1#}, held_message)" by (simp add: held_message_def)
  from db_reachable_ok [OF this, of 0] show ?thesis by simp
qed

section \<open>Properties\<close>

text \<open>
  C12: \<open>retain__store\<close> changes what is retained for its own topic and for no other: the new message,
  or none when the payload is empty. The reference counts of the broker stay exact, the old message
  of the topic being released, and when memory runs out nothing that was retained is lost. The levels
  of the topic have to be shorter than 65536 bytes: the length of a key is converted to 16 bits, so
  a longer level (a topic of the maximal length behind a mount point) is filed under a part of it.
\<close>

theorem retain_store_correct:
  assumes "clients cs" "broker_ok cs (retained_refs db + add_mset stored E) db" "ts \<noteq> []" "wf_branches (d_retains db)"
    and "\<And>t. t \<in> set ts \<Longrightarrow> length t < 65536"
  shows "case retain__store topic stored ts db of (rc, db') \<Rightarrow>
    broker_ok cs (retained_refs db' + add_mset stored E) db' \<and> wf_branches (d_retains db')
    \<and> (rc = MOSQ_ERR_SUCCESS \<and> (\<forall>us. retained_for us db' =
          (if us = ts then (if s_payloadlen (stored_at stored db) > 0 then Some stored else None) else retained_for us db))
     \<or> rc = MOSQ_ERR_NOMEM \<and> (\<forall>us. retained_for us db' = retained_for us db))"
proof -
  obtain rc db' where r: "retain__store topic stored ts db = (rc, db')" by (metis surj_pair)
  have "short ts" using assms(5) by (simp add: short_def list_all_iff)
  then show ?thesis unfolding r prod.case
    using retain_store_ok [OF assms(1,2) r assms(3)] retain_store_wf [OF assms(1,2) r assms(4)] by blast
qed

theorem retain_store_correct_witness:
  "retained_for [[], ''a''] (snd (retain__store ''a'' 1 [[], ''a''] held_message)) = Some 1"
proof -
  have ok: "clients [0]" "broker_ok [0] (retained_refs held_message + add_mset 1 {#}) held_message" "[[], ''a''] \<noteq> []"
    "wf_branches (d_retains held_message)"
    using held_message_ok held_message_trees by (simp_all add: clients_def retained_refs_def)
  have "fst (retain__store ''a'' 1 [[], ''a''] held_message) = MOSQ_ERR_SUCCESS"
    by (rule retain_store_memory) (simp_all add: held_message_trees)
  moreover have "s_payloadlen (stored_at 1 held_message) > 0" by code_simp
  moreover have "\<And>t. t \<in> set [[], ''a''] \<Longrightarrow> length t < 65536" by auto
  ultimately show ?thesis using retain_store_correct [OF ok, of "''a''"]
    by (cases "retain__store ''a'' 1 [[], ''a''] held_message") auto
qed

text \<open>
  Sending the retained messages for a new subscription (\<open>retain__queue\<close>), with whatever access
  control, expired messages and failures, keeps the reference counts and all counters exact.
\<close>

theorem retain_queue_keeps_counts:
  assumes "clients cs" "c \<in> set cs" "broker_ok cs (retained_refs db + E) db" "sub \<noteq> []"
    and "sub_qos \<le> 2" "sub_qos = 0 \<or> c_max_qos (get_ctx c db) > 0"
  shows "let db' = snd (retain__queue env c sub sub_qos i db) in broker_ok cs (retained_refs db' + E) db'"
proof -
  have "qos_ready c sub_qos db" using assms(5,6) by (simp add: qos_ready_def)
  from retain_queue_ok [OF assms(1-3) this assms(4)] show ?thesis by (simp add: Let_def)
qed

theorem retain_queue_keeps_counts_witness:
  "let db' = snd (retain__queue open_acl 0 ''+'' 1 0 retained_message)
   in broker_ok [0] (retained_refs db' + {#}) db'"
proof -
  have "broker_ok [0] (retained_refs retained_message + {#}) retained_message"
    using held_message_ok by (simp add: retained_message_def retained_refs_def)
  moreover have "c_max_qos (get_ctx 0 retained_message) > 0"
  proof -
    have "c_max_qos (get_ctx 0 one_message) > 0" by code_simp
    then show ?thesis by (simp add: retained_message_def held_message_def get_ctx_def ref_inc_fields)
  qed
  ultimately show ?thesis by (intro retain_queue_keeps_counts) (simp_all add: clients_def)
qed

text \<open>
  C13: \<open>retain__queue\<close> processes exactly the retained messages whose topic matches the subscription
  in the sense of MQTT, each of them once. The one exception is a message for \<open>$x\<close> itself with
  nothing filed below it, which the subscription \<open>$x/#\<close> misses.
\<close>

theorem retain_queue_exact:
  assumes "sub \<noteq> []" "filter_levels_ok (filed_levels sub)" "wf_branches (d_retains db)"
    and "fst (sub__topic_tokenise sub (d_mem db)) = Inr t"
  shows "\<exists>es r. snd (retain__queue env c sub sub_qos i db) =
      (fold (\<lambda>e db. snd (retain__process env c sub_qos i (snd e) db)) es
         (db\<lparr>d_mem := snd (sub__topic_tokenise sub (d_mem db))\<rparr>))\<lparr>d_retains := r\<rparr>
    \<and> distinct (map fst es)
    \<and> (\<forall>us p. (us, p) \<in> set es \<longleftrightarrow> retained_for us db = Some p \<and> match_levels (filed_levels sub) us
          \<and> \<not> (length us = 1 \<and> length (filed_levels sub) = 2 \<and> childless us db))"
proof (cases "ht_find (hd (filed_levels sub)) (d_retains db)")
  case None
  obtain mem where tm: "sub__topic_tokenise sub (d_mem db) = (Inr t, mem)"
    using assms(4) by (cases "sub__topic_tokenise sub (d_mem db)") auto
  have "topics_of (fst t) = filed_levels sub"
    by (rule sub__topic_tokenise_cases [OF assms(1), of "d_mem db"]) (use tm in auto)
  then have q: "snd (retain__queue env c sub sub_qos i db) = (db\<lparr>d_mem := mem\<rparr>)\<lparr>d_retains := d_retains db\<rparr>"
    using tm None by (cases t) (simp add: retain__queue_def)
  have "retained_for us db = None" if "match_levels (filed_levels sub) us" for us
    using match_filed [OF assms(1) that] None by (cases us) (auto simp: retained_for_def)
  then show ?thesis using q tm by (intro exI [of _ "[]"] exI [of _ "d_retains db"]) auto
next
  case (Some node)
  note wfn = wf_branches_find [OF assms(3) Some]
  let ?P = "\<lambda>(us, b, p). match_levels (filed_levels sub) us \<and> \<not> (length us = 1 \<and> length (filed_levels sub) = 2 \<and> \<not> b)"
  obtain es r where e: "snd (retain__queue env c sub sub_qos i db) =
      (fold (\<lambda>e db. snd (retain__process env c sub_qos i (ptr e) db)) es
         (db\<lparr>d_mem := snd (sub__topic_tokenise sub (d_mem db))\<rparr>))\<lparr>d_retains := r\<rparr>"
      "mset es = mset (filter ?P (entries (r_children node)))"
    using queue_visits [OF assms Some] by blast
  let ?f = "\<lambda>(us, b, p). (us, p :: mptr)"
  have s: "set es = set (filter ?P (entries (r_children node)))" using mset_eq_setD [OF e(2)] .
  have "mset (map fst es) = mset (map fst (filter ?P (entries (r_children node))))" using arg_cong [OF e(2), of "image_mset fst"] by (simp only: mset_map)
  moreover have "distinct (map fst (filter ?P (entries (r_children node))))"
    using entries_distinct [OF wfn] by (rule distinct_map_filter)
  ultimately have d: "distinct (map fst es)" using mset_eq_imp_distinct_iff by blast
  have m: "map fst (map ?f es) = map fst es" by (induction es) auto
  have sp: "snd (?f e) = ptr e" for e by (cases e) simp
  have fo: "fold (\<lambda>e db. snd (retain__process env c sub_qos i (snd e) db)) (map ?f es) =
      fold (\<lambda>e db. snd (retain__process env c sub_qos i (ptr e) db)) es"
    unfolding fold_map comp_def by (simp only: sp)
  have mem: "(us, p) \<in> set (map ?f es) \<longleftrightarrow> retained_for us db = Some p \<and> match_levels (filed_levels sub) us
      \<and> \<not> (length us = 1 \<and> length (filed_levels sub) = 2 \<and> childless us db)" for us p
  proof -
    have "(us, p) \<in> set (map ?f es) \<longleftrightarrow> (\<exists>b. (us, b, p) \<in> set es)" by force
    also have "\<dots> \<longleftrightarrow> match_levels (filed_levels sub) us \<and>
        (\<exists>b. (us, b, p) \<in> set (entries (r_children node)) \<and> \<not> (length us = 1 \<and> length (filed_levels sub) = 2 \<and> \<not> b))"
      unfolding s by auto
    also have "\<dots> \<longleftrightarrow> retained_for us db = Some p \<and> match_levels (filed_levels sub) us
      \<and> \<not> (length us = 1 \<and> length (filed_levels sub) = 2 \<and> childless us db)"
    proof (cases "match_levels (filed_levels sub) us")
      case True
      then have "us \<noteq> []" "ht_find (hd us) (d_retains db) = Some node" using match_filed [OF assms(1)] Some by auto
      from entries_retained [OF wfn this] True show ?thesis by auto
    qed simp
    finally show ?thesis .
  qed
  show ?thesis
  proof (intro exI conjI)
    show "snd (retain__queue env c sub sub_qos i db) =
        (fold (\<lambda>e db. snd (retain__process env c sub_qos i (snd e) db)) (map ?f es)
           (db\<lparr>d_mem := snd (sub__topic_tokenise sub (d_mem db))\<rparr>))\<lparr>d_retains := r\<rparr>"
      unfolding fo by (rule e(1))
    show "distinct (map fst (map ?f es))" unfolding m by (rule d)
    show "\<forall>us p. (us, p) \<in> set (map ?f es) \<longleftrightarrow> retained_for us db = Some p \<and> match_levels (filed_levels sub) us
        \<and> \<not> (length us = 1 \<and> length (filed_levels sub) = 2 \<and> childless us db)"
      by (intro allI mem)
  qed
qed

theorem retain_queue_exact_witness:
  "\<exists>r. snd (retain__queue open_acl 0 ''+'' 1 0 retained_message) =
     (snd (retain__process open_acl 0 1 0 1 (retained_message\<lparr>d_mem := []\<rparr>)))\<lparr>d_retains := r\<rparr>"
proof -
  have l: "filed_levels ''+'' = [[], ''+'']" by (simp add: filed_levels_def levels.simps)
  have rt: "d_retains retained_message = [([], Retainhier None [([], Retainhier None [(''a'', Retainhier (Some 1) [])])])]"
    "d_mem retained_message = []"
    by (simp_all add: retained_message_def held_message_trees)
  have tk: "sub__topic_tokenise ''+'' [] = (Inr ([Some [], Some ''+'', None, None], None), [])" by code_simp
  have a: "''+'' \<noteq> []" "filter_levels_ok (filed_levels ''+'')" "wf_branches (d_retains retained_message)"
    "fst (sub__topic_tokenise ''+'' (d_mem retained_message)) = Inr ([Some [], Some ''+'', None, None], None)"
    by (simp_all add: l rt tk)
  obtain es r where e: "snd (retain__queue open_acl 0 ''+'' 1 0 retained_message) =
      (fold (\<lambda>e db. snd (retain__process open_acl 0 1 0 (snd e) db)) es (retained_message\<lparr>d_mem := []\<rparr>))\<lparr>d_retains := r\<rparr>"
    "distinct (map fst es)"
    "\<forall>us p. (us, p) \<in> set es \<longleftrightarrow> retained_for us retained_message = Some p \<and> match_levels (filed_levels ''+'') us
       \<and> \<not> (length us = 1 \<and> length (filed_levels ''+'') = 2 \<and> childless us retained_message)"
    using retain_queue_exact [OF a, of open_acl 0 1 0] by (auto simp: rt tk)
  have "set es = {([[], ''a''], 1)}"
  proof (rule set_eqI, clarify)
    fix us p
    have "(retained_for us retained_message = Some p \<and> match_levels [[], ''+''] us) = (us = [[], ''a''] \<and> p = 1)"
      by (cases us; cases "tl us"; cases "tl (tl us)") (auto simp: retained_for_def rt split: if_splits)
    then show "(us, p) \<in> set es \<longleftrightarrow> (us, p) \<in> {([[], ''a''], 1)}" using e(3) unfolding l by auto
  qed
  moreover have "distinct es" using e(2) by (simp add: distinct_map)
  ultimately have "mset es = mset [([[], ''a''], 1)]" by (subst set_eq_iff_mset_eq_distinct [symmetric]) simp_all
  then have "es = [([[], ''a''], 1)]" by simp
  then show ?thesis using e(1) by auto
qed

end
