(* ===== verification/Subs_Props.thy ===== *)
theory Subs_Props
  imports Subs_Clean Subs_Queue Retain_Props
begin

text \<open>
  The properties of \<open>src/subs.c\<close>: subscribing, unsubscribing, the end of a session and publishing.
\<close>

section \<open>Filters in the tree\<close>

lemma filed_matches:
  assumes s: "s \<noteq> []" "share_group s = None" and t: "t \<noteq> []" "share_group t = None"
  shows "match_levels (filed_levels s) (filed_levels t) = filter_matches s t"
proof -
  have d: "\<exists>l ls. levels u = (CHR ''$'' # l) # ls" if "u \<noteq> []" "hd u = CHR ''$''" for u
    using that by (cases u) (auto simp: levels.simps split: list.splits)
  have c: "(char_at u 0 = CHR ''$'') = (hd u = CHR ''$'')" if "u \<noteq> []" for u using that by (cases u) (simp_all add: char_at_def)
  have f: "filed_levels u = (if hd u \<noteq> CHR ''$'' then [] # levels u else levels u)" if "share_group u = None" for u
    using that by (simp add: filed_levels_def share_group_def split: if_splits)
  show ?thesis
  proof (cases "hd s = CHR ''$''"; cases "hd t = CHR ''$''")
    assume "hd s = CHR ''$''" "hd t \<noteq> CHR ''$''"
    then show ?thesis using d [OF s(1)] by (auto simp: f [OF s(2)] f [OF t(2)] filter_matches_def c [OF s(1)] c [OF t(1)])
  next
    assume "hd s \<noteq> CHR ''$''" "hd t = CHR ''$''"
    then show ?thesis using d [OF t(1)] by (auto simp: f [OF s(2)] f [OF t(2)] filter_matches_def c [OF s(1)] c [OF t(1)])
  qed (simp_all add: f [OF s(2)] f [OF t(2)] filter_matches_def c [OF s(1)] c [OF t(1)])
qed

text \<open>A topic name that is valid has no wildcard in the tree.\<close>

lemma levels_chars: "l \<in> set (levels t) \<Longrightarrow> set l \<subseteq> set t"
proof (induction t arbitrary: l)
  case (Cons a t)
  show ?case
  proof (cases "a = CHR ''/''")
    case True
    have "levels (a # t) = [] # levels t" using True by (simp add: levels.simps split: list.split)
    then have "l = [] \<or> l \<in> set (levels t)" using Cons.prems by simp
    then show ?thesis using Cons.IH [of l] by auto
  next
    case False
    have "set (hd (levels t)) \<subseteq> set t" using Cons.IH [of "hd (levels t)"] by simp
    then show ?thesis using Cons.prems Cons.IH [of l] list.set_sel(2) [of "levels t" l] unfolding levels_char [OF False] by auto
  qed
qed simp

lemma topic_plain: "topic_valid t \<Longrightarrow> share_group t = None \<Longrightarrow> plain_levels (filed_levels t)"
proof -
  assume v: "topic_valid t" and n: "share_group t = None"
  have "filed_levels t = levels t \<or> filed_levels t = [] # levels t"
    using n by (auto simp: filed_levels_def share_group_def split: if_splits)
  moreover have "''+'' \<notin> set (levels t)" "''#'' \<notin> set (levels t)"
    using v levels_chars [of "''+''" t] levels_chars [of "''#''" t] by (auto simp: topic_valid_def is_wild_def)
  ultimately show "plain_levels (filed_levels t)" by (auto simp: plain_levels_def)
qed

text \<open>Adding a valid filter puts nothing below a level \<open>#\<close>.\<close>

lemma hash_leaf_iff: "hash_leaf n \<longleftrightarrow>
    (\<forall>k b. ht_find k (h_children n) = Some b \<longrightarrow> hash_leaf b \<and> (k = ''#'' \<longrightarrow> h_children b = []))"
proof
  assume "hash_leaf n"
  then show "\<forall>k b. ht_find k (h_children n) = Some b \<longrightarrow> hash_leaf b \<and> (k = ''#'' \<longrightarrow> h_children b = [])"
    using hash_leaf_child hash_leaf_here by blast
next
  assume a: "\<forall>k b. ht_find k (h_children n) = Some b \<longrightarrow> hash_leaf b \<and> (k = ''#'' \<longrightarrow> h_children b = [])"
  have "h_children b = []" if at: "node_below (us @ [''#'']) n = Some b" for us b
  proof (cases us)
    case Nil
    then show ?thesis using at a by (cases "ht_find ''#'' (h_children n)") auto
  next
    case (Cons k ks)
    then obtain m where "ht_find k (h_children n) = Some m" "node_below (ks @ [''#'']) m = Some b"
      using at by (cases "ht_find k (h_children n)") auto
    then show ?thesis using a unfolding hash_leaf_def by blast
  qed
  then show "hash_leaf n" by (simp add: hash_leaf_def)
qed

lemma walk_hash_leaf:
  assumes "\<And>n db rc n' db'. add n db = ((rc, n'), db') \<Longrightarrow> h_children n' = h_children n"
    and "''#'' \<notin> set (butlast ts)"
  shows "hash_leaf n \<Longrightarrow> sub_walk ts add n db = ((rc, n'), db') \<Longrightarrow>
    hash_leaf n' \<and> (ts = [] \<longrightarrow> h_children n' = h_children n)"
  using assms(2)
proof (induction ts arbitrary: n db rc n' db')
  case Nil
  then have "h_children n' = h_children n" using assms(1) [of n db rc n' db'] by simp
  then show ?case using Nil(1) hash_leaf_iff [of n] hash_leaf_iff [of n'] by simp
next
  case (Cons t ts)
  have none: "hash_leaf no_hier" unfolding hash_leaf_iff [of no_hier] by simp
  have ts: "''#'' \<notin> set (butlast ts)" "t = ''#'' \<Longrightarrow> ts = []" using Cons.prems(3) by (auto split: if_splits)
  have here: "hash_leaf b" "k = ''#'' \<Longrightarrow> h_children b = []" if "ht_find k (h_children n) = Some b" for k b
    using hash_leaf_child [OF Cons.prems(1) that] hash_leaf_here [OF Cons.prems(1)] that by simp_all
  have upd: "hash_leaf n'" if c: "\<And>k. ht_find k (h_children n') = (if k = t then Some b' else ht_find k (h_children n))"
    and b': "hash_leaf b'" "t = ''#'' \<Longrightarrow> h_children b' = []" for b'
    unfolding hash_leaf_iff [of n'] c
  proof (intro allI impI)
    fix k b assume "(if k = t then Some b' else ht_find k (h_children n)) = Some b"
    then show "hash_leaf b \<and> (k = ''#'' \<longrightarrow> h_children b = [])"
      using b' here [of k b] by (cases "k = t"; cases "k = ''#''") (simp_all split: if_splits)
  qed
  show ?case
  proof (cases "length t > 65535")
    case True
    then show ?thesis using Cons.prems by simp
  next
    case short: False
    show ?thesis
    proof (cases "ht_find t (h_children n)")
      case (Some b)
      obtain rc1 b1 db1 where w: "sub_walk ts add b db = ((rc1, b1), db1)" by (metis surj_pair)
      have e: "n' = Subhier (h_subs n) (h_shared n) (ht_set t b1 (h_children n))" using Cons.prems(2) Some w short by simp
      have "hash_leaf b1 \<and> (ts = [] \<longrightarrow> h_children b1 = h_children b)" using Cons.IH [OF _ w ts(1)] here [OF Some] by blast
      then have "hash_leaf n'" using here [OF Some] ts(2) Some by (intro upd [of b1]) (auto simp: e ht_find_set)
      then show ?thesis by simp
    next
      case None
      obtain nb db0 where nb: "sub__add_hier_entry db = (nb, db0)" by (cases "sub__add_hier_entry db")
      show ?thesis
      proof (cases nb)
        case None': None
        then show ?thesis using Cons.prems(1,2) None nb short by simp
      next
        case (Some b)
        then have b: "b = no_hier" using nb hier_fresh by blast
        obtain rc1 b1 db1 where w: "sub_walk ts add b db0 = ((rc1, b1), db1)" by (metis surj_pair)
        have e: "n' = Subhier (h_subs n) (h_shared n) (ht_add t b1 (h_children n))"
          using Cons.prems(2) None Some nb w short by simp
        have "hash_leaf b1 \<and> (ts = [] \<longrightarrow> h_children b1 = h_children b)" using Cons.IH [OF _ w ts(1)] none b by blast
        then have "hash_leaf n'" using ts(2) b None by (intro upd [of b1]) (auto simp: e ht_find_add)
        then show ?thesis by simp
      qed
    qed
  qed
qed

lemma add_children: "add_at c qos identifier options path sharename n db = ((rc, n'), db') \<Longrightarrow> h_children n' = h_children n"
  by (auto simp: add_at_def sub__add_normal_def sub__add_shared_def Let_def split: if_splits option.splits prod.splits bool.splits)

lemma sub_levels_hash: "filter_levels_ok ls \<Longrightarrow> ''#'' \<notin> set (butlast ls)"
  by (induction ls) auto

lemma sub_path_hash:
  assumes "sub_valid sub" "share_group sub = None" "sub \<noteq> []"
  shows "''#'' \<notin> set (butlast (sub_path sub))"
proof -
  have h: "hd (filed_levels sub) \<noteq> ''#''" using filed_hd [OF assms(3)] by simp
  have "filed_levels sub = levels sub \<or> filed_levels sub = [] # levels sub"
    using assms(2) by (auto simp: filed_levels_def share_group_def split: if_splits)
  moreover have "''#'' \<notin> set (butlast (levels sub))" using assms(1) sub_levels_hash by (simp add: sub_valid_def)
  ultimately have "''#'' \<notin> set (butlast (filed_levels sub))" by auto
  then show ?thesis using h by (cases "filed_levels sub") (auto simp: sub_path_def)
qed

lemma add_hash_leaf:
  assumes "hash_leaf (roots db)" "sub_valid sub" "share_group sub = None" "sub \<noteq> []"
    and a: "sub__add c sub qos identifier options db = (rc, db')"
  shows "hash_leaf (roots db')"
proof -
  obtain r mem where t: "sub__topic_tokenise sub (d_mem db) = (r, mem)" by (cases "sub__topic_tokenise sub (d_mem db)")
  show ?thesis
  proof (rule sub__topic_tokenise_cases [OF assms(4), of "d_mem db"], goal_cases)
    case 1 then show ?case using a t assms(1) by (auto simp: sub__add_def roots_def)
  next
    case 2 then show ?case using a t assms(1) by (auto simp: sub__add_def roots_def)
  next
    case (3 ts)
    then have tt: "sub__topic_tokenise sub (d_mem db) = (Inr (ts, share_group sub), mem)" using t by simp
    let ?db = "db\<lparr>d_mem := mem\<rparr>"
    obtain rc1 n db1 where w: "sub_walk (sub_path sub) (add_at c qos identifier options (sub_path sub) (share_group sub))
        (roots ?db) ?db = ((rc1, n), db1)" by (metis surj_pair)
    have e: "db' = db1\<lparr>d_subs := h_children n\<rparr>"
      using sub_add_walk [OF tt 3(2) _ refl w [unfolded sub_path_def]] a by simp
    have top: "n = Subhier [] [] (h_children n)" using sub_walk_top [OF w [unfolded sub_path_def]] .
    have "hash_leaf (roots ?db)" using assms(1) by (simp add: roots_def)
    from walk_hash_leaf [OF _ sub_path_hash [OF assms(2-4)] this w] add_children have "hash_leaf n" by blast
    then show ?thesis using roots_children [OF top] e by simp
  qed
qed

section \<open>Concrete subscriptions\<close>

definition one_leaf :: mosquitto__subleaf where
  "one_leaf = \<lparr>l_context = 0, l_identifier = 0, l_qos = 1, l_no_local = False, l_retain_as_published = False\<rparr>"

text \<open>The brokers after client 0 has subscribed to \<open>a/+\<close> and to the shared \<open>a\<close>.\<close>

definition subscribed_broker :: mosquitto_db where
  "subscribed_broker = empty_broker\<lparr>
     d_contexts := (d_contexts empty_broker)(0 := new_client\<lparr>c_subs := [Some [[], [], ''a'', ''+'']]\<rparr>),
     d_subscription_count := 1,
     d_subs := [([], Subhier [] [] [([], Subhier [] [] [(''a'', Subhier [] [] [(''+'', Subhier [one_leaf] [] [])])])])]\<rparr>"

definition shared_broker :: mosquitto_db where
  "shared_broker = empty_broker\<lparr>
     d_contexts := (d_contexts empty_broker)(0 := new_client\<lparr>c_shared_subs := [Some ([[], [], ''a''], ''g'')]\<rparr>),
     d_shared_subscription_count := 1,
     d_subs := [([], Subhier [] [] [([], Subhier [] [] [(''a'', Subhier [] [(''g'', [one_leaf])] [])])])]\<rparr>"

lemma tokens: "sub__topic_tokenise ''a/+'' [] = (Inr ([Some [], Some ''a'', Some ''+'', None, None], None), [])"
  "sub__topic_tokenise ''$share/g/a'' [] = (Inr ([Some [], Some ''a'', None, None, None, None], Some ''g''), [])"
  by code_simp+

lemmas add_defs = sub__add_def topics_of_def ht_add_def sub__add_hier_entry_def d_malloc_def sub__add_context_def
  add_at_def get_ctx_def upd_ctx_def sub__add_leaf_def find_index_def fill_slot_def added_code_def
  MQTT_SUB_OPT_NO_LOCAL_def MQTT_SUB_OPT_RETAIN_AS_PUBLISHED_def

lemma add_runs: "sub__add 0 ''a/+'' 1 0 0 empty_broker = (MOSQ_ERR_SUCCESS, subscribed_broker)"
  "sub__add 0 ''$share/g/a'' 1 0 0 empty_broker = (MOSQ_ERR_SUCCESS, shared_broker)"
  by (simp_all add: add_defs empty_broker_def tokens new_client_def sub__add_normal_def add_ref_def one_leaf_def
      sub__add_shared_def shared_entry_def add_shared_ref_def subscribed_broker_def shared_broker_def)

lemma empty_books: "books empty_broker"
proof -
  have "the_node path (roots empty_broker) = no_hier" for path by (simp add: roots_def empty_broker_def)
  then show ?thesis by (simp add: books_defs ref_count_def shared_ref_count_def get_ctx_def empty_broker_def new_client_def)
qed

lemma shared_books: "books subscribed_broker" "books shared_broker"
proof -
  have "c_id (get_ctx 0 empty_broker) \<noteq> None" by (simp add: get_ctx_def empty_broker_def new_client_def)
  then show "books subscribed_broker" "books shared_broker"
    using sub_add_ok [OF empty_books _ add_runs(1)] sub_add_ok [OF empty_books _ add_runs(2)] by simp_all
qed

section \<open>Properties\<close>

text \<open>
  C18: Unless memory runs out while a shared subscription is recorded, \<open>sub__add\<close> keeps the books:
  the references of every client stand for exactly its leaves in the tree and the two counters are
  exact. It changes nothing at any other filter, and with a code of success a client that has an
  identifier is subscribed with the given QoS and identifier. (In the exception, a client that
  subscribes to a shared filter when memory runs out, the books can break; see the failed realloc below.)
\<close>

theorem sub_add_correct:
  assumes "books db" "sub \<noteq> []"
  shows "case sub__add c sub qos identifier options db of (rc, db') \<Rightarrow>
     share_group sub \<noteq> None \<and> rc = MOSQ_ERR_NOMEM
   \<or> books db'
     \<and> (\<forall>vs. vs \<noteq> sub_path sub \<longrightarrow> own (the_node vs (roots db')) = own (the_node vs (roots db)))
     \<and> (rc \<in> {MOSQ_ERR_SUCCESS, MOSQ_ERR_SUB_EXISTS} \<longrightarrow> c_id (get_ctx c db) = None \<or> subscribed c qos identifier sub db db')"
proof -
  obtain rc db' where r: "sub__add c sub qos identifier options db = (rc, db')" by (metis surj_pair)
  show ?thesis unfolding r prod.case by (rule sub_add_ok [OF assms r])
qed

theorem sub_add_correct_witness:
  "books (snd (sub__add 0 ''$share/g/a'' 1 0 0 empty_broker))
   \<and> fst (sub__add 0 ''$share/g/a'' 1 0 0 empty_broker) = MOSQ_ERR_SUCCESS"
  using sub_add_correct [OF empty_books, of "''$share/g/a''" 0 1 0 0] by (simp add: add_runs)

text \<open>
  C19: \<open>sub__remove\<close> keeps the books, does not touch freed memory and changes nothing at any other
  filter. When the client has a subscription with the filter, exactly one leaf of it goes and the
  reason code is 0; otherwise no subscription changes.
\<close>

theorem sub_remove_correct:
  assumes "books db" "sub \<noteq> []"
  shows "case sub__remove c sub reason0 db of ((rc, reason), db') \<Rightarrow>
     books db' \<and> d_fault db' = d_fault db
   \<and> (\<forall>vs. vs \<noteq> sub_path sub \<longrightarrow> own (the_node vs (roots db')) = own (the_node vs (roots db)))
   \<and> (if rc \<in> {MOSQ_ERR_NOMEM, MOSQ_ERR_PROTOCOL}
      then reason = reason0 \<and> own (the_node (sub_path sub) (roots db')) = own (the_node (sub_path sub) (roots db))
      else if c \<in># who (subscribers sub db)
      then reason = 0 \<and> who (subscribers sub db) = add_mset c (who (subscribers sub db'))
      else reason \<in> {reason0, MQTT_RC_NO_SUBSCRIPTION_EXISTED}
        \<and> own (the_node (sub_path sub) (roots db')) = own (the_node (sub_path sub) (roots db)))"
proof -
  obtain rc reason db' where r: "sub__remove c sub reason0 db = ((rc, reason), db')" by (metis surj_pair)
  show ?thesis unfolding r prod.case by (rule sub_remove_ok [OF assms r])
qed

theorem sub_remove_correct_witness:
  "books subscribed_broker \<and> books (snd (sub__remove 0 ''a/+'' 0 subscribed_broker))
   \<and> d_subs subscribed_broker \<noteq> []"
  using sub_remove_correct [OF shared_books(1), of "''a/+''" 0 0] shared_books(1)
  by (auto simp: subscribed_broker_def split: prod.splits)

text \<open>
  C14: At the end of a session every subscription of the client goes, shared or not, and no other
  client loses one. No reference is followed to a node that was freed, although nodes are freed on
  the way, and the books are exact again.
\<close>

theorem clean_session_correct:
  assumes "books db"
  shows "case sub__clean_session c db of (rc, db') \<Rightarrow>
     rc = MOSQ_ERR_SUCCESS \<and> books db' \<and> d_fault db' = d_fault db
   \<and> (\<forall>c' path sharename. subscriber_count c' path sharename db' =
        (if c' = c then 0 else subscriber_count c' path sharename db))"
proof -
  obtain rc db' where r: "sub__clean_session c db = (rc, db')" by (metis surj_pair)
  show ?thesis unfolding r prod.case using clean_session_ok [OF assms r] by blast
qed

theorem clean_session_correct_witness:
  "subscriber_count 0 [[], [], ''a''] (Some ''g'') shared_broker = 1
   \<and> subscriber_count 0 [[], [], ''a''] (Some ''g'') (snd (sub__clean_session 0 shared_broker)) = 0
   \<and> \<not> d_fault (snd (sub__clean_session 0 shared_broker))"
proof -
  have "subscriber_count 0 [[], [], ''a''] (Some ''g'') shared_broker = 1" "\<not> d_fault shared_broker"
    by (simp_all add: subscriber_count_def sub_list_def share_def roots_def shared_broker_def one_leaf_def empty_broker_def)
  then show ?thesis using clean_session_correct [OF shared_books(2), of 0] by (simp split: prod.splits)
qed

text \<open>
  C16: A publication processes exactly the nodes of the tree whose path matches the topic level by
  level, each of them once, until processing one of them fails; the order of the subscribers of a
  share is all that changes in the tree.
\<close>

theorem publish_search_exact:
  assumes "plain_levels ts" "hash_leaf n"
  shows "\<exists>ps n'. distinct ps
    \<and> (\<forall>p. p \<in> set ps \<longleftrightarrow> p \<noteq> [] \<and> node_below p n \<noteq> None \<and> match_levels p ts)
    \<and> sub__search ts (subs__process env source_id topic qos retain stored) n db =
       ((code_of (fst (visits (subs__process env source_id topic qos retain stored) (map (\<lambda>p. the_node p n) ps) False db)), n'),
        snd (visits (subs__process env source_id topic qos retain stored) (map (\<lambda>p. the_node p n) ps) False db))
    \<and> rotated n n'"
  by (rule publish.search_exact [OF assms])

definition filter_tree :: mosquitto__subhier where
  "filter_tree = Subhier [] [] [(''a'', Subhier [] [] [(''+'', Subhier [one_leaf] [] [])]), (''#'', Subhier [one_leaf] [] [])]"

lemma filter_tree_nodes: "node_below p filter_tree \<noteq> None \<longleftrightarrow> p \<in> {[], [''a''], [''a'', ''+''], [''#'']}"
proof (cases p)
  case (Cons k ks)
  then show ?thesis by (cases ks; cases "tl ks") (auto simp: filter_tree_def)
qed simp

theorem publish_search_exact_witness:
  "\<exists>ps n'. set ps = {[''a'', ''+''], [''#'']} \<and> distinct ps
    \<and> sub__search [''a'', ''b''] (subs__process open_acl None ''a/b'' 0 False 1) filter_tree one_message =
       ((code_of (fst (visits (subs__process open_acl None ''a/b'' 0 False 1) (map (\<lambda>p. the_node p filter_tree) ps) False one_message)), n'),
        snd (visits (subs__process open_acl None ''a/b'' 0 False 1) (map (\<lambda>p. the_node p filter_tree) ps) False one_message))"
proof -
  have "h_children b = []" if at: "node_below (us @ [''#'']) filter_tree = Some b" for us b
    using filter_tree_nodes [of "us @ [''#'']"] at by (cases us) (auto simp: filter_tree_def)
  then have "hash_leaf filter_tree" by (simp add: hash_leaf_def)
  from publish_search_exact [of "[''a'', ''b'']", OF _ this, of open_acl None "''a/b''" 0 False 1 one_message]
  obtain ps n' where p: "distinct ps"
    "\<forall>p. p \<in> set ps \<longleftrightarrow> p \<noteq> [] \<and> node_below p filter_tree \<noteq> None \<and> match_levels p [''a'', ''b'']"
    "sub__search [''a'', ''b''] (subs__process open_acl None ''a/b'' 0 False 1) filter_tree one_message =
       ((code_of (fst (visits (subs__process open_acl None ''a/b'' 0 False 1) (map (\<lambda>p. the_node p filter_tree) ps) False one_message)), n'),
        snd (visits (subs__process open_acl None ''a/b'' 0 False 1) (map (\<lambda>p. the_node p filter_tree) ps) False one_message))"
    by auto
  have "set ps = {[''a'', ''+''], [''#'']}"
  proof (rule set_eqI)
    fix p
    show "p \<in> set ps \<longleftrightarrow> p \<in> {[''a'', ''+''], [''#'']}" unfolding p(2) [rule_format] filter_tree_nodes
      by (cases "p = [''a'', ''+'']"; cases "p = [''#'']"; cases "p = [''a'']"; simp)
  qed
  then show ?thesis using p by blast
qed

text \<open>
  C15: A subscription is served: once \<open>sub__add\<close> has returned success for a filter without a share
  group that \<open>mosquitto_topic_matches_sub\<close> matches with a topic, a node with a leaf of the subscriber
  with its QoS is among those that every publication to the topic processes in turn; it is reached
  unless processing an earlier one of them failed, which ends the search (see \<open>visits\<close>).
\<close>

theorem subscriber_is_found:
  assumes "books db" "hash_leaf (roots db)" "c_id (get_ctx c db) \<noteq> None"
    and "sub_valid sub" "sub \<noteq> []" "share_group sub = None"
    and "sub__add c sub qos identifier options db = (rc, db')" "rc \<in> {MOSQ_ERR_SUCCESS, MOSQ_ERR_SUB_EXISTS}"
    and "topic_valid topic" "topic \<noteq> []" "share_group topic = None"
    and "mosquitto_topic_matches_sub (Some sub) (Some topic) True = Inr True"
  shows "\<exists>h ps leaf. ht_find (hd (filed_levels topic)) (d_subs db') = Some h
    \<and> (\<exists>p \<in> set ps. leaf \<in> set (h_subs (the_node p h)))
    \<and> c_id (get_ctx (l_context leaf) db) = c_id (get_ctx c db) \<and> l_qos leaf = qos
    \<and> (\<exists>n'. sub__search (filed_levels topic) (subs__process env source_id topic pqos retain stored) h db1 =
       ((code_of (fst (visits (subs__process env source_id topic pqos retain stored) (map (\<lambda>p. the_node p h) ps) False db1)), n'),
        snd (visits (subs__process env source_id topic pqos retain stored) (map (\<lambda>p. the_node p h) ps) False db1)))"
proof -
  define fs where "fs = filed_levels topic"
  have m: "match_levels (filed_levels sub) fs"
    using assms(12) topic_matches_valid [OF assms(4,9,5,10)] filed_matches [OF assms(5,6,10,11)] by (simp add: fs_def)
  then have hd: "hd fs = hd (filed_levels sub)" using match_filed [OF assms(5)] by blast
  have "subscribed c qos identifier sub db db'" using sub_add_ok [OF assms(1,5,7)] assms(3,6,8) by auto
  then obtain leaf where l: "leaf \<in> set (h_subs (the_node (sub_path sub) (roots db')))"
    "c_id (get_ctx (l_context leaf) db) = c_id (get_ctx c db)" "l_qos leaf = qos"
    using assms(6) by (auto simp: subscribed_def serves_def)
  obtain h where h: "ht_find (hd fs) (d_subs db') = Some h"
    using l(1) by (cases "ht_find (hd fs) (d_subs db')") (simp_all add: sub_path_def hd roots_def)
  have at: "the_node (filed_levels sub) h = the_node (sub_path sub) (roots db')"
    using h by (simp add: sub_path_def hd roots_def)
  have below: "node_below (filed_levels sub) h \<noteq> None" 
  proof
    assume "node_below (filed_levels sub) h = None"
    then have "the_node (filed_levels sub) h = no_hier" by (simp add: the_node_def)
    then show False using l(1) at by simp
  qed
  have "hash_leaf (roots db')" by (rule add_hash_leaf [OF assms(2,4,6,5,7)])
  then have leafh: "hash_leaf h" using h hash_leaf_child [of "roots db'"] by (simp add: roots_def)
  obtain ps n' where p: "\<forall>p. p \<in> set ps \<longleftrightarrow> p \<noteq> [] \<and> node_below p h \<noteq> None \<and> match_levels p fs"
    "sub__search fs (subs__process env source_id topic pqos retain stored) h db1 =
       ((code_of (fst (visits (subs__process env source_id topic pqos retain stored) (map (\<lambda>p. the_node p h) ps) False db1)), n'),
        snd (visits (subs__process env source_id topic pqos retain stored) (map (\<lambda>p. the_node p h) ps) False db1))"
    using publish.search_exact [OF topic_plain [OF assms(9,11)] leafh] unfolding fs_def by metis
  have "filed_levels sub \<in> set ps" using p(1) below m by simp
  then show ?thesis using h l p(2) at unfolding fs_def by metis
qed

theorem subscriber_is_found_witness:
  "\<exists>h. ht_find [] (d_subs subscribed_broker) = Some h
    \<and> (\<exists>ps. \<exists>p \<in> set ps. \<exists>leaf \<in> set (h_subs (the_node p h)). l_qos leaf = 1)
    \<and> mosquitto_topic_matches_sub (Some ''a/+'') (Some ''a/b'') True = Inr True"
proof -
  have v: "sub_valid ''a/+''" "topic_valid ''a/b''" "share_group ''a/+'' = None" "share_group ''a/b'' = None"
    "filed_levels ''a/b'' = [[], ''a'', ''b'']"
    by (simp_all add: sub_valid_def topic_valid_def is_wild_def levels.simps share_group_def filed_levels_def)
  have m: "mosquitto_topic_matches_sub (Some ''a/+'') (Some ''a/b'') True = Inr True"
    using topic_matches_valid [OF v(1,2)] by (simp add: filter_matches_def char_at_def levels.simps)
  have e: "c_id (get_ctx 0 empty_broker) \<noteq> None" "hash_leaf (roots empty_broker)"
    by (simp_all add: get_ctx_def empty_broker_def new_client_def roots_def) (unfold hash_leaf_iff [of no_hier], simp)
  show ?thesis
    using subscriber_is_found [OF empty_books e(2,1) v(1) _ v(3) add_runs(1) _ v(2) _ v(4) m, of open_acl None 1 False 1 empty_broker]
      m v(5) by auto
qed








text \<open>
  C20: When recording a shared subscription fails because the client's array of references cannot
  grow, a live reference is lost: the books are wrong afterwards, and the end of the session will
  leave a subscription of the client in the tree.
\<close>

theorem shared_ref_failure_breaks_books:
  assumes "books db" "c_shared_subs (get_ctx c db) \<noteq> []" "add_shared_ref c path sharename db = (False, db')"
  shows "\<not> books db'"
proof
  assume b: "books db'"
  define slots where "slots = c_shared_subs (get_ctx c db)"
  obtain ok db1 where m: "d_malloc db = (ok, db1)" by (cases "d_malloc db")
  have mm: "mallocs db db1" using mallocs_malloc [of db] m by simp
  have full: "fill_slot (path, sharename) slots = None" and db': "db' = upd_ctx c (\<lambda>ctx. ctx\<lparr>c_shared_subs := (c_shared_subs ctx)[length slots - 1 := None]\<rparr>) db1"
    using assms(2,3) m mallocs_fields(3) [OF mm, of c]
    by (auto simp: add_shared_ref_def slots_def Let_def split: option.splits bool.splits if_splits)
  have "None \<notin> set slots" using full by (auto simp: fill_slot_def find_index_None split: option.splits)
  moreover have len: "length slots - 1 < length slots" using assms(2) by (simp add: slots_def)
  ultimately obtain us s where l: "slots ! (length slots - 1) = Some (us, s)" by (metis nth_mem option.exhaust surj_pair)
  have "c_shared_subs (get_ctx c db') = slots[length slots - 1 := None]"
    using mallocs_fields(3) [OF mm, of c] by (simp add: db' upd_ctx_def get_ctx_def slots_def)
  then have "shared_ref_count c us s db' + 1 = shared_ref_count c us s db"
    using len l by (simp add: shared_ref_count_def slots_def mset_update) (metis count_greater_zero_iff nth_mem set_mset_mset Suc_pred)
  moreover have "roots db' = roots db" using mallocs_fields(1) [OF mm] by (simp add: db' upd_ctx_def roots_def)
  ultimately show False using assms(1) b by (simp add: books_defs)
qed

theorem shared_ref_failure_breaks_books_witness:
  "books (shared_broker\<lparr>d_mem := [False]\<rparr>)
   \<and> \<not> books (snd (add_shared_ref 0 [[], [], ''b''] ''g'' (shared_broker\<lparr>d_mem := [False]\<rparr>)))"
proof -
  let ?db = "shared_broker\<lparr>d_mem := [False]\<rparr>"
  have b: "books ?db" using shared_books(2) unfolding books_defs ref_count_def shared_ref_count_def get_ctx_def roots_def by simp
  have c: "c_shared_subs (get_ctx 0 ?db) = [Some ([[], [], ''a''], ''g'')]" by (simp add: shared_broker_def get_ctx_def)
  obtain db' where "add_shared_ref 0 [[], [], ''b''] ''g'' ?db = (False, db')"
    by (simp add: add_shared_ref_def c fill_slot_def find_index_def d_malloc_def Let_def)
  from shared_ref_failure_breaks_books [OF b _ this] c this b show ?thesis by simp
qed

end
