(* ===== verification/Packet_IO.thy ===== *)
theory Packet_IO
  imports Broker_State
begin

text \<open>
  \<open>lib/packet_mosq.c\<close> (built for the broker): allocating an outgoing packet, the queue of packets
  that wait for the socket, and reading a packet in pieces. The socket is given by the events to
  come: \<open>i_in\<close> what \<open>read\<close> will find, \<open>i_out\<close> what \<open>write\<close> will take; when a list is used up, the
  call would block. The bytes that \<open>write\<close> took are in \<open>i_wire\<close>. \<open>handle__packet\<close>, which a complete
  packet is passed to, is a parameter; it works on the client and on the rest of the program
  (\<open>i_app\<close>), never on the events of its own packet. Bytes that \<open>malloc\<close> leaves undefined are 0.
\<close>

section \<open>The state\<close>

datatype errno = EAGAIN | ECONNRESET | EINTR | Other_errno

text \<open>\<open>Bytes bs\<close> has arrived; at \<open>Eof\<close> the peer has closed; \<open>Takes n\<close> is room for \<open>n + 1\<close> bytes.\<close>

datatype net_in = Bytes "u8 list" | Eof | In_err errno

datatype net_out = Takes nat | Out_err errno

text \<open>
  The fields of \<open>struct mosquitto\<close> that sending and receiving use; \<open>out_packet_last\<close> is the last packet of
  the list.
\<close>

record mosquitto_conn = mosquitto +
  c_sock :: bool
  c_maximum_packet_size :: u32
  c_keepalive :: u16
  c_last_msg_in :: int
  c_next_msg_out :: int
  c_in_packet :: mosquitto__packet
  c_current_out_packet :: "mosquitto__packet option"
  c_out_packet :: "mosquitto__packet list"
  c_retain_available :: bool

text \<open>The client, the rest of the program, the time, the configuration, and the counters of \<open>sys_tree.h\<close>.\<close>

record 'a io =
  i_ctx :: mosquitto_conn
  i_app :: 'a
  i_now_s :: int
  i_max_packet_size :: u32
  i_max_inflight_messages :: u16
  i_retain_available :: bool
  i_mem :: mem
  i_in :: "net_in list"
  i_out :: "net_out list"
  i_wire :: "u8 list"
  i_mux_out :: bool
  g_bytes_received :: int
  g_bytes_sent :: int
  g_msgs_received :: int
  g_msgs_sent :: int
  g_pub_msgs_received :: int
  g_pub_msgs_sent :: int
  g_pub_bytes_sent :: int

definition on_ctx :: "(mosquitto_conn \<Rightarrow> mosquitto_conn) \<Rightarrow> 'a io \<Rightarrow> 'a io" where
  "on_ctx f w = w\<lparr>i_ctx := f (i_ctx w)\<rparr>"

definition on_in :: "(mosquitto__packet \<Rightarrow> mosquitto__packet) \<Rightarrow> 'a io \<Rightarrow> 'a io" where
  "on_in f w = on_ctx (\<lambda>ctx. ctx\<lparr>c_in_packet := f (c_in_packet ctx)\<rparr>) w"

abbreviation in_packet :: "'a io \<Rightarrow> mosquitto__packet" where
  "in_packet w \<equiv> c_in_packet (i_ctx w)"

section \<open>Allocation\<close>

text \<open>The bytes of the remaining length, at most as many as the first argument says.\<close>

primrec alloc_bytes :: "nat \<Rightarrow> u32 \<Rightarrow> u8 list" where
  "alloc_bytes 0 remaining_length = []"
| "alloc_bytes (Suc n) remaining_length =
     (let byte = ucast (remaining_length mod 128) :: u8;
          remaining_length = remaining_length div 128
      in if remaining_length > 0 then (byte OR 0x80) # alloc_bytes n remaining_length else [byte])"

definition packet__alloc :: "mosquitto__packet \<Rightarrow> mem \<Rightarrow> mosq_err \<times> mosquitto__packet \<times> mem" where
  "packet__alloc packet mem =
     (let bytes = alloc_bytes 5 (p_remaining_length packet);
          packet = packet\<lparr>p_payload := [], p_remaining_count := int (length bytes)\<rparr>
      in if length bytes = 5 then (MOSQ_ERR_PAYLOAD_SIZE, packet, mem)
         else
           let packet = packet\<lparr>p_packet_length := p_remaining_length packet + 1 + of_nat (length bytes)\<rparr>
           in case malloc_ok mem of
                (False, mem) \<Rightarrow> (MOSQ_ERR_NOMEM, packet, mem)
              | (True, mem) \<Rightarrow>
                  (MOSQ_ERR_SUCCESS,
                   packet\<lparr>p_payload := take (unat (p_packet_length packet)) (p_command packet # bytes)
                            @ replicate (unat (p_packet_length packet) - (1 + length bytes)) 0,
                          p_pos := 1 + of_nat (length bytes)\<rparr>, mem))"

definition packet__cleanup :: "mosquitto__packet \<Rightarrow> mosquitto__packet" where
  "packet__cleanup packet =
     packet\<lparr>p_command := 0, p_remaining_count := 0, p_remaining_mult := 1, p_remaining_length := 0,
       p_payload := [], p_to_process := 0, p_pos := 0\<rparr>"

fun cleanup_out :: "mosquitto__packet option \<Rightarrow> mosquitto__packet list \<Rightarrow>
    mosquitto__packet option \<times> mosquitto__packet list" where
  "cleanup_out None ps = (None, ps)"
| "cleanup_out (Some packet) [] = (None, [])"
| "cleanup_out (Some packet) (p # ps) = cleanup_out (Some p) ps"

definition packet__cleanup_all_no_locks :: "mosquitto_conn \<Rightarrow> mosquitto_conn" where
  "packet__cleanup_all_no_locks mosq =
     (let (current, out) =
        (case (c_out_packet mosq, c_current_out_packet mosq) of
           (p # ps, None) \<Rightarrow> cleanup_out (Some p) ps
         | (ps, current) \<Rightarrow> cleanup_out current ps)
      in mosq\<lparr>c_current_out_packet := current, c_out_packet := out, c_out_packet_count := 0,
           c_in_packet := packet__cleanup (c_in_packet mosq)\<rparr>)"

definition packet__check_oversize :: "mosquitto_conn \<Rightarrow> u32 \<Rightarrow> mosq_err" where
  "packet__check_oversize mosq remaining_length =
     (if c_maximum_packet_size mosq = 0 then MOSQ_ERR_SUCCESS
      else if remaining_length + of_nat (packet__varint_bytes remaining_length) > c_maximum_packet_size mosq
      then MOSQ_ERR_OVERSIZE_PACKET else MOSQ_ERR_SUCCESS)"

definition keepalive__update :: "'a io \<Rightarrow> 'a io" where
  "keepalive__update w = on_ctx (\<lambda>ctx. ctx\<lparr>c_last_msg_in := i_now_s w\<rparr>) w"

section \<open>Writing\<close>

text \<open>What \<open>packet__write\<close> and \<open>packet__read\<close> return when the socket reports an error.\<close>

definition errno_rc :: "errno \<Rightarrow> unit res" where
  "errno_rc e =
     (case e of EAGAIN \<Rightarrow> Inr () | ECONNRESET \<Rightarrow> rc_fail MOSQ_ERR_CONN_LOST | EINTR \<Rightarrow> Inr ()
      | Other_errno \<Rightarrow> rc_fail MOSQ_ERR_ERRNO)"

text \<open>The queue moves on by one packet.\<close>

definition next_out :: "mosquitto_conn \<Rightarrow> mosquitto_conn" where
  "next_out mosq =
     (case c_out_packet mosq of
        [] \<Rightarrow> mosq\<lparr>c_current_out_packet := None\<rparr>
      | p # ps \<Rightarrow> mosq\<lparr>c_current_out_packet := Some p, c_out_packet := ps,
          c_out_packet_count := c_out_packet_count mosq - 1\<rparr>)"

text \<open>The inner loop: \<open>None\<close> when the packet is sent; the packet, what was sent of it, the events left.\<close>

fun write_loop :: "net_out list \<Rightarrow> mosquitto__packet \<Rightarrow>
    unit res option \<times> mosquitto__packet \<times> u8 list \<times> net_out list" where
  "write_loop [] packet = (if p_to_process packet = 0 then None else Some (errno_rc EAGAIN), packet, [], [])"
| "write_loop (Out_err e # evs) packet =
     (if p_to_process packet = 0 then (None, packet, [], Out_err e # evs)
      else (Some (errno_rc e), packet, [], evs))"
| "write_loop (Takes k # evs) packet =
     (if p_to_process packet = 0 then (None, packet, [], Takes k # evs)
      else
        let write_length = min (Suc k) (unat (p_to_process packet))
        in case rd_bytes (p_payload packet) (unat (p_pos packet)) write_length of
             Inl e \<Rightarrow> (Some (Inl e), packet, [], evs)
           | Inr bs \<Rightarrow>
               (case write_loop evs (packet\<lparr>p_to_process := p_to_process packet - of_nat write_length,
                                            p_pos := p_pos packet + of_nat write_length\<rparr>) of
                  (r, packet, bs', evs) \<Rightarrow> (r, packet, bs @ bs', evs)))"

definition msg_sent :: "mosquitto__packet \<Rightarrow> 'a io \<Rightarrow> 'a io" where
  "msg_sent packet w =
     (let w = w\<lparr>g_msgs_sent := g_msgs_sent w + 1\<rparr>
      in if p_command packet AND 0xF6 = 0x30 then w\<lparr>g_pub_msgs_sent := g_pub_msgs_sent w + 1\<rparr>
         else if p_command packet AND 0xF0 = 0x30 then w\<lparr>g_pub_msgs_sent := g_pub_msgs_sent w + 1\<rparr>
         else w)"

function packet_write_loop :: "'a io \<Rightarrow> unit res \<times> 'a io" where
  "packet_write_loop w =
     (case c_current_out_packet (i_ctx w) of
        None \<Rightarrow> (Inr (), w\<lparr>i_mux_out := False\<rparr>)
      | Some packet \<Rightarrow>
          (case write_loop (i_out w) packet of
             (r, packet, bs, evs) \<Rightarrow>
               let w = on_ctx (\<lambda>ctx. ctx\<lparr>c_current_out_packet := Some packet\<rparr>)
                         (w\<lparr>i_out := evs, i_wire := i_wire w @ bs,
                            g_bytes_sent := g_bytes_sent w + int (length bs)\<rparr>)
               in (case r of
                    Some rc \<Rightarrow> (rc, w)
                  | None \<Rightarrow>
                      packet_write_loop
                        (on_ctx (\<lambda>ctx. ctx\<lparr>c_next_msg_out := i_now_s w + uint (c_keepalive ctx)\<rparr>)
                          (on_ctx next_out (msg_sent packet w))))))"
  by pat_completeness auto
termination
  by (relation "measure (\<lambda>w. case c_current_out_packet (i_ctx w) of None \<Rightarrow> 0
        | Some _ \<Rightarrow> Suc (length (c_out_packet (i_ctx w))))")
    (auto simp: on_ctx_def next_out_def msg_sent_def Let_def split: list.splits)

declare packet_write_loop.simps [simp del]

definition packet__write :: "'a io \<Rightarrow> unit res \<times> 'a io" where
  "packet__write w =
     (if \<not> c_sock (i_ctx w) then (rc_fail MOSQ_ERR_NO_CONN, w)
      else
        let w = (if c_out_packet (i_ctx w) \<noteq> [] \<and> c_current_out_packet (i_ctx w) = None
                 then on_ctx next_out w else w);
            w = (if c_current_out_packet (i_ctx w) \<noteq> None then w\<lparr>i_mux_out := True\<rparr> else w)
        in if c_state (i_ctx w) = mosq_cs_connect_pending then (Inr (), w)
           else packet_write_loop w)"

definition packet__queue :: "mosquitto__packet \<Rightarrow> 'a io \<Rightarrow> unit res \<times> 'a io" where
  "packet__queue packet w =
     (let packet = packet\<lparr>p_pos := 0, p_to_process := p_packet_length packet\<rparr>
      in packet__write
           (on_ctx (\<lambda>ctx. ctx\<lparr>c_out_packet := c_out_packet ctx @ [packet],
                              c_out_packet_count := c_out_packet_count ctx + 1\<rparr>) w))"

section \<open>Building a packet\<close>

text \<open>
  The steps that every \<open>send\<close> function has around the writing of its contents: allocate a packet
  with the command and the length, write, queue. \<open>assert\<close> and buffer failures of the writers end it.
\<close>

definition packet0 :: mosquitto__packet where
  "packet0 = \<lparr>p_payload = [], p_remaining_mult = 0, p_remaining_length = 0, p_packet_length = 0,
     p_to_process = 0, p_pos = 0, p_mid = 0, p_command = 0, p_remaining_count = 0\<rparr>"

definition send_packet :: "u8 \<Rightarrow> u16 \<Rightarrow> u32 \<Rightarrow> (mosquitto__packet \<Rightarrow> mosquitto__packet res) \<Rightarrow> 'a io \<Rightarrow> unit res \<times> 'a io" where
  "send_packet command mid remaining_length fill w =
     (case malloc_ok (i_mem w) of
        (False, mem) \<Rightarrow> (rc_fail MOSQ_ERR_NOMEM, w\<lparr>i_mem := mem\<rparr>)
      | (True, mem) \<Rightarrow>
          (case packet__alloc (packet0\<lparr>p_mid := mid, p_command := command, p_remaining_length := remaining_length\<rparr>) mem of
             (rc, packet, mem) \<Rightarrow>
               let w = w\<lparr>i_mem := mem\<rparr>
               in if rc \<noteq> MOSQ_ERR_SUCCESS then (rc_fail rc, w)
                  else (case fill packet of
                    Inl e \<Rightarrow> (Inl e, w)
                  | Inr packet \<Rightarrow> packet__queue packet w)))"

text \<open>
  \<open>property__write_all\<close> as a step of the writing: its return code is not looked at, a failed
  \<open>assert\<close> or a write outside of the buffer is.
\<close>

definition write_props :: "mqtt5__property list \<Rightarrow> bool \<Rightarrow> mosquitto__packet \<Rightarrow> mosquitto__packet res" where
  "write_props properties write_len packet =
     (case property__write_all packet properties write_len of
        (Inr _, packet) \<Rightarrow> Inr packet | (Inl (Rc _), packet) \<Rightarrow> Inr packet | (Inl e, packet) \<Rightarrow> Inl e)"

definition send__disconnect :: "u8 \<Rightarrow> mqtt5__property list \<Rightarrow> 'a io \<Rightarrow> unit res \<times> 'a io" where
  "send__disconnect reason_code properties w =
     (let v5 = c_protocol (i_ctx w) = mosq_p_mqtt5 \<and> (reason_code \<noteq> 0 \<or> properties \<noteq> [])
      in send_packet 0xE0 0
           (if v5 then 1 + (if properties \<noteq> [] then property__get_remaining_length properties else 0) else 0)
           (\<lambda>packet.
              if v5 then
                (case packet__write_byte packet reason_code of
                   Inl e \<Rightarrow> Inl e
                 | Inr packet \<Rightarrow> if properties \<noteq> [] then write_props properties True packet else Inr packet)
              else Inr packet) w)"

section \<open>Reading\<close>

fun net__read :: "nat \<Rightarrow> net_in list \<Rightarrow> (errno + u8 list) \<times> net_in list" where
  "net__read n [] = (Inl EAGAIN, [])"
| "net__read n (Bytes bs # evs) =
     (if bs = [] then net__read n evs
      else (Inr (take n bs), if drop n bs = [] then evs else Bytes (drop n bs) # evs))"
| "net__read n (Eof # evs) = (Inr [], Eof # evs)"
| "net__read n (In_err e # evs) = (Inl e, evs)"

definition io_read :: "nat \<Rightarrow> 'a io \<Rightarrow> (errno + u8 list) \<times> 'a io" where
  "io_read n w = (case net__read n (i_in w) of (r, evs) \<Rightarrow> (r, w\<lparr>i_in := evs\<rparr>))"

text \<open>The three parts of \<open>packet__read\<close>: \<open>Some\<close> result when the function returns there.\<close>

definition read_command :: "'a io \<Rightarrow> unit res option \<times> 'a io" where
  "read_command w =
     (if p_command (in_packet w) \<noteq> 0 then (None, w)
      else
        case io_read 1 w of
          (Inl e, w) \<Rightarrow> (Some (errno_rc e), w)
        | (Inr [], w) \<Rightarrow> (Some (rc_fail MOSQ_ERR_CONN_LOST), w)
        | (Inr (byte # _), w) \<Rightarrow>
            let w = (on_in (\<lambda>p. p\<lparr>p_command := byte\<rparr>) w)\<lparr>g_bytes_received := g_bytes_received w + 1\<rparr>
            in if c_bridge (i_ctx w) = None \<and> c_state (i_ctx w) = mosq_cs_connected \<and> byte AND 0xF0 \<noteq> 0x10
               then (Some (rc_fail MOSQ_ERR_PROTOCOL), w)
               else (None, w))"

function read_length_loop :: "'a io \<Rightarrow> unit res option \<times> 'a io" where
  "read_length_loop w =
     (case io_read 1 w of
        (Inl e, w) \<Rightarrow> (Some (errno_rc e), w)
      | (Inr [], w) \<Rightarrow> (Some (rc_fail MOSQ_ERR_CONN_LOST), w)
      | (Inr (byte # _), w) \<Rightarrow>
          let w = on_in (\<lambda>p. p\<lparr>p_remaining_count := p_remaining_count p - 1\<rparr>) w
          in if p_remaining_count (in_packet w) < -4 then (Some (rc_fail MOSQ_ERR_PROTOCOL), w)
             else
               let w = (on_in (\<lambda>p. p\<lparr>p_remaining_length := p_remaining_length p + ucast (byte AND 127) * p_remaining_mult p,
                                      p_remaining_mult := p_remaining_mult p * 128\<rparr>) w)
                         \<lparr>g_bytes_received := g_bytes_received w + 1\<rparr>
               in if byte AND 128 \<noteq> 0 then read_length_loop w else (None, w))"
  by pat_completeness auto
termination
  by (relation "measure (\<lambda>w. nat (p_remaining_count (in_packet w) + 5))")
    (auto simp: on_in_def on_ctx_def io_read_def split: prod.splits)

declare read_length_loop.simps [simp del]

text \<open>The return code of \<open>send__disconnect\<close> is ignored; a failed \<open>assert\<close> or access in it is not.\<close>

definition read_length :: "'a io \<Rightarrow> unit res option \<times> 'a io" where
  "read_length w =
     (if p_remaining_count (in_packet w) > 0 then (None, w)
      else
        case read_length_loop w of
          (Some r, w) \<Rightarrow> (Some r, w)
        | (None, w) \<Rightarrow>
            let w = on_in (\<lambda>p. p\<lparr>p_remaining_count := p_remaining_count p * -1\<rparr>) w
            in if i_max_packet_size w > 0 \<and> p_remaining_length (in_packet w) + 1 > i_max_packet_size w
               then
                 (case (if c_protocol (i_ctx w) = mosq_p_mqtt5 then send__disconnect 149 [] w else (Inr (), w)) of
                    (Inr _, w) \<Rightarrow> (Some (rc_fail MOSQ_ERR_OVERSIZE_PACKET), w)
                  | (Inl (Rc _), w) \<Rightarrow> (Some (rc_fail MOSQ_ERR_OVERSIZE_PACKET), w)
                  | (Inl e, w) \<Rightarrow> (Some (Inl e), w))
               else if p_remaining_length (in_packet w) > 0
               then
                 (case malloc_ok (i_mem w) of
                    (False, mem) \<Rightarrow> (Some (rc_fail MOSQ_ERR_NOMEM), w\<lparr>i_mem := mem\<rparr>)
                  | (True, mem) \<Rightarrow>
                      (None, on_in (\<lambda>p. p\<lparr>p_payload := replicate (unat (p_remaining_length p)) 0,
                                            p_to_process := p_remaining_length p\<rparr>) (w\<lparr>i_mem := mem\<rparr>)))
               else (None, w))"

text \<open>\<open>read\<close> into the buffer at \<open>pos\<close>.\<close>

definition store_bytes :: "u8 list \<Rightarrow> mosquitto__packet \<Rightarrow> mosquitto__packet" where
  "store_bytes bs p =
     p\<lparr>p_payload := take (unat (p_pos p)) (p_payload p) @ bs @ drop (unat (p_pos p) + length bs) (p_payload p),
       p_to_process := p_to_process p - of_nat (length bs), p_pos := p_pos p + of_nat (length bs)\<rparr>"

lemma net__read_length: "net__read n evs = (Inr bs, evs') \<Longrightarrow> length bs \<le> n"
  by (induction n evs rule: net__read.induct) (auto split: if_splits)

lemma io_read_Inr: "io_read n w = (Inr bs, w') \<Longrightarrow> length bs \<le> n \<and> i_ctx w' = i_ctx w"
  by (auto simp: io_read_def dest: net__read_length split: prod.splits)

lemma unat_minus_of_nat: "n \<le> unat (x :: u32) \<Longrightarrow> unat (x - of_nat n) = unat x - n"
  using u32_less [of x] by (simp add: unat_sub_if' unat_of_nat take_bit_eq_mod del: u32_less)

lemma less_after_read: "Suc n \<le> unat (x :: u32) \<Longrightarrow> unat (x - (1 + of_nat n)) < unat x"
  using unat_minus_of_nat [of "Suc n" x] by simp

function read_payload :: "'a io \<Rightarrow> unit res option \<times> 'a io" where
  "read_payload w =
     (if p_to_process (in_packet w) = 0 then (None, w)
      else
        case io_read (unat (p_to_process (in_packet w))) w of
          (Inl e, w) \<Rightarrow>
            (Some (errno_rc e), if e = EAGAIN \<and> p_to_process (in_packet w) > 1000 then keepalive__update w else w)
        | (Inr [], w) \<Rightarrow> (Some (rc_fail MOSQ_ERR_ERRNO), w)
        | (Inr (b # bs), w) \<Rightarrow>
            if length (p_payload (in_packet w)) < unat (p_pos (in_packet w)) + Suc (length bs) then (Some (Inl Oob), w)
            else read_payload ((on_in (store_bytes (b # bs)) w)
                                 \<lparr>g_bytes_received := g_bytes_received w + int (Suc (length bs))\<rparr>))"
  by pat_completeness auto
termination
  by (relation "measure (\<lambda>w. unat (p_to_process (in_packet w)))")
    (auto simp: on_in_def on_ctx_def store_bytes_def dest!: sym [of _ "io_read _ _"] io_read_Inr intro!: less_after_read)

declare read_payload.simps [simp del]

definition msg_received :: "'a io \<Rightarrow> 'a io" where
  "msg_received w =
     (let w = (on_in (\<lambda>p. p\<lparr>p_pos := 0\<rparr>) w)\<lparr>g_msgs_received := g_msgs_received w + 1\<rparr>
      in if p_command (in_packet w) AND 0xF5 = 0x30 then w\<lparr>g_pub_msgs_received := g_pub_msgs_received w + 1\<rparr> else w)"

definition packet__read :: "('a io \<Rightarrow> unit res \<times> 'a io) \<Rightarrow> 'a io \<Rightarrow> unit res \<times> 'a io" where
  "packet__read handle w =
     (if \<not> c_sock (i_ctx w) then (rc_fail MOSQ_ERR_NO_CONN, w)
      else if c_state (i_ctx w) = mosq_cs_connect_pending then (Inr (), w)
      else
        case read_command w of
          (Some r, w) \<Rightarrow> (r, w)
        | (None, w) \<Rightarrow>
            (case read_length w of
               (Some r, w) \<Rightarrow> (r, w)
             | (None, w) \<Rightarrow>
                 (case read_payload w of
                    (Some r, w) \<Rightarrow> (r, w)
                  | (None, w) \<Rightarrow>
                      (case handle (msg_received w) of
                         (rc, w) \<Rightarrow> (rc, keepalive__update (on_in packet__cleanup w))))))"

end
