(* ===== verification/Packet_Write_Ok.thy ===== *)
theory Packet_Write_Ok
  imports Packet_IO
begin

text \<open>
  The queue of outgoing packets: the bytes that the socket took, followed by the bytes that still
  wait, are the packets in the order in which they were queued, whatever the socket does.
\<close>

section \<open>The bytes that wait\<close>

definition pend :: "mosquitto__packet \<Rightarrow> u8 list" where
  "pend p = drop (unat (p_pos p)) (p_payload p)"

definition out_wf :: "mosquitto__packet \<Rightarrow> bool" where
  "out_wf p \<longleftrightarrow> unat (p_pos p) + unat (p_to_process p) = length (p_payload p) \<and> length (p_payload p) < 4294967296"

definition out_queue :: "mosquitto_conn \<Rightarrow> mosquitto__packet list" where
  "out_queue ctx = (case c_current_out_packet ctx of None \<Rightarrow> [] | Some p \<Rightarrow> [p]) @ c_out_packet ctx"

definition unsent :: "mosquitto_conn \<Rightarrow> u8 list" where
  "unsent ctx = concat (map pend (out_queue ctx))"

text \<open>The bytes of the connection: those on the wire and those to come.\<close>

definition stream :: "'a io \<Rightarrow> u8 list" where
  "stream w = i_wire w @ unsent (i_ctx w)"

definition queue_ok :: "mosquitto_conn \<Rightarrow> bool" where
  "queue_ok ctx \<longleftrightarrow> (\<forall>p \<in> set (out_queue ctx). out_wf p) \<and> c_out_packet_count ctx = int (length (c_out_packet ctx))"

lemma length_pend: "out_wf p \<Longrightarrow> length (pend p) = unat (p_to_process p)"
  unfolding out_wf_def pend_def length_drop by linarith

lemma pend_Nil_iff: "out_wf p \<Longrightarrow> pend p = [] \<longleftrightarrow> p_to_process p = 0"
  using length_pend [of p] by (metis length_0_conv unsigned_eq_0_iff)

section \<open>One packet\<close>

text \<open>The packet after \<open>n\<close> bytes of it were taken.\<close>

definition took :: "nat \<Rightarrow> mosquitto__packet \<Rightarrow> mosquitto__packet" where
  "took n p = p\<lparr>p_to_process := p_to_process p - of_nat n, p_pos := p_pos p + of_nat n\<rparr>"

lemma took_step:
  assumes wf: "out_wf p" and n: "n \<le> unat (p_to_process p)"
  shows "out_wf (took n p)" "rd_bytes (p_payload p) (unat (p_pos p)) n = Inr (take n (pend p))"
    "pend (took n p) = drop n (pend p)" "unat (p_to_process (took n p)) = unat (p_to_process p) - n"
    "p_command (took n p) = p_command p"
proof -
  have l: "unat (p_pos p) + n \<le> length (p_payload p)" "length (p_payload p) < 4294967296"
    using wf n by (auto simp: out_wf_def)
  have pos: "unat (p_pos p + of_nat n) = unat (p_pos p) + n"
    using l by (simp add: unat_word_ariths unat_of_nat take_bit_eq_mod mod_simps)
  show "out_wf (took n p)" "unat (p_to_process (took n p)) = unat (p_to_process p) - n"
    using wf n by (simp_all add: out_wf_def took_def pos unat_minus_of_nat)
  show "rd_bytes (p_payload p) (unat (p_pos p)) n = Inr (take n (pend p))" using l by (simp add: rd_bytes_def pend_def)
  have "drop (unat (p_pos p + of_nat n)) (p_payload p) = drop n (drop (unat (p_pos p)) (p_payload p))"
    unfolding pos drop_drop by (rule arg_cong2 [where f = drop]) simp_all
  then show "pend (took n p) = drop n (pend p)" by (simp add: pend_def took_def)
qed (simp add: took_def)

lemma write_loop_Takes:
  assumes "out_wf p" "p_to_process p \<noteq> 0" "n = min (Suc k) (unat (p_to_process p))"
    "write_loop evs (took n p) = (r, p', bs, evs')"
  shows "write_loop (Takes k # evs) p = (r, p', take n (pend p) @ bs, evs')"
  using took_step [OF assms(1), of n] assms by (simp add: took_def)

text \<open>The socket takes something each time it is asked, and often enough.\<close>

definition willing :: "net_out list \<Rightarrow> nat \<Rightarrow> bool" where
  "willing evs n \<longleftrightarrow> (\<forall>ev \<in> set evs. \<exists>k. ev = Takes k) \<and> n \<le> length evs"

lemma write_loop_spec:
  "write_loop evs p = (r, p', bs, evs') \<Longrightarrow> out_wf p \<Longrightarrow>
   (out_wf p' \<and> bs @ pend p' = pend p \<and> p_command p' = p_command p \<and>
    (case r of None \<Rightarrow> pend p' = [] | Some rc \<Rightarrow> pend p' \<noteq> [] \<and> (\<exists>e. rc = errno_rc e))) \<and>
   (\<forall>m. willing evs (unat (p_to_process p) + m) \<longrightarrow> r = None \<and> willing evs' m)"
proof (induction evs arbitrary: p r p' bs evs')
  case Nil
  then show ?case by (auto simp: pend_Nil_iff willing_def unsigned_eq_0_iff split: if_splits)
next
  case (Cons ev evs)
  show ?case
  proof (cases "p_to_process p = 0 \<or> (\<exists>e. ev = Out_err e)")
    case True
    then show ?thesis
      using Cons.prems by (cases ev) (auto simp: pend_Nil_iff willing_def split: if_splits)
  next
    case False
    then obtain k where ev: "ev = Takes k" by (cases ev) auto
    define n where "n = min (Suc k) (unat (p_to_process p))"
    have n: "0 < n" "n \<le> unat (p_to_process p)" using False by (auto simp: n_def unsigned_eq_0_iff word_neq_0_conv unat_gt_0)
    note t = took_step [OF Cons.prems(2) n(2)]
    obtain r' q' bs' evs'' where wl: "write_loop evs (took n p) = (r', q', bs', evs'')" by (metis prod_cases4)
    have eq: "(r, p', bs, evs') = (r', q', take n (pend p) @ bs', evs'')"
      using write_loop_Takes [OF Cons.prems(2) _ n_def wl] Cons.prems(1) False ev by simp
    have "willing evs (unat (p_to_process (took n p)) + m)" if "willing (ev # evs) (unat (p_to_process p) + m)" for m
      using that n by (auto simp: willing_def t(4))
    with Cons.IH [OF wl t(1)] eq t show ?thesis by auto
  qed
qed

section \<open>The queue\<close>

lemma next_out_done:
  assumes "c_current_out_packet ctx = Some p" "pend p = []"
  shows "unsent (next_out ctx) = unsent ctx" "queue_ok ctx \<Longrightarrow> queue_ok (next_out ctx)"
    "c_out_packet (next_out ctx) \<noteq> [] \<longrightarrow> c_current_out_packet (next_out ctx) \<noteq> None"
  using assms by (auto simp: unsent_def queue_ok_def out_queue_def next_out_def split: list.split)

lemma unsent_time [simp]:
  "unsent (ctx\<lparr>c_next_msg_out := x\<rparr>) = unsent ctx" "queue_ok (ctx\<lparr>c_next_msg_out := x\<rparr>) = queue_ok ctx"
  by (simp_all add: unsent_def queue_ok_def out_queue_def)

text \<open>What writing leaves alone.\<close>

definition no_queue :: "mosquitto_conn \<Rightarrow> mosquitto_conn" where
  "no_queue ctx = ctx\<lparr>c_out_packet_count := 0, c_current_out_packet := None, c_out_packet := [], c_next_msg_out := 0\<rparr>"

lemma no_queue_simps [simp]:
  "no_queue (ctx\<lparr>c_current_out_packet := x\<rparr>) = no_queue ctx" "no_queue (ctx\<lparr>c_out_packet := y\<rparr>) = no_queue ctx"
  "no_queue (ctx\<lparr>c_out_packet_count := n\<rparr>) = no_queue ctx" "no_queue (ctx\<lparr>c_next_msg_out := t\<rparr>) = no_queue ctx"
  "no_queue (next_out ctx) = no_queue ctx"
  by (simp_all add: no_queue_def next_out_def split: list.split)

definition rest :: "'a io \<Rightarrow> 'a \<times> net_in list \<times> int \<times> mem \<times> mosquitto_conn" where
  "rest w = (i_app w, i_in w, i_now_s w, i_mem w, no_queue (i_ctx w))"

definition written :: "'a io \<Rightarrow> unit res \<Rightarrow> 'a io \<Rightarrow> bool" where
  "written w rc w' \<longleftrightarrow> queue_ok (i_ctx w') \<and> stream w' = stream w \<and> rest w' = rest w \<and>
     (\<exists>bs. i_wire w' = i_wire w @ bs \<and> g_bytes_sent w' = g_bytes_sent w + int (length bs)) \<and>
     (\<exists>e. rc = errno_rc e) \<and> (unsent (i_ctx w') = [] \<longrightarrow> rc = Inr ())"

lemma written_trans: "written w rc w' \<Longrightarrow> written w' rc' w'' \<Longrightarrow> written w rc' w''"
  by (auto simp: written_def)

lemma packet_write_loop_spec:
  assumes "queue_ok (i_ctx w)" "c_out_packet (i_ctx w) \<noteq> [] \<longrightarrow> c_current_out_packet (i_ctx w) \<noteq> None"
    "packet_write_loop w = (rc, w')"
  shows "written w rc w' \<and>
    (i_mux_out w' \<longleftrightarrow> c_current_out_packet (i_ctx w') \<noteq> None \<and> i_mux_out w) \<and>
    (willing (i_out w) (length (unsent (i_ctx w))) \<longrightarrow> unsent (i_ctx w') = [])"
  using assms
proof (induction w arbitrary: rc w' rule: packet_write_loop.induct)
  case (1 w)
  show ?case
  proof (cases "c_current_out_packet (i_ctx w)")
    case None
    have "errno_rc EAGAIN = Inr ()" by (simp add: errno_rc_def)
    then show ?thesis
      using 1(2-4) None by (force simp: packet_write_loop.simps [of w] written_def stream_def rest_def unsent_def out_queue_def)
  next
    case (Some p)
    obtain r p' bs evs where wl: "write_loop (i_out w) p = (r, p', bs, evs)" by (metis prod_cases4)
    define v where "v = on_ctx (\<lambda>ctx. ctx\<lparr>c_current_out_packet := Some p'\<rparr>)
                         (w\<lparr>i_out := evs, i_wire := i_wire w @ bs, g_bytes_sent := g_bytes_sent w + int (length bs)\<rparr>)"
    have sel: "i_ctx v = (i_ctx w)\<lparr>c_current_out_packet := Some p'\<rparr>" "i_wire v = i_wire w @ bs" "i_out v = evs"
      "g_bytes_sent v = g_bytes_sent w + int (length bs)" "i_mux_out v = i_mux_out w" "rest v = rest w"
      by (simp_all add: v_def on_ctx_def rest_def)
    have wf: "out_wf p" using 1(2) Some by (simp add: queue_ok_def out_queue_def)
    note s = write_loop_spec [OF wl wf]
    have uw: "unsent (i_ctx w) = pend p @ concat (map pend (c_out_packet (i_ctx w)))"
      by (simp add: unsent_def out_queue_def Some)
    have uv: "unsent (i_ctx v) = pend p' @ concat (map pend (c_out_packet (i_ctx w)))"
      by (simp add: unsent_def out_queue_def sel)
    have qv: "queue_ok (i_ctx v)" using 1(2) s Some by (auto simp: queue_ok_def out_queue_def sel)
    have st: "stream v = stream w"
    proof -
      have "bs @ pend p' = pend p" using s by simp
      then have "(i_wire w @ bs) @ pend p' @ xs = i_wire w @ pend p @ xs" for xs by (metis append.assoc)
      then show ?thesis unfolding stream_def uv uw unfolding sel(2) .
    qed
    have cur: "c_current_out_packet (i_ctx v) = Some p'" by (simp add: sel)
    show ?thesis
    proof (cases r)
      case (Some rc')
      then have "rc = rc'" "w' = v" using 1(4) \<open>c_current_out_packet (i_ctx w) = Some p\<close> wl
        by (simp_all add: packet_write_loop.simps [of w] v_def Let_def)
      moreover have "\<not> willing (i_out w) (length (unsent (i_ctx w)))"
        using s Some by (auto simp: uw length_pend [OF wf])
      moreover have "unsent (i_ctx v) \<noteq> []" using s Some uv by simp
      ultimately show ?thesis
        using s Some qv st cur sel by (auto simp: written_def)
    next
      case None
      define u where "u = on_ctx (\<lambda>ctx. ctx\<lparr>c_next_msg_out := i_now_s v + uint (c_keepalive ctx)\<rparr>)
                            (on_ctx next_out (msg_sent p' v))"
      have loop: "packet_write_loop u = (rc, w')"
        using 1(4) Some wl None by (simp add: packet_write_loop.simps [of w] v_def [symmetric] u_def Let_def)
      have "i_ctx (msg_sent p' v) = i_ctx v" "i_app (msg_sent p' v) = i_app v" "i_in (msg_sent p' v) = i_in v"
        "i_now_s (msg_sent p' v) = i_now_s v" "i_mem (msg_sent p' v) = i_mem v" "i_out (msg_sent p' v) = i_out v" "i_wire (msg_sent p' v) = i_wire v"
        "g_bytes_sent (msg_sent p' v) = g_bytes_sent v" "i_mux_out (msg_sent p' v) = i_mux_out v"
        by (simp_all add: msg_sent_def Let_def)
      note m = this
      have pd: "pend p' = []" using s None by simp
      note nx = next_out_done [OF cur pd]
      have u: "i_ctx u = (next_out (i_ctx v))\<lparr>c_next_msg_out := i_now_s v + uint (c_keepalive (next_out (i_ctx v)))\<rparr>"
        "i_app u = i_app v" "i_in u = i_in v" "i_now_s u = i_now_s v" "i_mem u = i_mem v" "i_out u = i_out v" "i_wire u = i_wire v"
        "g_bytes_sent u = g_bytes_sent v" "i_mux_out u = i_mux_out v"
        by (simp_all add: u_def on_ctx_def m)
      have wu: "written w rc u" if "rc = Inr ()" for rc
        using that s qv st sel u nx by (auto simp: written_def stream_def rest_def errno_rc_def intro!: exI [of _ EAGAIN])
      have "queue_ok (i_ctx u)" "c_out_packet (i_ctx u) \<noteq> [] \<longrightarrow> c_current_out_packet (i_ctx u) \<noteq> None"
        using qv u nx by simp_all
      from "1.IH" [OF Some wl [symmetric] refl refl v_def None, folded u_def, OF this loop]
      have ih: "written u rc w' \<and>
        (i_mux_out w' \<longleftrightarrow> c_current_out_packet (i_ctx w') \<noteq> None \<and> i_mux_out u) \<and>
        (willing (i_out u) (length (unsent (i_ctx u))) \<longrightarrow> unsent (i_ctx w') = [])" by simp
      have "willing (i_out u) (length (unsent (i_ctx u)))" if "willing (i_out w) (length (unsent (i_ctx w)))"
      proof -
        have "unsent (i_ctx u) = concat (map pend (c_out_packet (i_ctx w)))"
          unfolding u(1) unsent_time nx(1) uv pd by simp
        then show ?thesis using that s u(6) sel(3) by (simp add: uw length_pend [OF wf])
      qed
      with ih wu [OF refl] show ?thesis
        using sel u written_trans by (metis (no_types, lifting))
    qed
  qed
qed

section \<open>Writing and queueing\<close>

lemma packet_write_spec:
  assumes q: "queue_ok (i_ctx w)" and pw: "packet__write w = (rc, w')"
  shows "queue_ok (i_ctx w') \<and> stream w' = stream w \<and> rest w' = rest w \<and>
    (if \<not> c_sock (i_ctx w) then rc = rc_fail MOSQ_ERR_NO_CONN \<and> w' = w
     else (\<exists>e. rc = errno_rc e) \<and>
       (c_state (i_ctx w) \<noteq> mosq_cs_connect_pending \<longrightarrow>
         (i_mux_out w' \<longleftrightarrow> c_current_out_packet (i_ctx w') \<noteq> None) \<and>
         (willing (i_out w) (length (unsent (i_ctx w))) \<longrightarrow> rc = Inr () \<and> unsent (i_ctx w') = [])))"
proof (cases "c_sock (i_ctx w)")
  case False
  then show ?thesis using pw q by (simp add: packet__write_def)
next
  case sock: True
  define v where "v = (if c_out_packet (i_ctx w) \<noteq> [] \<and> c_current_out_packet (i_ctx w) = None
                       then on_ctx next_out w else w)"
  define u where "u = (if c_current_out_packet (i_ctx v) \<noteq> None then v\<lparr>i_mux_out := True\<rparr> else v)"
  have v: "queue_ok (i_ctx v)" "unsent (i_ctx v) = unsent (i_ctx w)" "rest v = rest w" "i_wire v = i_wire w"
    "i_out v = i_out w" "c_state (i_ctx v) = c_state (i_ctx w)"
    "c_out_packet (i_ctx v) \<noteq> [] \<longrightarrow> c_current_out_packet (i_ctx v) \<noteq> None"
    using q by (auto simp: v_def on_ctx_def next_out_def queue_ok_def unsent_def out_queue_def rest_def split: list.split)
  have u: "i_ctx u = i_ctx v" "rest u = rest v" "i_wire u = i_wire v" "i_out u = i_out v"
    "c_current_out_packet (i_ctx v) \<noteq> None \<Longrightarrow> i_mux_out u"
    by (simp_all add: u_def rest_def)
  have e: "packet__write w = (if c_state (i_ctx u) = mosq_cs_connect_pending then (Inr (), u) else packet_write_loop u)"
    unfolding packet__write_def v_def [symmetric] u_def [symmetric] Let_def using sock by simp
  show ?thesis
  proof (cases "c_state (i_ctx u) = mosq_cs_connect_pending")
    case True
    have "Inr () = errno_rc EAGAIN" by (simp add: errno_rc_def)
    then show ?thesis using e pw True v u sock by (auto simp: stream_def)
  next
    case False
    note s = packet_write_loop_spec [of u rc w'] 
    have "written u rc w'" "i_mux_out w' \<longleftrightarrow> c_current_out_packet (i_ctx w') \<noteq> None \<and> i_mux_out u"
      "willing (i_out u) (length (unsent (i_ctx u))) \<longrightarrow> unsent (i_ctx w') = []"
      using s v u e pw False by simp_all
    moreover have "c_current_out_packet (i_ctx w') \<noteq> None \<Longrightarrow> i_mux_out u"
      using v(7) u(5) e pw False
      by (cases "c_current_out_packet (i_ctx v)") (auto simp: packet_write_loop.simps [of u] u(1))
    ultimately show ?thesis
      using v u sock unfolding written_def stream_def by auto
  qed
qed

lemma packet_queue_spec:
  assumes q: "queue_ok (i_ctx w)" and l: "length (p_payload p) = unat (p_packet_length p)"
    and pq: "packet__queue p w = (rc, w')"
  shows "queue_ok (i_ctx w')" "stream w' = stream w @ p_payload p" "rest w' = rest w"
    "if c_sock (i_ctx w) then \<exists>e. rc = errno_rc e else rc = rc_fail MOSQ_ERR_NO_CONN"
proof -
  define p' where "p' = p\<lparr>p_pos := 0, p_to_process := p_packet_length p\<rparr>"
  define v where "v = on_ctx (\<lambda>ctx. ctx\<lparr>c_out_packet := c_out_packet ctx @ [p'],
                              c_out_packet_count := c_out_packet_count ctx + 1\<rparr>) w"
  have p': "out_wf p'" "pend p' = p_payload p" using l by (simp_all add: p'_def out_wf_def pend_def)
  have v: "queue_ok (i_ctx v)" "unsent (i_ctx v) = unsent (i_ctx w) @ p_payload p" "rest v = rest w"
    "i_wire v = i_wire w" "c_sock (i_ctx v) = c_sock (i_ctx w)"
    using q p' by (auto simp: v_def on_ctx_def queue_ok_def unsent_def out_queue_def rest_def split: option.split)
  have "packet__write v = (rc, w')" using pq by (simp add: packet__queue_def p'_def [symmetric] v_def)
  from packet_write_spec [OF v(1) this] v(2-)
  show "queue_ok (i_ctx w')" "stream w' = stream w @ p_payload p" "rest w' = rest w"
    "if c_sock (i_ctx w) then \<exists>e. rc = errno_rc e else rc = rc_fail MOSQ_ERR_NO_CONN"
    by (auto simp: stream_def split: if_splits)
qed

section \<open>Frames\<close>

text \<open>A packet as the standard has it: the command, the length of the rest, the rest.\<close>

definition mqtt_frame :: "u8 \<Rightarrow> u8 list \<Rightarrow> u8 list" where
  "mqtt_frame command body = command # venc (length body) @ body"

lemma alloc_bytes_venc: "unat r < 128 ^ n \<Longrightarrow> 0 < n \<Longrightarrow> alloc_bytes n r = venc (unat r)"
proof (induction n arbitrary: r)
  case (Suc n)
  have d: "unat (r div 128) = unat r div 128" by (simp add: unat_div)
  show ?case
  proof (cases "unat r < 128")
    case True
    then have "r div 128 = 0" by (simp add: word_unat_eq_iff d)
    then show ?thesis using True by (simp add: write_varint_byte(1) venc_small)
  next
    case False
    then have "r div 128 \<noteq> 0" by (simp add: word_unat_eq_iff d)
    moreover have "n \<noteq> 0" using Suc.prems False by (cases n) auto
    moreover have "unat (r div 128) < 128 ^ n" using Suc.prems d by (simp add: less_mult_imp_div_less)
    ultimately show ?thesis
      using Suc.IH [of "r div 128"] False by (simp add: venc_big d write_varint_byte(2) word_neq_0_conv Let_def)
  qed
qed simp

text \<open>The packet that \<open>packet__alloc\<close> leaves behind, ready for \<open>length body\<close> bytes.\<close>

lemma packet_alloc_frame:
  assumes n: "unat (p_remaining_length p) < 268435456" and a: "packet__alloc p mem = (rc, p', mem')"
  shows "rc \<in> {MOSQ_ERR_SUCCESS, MOSQ_ERR_NOMEM}" "rc = MOSQ_ERR_SUCCESS \<longleftrightarrow> fst (malloc_ok mem)"
    "mem' = snd (malloc_ok mem)"
    "rc = MOSQ_ERR_SUCCESS \<Longrightarrow> fits p' (unat (p_remaining_length p)) \<and>
       length (p_payload p') = unat (p_packet_length p') \<and>
       p_packet_length p' = p_remaining_length p + 1 + of_nat (packet__varint_bytes (p_remaining_length p)) \<and>
       (\<forall>body. length body = unat (p_remaining_length p) \<longrightarrow> p_payload (put p' body) = mqtt_frame (p_command p) body)"
proof -
  let ?n = "unat (p_remaining_length p)"
  let ?v = "venc ?n"
  have b: "alloc_bytes 5 (p_remaining_length p) = ?v" by (rule alloc_bytes_venc) (use n in simp_all)
  have l: "length ?v \<le> 4" "0 < length ?v" using n by (simp_all add: length_venc)
  define pl :: u32 where "pl = p_remaining_length p + 1 + of_nat (length ?v)"
  have pl: "unat pl = ?n + 1 + length ?v"
    using n l by (simp add: pl_def unat_word_ariths unat_of_nat take_bit_eq_mod mod_simps)
  define q where "q = p\<lparr>p_payload := take (unat pl) (p_command p # ?v) @ replicate (unat pl - (1 + length ?v)) 0,
     p_remaining_count := int (length ?v), p_packet_length := pl, p_pos := 1 + of_nat (length ?v)\<rparr>"
  have e: "packet__alloc p mem = (if fst (malloc_ok mem) then (MOSQ_ERR_SUCCESS, q, snd (malloc_ok mem))
      else (MOSQ_ERR_NOMEM, p\<lparr>p_payload := [], p_remaining_count := int (length ?v), p_packet_length := pl\<rparr>, snd (malloc_ok mem)))"
    using l by (simp add: packet__alloc_def b Let_def pl_def [symmetric] q_def split: prod.splits)
  show "rc \<in> {MOSQ_ERR_SUCCESS, MOSQ_ERR_NOMEM}" "rc = MOSQ_ERR_SUCCESS \<longleftrightarrow> fst (malloc_ok mem)" "mem' = snd (malloc_ok mem)"
    using a e by (auto split: if_splits)
  assume "rc = MOSQ_ERR_SUCCESS"
  then have q': "p' = q" using a e by (simp split: if_splits)
  have pos: "unat (p_pos q) = 1 + length ?v"
    using l by (simp add: q_def unat_word_ariths unat_of_nat take_bit_eq_mod mod_simps)
  have pay: "p_payload q = (p_command p # ?v) @ replicate ?n 0" using pl by (simp add: q_def)
  have fp: "p_packet_length q = pl" by (simp add: q_def)
  have "p_payload (put q body) = mqtt_frame (p_command p) body" if "length body = ?n" for body
    using that unfolding put_def by (simp add: pos pay mqtt_frame_def)
  then show "fits p' ?n \<and> length (p_payload p') = unat (p_packet_length p') \<and>
       p_packet_length p' = p_remaining_length p + 1 + of_nat (packet__varint_bytes (p_remaining_length p)) \<and>
       (\<forall>body. length body = ?n \<longrightarrow> p_payload (put p' body) = mqtt_frame (p_command p) body)"
    by (simp add: q' fits_def pos pay pl fp) (simp add: pl_def varint_bytes)
qed

text \<open>A \<open>fill\<close> that writes the announced number of bytes.\<close>

definition fills :: "(mosquitto__packet \<Rightarrow> mosquitto__packet res) \<Rightarrow> u8 list \<Rightarrow> bool" where
  "fills fill body \<longleftrightarrow> (\<forall>p. fits p (length body) \<longrightarrow> fill p = Inr (put p body))"

lemma send_packet_spec:
  assumes q: "queue_ok (i_ctx w)" and f: "fills fill body" "unat n = length body" "length body < 268435456"
    and sp: "send_packet command mid n fill w = (rc, w')"
  shows "queue_ok (i_ctx w') \<and> rest (w'\<lparr>i_mem := i_mem w\<rparr>) = rest w \<and>
    (rc = rc_fail MOSQ_ERR_NOMEM \<and> stream w' = stream w \<or> stream w' = stream w @ mqtt_frame command body \<and>
       (if c_sock (i_ctx w) then (\<exists>e. rc = errno_rc e) else rc = rc_fail MOSQ_ERR_NO_CONN)) \<and>
    (i_mem w = [] \<longrightarrow> rc \<noteq> rc_fail MOSQ_ERR_NOMEM \<and> i_mem w' = [])"
proof -
  have no: "errno_rc e \<noteq> rc_fail MOSQ_ERR_NOMEM" for e by (cases e) (simp_all add: errno_rc_def)
  obtain ok mem where m: "malloc_ok (i_mem w) = (ok, mem)" by (metis surj_pair)
  let ?p = "packet0\<lparr>p_mid := mid, p_command := command, p_remaining_length := n\<rparr>"
  obtain arc p mem' where a: "packet__alloc ?p mem = (arc, p, mem')" by (metis prod_cases3)
  have n: "unat (p_remaining_length ?p) < 268435456" using f by simp
  note al = packet_alloc_frame [OF n a]
  have r: "rest (w\<lparr>i_mem := x, i_mem := i_mem w\<rparr>) = rest w" for x by (simp add: rest_def)
  have s: "stream (w\<lparr>i_mem := x\<rparr>) = stream w" for x by (simp add: stream_def)
  show ?thesis
  proof (cases "ok \<and> arc = MOSQ_ERR_SUCCESS")
    case False
    then have "rc = rc_fail MOSQ_ERR_NOMEM" "w' = w\<lparr>i_mem := if ok then mem' else mem\<rparr>"
      using sp al(1) by (cases ok; auto simp: send_packet_def m a split: if_splits)+
    moreover have "i_mem w \<noteq> []" using False m al by (cases "i_mem w") auto
    ultimately show ?thesis using q s by (simp add: rest_def)
  next
    case True
    from al(4) True f have p: "fill p = Inr (put p body)" "p_payload (put p body) = mqtt_frame command body" "fits p (length body)"
      by (auto simp: fills_def)
    have "length (p_payload p) = unat (p_packet_length p)" using al(4) True by simp
    then have l: "length (p_payload (put p body)) = unat (p_packet_length (put p body))"
      using length_put [OF p(3)] by simp
    let ?w = "w\<lparr>i_mem := mem'\<rparr>"
    have pq: "packet__queue (put p body) ?w = (rc, w')" using sp True by (simp add: send_packet_def m a p(1))
    have "queue_ok (i_ctx ?w)" using q by simp
    note qs = packet_queue_spec [OF this l pq]
    have "rest (w'\<lparr>i_mem := i_mem w\<rparr>) = rest w" using qs(3) by (simp add: rest_def)
    moreover have "i_mem w' = mem'" using qs(3) by (simp add: rest_def)
    moreover have "mem' = []" if "i_mem w = []" using that m al(3) by auto
    ultimately show ?thesis using qs(1,2,4) p(2) s no by (auto split: if_splits)
  qed
qed

end
