(* ===== verification/Packet_Read_Ok.thy ===== *)
theory Packet_Read_Ok
  imports Packet_Write_Ok
begin

text \<open>
  Reading a packet: however the bytes of a frame arrive, the packet that reaches
  \<open>handle__packet\<close> is the same; and whatever arrives, a packet that reaches it is well-formed.
\<close>

section \<open>What has arrived\<close>

text \<open>The bytes \<open>bs\<close> have arrived, in some pieces, and nothing else has happened.\<close>

definition inflow :: "'a io \<Rightarrow> u8 list \<Rightarrow> bool" where
  "inflow w bs \<longleftrightarrow> (\<exists>segs. i_in w = map Bytes segs \<and> concat segs = bs)"

lemma net__read_Bytes:
  "concat segs = [] \<Longrightarrow> net__read n (map Bytes segs) = (Inl EAGAIN, [])"
  "concat segs \<noteq> [] \<Longrightarrow> 0 < n \<Longrightarrow> \<exists>cs segs'. net__read n (map Bytes segs) = (Inr cs, map Bytes segs') \<and>
     cs \<noteq> [] \<and> length cs \<le> n \<and> concat segs = cs @ concat segs'"
proof (induction segs)
  case (Cons s segs)
  { case 1 then show ?case using Cons.IH(1) by simp }
  { case 2
    show ?case
    proof (cases "s = []")
      case True
      then show ?thesis using Cons.IH(2) 2 by simp
    next
      case False
      have "net__read n (map Bytes (s # segs)) =
          (Inr (take n s), map Bytes (if drop n s = [] then segs else drop n s # segs))"
        using False by simp
      moreover have "concat (s # segs) = take n s @ concat (if drop n s = [] then segs else drop n s # segs)"
        by simp
      moreover have "take n s \<noteq> []" "length (take n s) \<le> n" using False 2(2) by simp_all
      ultimately show ?thesis by blast
    qed }
qed simp_all

text \<open>What reading changes beside the incoming packet.\<close>

definition base :: "'a io \<Rightarrow> 'a io" where
  "base w = w\<lparr>i_in := [], g_bytes_received := 0, g_msgs_received := 0, g_pub_msgs_received := 0,
     i_ctx := (i_ctx w)\<lparr>c_in_packet := packet0, c_last_msg_in := 0\<rparr>\<rparr>"

lemma base_simps [simp]:
  "base (w\<lparr>i_in := x\<rparr>) = base w" "base (w\<lparr>g_bytes_received := n\<rparr>) = base w"
  "base (w\<lparr>g_msgs_received := n\<rparr>) = base w" "base (w\<lparr>g_pub_msgs_received := n\<rparr>) = base w"
  "base (on_in f w) = base w" "base (keepalive__update w) = base w"
  by (simp_all add: base_def on_in_def on_ctx_def keepalive__update_def)

lemma on_in_simps [simp]:
  "in_packet (on_in f w) = f (in_packet w)" "i_in (on_in f w) = i_in w" "inflow (on_in f w) bs = inflow w bs"
  "inflow (w\<lparr>g_bytes_received := n\<rparr>) bs = inflow w bs" "inflow (keepalive__update w) bs = inflow w bs"
  "i_mem (on_in f w) = i_mem w" "in_packet (keepalive__update w) = in_packet w"
  by (simp_all add: on_in_def on_ctx_def inflow_def keepalive__update_def)

lemma io_read_nothing:
  "inflow w [] \<Longrightarrow> \<exists>w'. io_read n w = (Inl EAGAIN, w') \<and> inflow w' [] \<and> base w' = base w \<and> i_ctx w' = i_ctx w"
  by (auto simp: inflow_def io_read_def net__read_Bytes(1) intro!: exI [of _ "[]"])

lemma io_read_some:
  assumes "inflow w bs" "bs \<noteq> []" "0 < n"
  shows "\<exists>cs ds w'. io_read n w = (Inr cs, w') \<and> cs \<noteq> [] \<and> length cs \<le> n \<and> bs = cs @ ds \<and>
    inflow w' ds \<and> base w' = base w \<and> i_ctx w' = i_ctx w \<and> i_mem w' = i_mem w"
proof -
  obtain segs where s: "i_in w = map Bytes segs" "concat segs = bs" using assms(1) by (auto simp: inflow_def)
  obtain cs segs' where r: "net__read n (map Bytes segs) = (Inr cs, map Bytes segs')" "cs \<noteq> []" "length cs \<le> n"
    "bs = cs @ concat segs'"
    using net__read_Bytes(2) [of segs n] assms s by auto
  show ?thesis
    by (rule exI [of _ cs], rule exI [of _ "concat segs'"], rule exI [of _ "w\<lparr>i_in := map Bytes segs'\<rparr>"])
      (auto simp: io_read_def s r(1-3) r(4) [symmetric] inflow_def)
qed

lemma io_read_one:
  assumes "inflow w (b # bs)"
  shows "\<exists>w'. io_read (Suc 0) w = (Inr [b], w') \<and> inflow w' bs \<and> base w' = base w \<and> i_ctx w' = i_ctx w \<and> i_mem w' = i_mem w"
  using io_read_some [OF assms, of "Suc 0"] by (auto simp: length_Suc_conv le_Suc_eq)

section \<open>The remaining length\<close>

text \<open>
  \<open>m\<close> bytes of the length have been read, the value of those to come is \<open>n\<close>, the whole length is \<open>len\<close>.
\<close>

definition len_wait :: "u8 \<Rightarrow> nat \<Rightarrow> nat \<Rightarrow> nat \<Rightarrow> mosquitto__packet \<Rightarrow> bool" where
  "len_wait command len m n p \<longleftrightarrow>
     m + length (venc n) \<le> 4 \<and> p_command p = command \<and> p_remaining_count p = - int m \<and>
     p_remaining_length p + of_nat (n * 128 ^ m) = of_nat len \<and> p_remaining_mult p = of_nat (128 ^ m) \<and>
     p_to_process p = 0 \<and> p_pos p = 0 \<and> p_payload p = []"

definition len_done :: "u8 \<Rightarrow> nat \<Rightarrow> mosquitto__packet \<Rightarrow> bool" where
  "len_done command len p \<longleftrightarrow>
     p_command p = command \<and> - 4 \<le> p_remaining_count p \<and> p_remaining_count p < 0 \<and>
     p_remaining_length p = of_nat len \<and> p_to_process p = 0 \<and> p_pos p = 0 \<and> p_payload p = []"

lemma read_length_loop_spec:
  assumes "len_wait command len m n (in_packet w)" "inflow w bs"
  shows "(\<forall>todo. todo \<noteq> [] \<longrightarrow> venc n = bs @ todo \<longrightarrow>
      (\<exists>w' m' n'. read_length_loop w = (Some (Inr ()), w') \<and> base w' = base w \<and> i_mem w' = i_mem w \<and> inflow w' [] \<and>
         len_wait command len m' n' (in_packet w') \<and> todo = venc n')) \<and>
    (\<forall>todo. bs = venc n @ todo \<longrightarrow>
      (\<exists>w'. read_length_loop w = (None, w') \<and> base w' = base w \<and> i_mem w' = i_mem w \<and> inflow w' todo \<and>
         len_done command len (in_packet w')))"
  using assms
proof (induction n arbitrary: w m bs rule: venc.induct)
  case (1 n)
  show ?case
  proof (cases bs)
    case Nil
    then obtain w' where r: "io_read (Suc 0) w = (Inl EAGAIN, w')" "inflow w' []" "base w' = base w" "i_ctx w' = i_ctx w"
      using io_read_nothing [of w "Suc 0"] 1(3) by auto
    moreover have "i_mem w' = i_mem w" using r(1) by (auto simp: io_read_def split: prod.splits)
    moreover have "venc n \<noteq> []" by (simp add: venc.simps)
    ultimately show ?thesis
      using 1(2) Nil by (force simp: read_length_loop.simps [of w] errno_rc_def)
  next
    case (Cons b cs)
    obtain w1 where r: "io_read (Suc 0) w = (Inr [b], w1)" "inflow w1 cs" "base w1 = base w" "i_ctx w1 = i_ctx w" "i_mem w1 = i_mem w"
      using io_read_one [of w b cs] 1(3) Cons by auto
    define w2 where "w2 = on_in (\<lambda>p. p\<lparr>p_remaining_count := p_remaining_count p - 1\<rparr>) w1"
    define w3 where "w3 = (on_in (\<lambda>p. p\<lparr>p_remaining_length := p_remaining_length p + ucast (b AND 127) * p_remaining_mult p,
                                      p_remaining_mult := p_remaining_mult p * 128\<rparr>) w2)
                         \<lparr>g_bytes_received := g_bytes_received w2 + 1\<rparr>"
    have "length (venc n) \<ge> 1" by (simp add: venc.simps)
    then have c: "\<not> p_remaining_count (in_packet w2) < -4"
      using 1(2) r(4) by (simp add: w2_def len_wait_def)
    have step: "read_length_loop w = (if b AND 128 \<noteq> 0 then read_length_loop w3 else (None, w3))"
      unfolding read_length_loop.simps [of w] One_nat_def r(1) Let_def sum.case prod.case list.case
        w2_def [symmetric] w3_def [symmetric] if_not_P [OF c] ..
    have w3: "base w3 = base w" "i_mem w3 = i_mem w" "inflow w3 cs"
      using r by (simp_all add: w3_def w2_def)
    have p3: "in_packet w3 = (in_packet w)\<lparr>p_remaining_count := p_remaining_count (in_packet w) - 1,
        p_remaining_length := p_remaining_length (in_packet w) + ucast (b AND 127) * p_remaining_mult (in_packet w),
        p_remaining_mult := p_remaining_mult (in_packet w) * 128\<rparr>"
      by (simp add: w3_def w2_def r(4))
    show ?thesis
    proof (cases "n < 128")
      case True
      then have v: "venc n = [of_nat n]" by (rule venc_small)
      have "len_done command len (in_packet w3)" if "b = of_nat n"
        using 1(2) v venc_last [OF True] that by (simp add: len_done_def len_wait_def p3 mult.commute)
      then show ?thesis using v Cons w3 step venc_last [OF True] by auto
    next
      case False
      then have v: "venc n = of_nat (n mod 128 + 128) # venc (n div 128)" by (intro venc_big) simp
      show ?thesis
      proof (cases "b = of_nat (n mod 128 + 128)")
        case b: True
        have cont: "b AND 128 \<noteq> 0" "ucast (b AND 127) = (of_nat (n mod 128) :: u32)"
          using venc_cont [of n] unfolding b by simp_all
        have "n * 128 ^ m = (n mod 128 + 128 * (n div 128)) * 128 ^ m" by simp
        also have "\<dots> = n mod 128 * 128 ^ m + n div 128 * 128 ^ Suc m" unfolding distrib_right by simp
        finally have "(of_nat (n * 128 ^ m) :: u32) = of_nat (n mod 128 * 128 ^ m + n div 128 * 128 ^ Suc m)"
          by (rule arg_cong)
        then have "len_wait command len (Suc m) (n div 128) (in_packet w3)"
          using 1(2) v cont(2) by (simp add: len_wait_def p3 add.assoc mult.commute)
        from 1(1) [OF False this w3(3)] show ?thesis
          using v Cons b cont step w3 by simp
      next
        case False
        then show ?thesis using v Cons by auto
      qed
    qed
  qed
qed

section \<open>The payload\<close>

definition body_wait :: "u8 \<Rightarrow> u8 list \<Rightarrow> u8 list \<Rightarrow> mosquitto__packet \<Rightarrow> bool" where
  "body_wait command body todo p \<longleftrightarrow>
     p_command p = command \<and> 0 < p_remaining_count p \<and> p_remaining_length p = of_nat (length body) \<and>
     length (p_payload p) = length body \<and> length body < 268435456 \<and>
     (\<exists>got. body = got @ todo \<and> take (length got) (p_payload p) = got \<and>
        unat (p_pos p) = length got \<and> unat (p_to_process p) = length todo)"

lemma body_wait_store:
  assumes "body_wait command body (bs @ todo) p"
  shows "body_wait command body todo (store_bytes bs p)"
    "unat (p_pos p) + length bs \<le> length (p_payload p)"
proof -
  obtain got where g: "body = got @ bs @ todo" "take (length got) (p_payload p) = got"
    "unat (p_pos p) = length got" "unat (p_to_process p) = length bs + length todo"
    using assms by (auto simp: body_wait_def)
  have l: "length (p_payload p) = length body" "length body < 268435456" using assms by (simp_all add: body_wait_def)
  show "unat (p_pos p) + length bs \<le> length (p_payload p)" using g l by simp
  have u: "unat (p_pos p + of_nat (length bs)) = length got + length bs"
    using g l by (simp add: unat_word_ariths unat_of_nat take_bit_eq_mod mod_simps)
  have v: "unat (p_to_process p - of_nat (length bs)) = length todo"
    using unat_minus_of_nat [of "length bs" "p_to_process p"] g(4) by simp
  have t: "take (length got + length bs) (got @ bs @ xs) = got @ bs" for xs by simp
  show "body_wait command body todo (store_bytes bs p)"
    using assms unfolding body_wait_def
    by (auto simp: store_bytes_def u v t g l intro!: exI [of _ "got @ bs"])
qed

lemma body_wait_empty: "body_wait command body todo p \<Longrightarrow> p_to_process p = 0 \<longleftrightarrow> todo = []"
  by (auto simp: body_wait_def unat_eq_0)

lemma read_payload_spec:
  assumes "body_wait command body (pre @ todo) (in_packet w)" "inflow w bs" "bs = pre @ post" "todo = [] \<or> post = []"
  shows "\<exists>w'. read_payload w = (if todo = [] then None else Some (Inr ()), w') \<and> base w' = base w \<and> i_mem w' = i_mem w \<and>
    inflow w' post \<and> body_wait command body todo (in_packet w')"
  using assms
proof (induction "length pre" arbitrary: pre w bs rule: less_induct)
  case less
  let ?p = "in_packet w"
  show ?case
  proof (cases "p_to_process ?p = 0")
    case True
    then have "pre = []" "todo = []" using body_wait_empty [OF less(2)] by simp_all
    then show ?thesis using less True by (auto simp: read_payload.simps [of w])
  next
    case False
    then have ne: "pre @ todo \<noteq> []" using body_wait_empty [OF less(2)] by simp
    show ?thesis
    proof (cases "bs = []")
      case True
      then obtain w' where r: "io_read (unat (p_to_process ?p)) w = (Inl EAGAIN, w')" "inflow w' []" "base w' = base w" "i_ctx w' = i_ctx w"
        using io_read_nothing [of w "unat (p_to_process ?p)"] less(3) by auto
      moreover have "i_mem w' = i_mem w" using r(1) by (auto simp: io_read_def split: prod.splits)
      moreover have "i_mem (keepalive__update w') = i_mem w'" by (simp add: keepalive__update_def on_ctx_def)
      ultimately show ?thesis
        using less(2,4) True ne False by (auto simp: read_payload.simps [of w] errno_rc_def)
    next
      case bs: False
      have "0 < unat (p_to_process ?p)" using False by (simp add: unat_gt_0)
      from io_read_some [OF less(3) bs this] obtain cs ds w1 where
        r: "io_read (unat (p_to_process ?p)) w = (Inr cs, w1)" "cs \<noteq> []" "length cs \<le> unat (p_to_process ?p)"
          "bs = cs @ ds" "inflow w1 ds" "base w1 = base w" "i_ctx w1 = i_ctx w" "i_mem w1 = i_mem w" by blast
      have tp: "unat (p_to_process ?p) = length (pre @ todo)" using less(2) by (auto simp: body_wait_def)
      have "\<exists>pre'. pre = cs @ pre' \<and> ds = pre' @ post"
        using less(4,5) r(3,4) tp by (cases "todo = []") (auto simp: append_eq_append_conv2)
      then obtain pre' where pre: "pre = cs @ pre'" "ds = pre' @ post" by blast
      obtain b cs' where cs: "cs = b # cs'" using r(2) by (cases cs) auto
      define w2 where "w2 = (on_in (store_bytes (b # cs')) w1)\<lparr>g_bytes_received := g_bytes_received w1 + int (Suc (length cs'))\<rparr>"
      have bw: "body_wait command body (cs @ pre' @ todo) (in_packet w1)" using less(2) pre by (simp add: r(7))
      note st = body_wait_store [OF bw]
      have "\<not> length (p_payload (in_packet w1)) < unat (p_pos (in_packet w1)) + Suc (length cs')" using st(2) cs by simp
      then have step: "read_payload w = read_payload w2"
        unfolding read_payload.simps [of w] if_not_P [OF False] r(1) cs sum.case prod.case list.case w2_def
        by (rule if_not_P)
      have w2: "base w2 = base w" "i_mem w2 = i_mem w" "inflow w2 ds" "body_wait command body (pre' @ todo) (in_packet w2)"
        using r st(1) cs by (simp_all add: w2_def)
      have "length pre' < length pre" using pre cs by simp
      from less(1) [OF this w2(4,3) pre(2) less(5)] show ?thesis using step w2 by auto
    qed
  qed
qed

section \<open>A packet in pieces\<close>

text \<open>The packet that waits for the bytes \<open>todo\<close> of a frame.\<close>

definition fresh_packet :: "mosquitto__packet \<Rightarrow> bool" where
  "fresh_packet p \<longleftrightarrow> p_command p = 0 \<and> p_remaining_count p = 0 \<and> p_remaining_mult p = 1 \<and>
     p_remaining_length p = 0 \<and> p_to_process p = 0 \<and> p_pos p = 0 \<and> p_payload p = []"

definition awaits :: "u8 \<Rightarrow> u8 list \<Rightarrow> u8 list \<Rightarrow> mosquitto__packet \<Rightarrow> bool" where
  "awaits command body todo p \<longleftrightarrow>
     fresh_packet p \<and> todo = mqtt_frame command body \<or>
     (\<exists>m n. len_wait command (length body) m n p \<and> todo = venc n @ body) \<or>
     body_wait command body todo p"

text \<open>The broker accepts packets of this size, and of this kind as the first one.\<close>

definition admits :: "'a io \<Rightarrow> u8 \<Rightarrow> nat \<Rightarrow> bool" where
  "admits w command len \<longleftrightarrow>
     c_sock (i_ctx w) \<and> c_state (i_ctx w) \<noteq> mosq_cs_connect_pending \<and>
     (c_bridge (i_ctx w) \<noteq> None \<or> c_state (i_ctx w) \<noteq> mosq_cs_connected \<or> command AND 0xF0 = 0x10) \<and>
     (i_max_packet_size w = 0 \<or> len + 1 \<le> unat (i_max_packet_size w)) \<and> i_mem w = []"

lemma admits_base: "base w' = base w \<Longrightarrow> admits w' command len = admits w command len"
proof -
  assume b: "base w' = base w"
  have "c_sock (i_ctx (base w)) = c_sock (i_ctx w)" "c_state (i_ctx (base w)) = c_state (i_ctx w)"
    "c_bridge (i_ctx (base w)) = c_bridge (i_ctx w)" "i_max_packet_size (base w) = i_max_packet_size w"
    "i_mem (base w) = i_mem w" for w :: "'a io"
    by (simp_all add: base_def)
  from this [of w] this [of w'] b show ?thesis by (simp add: admits_def)
qed

lemma read_command_skip: "p_command (in_packet w) \<noteq> 0 \<Longrightarrow> read_command w = (None, w)"
  by (simp add: read_command_def)

lemma read_command_wait:
  assumes "fresh_packet (in_packet w)" "inflow w []"
  shows "\<exists>w'. read_command w = (Some (Inr ()), w') \<and> base w' = base w \<and> inflow w' [] \<and> in_packet w' = in_packet w"
  using io_read_nothing [OF assms(2), of "Suc 0"] assms(1)
  by (auto simp: read_command_def fresh_packet_def errno_rc_def)

lemma read_command_byte:
  assumes "fresh_packet (in_packet w)" "inflow w (command # bs)" "admits w command len" "len < 268435456"
  shows "\<exists>w'. read_command w = (None, w') \<and> base w' = base w \<and> inflow w' bs \<and> len_wait command len 0 len (in_packet w')"
proof -
  obtain w1 where r: "io_read (Suc 0) w = (Inr [command], w1)" "inflow w1 bs" "base w1 = base w" "i_ctx w1 = i_ctx w"
    using io_read_one [OF assms(2)] by blast
  define w2 where "w2 = (on_in (\<lambda>p. p\<lparr>p_command := command\<rparr>) w1)\<lparr>g_bytes_received := g_bytes_received w1 + 1\<rparr>"
  have w2: "base w2 = base w" "inflow w2 bs" "in_packet w2 = (in_packet w)\<lparr>p_command := command\<rparr>"
    using r by (simp_all add: w2_def)
  have c: "p_command (in_packet w) = 0" using assms(1) by (simp add: fresh_packet_def)
  have n: "\<not> (c_bridge (i_ctx w2) = None \<and> c_state (i_ctx w2) = mosq_cs_connected \<and> command AND 0xF0 \<noteq> 0x10)"
    using assms(3) r(4) by (auto simp: admits_def w2_def on_in_def on_ctx_def)
  have "read_command w = (None, w2)"
    unfolding read_command_def c One_nat_def r(1) sum.case prod.case list.case Let_def w2_def [symmetric] if_not_P [OF n]
    by simp
  moreover have "length (venc len) \<le> 4" using assms(4) by (simp add: length_venc)
  ultimately show ?thesis using assms(1) w2 by (auto simp: len_wait_def fresh_packet_def)
qed

lemma read_length_skip: "body_wait command body todo (in_packet w) \<Longrightarrow> read_length w = (None, w)"
  by (simp add: read_length_def body_wait_def)

lemma read_length_wait:
  assumes "len_wait command len m n (in_packet w)" "inflow w bs" "venc n = bs @ todo" "todo \<noteq> []"
  shows "\<exists>w' m' n'. read_length w = (Some (Inr ()), w') \<and> base w' = base w \<and> inflow w' [] \<and>
    len_wait command len m' n' (in_packet w') \<and> todo = venc n'"
proof -
  have "\<not> 0 < p_remaining_count (in_packet w)" using assms(1) by (simp add: len_wait_def)
  then show ?thesis
    using read_length_loop_spec [OF assms(1,2)] assms(3,4) unfolding read_length_def by fastforce
qed

lemma read_length_done:
  assumes "len_wait command (length body) m n (in_packet w)" "inflow w (venc n @ bs)" "admits w command (length body)"
    "length body < 268435456"
  shows "\<exists>w'. read_length w = (None, w') \<and> base w' = base w \<and> inflow w' bs \<and> body_wait command body body (in_packet w')"
proof -
  have c: "\<not> 0 < p_remaining_count (in_packet w)" using assms(1) by (simp add: len_wait_def)
  obtain w1 where r: "read_length_loop w = (None, w1)" "base w1 = base w" "i_mem w1 = i_mem w" "inflow w1 bs"
      "len_done command (length body) (in_packet w1)"
    using read_length_loop_spec [OF assms(1,2)] by blast
  define w2 where "w2 = on_in (\<lambda>p. p\<lparr>p_remaining_count := p_remaining_count p * -1\<rparr>) w1"
  have p2: "in_packet w2 = (in_packet w1)\<lparr>p_remaining_count := p_remaining_count (in_packet w1) * -1\<rparr>"
    by (simp add: w2_def)
  have w2: "base w2 = base w" "i_mem w2 = []" "inflow w2 bs"
    using r assms(3) by (simp_all add: w2_def admits_def)
  have rl: "p_remaining_length (in_packet w2) = of_nat (length body)" using r(5) by (simp add: p2 len_done_def)
  have u: "unat (of_nat (length body) + 1 :: u32) = length body + 1"
    using assms(4) by (simp add: unat_word_ariths unat_of_nat take_bit_eq_mod mod_simps)
  have ad: "admits w2 command (length body)" using admits_base [OF w2(1)] assms(3) by simp
  have sz: "\<not> (i_max_packet_size w2 > 0 \<and> p_remaining_length (in_packet w2) + 1 > i_max_packet_size w2)"
    using ad unfolding rl by (auto simp: admits_def word_less_nat_alt u)
  have z: "(of_nat (length body) :: u32) > 0 \<longleftrightarrow> body \<noteq> []"
    using assms(4) by (simp add: word_less_nat_alt unat_of_nat take_bit_eq_mod)
  define w3 where "w3 = (if body \<noteq> [] then on_in (\<lambda>p. p\<lparr>p_payload := replicate (unat (p_remaining_length p)) 0,
      p_to_process := p_remaining_length p\<rparr>) (w2\<lparr>i_mem := []\<rparr>) else w2)"
  have m: "w2\<lparr>i_mem := []\<rparr> = w2" using w2(2) by (cases w2) simp
  have w3: "base w3 = base w" "inflow w3 bs" using w2 unfolding w3_def m by simp_all
  have "read_length w = (None, w3)"
    unfolding read_length_def if_not_P [OF c] r(1) prod.case option.case Let_def w2_def [symmetric] if_not_P [OF sz]
    unfolding rl z w2(2) malloc_ok.simps prod.case bool.case m w3_def by (rule if_distrib [symmetric])
  moreover have "body_wait command body body (in_packet w3)"
    using r(5) assms(4) unfolding w3_def m
    by (auto simp: body_wait_def len_done_def p2 unat_of_nat take_bit_eq_mod intro!: exI [of _ "[]"])
  ultimately show ?thesis using w3 by blast
qed

lemma packet_read_parts:
  assumes "c_sock (i_ctx w)" "c_state (i_ctx w) \<noteq> mosq_cs_connect_pending"
  shows "packet__read handle w =
     (case read_command w of (Some r, w) \<Rightarrow> (r, w) | (None, w) \<Rightarrow>
       (case read_length w of (Some r, w) \<Rightarrow> (r, w) | (None, w) \<Rightarrow>
         (case read_payload w of (Some r, w) \<Rightarrow> (r, w) | (None, w) \<Rightarrow>
           (case handle (msg_received w) of
             (rc, w) \<Rightarrow> (rc, keepalive__update (on_in packet__cleanup w))))))"
  using assms by (simp add: packet__read_def)

lemma venc_ne: "venc n \<noteq> []"
  by (simp add: venc.simps)

text \<open>The bytes that have arrived do not complete the frame.\<close>

lemma packet_read_part:
  assumes "awaits command body (bs @ todo) (in_packet w)" "todo \<noteq> []" "inflow w bs" "admits w command (length body)"
    "command \<noteq> 0" "length body < 268435456"
  shows "\<exists>w'. packet__read handle w = (Inr (), w') \<and> awaits command body todo (in_packet w') \<and> inflow w' [] \<and> base w' = base w"
proof -
  note parts = packet_read_parts [of w handle]
  have sock: "c_sock (i_ctx w)" "c_state (i_ctx w) \<noteq> mosq_cs_connect_pending" using assms(4) by (simp_all add: admits_def)
  have body: "\<exists>w'. packet__read handle w = (Inr (), w') \<and> awaits command body todo (in_packet w') \<and> inflow w' [] \<and> base w' = base w"
    if "read_command w = (None, w1)" "read_length w1 = (None, w2)" "base w2 = base w" "inflow w2 cs"
      "body_wait command body (cs @ todo) (in_packet w2)" for w1 w2 cs
    using read_payload_spec [OF that(5,4), of "[]"] that(1-3) assms(2) parts [OF sock] by (auto simp: awaits_def)
  have len: "\<exists>w'. packet__read handle w = (Inr (), w') \<and> awaits command body todo (in_packet w') \<and> inflow w' [] \<and> base w' = base w"
    if c: "read_command w = (None, w1)" "base w1 = base w" "inflow w1 cs" and l: "len_wait command (length body) m n (in_packet w1)"
      and v: "venc n @ body = cs @ todo" for w1 cs m n
  proof (cases "length (venc n) \<le> length cs")
    case True
    then obtain ds where ds: "cs = venc n @ ds" "body = ds @ todo"
      using v by (auto simp: append_eq_append_conv2)
    have "admits w1 command (length body)" using admits_base [OF c(2)] assms(4) by simp
    from read_length_done [OF l _ this assms(6), of ds] c ds obtain w2 where
      "read_length w1 = (None, w2)" "base w2 = base w" "inflow w2 ds" "body_wait command body body (in_packet w2)" by auto
    with body [OF c(1), of w2 ds] ds show ?thesis by simp
  next
    case False
    then obtain ds where ds: "venc n = cs @ ds" "todo = ds @ body" "ds \<noteq> []"
      using v by (auto simp: append_eq_append_conv2)
    from read_length_wait [OF l c(3) ds(1,3)] obtain w2 m' n' where
      "read_length w1 = (Some (Inr ()), w2)" "base w2 = base w1" "inflow w2 []" "len_wait command (length body) m' n' (in_packet w2)"
      "ds = venc n'" by blast
    then show ?thesis using c ds parts [OF sock] by (auto simp: awaits_def)
  qed
  consider "fresh_packet (in_packet w)" "bs @ todo = mqtt_frame command body"
    | m n where "len_wait command (length body) m n (in_packet w)" "bs @ todo = venc n @ body"
    | "body_wait command body (bs @ todo) (in_packet w)"
    using assms(1) by (auto simp: awaits_def)
  then show ?thesis
  proof cases
    case 1
    show ?thesis
    proof (cases bs)
      case Nil
      then show ?thesis
        using read_command_wait [OF 1(1)] assms(3) 1 parts [OF sock] by (auto simp: awaits_def)
    next
      case (Cons b cs)
      then have b: "b = command" "cs @ todo = venc (length body) @ body" using 1(2) by (simp_all add: mqtt_frame_def)
      from read_command_byte [OF 1(1) _ assms(4,6), of cs] assms(3) Cons b obtain w1 where
        "read_command w = (None, w1)" "base w1 = base w" "inflow w1 cs" "len_wait command (length body) 0 (length body) (in_packet w1)"
        by auto
      from len [OF this b(2) [symmetric]] show ?thesis .
    qed
  next
    case 2
    then have "read_command w = (None, w)" using assms(5) by (intro read_command_skip) (simp add: len_wait_def)
    from len [OF this refl assms(3) 2(1) 2(2) [symmetric]] show ?thesis .
  next
    case 3
    then have "read_command w = (None, w)" using assms(5) by (intro read_command_skip) (simp add: body_wait_def)
    from body [OF this read_length_skip [OF 3] refl assms(3) 3] show ?thesis .
  qed
qed

text \<open>The rest of the frame is there: the packet is handled and the next bytes are left alone.\<close>

definition complete :: "u8 \<Rightarrow> u8 list \<Rightarrow> mosquitto__packet \<Rightarrow> bool" where
  "complete command body p \<longleftrightarrow>
     p_command p = command \<and> p_payload p = body \<and> p_remaining_length p = of_nat (length body) \<and> p_pos p = 0"

lemma msg_received_simps [simp]:
  "base (msg_received w) = base w" "inflow (msg_received w) bs = inflow w bs"
  "in_packet (msg_received w) = (in_packet w)\<lparr>p_pos := 0\<rparr>"
  by (simp_all add: msg_received_def Let_def inflow_def)

lemma packet_read_whole:
  assumes "awaits command body todo (in_packet w)" "inflow w (todo @ post)" "admits w command (length body)"
    "command \<noteq> 0" "length body < 268435456"
  shows "\<exists>w1. packet__read handle w =
      (case handle w1 of (rc, w2) \<Rightarrow> (rc, keepalive__update (on_in packet__cleanup w2))) \<and>
    complete command body (in_packet w1) \<and> inflow w1 post \<and> base w1 = base w"
    (is ?goal)
proof -
  note parts = packet_read_parts [of w handle]
  have sock: "c_sock (i_ctx w)" "c_state (i_ctx w) \<noteq> mosq_cs_connect_pending" using assms(3) by (simp_all add: admits_def)
  have body: ?goal
    if c: "read_command w = (None, w1)" "read_length w1 = (None, w2)" "base w2 = base w" "inflow w2 (cs @ post)"
      "body_wait command body cs (in_packet w2)" for w1 w2 cs
  proof -
    have "body_wait command body (cs @ []) (in_packet w2)" using c(5) by simp
    from read_payload_spec [OF this c(4) refl] obtain w3 where
      w3: "read_payload w2 = (None, w3)" "base w3 = base w2" "inflow w3 post" "body_wait command body [] (in_packet w3)" by auto
    have "complete command body (in_packet (msg_received w3))"
      using w3(4) by (auto simp: complete_def body_wait_def)
    then show ?thesis
      using c(1-3) w3 parts [OF sock] by (intro exI [of _ "msg_received w3"]) simp
  qed
  have len: ?goal
    if c: "read_command w = (None, w1)" "base w1 = base w" "inflow w1 (venc n @ body @ post)"
      and l: "len_wait command (length body) m n (in_packet w1)" for w1 m n
  proof -
    have "admits w1 command (length body)" using admits_base [OF c(2)] assms(3) by simp
    from read_length_done [OF l c(3) this assms(5)] obtain w2 where
      "read_length w1 = (None, w2)" "base w2 = base w1" "inflow w2 (body @ post)" "body_wait command body body (in_packet w2)" by auto
    with body [OF c(1), of w2 body] c(2) show ?thesis by simp
  qed
  consider "fresh_packet (in_packet w)" "todo = mqtt_frame command body"
    | m n where "len_wait command (length body) m n (in_packet w)" "todo = venc n @ body"
    | "body_wait command body todo (in_packet w)"
    using assms(1) by (auto simp: awaits_def)
  then show ?thesis
  proof cases
    case 1
    then have "inflow w (command # venc (length body) @ body @ post)" using assms(2) by (simp add: mqtt_frame_def)
    from read_command_byte [OF 1(1) this assms(3,5)] len show ?thesis by blast
  next
    case 2
    then have "read_command w = (None, w)" using assms(4) by (intro read_command_skip) (simp add: len_wait_def)
    from len [OF this refl _ 2(1)] assms(2) 2(2) show ?thesis by simp
  next
    case 3
    then have "read_command w = (None, w)" using assms(4) by (intro read_command_skip) (simp add: body_wait_def)
    from body [OF this read_length_skip [OF 3] refl assms(2) 3] show ?thesis by simp
  qed
qed

section \<open>A connection\<close>

text \<open>
  Bytes of \<open>future\<close> arrive, and \<open>packet__read\<close> is called, in any order. The packets that were
  handled are collected in \<open>i_app\<close>.
\<close>

type_synonym packets = "(u8 \<times> u8 list) list"

definition collect :: "packets io \<Rightarrow> unit res \<times> packets io" where
  "collect w = (Inr (), w\<lparr>i_app := i_app w @ [(p_command (in_packet w), p_payload (in_packet w))]\<rparr>)"

definition frames :: "packets \<Rightarrow> u8 list" where
  "frames ps = concat (map (\<lambda>(command, body). mqtt_frame command body) ps)"

inductive delivery :: "packets io \<Rightarrow> u8 list \<Rightarrow> packets io \<Rightarrow> u8 list \<Rightarrow> bool" where
  start: "delivery w future w future"
| arrive: "delivery w future w1 (bs @ future1) \<Longrightarrow> delivery w future (w1\<lparr>i_in := i_in w1 @ [Bytes bs]\<rparr>) future1"
| read: "delivery w future w1 future1 \<Longrightarrow> packet__read collect w1 = (rc, w2) \<Longrightarrow> delivery w future w2 future1"

definition deliverable :: "packets io \<Rightarrow> packets \<Rightarrow> bool" where
  "deliverable w ps \<longleftrightarrow>
     (\<forall>(command, body) \<in> set ps. command \<noteq> 0 \<and> length body < 268435456 \<and> admits w command (length body))"

definition in_transit :: "packets io \<Rightarrow> packets \<Rightarrow> packets io \<Rightarrow> u8 list \<Rightarrow> bool" where
  "in_transit w ps w1 future \<longleftrightarrow>
     (\<exists>ds rs buf. ps = ds @ rs \<and> i_app w1 = i_app w @ ds \<and> inflow w1 buf \<and> base (w1\<lparr>i_app := []\<rparr>) = base (w\<lparr>i_app := []\<rparr>) \<and>
        (case rs of [] \<Rightarrow> fresh_packet (in_packet w1) \<and> buf = [] \<and> future = []
         | (command, body) # rs' \<Rightarrow> \<exists>todo. awaits command body todo (in_packet w1) \<and> todo \<noteq> [] \<and> buf @ future = todo @ frames rs'))"

lemma delivery_in_transit:
  assumes "delivery w future w1 future1" "fresh_packet (in_packet w)" "inflow w []" "future = frames ps" "deliverable w ps"
  shows "in_transit w ps w1 future1"
  using assms
proof (induction rule: delivery.induct)
  case (start w future)
  have "case ps of [] \<Rightarrow> fresh_packet (in_packet w) \<and> future = []
         | (command, body) # rs' \<Rightarrow> \<exists>todo. awaits command body todo (in_packet w) \<and> todo \<noteq> [] \<and> future = todo @ frames rs'"
    using start by (auto simp: awaits_def frames_def mqtt_frame_def split: list.split)
  with start show ?case
    unfolding in_transit_def
    by (intro exI [where x = "[] :: packets"] exI [where x = ps] exI [where x = "[] :: u8 list"])
      (auto split: list.splits)
next
  case (arrive w future w1 bs future1)
  then obtain ds rs buf where d: "ps = ds @ rs" "i_app w1 = i_app w @ ds" "inflow w1 buf"
    "base (w1\<lparr>i_app := []\<rparr>) = base (w\<lparr>i_app := []\<rparr>)"
    "case rs of [] \<Rightarrow> fresh_packet (in_packet w1) \<and> buf = [] \<and> bs @ future1 = []
         | (command, body) # rs' \<Rightarrow> \<exists>todo. awaits command body todo (in_packet w1) \<and> todo \<noteq> [] \<and> buf @ bs @ future1 = todo @ frames rs'"
    unfolding in_transit_def by blast
  let ?w = "w1\<lparr>i_in := i_in w1 @ [Bytes bs]\<rparr>"
  obtain segs where "i_in w1 = map Bytes segs" "concat segs = buf" using d(3) by (auto simp: inflow_def)
  then have "inflow ?w (buf @ bs)" by (auto simp: inflow_def intro!: exI [of _ "segs @ [bs]"])
  moreover have "base (?w\<lparr>i_app := []\<rparr>) = base (w\<lparr>i_app := []\<rparr>)" using d(4) by (simp add: base_def)
  ultimately show ?case
    using d unfolding in_transit_def
    by (intro exI [of _ ds] exI [of _ rs] exI [of _ "buf @ bs"]) (auto split: list.splits)
next
  case (read w future w1 future1 rc w2)
  then obtain ds rs buf where d: "ps = ds @ rs" "i_app w1 = i_app w @ ds" "inflow w1 buf"
    "base (w1\<lparr>i_app := []\<rparr>) = base (w\<lparr>i_app := []\<rparr>)"
    "case rs of [] \<Rightarrow> fresh_packet (in_packet w1) \<and> buf = [] \<and> future1 = []
         | (command, body) # rs' \<Rightarrow> \<exists>todo. awaits command body todo (in_packet w1) \<and> todo \<noteq> [] \<and> buf @ future1 = todo @ frames rs'"
    unfolding in_transit_def by blast
  have same: "base (w'\<lparr>i_app := []\<rparr>) = base (w\<lparr>i_app := []\<rparr>) \<and> i_app w' = i_app w1" if "base w' = base w1" for w'
  proof -
    have b: "base (v\<lparr>i_app := []\<rparr>) = (base v)\<lparr>i_app := []\<rparr>" "i_app (base v) = i_app v" for v :: "packets io"
      by (simp_all add: base_def)
    show ?thesis using that d(4) b(2) [of w'] b(2) [of w1] by (simp add: b(1))
  qed
  show ?case
  proof (cases rs)
    case Nil
    then have f: "fresh_packet (in_packet w1)" "inflow w1 []" "future1 = []" using d by simp_all
    from read_command_wait [OF this(1,2)] obtain w' where
      w': "read_command w1 = (Some (Inr ()), w')" "base w' = base w1" "inflow w' []" "in_packet w' = in_packet w1" by blast
    then have "w2 = w' \<or> w2 = w1" using read.hyps(2) by (auto simp: packet__read_def split: if_splits)
    then have "base w2 = base w1" "inflow w2 []" "fresh_packet (in_packet w2)" using w' f by auto
    then show ?thesis
      using d(1,2) f(3) same [of w2] Nil unfolding in_transit_def
      by (intro exI [where x = ds] exI [where x = "[] :: packets"] exI [where x = "[] :: u8 list"]) simp
  next
    case (Cons r rs')
    obtain command body where r: "r = (command, body)" by (cases r)
    obtain todo where t: "awaits command body todo (in_packet w1)" "todo \<noteq> []" "buf @ future1 = todo @ frames rs'"
      using d(5) Cons r by auto
    have ok: "command \<noteq> 0" "length body < 268435456" "admits w command (length body)"
      using read.prems(4) d(1) Cons r by (auto simp: deliverable_def)
    have a: "admits (v\<lparr>i_app := []\<rparr>) command (length body) = admits v command (length body)" for v :: "packets io"
      by (simp add: admits_def)
    have ad: "admits w1 command (length body)" using admits_base [OF d(4), of command "length body"] ok(3) unfolding a by simp
    show ?thesis
    proof (cases "length buf < length todo")
      case True
      then obtain todo' where b: "todo = buf @ todo'" "todo' \<noteq> []" "future1 = todo' @ frames rs'"
        using t(3) by (auto simp: append_eq_append_conv2)
      from packet_read_part [OF t(1) [unfolded b(1)] b(2) d(3) ad ok(1,2), of collect] read.hyps(2)
      have "awaits command body todo' (in_packet w2)" "inflow w2 []" "base w2 = base w1" by auto
      then show ?thesis
        using d(1,2) b same [of w2] Cons r unfolding in_transit_def
        by (intro exI [where x = ds] exI [where x = rs] exI [where x = "[] :: u8 list"]) auto
    next
      case False
      then obtain post where b: "buf = todo @ post" "frames rs' = post @ future1"
        using t(3) by (auto simp: append_eq_append_conv2)
      from packet_read_whole [OF t(1) d(3) [unfolded b(1)] ad ok(1,2), of collect] obtain w3 where
        w3: "packet__read collect w1 = (case collect w3 of (rc, w2) \<Rightarrow> (rc, keepalive__update (on_in packet__cleanup w2)))"
          "complete command body (in_packet w3)" "inflow w3 post" "base w3 = base w1" by blast
      then have w2: "w2 = keepalive__update (on_in packet__cleanup (w3\<lparr>i_app := i_app w3 @ [(command, body)]\<rparr>))"
        using read.hyps(2) by (simp add: collect_def complete_def)
      have "base (w2\<lparr>i_app := []\<rparr>) = base (w3\<lparr>i_app := []\<rparr>)"
        by (simp add: w2 base_def keepalive__update_def on_in_def on_ctx_def)
      moreover have "i_app w2 = i_app w @ ds @ [(command, body)]"
        using same [OF w3(4)] d(2) by (simp add: w2 keepalive__update_def on_in_def on_ctx_def)
      moreover have "inflow w2 post" "fresh_packet (in_packet w2)"
        using w3(3) by (simp_all add: w2 fresh_packet_def packet__cleanup_def) (simp add: inflow_def)
      moreover have "case rs' of [] \<Rightarrow> fresh_packet (in_packet w2) \<and> post = [] \<and> future1 = []
         | (command, body) # rs'' \<Rightarrow> \<exists>todo. awaits command body todo (in_packet w2) \<and> todo \<noteq> [] \<and> post @ future1 = todo @ frames rs''"
        using b(2) \<open>fresh_packet (in_packet w2)\<close>
        by (cases rs') (auto simp: awaits_def frames_def mqtt_frame_def)
      ultimately show ?thesis
        using d(1) same [OF w3(4)] Cons r unfolding in_transit_def
        by - (rule exI [where x = "ds @ [r]"], rule exI [where x = rs'], rule exI [where x = post], simp)
    qed
  qed
qed

end
