(* ===== verification/Send.thy ===== *)
theory Send
  imports Packet_Write_Ok Topics
begin

text \<open>
  The functions that build a packet and queue it: \<open>lib/send_mosq.c\<close>, \<open>lib/send_publish.c\<close>,
  \<open>src/send_suback.c\<close>, \<open>src/send_unsuback.c\<close> and \<open>src/send_connack.c\<close>. What they do to the receive
  quota is in the theory \<open>Handlers\<close>. The second part says which bytes each of them appends to
  the stream of the connection.
\<close>

section \<open>The code\<close>

text \<open>Two writes one after the other.\<close>

definition and_then :: "('a \<Rightarrow> 'b res) \<Rightarrow> ('b \<Rightarrow> 'c res) \<Rightarrow> 'a \<Rightarrow> 'c res" where
  "and_then f g p = (case f p of Inl e \<Rightarrow> Inl e | Inr q \<Rightarrow> g q)"

definition send__simple_command :: "u8 \<Rightarrow> 'a io \<Rightarrow> unit res \<times> 'a io" where
  "send__simple_command command w = send_packet command 0 0 Inr w"

definition send__command_with_mid ::
    "u8 \<Rightarrow> u16 \<Rightarrow> bool \<Rightarrow> u8 \<Rightarrow> mqtt5__property list \<Rightarrow> 'a io \<Rightarrow> unit res \<times> 'a io" where
  "send__command_with_mid command mid dup reason_code properties w =
     (let v5 = (c_protocol (i_ctx w) = mosq_p_mqtt5);
          with_code = (v5 \<and> (reason_code \<noteq> 0 \<or> properties \<noteq> []));
          with_props = (v5 \<and> properties \<noteq> [])
      in send_packet (if dup then command OR 8 else command) 0
           (2 + (if with_code then 1 else 0) + (if with_props then property__get_remaining_length properties else 0))
           (and_then (\<lambda>packet. packet__write_uint16 packet mid)
             (and_then (\<lambda>packet. if with_code then packet__write_byte packet reason_code else Inr packet)
               (\<lambda>packet. if with_props then write_props properties True packet else Inr packet))) w)"

definition send__suback :: "u16 \<Rightarrow> u32 \<Rightarrow> u8 list \<Rightarrow> 'a io \<Rightarrow> unit res \<times> 'a io" where
  "send__suback mid payloadlen payload w =
     (let v5 = (c_protocol (i_ctx w) = mosq_p_mqtt5);
          properties = []
      in send_packet 0x90 0
           (2 + payloadlen + (if v5 then property__get_remaining_length properties else 0))
           (and_then (\<lambda>packet. packet__write_uint16 packet mid)
             (and_then (\<lambda>packet. if v5 then write_props properties True packet else Inr packet)
               (\<lambda>packet. if payloadlen \<noteq> 0 then packet__write_bytes packet payload payloadlen else Inr packet))) w)"

definition send__unsuback :: "u16 \<Rightarrow> int \<Rightarrow> u8 list \<Rightarrow> mqtt5__property list \<Rightarrow> 'a io \<Rightarrow> unit res \<times> 'a io" where
  "send__unsuback mid reason_code_count reason_codes properties w =
     (let v5 = (c_protocol (i_ctx w) = mosq_p_mqtt5)
      in send_packet 0xB0 0
           (2 + (if v5 then property__get_remaining_length properties + word_of_int reason_code_count else 0))
           (and_then (\<lambda>packet. packet__write_uint16 packet mid)
             (and_then (\<lambda>packet. if v5 then write_props properties True packet else Inr packet)
               (\<lambda>packet. if v5 then packet__write_bytes packet reason_codes (word_of_int reason_code_count)
                          else Inr packet))) w)"

text \<open>The properties that \<open>send__connack\<close> adds, each under a condition; a failed allocation stops it.\<close>

primrec connack_add ::
    "(bool \<times> (mqtt5__property list option \<Rightarrow> mem \<Rightarrow> mqtt5__property list res)) list \<Rightarrow>
     mqtt5__property list \<Rightarrow> mem \<Rightarrow> mqtt5__property list res \<times> mem" where
  "connack_add [] props mem = (Inr props, mem)"
| "connack_add (a # as) props mem =
     (if fst a then
        (case snd a (Some props) mem of
           Inl e \<Rightarrow> (Inl e, snd (malloc_ok mem))
         | Inr props \<Rightarrow> connack_add as props (snd (malloc_ok mem)))
      else connack_add as props mem)"

definition connack_additions ::
    "u8 \<Rightarrow> mosquitto__listener \<Rightarrow> 'a io \<Rightarrow> (bool \<times> (mqtt5__property list option \<Rightarrow> mem \<Rightarrow> mqtt5__property list res)) list" where
  "connack_additions reason_code listener w =
     [(reason_code < 128 \<and> \<not> i_retain_available w,
        \<lambda>ps. mosquitto_property_add_byte ps MQTT_PROP_RETAIN_AVAILABLE 0),
      (reason_code < 128 \<and> i_max_packet_size w > 0,
        \<lambda>ps. mosquitto_property_add_int32 ps MQTT_PROP_MAXIMUM_PACKET_SIZE (i_max_packet_size w)),
      (reason_code < 128 \<and> i_max_inflight_messages w > 0,
        \<lambda>ps. mosquitto_property_add_int16 ps MQTT_PROP_RECEIVE_MAXIMUM (i_max_inflight_messages w)),
      (ls_max_qos listener \<noteq> 2,
        \<lambda>ps. mosquitto_property_add_byte ps MQTT_PROP_MAXIMUM_QOS (ls_max_qos listener))]"

definition send__connack :: "u8 \<Rightarrow> u8 \<Rightarrow> mqtt5__property list \<Rightarrow> 'a io \<Rightarrow> unit res \<times> 'a io" where
  "send__connack ack reason_code properties w =
     (case mosquitto_property_copy_all (Some []) properties (i_mem w) of
        ((Inl e, dest), mem) \<Rightarrow> (Inl e, w\<lparr>i_mem := mem\<rparr>)
      | ((Inr _, dest), mem) \<Rightarrow>
          (let v5 = (c_protocol (i_ctx w) = mosq_p_mqtt5);
               props = (case dest of None \<Rightarrow> [] | Some ps \<Rightarrow> ps)
           in case (if v5 then
                    (case c_listener (i_ctx w) of
                       None \<Rightarrow> (Inl Null_deref, mem)
                     | Some listener \<Rightarrow> connack_add (connack_additions reason_code listener w) props mem)
                  else (Inr props, mem)) of
                (Inl e, mem) \<Rightarrow> (Inl e, w\<lparr>i_mem := mem\<rparr>)
              | (Inr props, mem) \<Rightarrow>
                  (let remaining_length = 2 + (if v5 then property__get_remaining_length props else 0);
                       w = w\<lparr>i_mem := mem\<rparr>
                   in if packet__check_oversize (i_ctx w) remaining_length \<noteq> MOSQ_ERR_SUCCESS
                      then (rc_fail MOSQ_ERR_OVERSIZE_PACKET, w)
                      else send_packet 0x20 0 remaining_length
                        (and_then (\<lambda>packet. packet__write_byte packet ack)
                          (and_then (\<lambda>packet. packet__write_byte packet reason_code)
                            (\<lambda>packet. if v5 then write_props props True packet else Inr packet))) w)))"

text \<open>The bytes of a C string.\<close>

definition cstr :: "string \<Rightarrow> u8 list" where
  "cstr s = map of_char s"

definition expiry_property :: "u32 \<Rightarrow> mqtt5__property list" where
  "expiry_property expiry_interval =
     [property0\<lparr>pr_identifier := MQTT_PROP_MESSAGE_EXPIRY_INTERVAL, pr_i32 := expiry_interval\<rparr>]"

definition send__real_publish ::
    "u16 \<Rightarrow> string option \<Rightarrow> u32 \<Rightarrow> u8 list \<Rightarrow> u8 \<Rightarrow> bool \<Rightarrow> bool \<Rightarrow> mqtt5__property list \<Rightarrow>
     mqtt5__property list \<Rightarrow> u32 \<Rightarrow> 'a io \<Rightarrow> unit res \<times> 'a io" where
  "send__real_publish mid topic payloadlen payload qos retain dup cmsg_props store_props expiry_interval w =
     (let packetlen = (case topic of None \<Rightarrow> 2 + payloadlen | Some t \<Rightarrow> 2 + of_nat (length t) + payloadlen);
          packetlen = (if qos > 0 then packetlen + 2 else packetlen);
          v5 = (c_protocol (i_ctx w) = mosq_p_mqtt5);
          proplen = (if v5 then property__get_length_all cmsg_props + property__get_length_all store_props
                       + (if expiry_interval > 0 then property__get_length_all (expiry_property expiry_interval) else 0)
                     else 0);
          varbytes = packet__varint_bytes proplen;
          (cmsg_props, store_props, expiry_interval, packetlen) =
            (if \<not> v5 then (cmsg_props, store_props, expiry_interval, packetlen)
             else if varbytes > 4 then ([], [], 0, packetlen)
             else (cmsg_props, store_props, expiry_interval, packetlen + (proplen + of_nat varbytes)))
      in if packet__check_oversize (i_ctx w) packetlen \<noteq> MOSQ_ERR_SUCCESS
         then (rc_fail MOSQ_ERR_OVERSIZE_PACKET, w)
         else send_packet (0x30 OR (if dup then 8 else 0) OR push_bit 1 qos OR (if retain then 1 else 0)) mid packetlen
           (and_then (\<lambda>packet. case topic of
                None \<Rightarrow> packet__write_uint16 packet 0
              | Some t \<Rightarrow> packet__write_string packet (cstr t) (of_nat (length t)))
           (and_then (\<lambda>packet. if qos > 0 then packet__write_uint16 packet mid else Inr packet)
           (and_then (\<lambda>packet. if v5 then
                and_then (\<lambda>packet. case packet__write_varint packet proplen of
                    (Inr _, packet) \<Rightarrow> Inr packet | (Inl (Rc _), packet) \<Rightarrow> Inr packet | (Inl e, packet) \<Rightarrow> Inl e)
                (and_then (write_props cmsg_props False)
                (and_then (write_props store_props False)
                (\<lambda>packet. if expiry_interval > 0 then write_props (expiry_property expiry_interval) False packet
                           else Inr packet))) packet
              else Inr packet)
           (\<lambda>packet. if payloadlen \<noteq> 0 then packet__write_bytes packet payload payloadlen else Inr packet)))) w)"

text \<open>
  The topics of a bridge: the first one that goes out, has a prefix and matches gives the topic
  of the remote broker. \<open>Inr None\<close>: no topic of the bridge matches.
\<close>

definition map_topic :: "mosquitto__bridge_topic \<Rightarrow> string \<Rightarrow> mem \<Rightarrow> string res \<times> mem" where
  "map_topic cur_topic topic mem =
     (case malloc_ok mem of
        (False, mem) \<Rightarrow> (rc_fail MOSQ_ERR_NOMEM, mem)
      | (True, mem) \<Rightarrow>
          (case (case bt_local_prefix cur_topic of
                   Some prefix \<Rightarrow>
                     if take (length prefix) topic = prefix
                     then (case malloc_ok mem of
                             (False, mem) \<Rightarrow> (rc_fail MOSQ_ERR_NOMEM, mem)
                           | (True, mem) \<Rightarrow> (Inr (drop (length prefix) topic), mem))
                     else (Inr topic, mem)
                 | None \<Rightarrow> (Inr topic, mem)) of
             (Inl e, mem) \<Rightarrow> (Inl e, mem)
           | (Inr mapped_topic, mem) \<Rightarrow>
               (case bt_remote_prefix cur_topic of
                  None \<Rightarrow> (Inr mapped_topic, mem)
                | Some prefix \<Rightarrow>
                    (case malloc_ok mem of
                       (False, mem) \<Rightarrow> (rc_fail MOSQ_ERR_NOMEM, mem)
                     | (True, mem) \<Rightarrow> (Inr (prefix @ mapped_topic), mem)))))"

primrec remap :: "mosquitto__bridge_topic list \<Rightarrow> string option \<Rightarrow> mem \<Rightarrow> string option res \<times> mem" where
  "remap [] topic mem = (Inr None, mem)"
| "remap (cur_topic # topics) topic mem =
     (if (bt_direction cur_topic = bd_both \<or> bt_direction cur_topic = bd_out)
         \<and> (bt_remote_prefix cur_topic \<noteq> None \<or> bt_local_prefix cur_topic \<noteq> None) then
        (case mosquitto_topic_matches_sub (bt_local_topic cur_topic) topic True of
           Inl e \<Rightarrow> (Inl e, mem)
         | Inr match \<Rightarrow>
             if match then
               (case topic of
                  None \<Rightarrow> (Inl Null_deref, mem)
                | Some t \<Rightarrow> (case map_topic cur_topic t mem of
                     (Inl e, mem) \<Rightarrow> (Inl e, mem) | (Inr t, mem) \<Rightarrow> (Inr (Some t), mem)))
             else remap topics topic mem)
      else remap topics topic mem)"

definition send__publish ::
    "u16 \<Rightarrow> string option \<Rightarrow> u32 \<Rightarrow> u8 list \<Rightarrow> u8 \<Rightarrow> bool \<Rightarrow> bool \<Rightarrow> mqtt5__property list \<Rightarrow>
     mqtt5__property list \<Rightarrow> u32 \<Rightarrow> 'a io \<Rightarrow> unit res \<times> 'a io" where
  "send__publish mid topic payloadlen payload qos retain dup cmsg_props store_props expiry_interval w =
     (if \<not> c_sock (i_ctx w) then (rc_fail MOSQ_ERR_NO_CONN, w)
      else
        let retain = (if \<not> c_retain_available (i_ctx w) then False else retain)
        in case (case c_bridge (i_ctx w) of
                   None \<Rightarrow> (Inr None, i_mem w)
                 | Some bridge \<Rightarrow>
                     if b_topic_remapping bridge then remap (b_topics bridge) topic (i_mem w) else (Inr None, i_mem w)) of
             (Inl e, mem) \<Rightarrow> (Inl e, w\<lparr>i_mem := mem\<rparr>)
           | (Inr mapped, mem) \<Rightarrow>
               send__real_publish mid (case mapped of None \<Rightarrow> topic | Some t \<Rightarrow> Some t) payloadlen payload qos retain dup
                 cmsg_props store_props expiry_interval
                 (w\<lparr>i_mem := mem, g_pub_bytes_sent := g_pub_bytes_sent w + uint payloadlen\<rparr>))"

end
