(* ===== verification/Send_Ok.thy ===== *)
theory Send_Ok
  imports Send
begin

text \<open>
  Which bytes the functions of \<open>Send\<close> append to the stream of a connection: a frame with exactly
  the contents that the standard prescribes, at once or, when memory runs out, not at all.
\<close>

section \<open>Writers that fill\<close>

named_theorems fills_intros

lemma fills_Inr [fills_intros]: "fills Inr []"
  by (simp add: fills_def)

lemma fills_and_then [fills_intros]: "fills f as \<Longrightarrow> fills g bs \<Longrightarrow> fills (and_then f g) (as @ bs)"
  unfolding fills_def and_then_def
proof (intro allI impI)
  fix p
  assume f: "\<forall>p. fits p (length as) \<longrightarrow> f p = Inr (put p as)" and g: "\<forall>p. fits p (length bs) \<longrightarrow> g p = Inr (put p bs)"
    and p: "fits p (length (as @ bs))"
  have "fits p (length as)" "fits (put p as) (length bs)" using fits_le [OF p] fits_put [of p as] p by simp_all
  then show "(case f p of Inl e \<Rightarrow> Inl e | Inr q \<Rightarrow> g q) = Inr (put p (as @ bs))" using f g by (simp add: put_put)
qed

lemma fills_if [fills_intros]:
  "(c \<Longrightarrow> fills f as) \<Longrightarrow> (\<not> c \<Longrightarrow> fills g bs) \<Longrightarrow> fills (\<lambda>p. if c then f p else g p) (if c then as else bs)"
  by (simp add: fills_def)

lemma fills_basic [fills_intros]:
  "fills (\<lambda>p. packet__write_byte p b) [b]" "fills (\<lambda>p. packet__write_uint16 p m) (be16 m)"
  by (simp_all add: fills_def write_byte write_uint16)

lemma fills_bytes [fills_intros]:
  "unat n = length bs \<Longrightarrow> fills (\<lambda>p. packet__write_bytes p bs n) bs"
  by (simp add: fills_def write_bytes)

lemma fills_props [fills_intros]:
  "list_all prop_out ps \<Longrightarrow> length (props_enc ps) < 268435456 \<Longrightarrow> fills (write_props ps True) (all_enc ps)"
  "list_all prop_out ps \<Longrightarrow> fills (write_props ps False) (props_enc ps)"
  by (simp_all add: fills_def write_props_def write_all_enc)
    (simp add: property__write_all_def property__write_loop_enc)

lemma fills_varint [fills_intros]:
  "unat v < 268435456 \<Longrightarrow>
   fills (\<lambda>p. case packet__write_varint p v of
            (Inr _, p) \<Rightarrow> Inr p | (Inl (Rc _), p) \<Rightarrow> Inr p | (Inl e, p) \<Rightarrow> Inl e) (venc (unat v))"
  by (simp add: fills_def write_varint)

lemma fills_string [fills_intros]:
  "length s < 65536 \<Longrightarrow> fills (\<lambda>p. packet__write_string p (cstr s) (of_nat (length s))) (be16 (of_nat (length s)) @ cstr s)"
  using write_string [of _ "cstr s"] by (simp add: fills_def cstr_def)

lemma of_nat_len: "(n :: nat) < 268435456 \<Longrightarrow> unat (of_nat n :: u32) = n"
  by (simp add: unat_of_nat take_bit_eq_mod)

lemma remaining_length_of:
  assumes "list_all prop_out ps" "length (props_enc ps) < 268435456"
  shows "property__get_remaining_length ps = of_nat (length (all_enc ps))"
  using remaining_length_enc(1) [OF assms] by (metis of_nat_unat ucast_id)

text \<open>What a send function does whose contents are \<open>body\<close>.\<close>

definition sends_frame :: "u8 \<Rightarrow> u8 list \<Rightarrow> 'a io \<Rightarrow> unit res \<times> 'a io \<Rightarrow> bool" where
  "sends_frame command body w r \<longleftrightarrow>
     queue_ok (i_ctx (snd r)) \<and> rest ((snd r)\<lparr>i_mem := i_mem w\<rparr>) = rest w \<and>
     (fst r = rc_fail MOSQ_ERR_NOMEM \<and> stream (snd r) = stream w \<or>
      stream (snd r) = stream w @ mqtt_frame command body \<and>
       (if c_sock (i_ctx w) then \<exists>e. fst r = errno_rc e else fst r = rc_fail MOSQ_ERR_NO_CONN)) \<and>
     (i_mem w = [] \<longrightarrow> fst r \<noteq> rc_fail MOSQ_ERR_NOMEM \<and> i_mem (snd r) = [])"

lemma send_packet_frame:
  assumes "queue_ok (i_ctx w)" "fills fill body" "n = of_nat (length body)" "length body < 268435456"
  shows "sends_frame command body w (send_packet command mid n fill w)"
proof -
  obtain rc w' where sp: "send_packet command mid n fill w = (rc, w')" by (metis surj_pair)
  have "unat n = length body" using assms(3,4) by (simp add: of_nat_len)
  from send_packet_spec [OF assms(1,2) this assms(4) sp] show ?thesis unfolding sends_frame_def sp fst_conv snd_conv .
qed

section \<open>The contents of the packets\<close>

definition props_ok :: "mqtt5__property list \<Rightarrow> bool" where
  "props_ok ps \<longleftrightarrow> list_all prop_out ps \<and> length (props_enc ps) < 268435000"

text \<open>PUBACK, PUBREC, PUBREL and PUBCOMP.\<close>

definition ack_body :: "bool \<Rightarrow> u16 \<Rightarrow> u8 \<Rightarrow> mqtt5__property list \<Rightarrow> u8 list" where
  "ack_body v5 mid code ps =
     be16 mid @ (if v5 \<and> (code \<noteq> 0 \<or> ps \<noteq> []) then [code] else []) @ (if v5 \<and> ps \<noteq> [] then all_enc ps else [])"

lemma length_all_enc: "props_ok ps \<Longrightarrow> length (all_enc ps) < 268435010"
  by (simp add: all_enc_def props_ok_def length_venc)

lemma send_command_frame:
  assumes "queue_ok (i_ctx w)" "props_ok ps"
  shows "sends_frame (if dup then command OR 8 else command)
    (ack_body (c_protocol (i_ctx w) = mosq_p_mqtt5) mid code ps) w (send__command_with_mid command mid dup code ps w)"
proof -
  have l: "list_all prop_out ps" "length (props_enc ps) < 268435456" using assms(2) by (auto simp: props_ok_def)
  show ?thesis
    unfolding send__command_with_mid_def Let_def ack_body_def
    by (rule send_packet_frame [OF assms(1)], intro fills_intros)
      (use l length_all_enc [OF assms(2)] in \<open>auto simp: remaining_length_of\<close>)
qed

lemma send_simple_frame: "queue_ok (i_ctx w) \<Longrightarrow> sends_frame command [] w (send__simple_command command w)"
  unfolding send__simple_command_def by (rule send_packet_frame) (auto intro: fills_intros)

lemma send_disconnect_frame:
  assumes "queue_ok (i_ctx w)"
  shows "sends_frame 0xE0 (if c_protocol (i_ctx w) = mosq_p_mqtt5 \<and> code \<noteq> 0 then [code] else []) w (send__disconnect code [] w)"
  unfolding send__disconnect_def Let_def
  by (rule send_packet_frame [OF assms]) (auto simp: fills_def write_byte)

text \<open>SUBACK has one code per filter, UNSUBACK only in MQTT 5.\<close>

lemma no_props [simp]: "props_ok []" "property__get_remaining_length [] = 1" "all_enc [] = [0]"
  by (simp_all add: props_ok_def property__get_remaining_length_def property__get_length_all_def packet__varint_bytes_def
      all_enc_def venc_small)

lemma send_suback_frame:
  assumes "queue_ok (i_ctx w)" "length codes < 268435000"
  shows "sends_frame 0x90 (be16 mid @ (if c_protocol (i_ctx w) = mosq_p_mqtt5 then [0] else []) @ codes) w
    (send__suback mid (of_nat (length codes)) codes w)"
proof -
  have n: "unat (of_nat (length codes) :: u32) = length codes" using assms(2) by (simp add: of_nat_len)
  have z: "(of_nat (length codes) :: u32) = 0 \<longleftrightarrow> codes = []" using n by (metis length_0_conv unsigned_eq_0_iff)
  have b: "fills (\<lambda>p. if (of_nat (length codes) :: u32) \<noteq> 0 then packet__write_bytes p codes (of_nat (length codes)) else Inr p) codes"
    using n by (cases "codes = []") (auto simp: z intro!: fills_bytes fills_Inr)
  have p: "fills (write_props [] True) [0]" using fills_props(1) [of "[]"] by simp
  show ?thesis
    unfolding send__suback_def Let_def
    by (rule send_packet_frame [OF assms(1)], intro fills_intros b p) (use assms(2) in auto)
qed

lemma send_unsuback_frame:
  assumes "queue_ok (i_ctx w)" "length codes < 268435000"
  shows "sends_frame 0xB0 (be16 mid @ (if c_protocol (i_ctx w) = mosq_p_mqtt5 then [0] else [])
      @ (if c_protocol (i_ctx w) = mosq_p_mqtt5 then codes else [])) w
    (send__unsuback mid (int (length codes)) codes [] w)"
proof -
  have p: "fills (write_props [] True) [0]" using fills_props(1) [of "[]"] by simp
  show ?thesis
    unfolding send__unsuback_def Let_def
    by (rule send_packet_frame [OF assms(1)], intro fills_intros p) (use assms(2) in \<open>auto simp: of_nat_len\<close>)
qed

text \<open>
  PUBLISH: the topic, the packet identifier unless QoS 0, in MQTT 5 the properties of the client's
  message, those of the stored message and the remaining expiry interval, and the payload.
\<close>

definition publish_command :: "u8 \<Rightarrow> bool \<Rightarrow> bool \<Rightarrow> u8" where
  "publish_command qos retain dup = 0x30 OR (if dup then 8 else 0) OR push_bit 1 qos OR (if retain then 1 else 0)"

definition publish_props :: "mqtt5__property list \<Rightarrow> mqtt5__property list \<Rightarrow> u32 \<Rightarrow> u8 list" where
  "publish_props cmsg store expiry =
     props_enc cmsg @ props_enc store @ (if expiry > 0 then props_enc (expiry_property expiry) else [])"

definition publish_body ::
    "bool \<Rightarrow> u16 \<Rightarrow> string option \<Rightarrow> u8 list \<Rightarrow> u8 \<Rightarrow> mqtt5__property list \<Rightarrow> mqtt5__property list \<Rightarrow> u32 \<Rightarrow> u8 list" where
  "publish_body v5 mid topic payload qos cmsg store expiry =
     (case topic of None \<Rightarrow> [0, 0] | Some t \<Rightarrow> be16 (of_nat (length t)) @ cstr t)
     @ (if qos > 0 then be16 mid else [])
     @ (if v5 then venc (length (publish_props cmsg store expiry)) @ publish_props cmsg store expiry else [])
     @ payload"

lemma expiry_out: "list_all prop_out (expiry_property e)"
  by (simp add: expiry_property_def prop_out_def prop_type_def)

lemma publish_proplen:
  assumes "list_all prop_out cmsg" "list_all prop_out store"
  shows "property__get_length_all cmsg + property__get_length_all store
      + (if expiry > 0 then property__get_length_all (expiry_property expiry) else 0)
    = of_nat (length (publish_props cmsg store expiry))"
  using assms expiry_out [of expiry] by (simp add: publish_props_def get_length_all_enc)

lemma send_real_publish_frame:
  fixes w :: "'a io"
  defines "v5 \<equiv> c_protocol (i_ctx w) = mosq_p_mqtt5"
  assumes q: "queue_ok (i_ctx w)" and ps: "list_all prop_out cmsg" "list_all prop_out store"
    and t: "\<forall>t. topic = Some t \<longrightarrow> length t < 65536"
    and l: "length (publish_body v5 mid topic payload qos cmsg store expiry) < 268435456"
  shows "if packet__check_oversize (i_ctx w) (of_nat (length (publish_body v5 mid topic payload qos cmsg store expiry))) \<noteq> MOSQ_ERR_SUCCESS
     then send__real_publish mid topic (of_nat (length payload)) payload qos retain dup cmsg store expiry w
       = (rc_fail MOSQ_ERR_OVERSIZE_PACKET, w)
     else sends_frame (publish_command qos retain dup) (publish_body v5 mid topic payload qos cmsg store expiry) w
     (send__real_publish mid topic (of_nat (length payload)) payload qos retain dup cmsg store expiry w)"
proof -
  let ?props = "publish_props cmsg store expiry"
  let ?body = "publish_body v5 mid topic payload qos cmsg store expiry"
  define n :: u32 where "n = (if v5 then of_nat (length ?props) else 0)"
  have np: "unat n = length ?props" if v5
    using that l by (simp add: n_def publish_body_def of_nat_len)
  have small: "packet__varint_bytes n \<le> 4"
    using np l by (cases v5) (auto simp: varint_bytes length_venc publish_body_def n_def)
  define fill where "fill = and_then (\<lambda>packet. case topic of
                None \<Rightarrow> packet__write_uint16 packet 0
              | Some t \<Rightarrow> packet__write_string packet (cstr t) (of_nat (length t)))
           (and_then (\<lambda>packet. if qos > 0 then packet__write_uint16 packet mid else Inr packet)
           (and_then (\<lambda>packet. if v5 then
                and_then (\<lambda>packet. case packet__write_varint packet n of
                    (Inr _, packet) \<Rightarrow> Inr packet | (Inl (Rc _), packet) \<Rightarrow> Inr packet | (Inl e, packet) \<Rightarrow> Inl e)
                (and_then (write_props cmsg False)
                (and_then (write_props store False)
                (\<lambda>packet. if expiry > 0 then write_props (expiry_property expiry) False packet
                           else Inr packet))) packet
              else Inr packet)
           (\<lambda>packet. if (of_nat (length payload) :: u32) \<noteq> 0 then packet__write_bytes packet payload (of_nat (length payload)) else Inr packet)))"
  have len: "unat (of_nat (length payload) :: u32) = length payload"
    using l by (simp add: of_nat_len publish_body_def)
  have z: "(of_nat (length payload) :: u32) = 0 \<longleftrightarrow> payload = []" using len by (metis length_0_conv unsigned_eq_0_iff)
  have b: "fills (\<lambda>p. if (of_nat (length payload) :: u32) \<noteq> 0 then packet__write_bytes p payload (of_nat (length payload)) else Inr p) payload"
    using len by (cases "payload = []") (auto simp: z intro!: fills_bytes fills_Inr)
  have t': "fills (\<lambda>packet. case topic of
                None \<Rightarrow> packet__write_uint16 packet 0
              | Some t \<Rightarrow> packet__write_string packet (cstr t) (of_nat (length t)))
      (case topic of None \<Rightarrow> [0, 0] | Some t \<Rightarrow> be16 (of_nat (length t)) @ cstr t)"
    using t fills_basic(2) [of 0] fills_string by (cases topic) (auto simp: be16_def)
  have pr: "fills (and_then (\<lambda>packet. case packet__write_varint packet n of
                    (Inr _, packet) \<Rightarrow> Inr packet | (Inl (Rc _), packet) \<Rightarrow> Inr packet | (Inl e, packet) \<Rightarrow> Inl e)
                (and_then (write_props cmsg False)
                (and_then (write_props store False)
                (\<lambda>packet. if expiry > 0 then write_props (expiry_property expiry) False packet
                           else Inr packet)))) (venc (length ?props) @ ?props)" if v5
  proof (rule fills_and_then)
    have "unat n < 268435456" using np [OF that] l that by (simp add: publish_body_def)
    then show "fills (\<lambda>packet. case packet__write_varint packet n of
        (Inr _, packet) \<Rightarrow> Inr packet | (Inl (Rc _), packet) \<Rightarrow> Inr packet | (Inl e, packet) \<Rightarrow> Inl e) (venc (length ?props))"
      using fills_varint [of n] np [OF that] by simp
    show "fills (and_then (write_props cmsg False) (and_then (write_props store False)
        (\<lambda>packet. if expiry > 0 then write_props (expiry_property expiry) False packet else Inr packet))) ?props"
      unfolding publish_props_def by (intro fills_intros ps expiry_out)
  qed
  have f: "fills fill ?body"
    unfolding fill_def publish_body_def by (intro fills_and_then t' b fills_if pr fills_basic fills_Inr)
  have pl: "(if v5 then property__get_length_all cmsg + property__get_length_all store
      + (if expiry > 0 then property__get_length_all (expiry_property expiry) else 0) else 0) = n"
    unfolding n_def publish_proplen [OF ps] ..
  have vb: "v5 \<Longrightarrow> packet__varint_bytes n = length (venc (length ?props))" by (simp add: varint_bytes np)
  define pk :: u32 where "pk = (case topic of None \<Rightarrow> 2 + of_nat (length payload) | Some t \<Rightarrow> 2 + of_nat (length t) + of_nat (length payload))"
  have lb: "of_nat (length ?body) = (if v5 then (if qos > 0 then pk + 2 else pk) + (n + of_nat (packet__varint_bytes n)) else (if qos > 0 then pk + 2 else pk))"
    using vb n_def by (cases v5) (simp_all add: publish_body_def pk_def cstr_def split: option.split)
  have tup: "(if \<not> v5 then (cmsg, store, expiry, p) else if 4 < packet__varint_bytes n then ([], [], 0, p)
      else (cmsg, store, expiry, p + (n + of_nat (packet__varint_bytes n)))) =
    (cmsg, store, expiry, if v5 then p + (n + of_nat (packet__varint_bytes n)) else p)" for p
    using small by simp
  have "send__real_publish mid topic (of_nat (length payload)) payload qos retain dup cmsg store expiry w =
     (if packet__check_oversize (i_ctx w) (of_nat (length ?body)) \<noteq> MOSQ_ERR_SUCCESS then (rc_fail MOSQ_ERR_OVERSIZE_PACKET, w)
      else send_packet (publish_command qos retain dup) mid (of_nat (length ?body)) fill w)"
    unfolding send__real_publish_def v5_def [symmetric] pk_def [symmetric] Let_def pl lb publish_command_def fill_def
      tup prod.case ..
  then show ?thesis using send_packet_frame [OF q f refl l] by simp
qed

end
