(* ===== verification/Packet_Safe.thy ===== *)
theory Packet_Safe
  imports Packet_Read_Ok Send_Ok
begin

text \<open>
  Whatever a peer sends, and however the socket behaves: \<open>packet__read\<close> never writes outside of
  the buffer of the incoming packet, and the packet that reaches \<open>handle__packet\<close> is well-formed.
\<close>

section \<open>The incoming packet between two calls\<close>

definition len_ok :: "nat \<Rightarrow> mosquitto__packet \<Rightarrow> bool" where
  "len_ok c p \<longleftrightarrow> c \<le> 4 \<and> p_remaining_count p = - int c \<and> p_remaining_mult p = of_nat (128 ^ c) \<and>
     unat (p_remaining_length p) < 128 ^ c \<and> p_to_process p = 0 \<and> p_pos p = 0 \<and> p_payload p = []"

definition body_ok :: "mosquitto__packet \<Rightarrow> bool" where
  "body_ok p \<longleftrightarrow> 0 < p_remaining_count p \<and> unat (p_remaining_length p) < 268435456 \<and>
     length (p_payload p) = unat (p_remaining_length p) \<and>
     unat (p_pos p) + unat (p_to_process p) = unat (p_remaining_length p)"

definition in_ok :: "mosquitto__packet \<Rightarrow> bool" where
  "in_ok p \<longleftrightarrow> (\<exists>c. len_ok c p) \<or> body_ok p"

text \<open>A return value other than an access outside of a buffer or a failed \<open>assert\<close>.\<close>

definition returns :: "'a res \<Rightarrow> bool" where
  "returns r \<longleftrightarrow> (\<forall>e. r = Inl e \<longrightarrow> (\<exists>rc. e = Rc rc))"

lemma returns_simps [simp]: "returns (Inr x)" "returns (Inl (Rc e))" "returns (errno_rc n)"
  by (auto simp: returns_def errno_rc_def split: errno.splits)

lemma io_read_ctx: "io_read n w = (r, w') \<Longrightarrow> i_ctx w' = i_ctx w"
  by (auto simp: io_read_def split: prod.splits)

lemma len_ok_step:
  fixes b :: u8
  assumes "len_ok c p" "c < 4"
  shows "len_ok (Suc c) (p\<lparr>p_remaining_count := p_remaining_count p - 1,
     p_remaining_length := p_remaining_length p + ucast (b AND 127) * p_remaining_mult p,
     p_remaining_mult := p_remaining_mult p * 128\<rparr>)"
proof -
  have c: "(128 :: nat) ^ c \<le> 2097152" using power_increasing [of c 3 "128 :: nat"] assms(2) by simp
  have b: "unat (ucast (b AND 127) :: u32) = unat b mod 128"
    by (simp add: unsigned_ucast_eq byte_low take_bit_eq_mod)
  have m: "unat (of_nat (128 ^ c) :: u32) = 128 ^ c" using c by (simp add: unat_of_nat take_bit_eq_mod del: of_nat_power)
  have k: "unat b mod 128 \<le> 127" using mod_less_divisor [of 128 "unat b"] by linarith
  then have "unat b mod 128 * 128 ^ c \<le> 127 * 128 ^ c" by (rule mult_right_mono) simp
  moreover have "unat (p_remaining_length p) < 128 ^ c" using assms(1) by (simp add: len_ok_def)
  ultimately have l: "unat (p_remaining_length p) + unat b mod 128 * 128 ^ c < 128 * 128 ^ c" by linarith
  then have "unat (p_remaining_length p) + unat b mod 128 * 128 ^ c < 4294967296" using c by linarith
  then have "unat (p_remaining_length p + ucast (b AND 127) * of_nat (128 ^ c)) =
      unat (p_remaining_length p) + unat b mod 128 * 128 ^ c"
    by (simp add: unat_word_ariths b m mod_simps del: of_nat_power)
  then show ?thesis using assms l by (simp add: len_ok_def mult.commute del: of_nat_power)
qed

lemma read_length_loop_ok:
  "read_length_loop w = (r, w') \<Longrightarrow> len_ok c (in_packet w) \<Longrightarrow>
   (case r of None \<Rightarrow> \<exists>c > 0. len_ok c (in_packet w')
    | Some rc \<Rightarrow> returns rc \<and> (rc = Inr () \<longrightarrow> (\<exists>c. len_ok c (in_packet w'))))"
proof (induction w arbitrary: r w' c rule: read_length_loop.induct)
  case (1 w)
  obtain x w1 where x: "io_read 1 w = (x, w1)" by (metis surj_pair)
  note c1 = io_read_ctx [OF x]
  show ?case
  proof (cases x)
    case (Inl e)
    then show ?thesis using 1(2,3) x c1 by (auto simp: read_length_loop.simps [of w])
  next
    case (Inr bs)
    show ?thesis
    proof (cases bs)
      case Nil
      then show ?thesis using 1(2) x Inr by (auto simp: read_length_loop.simps [of w])
    next
      case (Cons b bs')
      define w2 where "w2 = on_in (\<lambda>p. p\<lparr>p_remaining_count := p_remaining_count p - 1\<rparr>) w1"
      define w3 where "w3 = (on_in (\<lambda>p. p\<lparr>p_remaining_length := p_remaining_length p + ucast (b AND 127) * p_remaining_mult p,
                                        p_remaining_mult := p_remaining_mult p * 128\<rparr>) w2)
                           \<lparr>g_bytes_received := g_bytes_received w2 + 1\<rparr>"
      have step: "read_length_loop w = (if p_remaining_count (in_packet w2) < -4 then (Some (rc_fail MOSQ_ERR_PROTOCOL), w2)
          else if b AND 128 \<noteq> 0 then read_length_loop w3 else (None, w3))"
        unfolding read_length_loop.simps [of w] x Inr Cons Let_def sum.case prod.case list.case w2_def [symmetric] w3_def [symmetric] ..
      show ?thesis
      proof (cases "p_remaining_count (in_packet w2) < -4")
        case True
        then show ?thesis using 1(2) step by auto
      next
        case False
        then have "c < 4" using 1(3) by (simp add: w2_def c1 len_ok_def)
        then have ok: "len_ok (Suc c) (in_packet w3)"
          using len_ok_step [OF 1(3)] by (simp add: w3_def w2_def c1)
        show ?thesis
        proof (cases "b AND 128 \<noteq> 0")
          case True
          have "read_length_loop w3 = (r, w')" using 1(2) step False True by simp
          from 1(1) [OF x [unfolded Inr Cons, symmetric] refl refl w2_def False w3_def True this ok] show ?thesis .
        next
          case c: False
          then have "r = None" "w' = w3" using 1(2) step False by auto
          then show ?thesis using ok by auto
        qed
      qed
    qed
  qed
qed


text \<open>
  A connection that may have to send a DISCONNECT while it reads needs a consistent outgoing queue.
\<close>

definition may_disconnect :: "'a io \<Rightarrow> bool" where
  "may_disconnect w \<longleftrightarrow> (i_max_packet_size w > 0 \<and> c_protocol (i_ctx w) = mosq_p_mqtt5 \<longrightarrow> queue_ok (i_ctx w))"

lemma may_disconnect_base: "base w' = base w \<Longrightarrow> may_disconnect w' = may_disconnect w"
proof -
  assume b: "base w' = base w"
  have "may_disconnect (base v) = may_disconnect v" for v :: "'a io"
    by (simp add: may_disconnect_def base_def queue_ok_def out_queue_def)
  then show ?thesis using b by metis
qed

lemma read_length_loop_base: "base (snd (read_length_loop w)) = base w"
proof (induction w rule: read_length_loop.induct)
  case (1 w)
  obtain x w1 where x: "io_read 1 w = (x, w1)" by (metis surj_pair)
  have b: "base w1 = base w" using x by (auto simp: io_read_def split: prod.splits)
  show ?case
  proof (cases x)
    case (Inr bs)
    then show ?thesis using 1 [OF x [symmetric]] b x
      by (subst read_length_loop.simps) (auto simp: Let_def split: list.splits)
  qed (use b x in \<open>subst read_length_loop.simps, auto\<close>)
qed

lemma disconnect_returns: "may_disconnect w \<Longrightarrow> i_max_packet_size w > 0 \<Longrightarrow> c_protocol (i_ctx w) = mosq_p_mqtt5 \<Longrightarrow>
    returns (fst (send__disconnect code [] w))"
  using send_disconnect_frame [of w code] by (auto simp: may_disconnect_def sends_frame_def split: if_splits)

lemma read_length_ok:
  assumes "in_ok (in_packet w)" "read_length w = (r, w')" "may_disconnect w"
  shows "case r of None \<Rightarrow> body_ok (in_packet w') | Some rc \<Rightarrow> returns rc \<and> (rc = Inr () \<longrightarrow> in_ok (in_packet w'))"
proof (cases "0 < p_remaining_count (in_packet w)")
  case True
  then show ?thesis using assms by (auto simp: read_length_def in_ok_def len_ok_def)
next
  case False
  then obtain c where c: "len_ok c (in_packet w)" using assms(1) by (auto simp: in_ok_def body_ok_def)
  obtain x w1 where x: "read_length_loop w = (x, w1)" by (metis surj_pair)
  note ok = read_length_loop_ok [OF x c]
  show ?thesis
  proof (cases x)
    case (Some rc)
    then show ?thesis using assms(2) False x ok by (auto simp: read_length_def in_ok_def)
  next
    case None
    then obtain c where c: "0 < c" "len_ok c (in_packet w1)" using ok by auto
    let ?w = "on_in (\<lambda>p. p\<lparr>p_remaining_count := p_remaining_count p * -1\<rparr>) w1"
    have "may_disconnect ?w"
      using read_length_loop_base [of w] assms(3) x may_disconnect_base [of ?w w] by simp
    then have d: "returns (fst (send__disconnect 149 [] ?w))"
      if "i_max_packet_size ?w > 0" "c_protocol (i_ctx ?w) = mosq_p_mqtt5"
      using that by (rule disconnect_returns)
    have "(128 :: nat) ^ c \<le> 128 ^ 4" using c by (intro power_increasing) (simp_all add: len_ok_def)
    then have "unat (p_remaining_length (in_packet w1)) < 268435456" using c by (auto simp: len_ok_def)
    note small = this
    show ?thesis
    proof (cases "i_max_packet_size ?w > 0 \<and> p_remaining_length (in_packet ?w) + 1 > i_max_packet_size ?w")
      case True
      let ?s = "if c_protocol (i_ctx ?w) = mosq_p_mqtt5 then send__disconnect 149 [] ?w else (Inr (), ?w)"
      obtain x1 x2 where s: "?s = (x1, x2)" by (rule prod.exhaust)
      have "returns x1" using d True s by (auto split: if_splits)
      moreover have "(r, w') = (case (x1, x2) of (Inr _, w) \<Rightarrow> (Some (rc_fail MOSQ_ERR_OVERSIZE_PACKET), w)
          | (Inl (Rc _), w) \<Rightarrow> (Some (rc_fail MOSQ_ERR_OVERSIZE_PACKET), w) | (Inl e, w) \<Rightarrow> (Some (Inl e), w))"
        using assms(2) unfolding read_length_def if_not_P [OF False] x None prod.case option.case Let_def if_P [OF True] s by simp
      ultimately show ?thesis by (auto simp: returns_def split: sum.splits)
    next
      case False': False
      obtain ok mem where m: "malloc_ok (i_mem ?w) = (ok, mem)" by (metis surj_pair)
      have e: "(r, w') = (if p_remaining_length (in_packet ?w) > 0 then
          (if ok then (None, on_in (\<lambda>p. p\<lparr>p_payload := replicate (unat (p_remaining_length p)) 0,
              p_to_process := p_remaining_length p\<rparr>) (?w\<lparr>i_mem := mem\<rparr>))
           else (Some (rc_fail MOSQ_ERR_NOMEM), ?w\<lparr>i_mem := mem\<rparr>)) else (None, ?w))"
        using assms(2) unfolding read_length_def if_not_P [OF False] x None prod.case option.case Let_def if_not_P [OF False'] m
        by (cases ok) (auto split: if_splits)
      have "body_ok (in_packet (?w\<lparr>i_ctx := (i_ctx ?w)\<lparr>c_in_packet := (in_packet ?w)\<lparr>p_payload := replicate (unat (p_remaining_length (in_packet ?w))) 0,
          p_to_process := p_remaining_length (in_packet ?w)\<rparr>\<rparr>\<rparr>))"
        "\<not> 0 < p_remaining_length (in_packet ?w) \<Longrightarrow> body_ok (in_packet ?w)"
        using c small by (simp_all add: body_ok_def len_ok_def unat_eq_0 flip: word_neq_0_conv)
      then show ?thesis using e by (auto simp: on_in_def on_ctx_def split: if_splits)
    qed
  qed
qed

lemma read_payload_ok:
  "read_payload w = (r, w') \<Longrightarrow> body_ok (in_packet w) \<Longrightarrow>
   (case r of None \<Rightarrow> body_ok (in_packet w') \<and> p_to_process (in_packet w') = 0
    | Some rc \<Rightarrow> returns rc \<and> (rc = Inr () \<longrightarrow> in_ok (in_packet w')))"
proof (induction w arbitrary: r w' rule: read_payload.induct)
  case (1 w)
  show ?case
  proof (cases "p_to_process (in_packet w) = 0")
    case True
    then show ?thesis using 1(2,3) by (auto simp: read_payload.simps [of w])
  next
    case False
    obtain x w1 where x: "io_read (unat (p_to_process (in_packet w))) w = (x, w1)" by (metis surj_pair)
    note c1 = io_read_ctx [OF x]
    show ?thesis
    proof (cases x)
      case (Inl e)
      then show ?thesis using 1(2,3) x c1 False by (auto simp: read_payload.simps [of w] in_ok_def)
    next
      case (Inr bs)
      show ?thesis
      proof (cases bs)
        case Nil
        then show ?thesis using 1(2) x Inr False by (auto simp: read_payload.simps [of w])
      next
        case (Cons b bs')
        let ?p = "in_packet w"
        define w2 where "w2 = (on_in (store_bytes (b # bs')) w1)\<lparr>g_bytes_received := g_bytes_received w1 + int (Suc (length bs'))\<rparr>"
        have n: "length (b # bs') \<le> unat (p_to_process ?p)" using io_read_Inr x Inr Cons by metis
        then have in_range: "\<not> length (p_payload (in_packet w1)) < unat (p_pos (in_packet w1)) + Suc (length bs')"
          using 1(3) c1 by (simp add: body_ok_def)
        have step: "read_payload w = read_payload w2"
          unfolding read_payload.simps [of w] if_not_P [OF False] x Inr Cons sum.case prod.case list.case w2_def
          by (rule if_not_P [OF in_range])
        have "unat (p_pos ?p + of_nat (length (b # bs'))) = unat (p_pos ?p) + length (b # bs')"
          using n 1(3) unat_add_fits [of "p_pos ?p" "length (b # bs')" "p_remaining_length ?p"] by (simp only: body_ok_def) linarith
        moreover have "unat (p_to_process ?p - of_nat (length (b # bs'))) = unat (p_to_process ?p) - length (b # bs')"
          by (rule unat_minus_of_nat [OF n])
        ultimately have ok: "body_ok (in_packet w2)"
          using 1(3) n unfolding w2_def body_ok_def by (simp add: c1 store_bytes_def)
        have "read_payload w2 = (r, w')" using 1(2) step by simp
        from 1(1) [OF False x [unfolded Inr Cons, symmetric] refl refl in_range, folded w2_def, OF this ok] show ?thesis .
      qed
    qed
  qed
qed

lemma read_command_ok:
  assumes "in_ok (in_packet w)" "read_command w = (r, w')"
  shows "case r of None \<Rightarrow> in_ok (in_packet w') | Some rc \<Rightarrow> returns rc \<and> (rc = Inr () \<longrightarrow> in_ok (in_packet w'))"
proof (cases "p_command (in_packet w) \<noteq> 0")
  case True
  then show ?thesis using assms by (auto simp: read_command_def)
next
  case False
  obtain x w1 where x: "io_read (Suc 0) w = (x, w1)" by (metis surj_pair)
  have "in_ok (p\<lparr>p_command := b\<rparr>) = in_ok p" for p b by (simp add: in_ok_def len_ok_def body_ok_def)
  then show ?thesis
    using assms False x io_read_ctx [OF x]
    by (cases x) (auto simp: read_command_def Let_def split: if_splits list.splits)
qed

lemma cleanup_ok [simp]: "in_ok (packet__cleanup p)"
  by (auto simp: in_ok_def len_ok_def packet__cleanup_def intro!: exI [of _ 0])

text \<open>What reaches the handler.\<close>

definition handled_ok :: "'a io \<Rightarrow> bool" where
  "handled_ok w \<longleftrightarrow> rd_wf (in_packet w) \<and> p_pos (in_packet w) = 0 \<and>
     length (p_payload (in_packet w)) = unat (p_remaining_length (in_packet w))"

lemma read_command_base: "read_command w = (None, w') \<Longrightarrow> base w' = base w"
  by (auto simp: read_command_def io_read_def Let_def split: if_splits prod.splits sum.splits list.splits)

lemma packet_read_cases:
  assumes "in_ok (in_packet w)" "may_disconnect w"
  obtains r w1 where "\<And>handle. packet__read handle w = (r, w1)" "returns r" "r = Inr () \<Longrightarrow> in_ok (in_packet w1)"
  | w1 where "\<And>handle. packet__read handle w =
        (case handle w1 of (rc, w2) \<Rightarrow> (rc, keepalive__update (on_in packet__cleanup w2)))" "handled_ok w1"
proof (cases "c_sock (i_ctx w) \<and> c_state (i_ctx w) \<noteq> mosq_cs_connect_pending")
  case False
  then show ?thesis
    using that(1) [of "if c_sock (i_ctx w) then Inr () else rc_fail MOSQ_ERR_NO_CONN" w] assms(1)
    by (auto simp: packet__read_def)
next
  case True
  obtain r1 w1 where 1: "read_command w = (r1, w1)" by (metis surj_pair)
  obtain r2 w2 where 2: "read_length w1 = (r2, w2)" by (metis surj_pair)
  obtain r3 w3 where 3: "read_payload w2 = (r3, w3)" by (metis surj_pair)
  have parts: "packet__read handle w =
     (case r1 of Some r \<Rightarrow> (r, w1) | None \<Rightarrow> (case r2 of Some r \<Rightarrow> (r, w2) | None \<Rightarrow> (case r3 of Some r \<Rightarrow> (r, w3) | None \<Rightarrow>
        (case handle (msg_received w3) of (rc, w) \<Rightarrow> (rc, keepalive__update (on_in packet__cleanup w))))))" for handle
    using packet_read_parts [of w handle] True by (auto simp: 1 2 3 split: option.split)
  note ok1 = read_command_ok [OF assms(1) 1]
  show ?thesis
  proof (cases r1)
    case (Some r)
    then show ?thesis using that(1) [of r w1] parts ok1 by simp
  next
    case None1: None
    then have "in_ok (in_packet w1)" "may_disconnect w1"
      using ok1 read_command_base [of w w1] 1 assms(2) may_disconnect_base by auto
    note ok2 = read_length_ok [OF this(1) 2 this(2)]
    show ?thesis
    proof (cases r2)
      case (Some r)
      then show ?thesis using that(1) [of r w2] parts ok2 None1 by simp
    next
      case None2: None
      then have "body_ok (in_packet w2)" using ok2 by simp
      note ok3 = read_payload_ok [OF 3 this]
      show ?thesis
      proof (cases r3)
        case (Some r)
        then show ?thesis using that(1) [of r w3] parts ok3 None1 None2 by simp
      next
        case None
        then have "handled_ok (msg_received w3)" using ok3 by (auto simp: handled_ok_def rd_wf_def body_ok_def)
        then show ?thesis using that(2) [of "msg_received w3"] parts None None1 None2 by simp
      qed
    qed
  qed
qed

end
