(* ===== verification/Packet_Props.thy ===== *)
theory Packet_Props
  imports Packet_Safe Send_Ok Broker_Props
begin

text \<open>
  The properties of \<open>lib/packet_mosq.c\<close> and of the functions that send packets, with a concrete
  connection for the witnesses.
\<close>

section \<open>A concrete connection\<close>

definition new_conn :: mosquitto_conn where
  "new_conn = mosquitto.extend new_client
     \<lparr>c_sock = True, c_maximum_packet_size = 0, c_keepalive = 60, c_last_msg_in = 0, c_next_msg_out = 0,
      c_in_packet = packet__cleanup packet0, c_current_out_packet = None, c_out_packet = [], c_retain_available = True\<rparr>"

definition new_io :: "packets io" where
  "new_io = \<lparr>i_ctx = new_conn, i_app = [], i_now_s = 7, i_max_packet_size = 0, i_max_inflight_messages = 20,
     i_retain_available = True, i_mem = [], i_in = [], i_out = [], i_wire = [], i_mux_out = False,
     g_bytes_received = 0, g_bytes_sent = 0, g_msgs_received = 0, g_msgs_sent = 0, g_pub_msgs_received = 0,
     g_pub_msgs_sent = 0, g_pub_bytes_sent = 0\<rparr>"

lemma new_conn_simps [simp]:
  "c_sock new_conn" "c_state new_conn = mosq_cs_active" "c_protocol new_conn = mosq_p_mqtt311" "c_bridge new_conn = None"
  "c_in_packet new_conn = packet__cleanup packet0" "c_current_out_packet new_conn = None" "c_out_packet new_conn = []"
  "c_out_packet_count new_conn = 0" "c_maximum_packet_size new_conn = 0"
  by (simp_all add: new_conn_def new_client_def mosquitto.defs)

lemma new_io_simps [simp]:
  "i_ctx new_io = new_conn" "i_app new_io = []" "i_mem new_io = []" "i_in new_io = []" "i_out new_io = []"
  "i_wire new_io = []" "i_max_packet_size new_io = 0"
  by (simp_all add: new_io_def)

lemma new_io_ok: "queue_ok (i_ctx new_io)" "fresh_packet (in_packet new_io)" "inflow new_io []" "in_ok (in_packet new_io)"
  using cleanup_ok [of packet0]
  by (simp_all add: queue_ok_def out_queue_def fresh_packet_def inflow_def) (simp_all add: packet__cleanup_def)

section \<open>Properties\<close>

text \<open>
  C36: \<open>packet__write\<close> neither loses, repeats nor reorders a byte of the queued packets, whatever
  the socket takes and wherever it fails: what was on the wire followed by what still waits
  stays the same. The queue and its count stay consistent, the rest of the client is left alone,
  the broker asks to be told that the socket is writable exactly as long as a packet waits, and
  when the socket takes enough, everything is sent and the call succeeds.
\<close>

theorem packet_write_conserves:
  assumes "queue_ok (i_ctx w)" "packet__write w = (rc, w')"
  shows "queue_ok (i_ctx w') \<and> stream w' = stream w \<and> rest w' = rest w \<and>
    (if \<not> c_sock (i_ctx w) then rc = rc_fail MOSQ_ERR_NO_CONN \<and> w' = w
     else (\<exists>e. rc = errno_rc e) \<and>
       (c_state (i_ctx w) \<noteq> mosq_cs_connect_pending \<longrightarrow>
         (i_mux_out w' \<longleftrightarrow> c_current_out_packet (i_ctx w') \<noteq> None) \<and>
         (willing (i_out w) (length (unsent (i_ctx w))) \<longrightarrow> rc = Inr () \<and> unsent (i_ctx w') = [])))"
  by (rule packet_write_spec [OF assms])

text \<open>Two packets of two bytes wait, and the socket takes one, then three bytes.\<close>

definition two_packets :: "packets io" where
  "two_packets =
     (let p = packet0\<lparr>p_payload := [0xD0, 0], p_to_process := 2, p_command := 0xD0\<rparr>
      in (on_ctx (\<lambda>ctx. ctx\<lparr>c_out_packet := [p, p], c_out_packet_count := 2\<rparr>) new_io)
           \<lparr>i_out := [Takes 0, Takes 2, Takes 9, Takes 9]\<rparr>)"

theorem packet_write_conserves_witness:
  "queue_ok (i_ctx two_packets) \<and> (\<exists>rc w'. packet__write two_packets = (rc, w') \<and>
     stream w' = [0xD0, 0, 0xD0, 0] \<and> rc = Inr () \<and> unsent (i_ctx w') = [])"
proof -
  obtain rc w' where w: "packet__write two_packets = (rc, w')" by (metis surj_pair)
  have p: "unat (2 :: u32) = 2" by simp
  have q: "queue_ok (i_ctx two_packets)"
    by (simp add: two_packets_def queue_ok_def out_queue_def on_ctx_def out_wf_def packet0_def Let_def)
  have s: "stream two_packets = [0xD0, 0, 0xD0, 0]" "unsent (i_ctx two_packets) = [0xD0, 0, 0xD0, 0]"
    by (simp_all add: two_packets_def stream_def unsent_def out_queue_def on_ctx_def pend_def packet0_def Let_def)
  have "willing (i_out two_packets) (length (unsent (i_ctx two_packets)))"
    unfolding s(2) by (simp add: two_packets_def willing_def Let_def)
  moreover have "c_sock (i_ctx two_packets)" "c_state (i_ctx two_packets) \<noteq> mosq_cs_connect_pending"
    by (simp_all add: two_packets_def on_ctx_def Let_def)
  ultimately show ?thesis using packet_write_conserves [OF q w] q s(1) w by simp
qed

text \<open>
  C39: A PUBLISH is either refused as too large for the client, with nothing changed, or, when memory
  runs out, not sent at all, or exactly one frame with the contents that the standard prescribes
  for the protocol version is appended to the stream of the connection, for every topic,
  payload, QoS and property list.
\<close>

theorem publish_on_the_wire:
  fixes w :: "'a io"
  assumes "queue_ok (i_ctx w)" "list_all prop_out cmsg" "list_all prop_out store"
    and "\<forall>t. topic = Some t \<longrightarrow> length t < 65536"
    and "body = publish_body (c_protocol (i_ctx w) = mosq_p_mqtt5) mid topic payload qos cmsg store expiry"
    and "length body < 268435456"
    and "r = send__real_publish mid topic (of_nat (length payload)) payload qos retain dup cmsg store expiry w"
  shows "if packet__check_oversize (i_ctx w) (of_nat (length body)) \<noteq> MOSQ_ERR_SUCCESS
     then r = (rc_fail MOSQ_ERR_OVERSIZE_PACKET, w)
     else sends_frame (publish_command qos retain dup) body w r"
  using send_real_publish_frame [OF assms(1-4), of mid payload qos expiry retain dup] assms(5-7) by simp

theorem publish_on_the_wire_witness:
  "queue_ok (i_ctx new_io) \<and>
   sends_frame 0x32 [0, 1, 97, 0, 5, 104, 105] new_io
     (send__real_publish 5 (Some ''a'') 2 [104, 105] 1 False False [] [] 0 new_io)"
proof -
  have b: "[0, 1, 97, 0, 5, 104, 105] =
      publish_body (c_protocol (i_ctx new_io) = mosq_p_mqtt5) 5 (Some ''a'') [104, 105] 1 [] [] 0"
    by (simp add: publish_body_def be16_def cstr_def)
  have c: "publish_command 1 False False = 0x32" by (simp add: publish_command_def)
  have "packet__check_oversize (i_ctx new_io) (of_nat (length [0, 1, 97, 0, 5, 104, 105 :: u8])) = MOSQ_ERR_SUCCESS"
    by (simp add: packet__check_oversize_def)
  then show ?thesis
    using publish_on_the_wire [OF new_io_ok(1), of "[]" "[]" "Some ''a''", OF _ _ _ b _ refl, of False False] c new_io_ok(1)
    by simp
qed

text \<open>
  C37: However the bytes of a sequence of packets arrive, and whenever \<open>packet__read\<close> is called: the
  packets that have been handled are the first ones of the sequence, unchanged and in order, and
  once all bytes have arrived and been read, they are all of them.
\<close>

theorem packets_delivered:
  assumes "delivery w (frames ps) w1 future" "fresh_packet (in_packet w)" "inflow w []" "deliverable w ps"
  shows "(\<exists>n. i_app w1 = i_app w @ take n ps) \<and>
    (future = [] \<and> inflow w1 [] \<longrightarrow> i_app w1 = i_app w @ ps)"
proof -
  obtain ds rs buf where d: "ps = ds @ rs" "i_app w1 = i_app w @ ds" "inflow w1 buf"
    "case rs of [] \<Rightarrow> fresh_packet (in_packet w1) \<and> buf = [] \<and> future = []
     | (command, body) # rs' \<Rightarrow> \<exists>todo. awaits command body todo (in_packet w1) \<and> todo \<noteq> [] \<and> buf @ future = todo @ frames rs'"
    using delivery_in_transit [OF assms(1-3) refl assms(4)] unfolding in_transit_def by blast
  have "buf = []" if "inflow w1 []"
    using d(3) that by (auto simp: inflow_def) (metis list.inj_map_strong net_in.inject(1))
  then have "rs = []" if "future = []" "inflow w1 []" using that d(4) by (cases rs) auto
  moreover have "ds = take (length ds) ps" using d(1) by simp
  ultimately show ?thesis using d(1,2) by (auto intro: exI [of _ "length ds"])
qed

text \<open>A PINGREQ and a packet with one byte, read in pieces.\<close>

definition after_ping :: "packets io" where
  "after_ping = snd (packet__read collect (new_io\<lparr>i_in := [Bytes [0xC0, 0]]\<rparr>))"

theorem packets_delivered_witness:
  "delivery new_io (frames [(0xC0, [])]) after_ping [] \<and> i_app after_ping = [(0xC0, [])]"
proof -
  have f: "frames [(0xC0, [])] = [0xC0, 0] @ []" by (simp add: frames_def mqtt_frame_def venc_small)
  have "delivery new_io ([0xC0, 0] @ []) new_io ([0xC0, 0] @ [])" by (rule delivery.start)
  from delivery.arrive [OF this] have a: "delivery new_io (frames [(0xC0, [])]) (new_io\<lparr>i_in := [Bytes [0xC0, 0]]\<rparr>) []"
    unfolding f by simp
  have d: "delivery new_io (frames [(0xC0, [])]) after_ping []"
    by (rule delivery.read [OF a, of "fst (packet__read collect (new_io\<lparr>i_in := [Bytes [0xC0, 0]]\<rparr>))"])
      (simp add: after_ping_def)
  have "i_in after_ping = []"
    by (simp add: after_ping_def packet__read_def read_command_def read_length_def read_length_loop.simps read_payload.simps
        io_read_def packet__cleanup_def packet0_def on_in_def on_ctx_def Let_def msg_received_def collect_def keepalive__update_def)
  then have "inflow after_ping []" by (auto simp: inflow_def)
  moreover have "deliverable new_io [(0xC0, [])]" by (simp add: deliverable_def admits_def)
  ultimately show ?thesis using packets_delivered [OF d new_io_ok(2,3)] d by simp
qed

text \<open>
  C38: Whatever bytes arrive and however the socket behaves, \<open>packet__read\<close> does not write outside of the
  buffer of the packet; where it may have to send a DISCONNECT, the outgoing queue has to be consistent. A packet that reaches \<open>handle__packet\<close> is positioned at its start, has a
  payload of exactly the announced length, and that is below 2^28; the handler matters on such
  packets only. If the handler ends with a return code, so does \<open>packet__read\<close>; and after success the
  next call finds the incoming packet consistent again.
\<close>

theorem packet_read_safe:
  assumes "in_ok (in_packet w)" "may_disconnect w" "\<And>v. handled_ok v \<Longrightarrow> returns (fst (handle v))"
    "\<And>v. handled_ok v \<Longrightarrow> handle' v = handle v"
  shows "packet__read handle' w = packet__read handle w \<and> returns (fst (packet__read handle w)) \<and>
    (fst (packet__read handle w) = Inr () \<longrightarrow> in_ok (in_packet (snd (packet__read handle w))))"
  using assms(1,2)
proof (cases rule: packet_read_cases)
  case (1 r w1)
  then show ?thesis by simp
next
  case (2 w1)
  then show ?thesis using assms(3,4) [OF 2(2)] by (simp add: case_prod_beta)
qed

theorem packet_read_safe_witness:
  "packet__read (\<lambda>v. if handled_ok v then collect v else (Inl Oob, v)) (new_io\<lparr>i_in := [Bytes [0xC0], In_err EINTR, Bytes [0x80]]\<rparr>) =
     packet__read collect (new_io\<lparr>i_in := [Bytes [0xC0], In_err EINTR, Bytes [0x80]]\<rparr>)"
proof -
  let ?w = "new_io\<lparr>i_in := [Bytes [0xC0], In_err EINTR, Bytes [0x80]]\<rparr>"
  have "in_ok (in_packet ?w)" "may_disconnect ?w"
    using new_io_ok(1,4) by (simp_all add: may_disconnect_def)
  from packet_read_safe [OF this, of collect "\<lambda>v. if handled_ok v then collect v else (Inl Oob, v)"]
  show ?thesis by (simp add: collect_def)
qed

text \<open>
  C40: \<open>packet__check_oversize\<close> admits a packet exactly if its frame is at most one byte longer than the
  maximum packet size of the client, since the byte of the command is not counted.
\<close>

theorem check_oversize_exact:
  assumes "length body < 268435456"
  shows "packet__check_oversize ctx (of_nat (length body)) = MOSQ_ERR_SUCCESS \<longleftrightarrow>
    c_maximum_packet_size ctx = 0 \<or> length (mqtt_frame command body) \<le> unat (c_maximum_packet_size ctx) + 1"
proof -
  have l: "unat (of_nat (length body) :: u32) = length body" by (rule of_nat_len [OF assms])
  have v: "packet__varint_bytes (of_nat (length body)) = length (venc (length body))" by (simp add: varint_bytes l)
  have b: "length (venc (length body)) \<le> 4" using assms by (simp add: length_venc)
  have u: "unat (of_nat (length body) + of_nat (length (venc (length body))) :: u32) = length body + length (venc (length body))"
    using assms b by (simp add: unat_word_ariths unat_of_nat take_bit_eq_mod mod_simps)
  show ?thesis by (auto simp: packet__check_oversize_def v word_less_nat_alt u mqtt_frame_def)
qed

theorem check_oversize_exact_witness:
  "packet__check_oversize (new_conn\<lparr>c_maximum_packet_size := 4\<rparr>) 3 = MOSQ_ERR_SUCCESS \<and>
   length (mqtt_frame 0x40 [0, 1, 2]) = 5"
proof -
  have "length (mqtt_frame 0x40 [0, 1, 2]) = 5" by (simp add: mqtt_frame_def venc_small)
  then show ?thesis
    using check_oversize_exact [where body = "[0, 1, 2]" and ctx = "new_conn\<lparr>c_maximum_packet_size := 4\<rparr>"
        and command = "0x40"] by simp
qed

section \<open>Divergences\<close>

text \<open>
  A command byte 0 that arrives alone is forgotten: the byte behind it is taken for a command. If
  both arrive together, the packet is passed on with the command 0.
\<close>

lemma zero_command_forgotten:
  "fresh_packet (in_packet (snd (packet__read collect (new_io\<lparr>i_in := [Bytes [0]]\<rparr>))))"
  "i_app (snd (packet__read collect (new_io\<lparr>i_in := [Bytes [0, 0]]\<rparr>))) = [(0, [])]"
  by (simp_all add: packet__read_def read_command_def read_length_def read_length_loop.simps read_payload.simps
      io_read_def packet__cleanup_def packet0_def on_in_def on_ctx_def Let_def msg_received_def collect_def
      keepalive__update_def errno_rc_def fresh_packet_def)

text \<open>A PUBLISH with QoS 2 or the retain flag is not counted as a received message.\<close>

lemma publish_not_counted:
  "g_pub_msgs_received (msg_received (on_in (\<lambda>p. p\<lparr>p_command := 0x31\<rparr>) new_io)) = 0"
  "g_pub_msgs_received (msg_received (on_in (\<lambda>p. p\<lparr>p_command := 0x34\<rparr>) new_io)) = 0"
  "g_pub_msgs_received (msg_received (on_in (\<lambda>p. p\<lparr>p_command := 0x32\<rparr>) new_io)) = 1"
  by (simp_all add: msg_received_def on_in_def on_ctx_def Let_def new_io_def)

end
