(* ===== verification/Handlers.thy ===== *)
theory Handlers
  imports Subs
begin

text \<open>
  The handlers of acknowledgements and pings: \<open>lib/handle_pubackcomp.c\<close>, \<open>lib/handle_pubrec.c\<close>,
  \<open>lib/handle_pubrel.c\<close>, \<open>lib/handle_ping.c\<close>, \<open>lib/handle_suback.c\<close>, \<open>lib/handle_unsuback.c\<close>, what
  \<open>lib/send_mosq.c\<close> does to the quotas, and \<open>db__message_release_incoming\<close> of \<open>src/database.c\<close>. A
  handler gets the client, its incoming packet and the state of the broker; what it sends are the
  events of \<open>d_send\<close>.
\<close>

type_synonym handler = "cptr \<Rightarrow> mosquitto__packet \<Rightarrow> mosquitto_db \<Rightarrow> unit res \<times> mosquitto_db"

abbreviation "CMD_PUBACK \<equiv> (0x40 :: int)"
abbreviation "CMD_PUBREC \<equiv> (0x50 :: int)"
abbreviation "CMD_PUBREL \<equiv> (0x60 :: int)"
abbreviation "CMD_SUBACK \<equiv> (0x90 :: int)"
abbreviation "CMD_UNSUBACK \<equiv> (0xB0 :: int)"

section \<open>Return codes and properties\<close>

definition rc_res :: "mosq_err \<Rightarrow> unit res" where
  "rc_res rc = (if rc = MOSQ_ERR_SUCCESS then Inr () else Inl (Rc rc))"

text \<open>\<open>if(read(...)) return MOSQ_ERR_MALFORMED_PACKET;\<close>\<close>

definition malformed :: "stop \<Rightarrow> 'a res" where
  "malformed e = (case e of Rc _ \<Rightarrow> rc_fail MOSQ_ERR_MALFORMED_PACKET | _ \<Rightarrow> Inl e)"

text \<open>\<open>None\<close> stands for a run of \<open>property__read_all\<close> that does not end, which does not happen.\<close>

definition read_props ::
    "int \<Rightarrow> mosquitto__packet \<Rightarrow> mosquitto_db \<Rightarrow> mqtt5__property list res \<times> mosquitto__packet \<times> mosquitto_db" where
  "read_props command packet db =
     (case property__read_all command packet (d_mem db) of
        None \<Rightarrow> (Inl Assert_fail, packet, db)
      | Some (r, packet, mem) \<Rightarrow> (r, packet, db\<lparr>d_mem := mem\<rparr>))"

section \<open>Sending acknowledgements\<close>

definition send__puback :: "cptr \<Rightarrow> u16 \<Rightarrow> u8 \<Rightarrow> mqtt5__property list \<Rightarrow> mosquitto_db \<Rightarrow> mosq_err \<times> mosquitto_db" where
  "send__puback c mid reason_code properties db =
     d_send c (Puback mid reason_code properties) (util__increment_receive_quota c db)"

definition send__pubcomp :: "cptr \<Rightarrow> u16 \<Rightarrow> mosquitto_db \<Rightarrow> mosq_err \<times> mosquitto_db" where
  "send__pubcomp c mid db = d_send c (Pubcomp mid) (util__increment_receive_quota c db)"

definition send__pubrec :: "cptr \<Rightarrow> u16 \<Rightarrow> u8 \<Rightarrow> mqtt5__property list \<Rightarrow> mosquitto_db \<Rightarrow> mosq_err \<times> mosquitto_db" where
  "send__pubrec c mid reason_code properties db =
     d_send c (Pubrec mid reason_code properties)
       (if reason_code \<ge> 0x80 \<and> c_protocol (get_ctx c db) = mosq_p_mqtt5
        then util__increment_receive_quota c db else db)"

definition send__pubrel :: "cptr \<Rightarrow> u16 \<Rightarrow> mosquitto_db \<Rightarrow> mosq_err \<times> mosquitto_db" where
  "send__pubrel c mid db = d_send c (Pubrel mid) db"

definition send__pingresp :: "cptr \<Rightarrow> mosquitto_db \<Rightarrow> mosq_err \<times> mosquitto_db" where
  "send__pingresp c db = d_send c Pingresp db"

section \<open>Releasing an incoming message\<close>

text \<open>
  The first loop of \<open>db__message_release_incoming\<close>, at position \<open>i\<close> of the messages in flight with
  \<open>n\<close> of them left to visit; \<open>Inl\<close> is the code with which the function returns.
\<close>

primrec release_inflight_loop ::
    "nat \<Rightarrow> acl_env \<Rightarrow> cptr \<Rightarrow> u16 \<Rightarrow> nat \<Rightarrow> bool \<Rightarrow> mosquitto_db \<Rightarrow> (mosq_err + bool) \<times> mosquitto_db" where
  "release_inflight_loop 0 env c mid i deleted db = (Inr deleted, db)"
| "release_inflight_loop (Suc n) env c mid i deleted db =
     (let tail = inflight (md_of c mosq_md_in db) ! i
      in if m_mid tail \<noteq> mid then release_inflight_loop n env c mid (Suc i) deleted db
         else
           let db = touch (m_store tail) db; store = stored_at (m_store tail) db
           in if s_qos store \<noteq> 2 then (Inl MOSQ_ERR_PROTOCOL, db)
              else case s_topic store of
                None \<Rightarrow> release_inflight_loop n env c mid i True (db__message_remove c mosq_md_in i db)
              | Some topic \<Rightarrow>
                  (case sub__messages_queue env (s_source_id store) topic 2 (m_retain tail) (m_store tail) db of
                     ((rc, stored), db) \<Rightarrow>
                       let db = (if stored = None then db\<lparr>d_fault := True\<rparr> else db)
                       in if rc = MOSQ_ERR_SUCCESS \<or> rc = MOSQ_ERR_NO_SUBSCRIBERS
                          then release_inflight_loop n env c mid i True (db__message_remove c mosq_md_in i db)
                          else (Inl MOSQ_ERR_NOMEM, db)))"

text \<open>
  The second loop, over the queued messages; \<open>k\<close> of the visited ones are still in front of the
  current one, see \<open>reset_queued_loop\<close>.
\<close>

primrec release_queued_loop :: "nat \<Rightarrow> nat \<Rightarrow> cptr \<Rightarrow> nat \<Rightarrow> mosquitto_db \<Rightarrow> mosquitto_db" where
  "release_queued_loop 0 k c msg_index db = db"
| "release_queued_loop (Suc n) k c msg_index db =
     (if inflight_maximum (md_of c mosq_md_in db) \<noteq> 0
         \<and> msg_index \<ge> unat (inflight_maximum (md_of c mosq_md_in db)) then db
      else
        let db = upd_queued c mosq_md_in k (\<lambda>m. m\<lparr>m_timestamp := d_now_s db\<rparr>) db;
            tail = queued (md_of c mosq_md_in db) ! k
        in if m_qos tail = 2 then
             let db = snd (send__pubrec c (m_mid tail) 0 [] db);
                 db = upd_queued c mosq_md_in k (\<lambda>m. m\<lparr>m_state := mosq_ms_wait_for_pubrel\<rparr>) db
             in release_queued_loop n k c (Suc msg_index) (db__message_dequeue_first c mosq_md_in db)
           else release_queued_loop n (Suc k) c (Suc msg_index) db)"

definition db__message_release_incoming :: "acl_env \<Rightarrow> cptr \<Rightarrow> u16 \<Rightarrow> mosquitto_db \<Rightarrow> mosq_err \<times> mosquitto_db" where
  "db__message_release_incoming env c mid db =
     (let msg_index = length (inflight (md_of c mosq_md_in db))
      in case release_inflight_loop msg_index env c mid 0 False db of
           (Inl rc, db) \<Rightarrow> (rc, db)
         | (Inr deleted, db) \<Rightarrow>
             let db = release_queued_loop (length (queued (md_of c mosq_md_in db))) 0 c msg_index db
             in (if deleted then MOSQ_ERR_SUCCESS else MOSQ_ERR_NOT_FOUND, db))"

section \<open>Acknowledgements\<close>

text \<open>The packet identifier, the reason code and the properties of PUBACK, PUBREC, PUBREL and PUBCOMP.\<close>

definition read_ack :: "int \<Rightarrow> cptr \<Rightarrow> mosquitto__packet \<Rightarrow> mosquitto_db \<Rightarrow> (u16 \<times> u8) res \<times> mosquitto_db" where
  "read_ack command c packet db =
     (case packet__read_uint16 packet of
        (Inl e, packet) \<Rightarrow> (Inl e, db)
      | (Inr mid, packet) \<Rightarrow>
          if mid = 0 then (rc_fail MOSQ_ERR_PROTOCOL, db)
          else if c_protocol (get_ctx c db) = mosq_p_mqtt5 \<and> p_remaining_length packet > 2 then
            (case packet__read_byte packet of
               (Inl e, packet) \<Rightarrow> (Inl e, db)
             | (Inr reason_code, packet) \<Rightarrow>
                 if p_remaining_length packet > 3 then
                   (case read_props command packet db of
                      (Inl e, packet, db) \<Rightarrow> (Inl e, db)
                    | (Inr _, packet, db) \<Rightarrow> (Inr (mid, reason_code), db))
                 else (Inr (mid, reason_code), db))
          else (Inr (mid, 0), db))"

definition handle__pubackcomp :: "string \<Rightarrow> handler" where
  "handle__pubackcomp type c packet db =
     (if c_state (get_ctx c db) \<noteq> mosq_cs_active then (rc_fail MOSQ_ERR_PROTOCOL, db)
      else
        let db = util__increment_send_quota c db;
            qos = (if type ! 3 = CHR ''A'' then 1 else 2)
        in case read_ack CMD_PUBACK c packet db of
             (Inl e, db) \<Rightarrow> (Inl e, db)
           | (Inr (mid, reason_code), db) \<Rightarrow>
               (case db__message_delete_outgoing c mid mosq_ms_wait_for_pubcomp qos db of
                  (rc, db) \<Rightarrow> (if rc = MOSQ_ERR_NOT_FOUND then Inr () else rc_res rc, db)))"

definition handle__pubrec :: handler where
  "handle__pubrec c packet db =
     (if c_state (get_ctx c db) \<noteq> mosq_cs_active then (rc_fail MOSQ_ERR_PROTOCOL, db)
      else case read_ack CMD_PUBREC c packet db of
        (Inl e, db) \<Rightarrow> (Inl e, db)
      | (Inr (mid, reason_code), db) \<Rightarrow>
          if reason_code < 0x80 then
            (case db__message_update_outgoing c mid mosq_ms_wait_for_pubcomp 2 db of (rc, db) \<Rightarrow>
               if rc \<noteq> MOSQ_ERR_NOT_FOUND \<and> rc \<noteq> MOSQ_ERR_SUCCESS then (rc_res rc, db)
               else case send__pubrel c mid db of (rc, db) \<Rightarrow> (rc_res rc, db))
          else
            (case db__message_delete_outgoing c mid mosq_ms_wait_for_pubrec 2 db of (rc, db) \<Rightarrow> (rc_res rc, db)))"

definition handle__pubrel :: "acl_env \<Rightarrow> handler" where
  "handle__pubrel env c packet db =
     (if c_state (get_ctx c db) \<noteq> mosq_cs_active then (rc_fail MOSQ_ERR_PROTOCOL, db)
      else if c_protocol (get_ctx c db) \<noteq> mosq_p_mqtt31 \<and> p_command packet AND 0x0F \<noteq> 0x02
      then (rc_fail MOSQ_ERR_PROTOCOL, db)
      else case read_ack CMD_PUBREL c packet db of
        (Inl e, db) \<Rightarrow> (Inl e, db)
      | (Inr (mid, reason_code), db) \<Rightarrow>
          (case db__message_release_incoming env c mid db of (rc, db) \<Rightarrow>
             if rc \<noteq> MOSQ_ERR_NOT_FOUND \<and> rc \<noteq> MOSQ_ERR_SUCCESS then (rc_res rc, db)
             else case send__pubcomp c mid db of (rc, db) \<Rightarrow> (rc_res rc, db)))"

section \<open>Pings\<close>

definition handle__pingreq :: handler where
  "handle__pingreq c packet db =
     (if c_state (get_ctx c db) \<noteq> mosq_cs_active then (rc_fail MOSQ_ERR_PROTOCOL, db)
      else case send__pingresp c db of (rc, db) \<Rightarrow> (rc_res rc, db))"

definition handle__pingresp :: handler where
  "handle__pingresp c packet db =
     (if c_state (get_ctx c db) \<noteq> mosq_cs_active then (rc_fail MOSQ_ERR_PROTOCOL, db)
      else (Inr (), upd_ctx c (\<lambda>ctx. ctx\<lparr>c_ping_t := 0\<rparr>) db))"

section \<open>What a bridge receives\<close>

text \<open>The loop that reads the granted QoS; \<open>granted_qos\<close> has room for \<open>n\<close> more of them.\<close>

primrec suback_loop :: "nat \<Rightarrow> mosquitto__packet \<Rightarrow> unit res" where
  "suback_loop 0 packet = (if p_pos packet < p_remaining_length packet then Inl Oob else Inr ())"
| "suback_loop (Suc n) packet =
     (if p_pos packet < p_remaining_length packet then
        (case packet__read_byte packet of (Inl e, packet) \<Rightarrow> Inl e | (Inr qos, packet) \<Rightarrow> suback_loop n packet)
      else Inr ())"

definition handle__suback :: handler where
  "handle__suback c packet db =
     (if c_state (get_ctx c db) \<noteq> mosq_cs_active then (rc_fail MOSQ_ERR_PROTOCOL, db)
      else case packet__read_uint16 packet of
        (Inl e, packet) \<Rightarrow> (Inl e, db)
      | (Inr mid, packet) \<Rightarrow>
          if mid = 0 then (rc_fail MOSQ_ERR_PROTOCOL, db)
          else
            (case (if c_protocol (get_ctx c db) = mosq_p_mqtt5 then read_props CMD_SUBACK packet db
                   else (Inr [], packet, db)) of
               (Inl e, packet, db) \<Rightarrow> (Inl e, db)
             | (Inr _, packet, db) \<Rightarrow>
                 (case d_malloc db of
                    (False, db) \<Rightarrow> (rc_fail MOSQ_ERR_NOMEM, db)
                  | (True, db) \<Rightarrow> (suback_loop (unat (p_remaining_length packet - p_pos packet)) packet, db))))"

definition handle__unsuback :: handler where
  "handle__unsuback c packet db =
     (if c_state (get_ctx c db) \<noteq> mosq_cs_active then (rc_fail MOSQ_ERR_PROTOCOL, db)
      else case packet__read_uint16 packet of
        (Inl e, packet) \<Rightarrow> (Inl e, db)
      | (Inr mid, packet) \<Rightarrow>
          if mid = 0 then (rc_fail MOSQ_ERR_PROTOCOL, db)
          else if c_protocol (get_ctx c db) = mosq_p_mqtt5 then
            (case read_props CMD_UNSUBACK packet db of
               (Inl e, packet, db) \<Rightarrow> (Inl e, db)
             | (Inr _, packet, db) \<Rightarrow> (Inr (), db))
          else (Inr (), db))"

end
