(* ===== verification/Handle_Subs.thy ===== *)
theory Handle_Subs
  imports Handlers
begin

text \<open>
  \<open>src/handle_subscribe.c\<close> and \<open>src/handle_unsubscribe.c\<close>. The loops over the filters of a packet end
  because each round reads at least two bytes; that they do is a theorem. Whether
  \<open>current_out_packet\<close> is null after the SUBACK depends on the socket: it is the parameter \<open>idle\<close>.
\<close>

abbreviation "MQTT_RC_NOT_AUTHORIZED \<equiv> (135 :: u8)"
abbreviation "MQTT_SUB_OPT_SEND_RETAIN_ALWAYS \<equiv> (0x00 :: u8)"
abbreviation "MQTT_SUB_OPT_SEND_RETAIN_NEW \<equiv> (0x10 :: u8)"

text \<open>A received string as a C string.\<close>

definition cstring :: "u8 list option \<Rightarrow> string option" where
  "cstring str = map_option (\<lambda>bs. map (\<lambda>b. char_of (unat b)) (takeWhile (\<lambda>b. b \<noteq> 0) bs)) str"

text \<open>Codes above 0 are failures for the caller of \<open>sub__add\<close>, those below 0 are not.\<close>

definition rc_positive :: "mosq_err \<Rightarrow> bool" where
  "rc_positive rc \<longleftrightarrow> rc \<notin> {MOSQ_ERR_AUTH_CONTINUE, MOSQ_ERR_NO_SUBSCRIBERS, MOSQ_ERR_SUB_EXISTS,
     MOSQ_ERR_CONN_PENDING, MOSQ_ERR_SUCCESS}"

section \<open>SUBSCRIBE\<close>

text \<open>The options byte of a filter: QoS, options for \<open>sub__add\<close>, retain handling.\<close>

definition subscribe_options :: "mosquitto \<Rightarrow> u8 \<Rightarrow> (u8 \<times> u8 \<times> u8) res" where
  "subscribe_options ctx subscription_options =
     (case (if c_protocol ctx = mosq_p_mqtt31 \<or> c_protocol ctx = mosq_p_mqtt311
            then Inr (subscription_options,
              if c_is_bridge ctx then MQTT_SUB_OPT_RETAIN_AS_PUBLISHED OR MQTT_SUB_OPT_NO_LOCAL else subscription_options, 0)
            else
              let qos = subscription_options AND 0x03;
                  subscription_options = subscription_options AND 0xFC;
                  retain_handling = subscription_options AND 0x30
              in if retain_handling = 0x30 \<or> subscription_options AND 0xC0 \<noteq> 0
                 then rc_fail MOSQ_ERR_MALFORMED_PACKET else Inr (qos, subscription_options, retain_handling)) of
        Inl e \<Rightarrow> Inl e
      | Inr (qos, subscription_options, retain_handling) \<Rightarrow>
          if qos > 2 then rc_fail MOSQ_ERR_MALFORMED_PACKET
          else Inr (if qos > c_max_qos ctx then c_max_qos ctx else qos, subscription_options, retain_handling))"

text \<open>The filter with the mount point of the listener in front.\<close>

definition mount :: "mosquitto \<Rightarrow> string \<Rightarrow> mosquitto_db \<Rightarrow> string res \<times> mosquitto_db" where
  "mount ctx sub db =
     (case (case c_listener ctx of None \<Rightarrow> None | Some l \<Rightarrow> ls_mount_point l) of
        None \<Rightarrow> (Inr sub, db)
      | Some m \<Rightarrow> (case d_malloc db of (False, db) \<Rightarrow> (rc_fail MOSQ_ERR_NOMEM, db) | (True, db) \<Rightarrow> (Inr (m @ sub), db)))"

text \<open>Subscribing to a filter that access control allows; the boolean is the failure of \<open>retain__queue\<close>.\<close>

definition subscribe_allowed ::
    "acl_env \<Rightarrow> cptr \<Rightarrow> u32 \<Rightarrow> string \<Rightarrow> u8 \<times> u8 \<times> u8 \<Rightarrow> mosquitto_db \<Rightarrow> bool res \<times> mosquitto_db" where
  "subscribe_allowed env c identifier sub opts db =
     (case opts of (qos, subscription_options, retain_handling) \<Rightarrow>
      (case sub__add c sub qos identifier subscription_options db of (rc2, db) \<Rightarrow>
         if rc_positive rc2 then (Inl (Rc rc2), db)
         else if c_protocol (get_ctx c db) = mosq_p_mqtt311 \<or> c_protocol (get_ctx c db) = mosq_p_mqtt31 then
           (if rc2 = MOSQ_ERR_SUCCESS \<or> rc2 = MOSQ_ERR_SUB_EXISTS
            then case retain__queue env c sub qos 0 db of (rc, db) \<Rightarrow> (Inr (rc \<noteq> MOSQ_ERR_SUCCESS), db)
            else (Inr False, db))
         else
           (if retain_handling = MQTT_SUB_OPT_SEND_RETAIN_ALWAYS
               \<or> (rc2 = MOSQ_ERR_SUCCESS \<and> retain_handling = MQTT_SUB_OPT_SEND_RETAIN_NEW)
            then case retain__queue env c sub qos identifier db of (rc, db) \<Rightarrow> (Inr (rc \<noteq> MOSQ_ERR_SUCCESS), db)
            else (Inr False, db))))"

definition denied_code :: "mosquitto \<Rightarrow> u8 \<Rightarrow> u8" where
  "denied_code ctx qos =
     (if c_protocol ctx = mosq_p_mqtt5 then MQTT_RC_NOT_AUTHORIZED
      else if c_protocol ctx = mosq_p_mqtt311 then 0x80 else qos)"

text \<open>A round of the loop after its filter was read: the code for the SUBACK.\<close>

definition subscribe_filter ::
    "acl_env \<Rightarrow> cptr \<Rightarrow> u32 \<Rightarrow> string \<Rightarrow> mosquitto__packet \<Rightarrow> mosquitto_db \<Rightarrow>
     (u8 \<times> bool) res \<times> mosquitto__packet \<times> mosquitto_db" where
  "subscribe_filter env c identifier sub packet db =
     (case mosquitto_sub_topic_check (Some sub) of
        Inl e \<Rightarrow> (malformed e, packet, db)
      | Inr _ \<Rightarrow>
          (case packet__read_byte packet of
             (Inl e, packet) \<Rightarrow> (malformed e, packet, db)
           | (Inr byte, packet) \<Rightarrow>
               (case subscribe_options (get_ctx c db) byte of
                  Inl e \<Rightarrow> (Inl e, packet, db)
                | Inr (qos, opts) \<Rightarrow>
                    (case mount (get_ctx c db) sub db of
                       (Inl e, db) \<Rightarrow> (Inl e, packet, db)
                     | (Inr sub, db) \<Rightarrow>
                         let rc2 = acl_check env (get_ctx c db) (Some sub) (msg0\<lparr>s_qos := qos\<rparr>) MOSQ_ACL_SUBSCRIBE
                         in if rc2 \<noteq> MOSQ_ERR_SUCCESS \<and> rc2 \<noteq> MOSQ_ERR_ACL_DENIED then (Inl (Rc rc2), packet, db)
                            else
                              (case (if rc2 = MOSQ_ERR_SUCCESS then subscribe_allowed env c identifier sub (qos, opts) db
                                     else (Inr False, db)) of
                                 (Inl e, db) \<Rightarrow> (Inl e, packet, db)
                               | (Inr failed, db) \<Rightarrow>
                                   (case d_malloc db of
                                      (False, db) \<Rightarrow> (rc_fail MOSQ_ERR_NOMEM, packet, db)
                                    | (True, db) \<Rightarrow>
                                        (Inr (if rc2 = MOSQ_ERR_SUCCESS then qos else denied_code (get_ctx c db) qos, failed),
                                         packet, db)))))))"

partial_function (option) subscribe_loop ::
    "acl_env \<Rightarrow> cptr \<Rightarrow> u32 \<Rightarrow> mosquitto__packet \<Rightarrow> u8 list \<Rightarrow> bool \<Rightarrow> mosquitto_db \<Rightarrow>
     ((u8 list \<times> bool) res \<times> mosquitto_db) option" where
  "subscribe_loop env c identifier packet payload failed db =
     (if p_pos packet < p_remaining_length packet then
        (case packet__read_string packet (d_mem db) of
           (Inl e, packet, mem) \<Rightarrow> Some (malformed e, db\<lparr>d_mem := mem\<rparr>)
         | (Inr (sub, slen), packet, mem) \<Rightarrow>
             (case cstring sub of
                None \<Rightarrow> subscribe_loop env c identifier packet payload failed (db\<lparr>d_mem := mem\<rparr>)
              | Some sub \<Rightarrow>
                  if slen = 0 then Some (rc_fail MOSQ_ERR_MALFORMED_PACKET, db\<lparr>d_mem := mem\<rparr>)
                  else
                    (case subscribe_filter env c identifier sub packet (db\<lparr>d_mem := mem\<rparr>) of
                       (Inl e, packet, db) \<Rightarrow> Some (Inl e, db)
                     | (Inr (code, f), packet, db) \<Rightarrow>
                         subscribe_loop env c identifier packet (payload @ [code]) (failed \<or> f) db)))
      else Some (Inr (payload, failed), db))"

declare subscribe_loop.simps [code]

text \<open>The identifier and, for MQTT 5, the properties in front of the filters.\<close>

definition read_mid :: "mosquitto__packet \<Rightarrow> u16 res \<times> mosquitto__packet" where
  "read_mid packet =
     (case packet__read_uint16 packet of
        (Inl e, packet) \<Rightarrow> (malformed e, packet)
      | (Inr mid, packet) \<Rightarrow> if mid = 0 then (rc_fail MOSQ_ERR_MALFORMED_PACKET, packet) else (Inr mid, packet))"

definition props_or_malformed ::
    "int \<Rightarrow> cptr \<Rightarrow> mosquitto__packet \<Rightarrow> mosquitto_db \<Rightarrow> mqtt5__property list res \<times> mosquitto__packet \<times> mosquitto_db" where
  "props_or_malformed command c packet db =
     (if c_protocol (get_ctx c db) = mosq_p_mqtt5 then
        (case read_props command packet db of
           (Inl e, packet, db) \<Rightarrow> (if e = Rc MOSQ_ERR_PROTOCOL then malformed e else Inl e, packet, db)
         | r \<Rightarrow> r)
      else (Inr [], packet, db))"

definition subscribe_reply ::
    "(mosquitto_db \<Rightarrow> bool) \<Rightarrow> cptr \<Rightarrow> u16 \<Rightarrow> u8 list \<Rightarrow> bool \<Rightarrow> mosquitto_db \<Rightarrow> unit res \<times> mosquitto_db" where
  "subscribe_reply idle c mid payload failed db =
     (case d_send c (Suback mid payload) db of (rc, db) \<Rightarrow>
        let failed = (failed \<or> rc \<noteq> MOSQ_ERR_SUCCESS);
            db = db\<lparr>d_persistence_changes := d_persistence_changes db + 1\<rparr>
        in if idle db then
             (case db__message_write_queued_out c db of (rc, db) \<Rightarrow>
                if rc \<noteq> MOSQ_ERR_SUCCESS then (rc_res rc, db)
                else case db__message_write_inflight_out_latest c db of (rc, db) \<Rightarrow> (rc_res rc, db))
           else (if failed then rc_fail MOSQ_ERR_NOMEM else Inr (), db))"

definition handle__subscribe :: "(mosquitto_db \<Rightarrow> bool) \<Rightarrow> acl_env \<Rightarrow> handler" where
  "handle__subscribe idle env c packet db =
     (if c_state (get_ctx c db) \<noteq> mosq_cs_active then (rc_fail MOSQ_ERR_PROTOCOL, db)
      else if c_protocol (get_ctx c db) \<noteq> mosq_p_mqtt31 \<and> p_command packet AND 0x0F \<noteq> 0x02
      then (rc_fail MOSQ_ERR_MALFORMED_PACKET, db)
      else case read_mid packet of
        (Inl e, packet) \<Rightarrow> (Inl e, db)
      | (Inr mid, packet) \<Rightarrow>
          (case props_or_malformed CMD_SUBSCRIBE c packet db of
             (Inl e, packet, db) \<Rightarrow> (Inl e, db)
           | (Inr properties, packet, db) \<Rightarrow>
               let identifier = snd (mosquitto_property_read_varint properties MQTT_PROP_SUBSCRIPTION_IDENTIFIER False)
               in if identifier = Some 0 then (rc_fail MOSQ_ERR_MALFORMED_PACKET, db)
                  else
                    (case subscribe_loop env c (case identifier of None \<Rightarrow> 0 | Some i \<Rightarrow> i) packet [] False db of
                       None \<Rightarrow> (Inl Assert_fail, db)
                     | Some (Inl e, db) \<Rightarrow> (Inl e, db)
                     | Some (Inr (payload, failed), db) \<Rightarrow>
                         if c_protocol (get_ctx c db) \<noteq> mosq_p_mqtt31 \<and> payload = []
                         then (rc_fail MOSQ_ERR_MALFORMED_PACKET, db)
                         else subscribe_reply idle c mid payload failed db)))"

section \<open>UNSUBSCRIBE\<close>

text \<open>A round of the loop after its filter was read; \<open>reason\<close> keeps its value from the round before.\<close>

definition unsubscribe_filter :: "acl_env \<Rightarrow> cptr \<Rightarrow> string \<Rightarrow> u8 \<Rightarrow> mosquitto_db \<Rightarrow> u8 res \<times> mosquitto_db" where
  "unsubscribe_filter env c sub reason db =
     (case mosquitto_sub_topic_check (Some sub) of
        Inl e \<Rightarrow> (malformed e, db)
      | Inr _ \<Rightarrow>
          let rc = acl_check env (get_ctx c db) (Some sub) msg0 MOSQ_ACL_UNSUBSCRIBE
          in if rc = MOSQ_ERR_SUCCESS then
               (case sub__remove c sub reason db of ((rc, reason), db) \<Rightarrow>
                  (if rc \<noteq> MOSQ_ERR_SUCCESS then Inl (Rc rc) else Inr reason, db))
             else if rc = MOSQ_ERR_ACL_DENIED then (Inr MQTT_RC_NOT_AUTHORIZED, db)
             else (Inl (Rc rc), db))"

text \<open>The array of reason codes has room for \<open>code_max\<close> of them; it is doubled when it is full.\<close>

partial_function (option) unsubscribe_loop ::
    "acl_env \<Rightarrow> cptr \<Rightarrow> mosquitto__packet \<Rightarrow> u8 list \<Rightarrow> nat \<Rightarrow> u8 \<Rightarrow> mosquitto_db \<Rightarrow> (u8 list res \<times> mosquitto_db) option" where
  "unsubscribe_loop env c packet codes code_max reason db =
     (if p_pos packet < p_remaining_length packet then
        (case packet__read_string packet (d_mem db) of
           (Inl e, packet, mem) \<Rightarrow> Some (malformed e, db\<lparr>d_mem := mem\<rparr>)
         | (Inr (sub, slen), packet, mem) \<Rightarrow>
             (case cstring sub of
                None \<Rightarrow> Some (rc_fail MOSQ_ERR_MALFORMED_PACKET, db\<lparr>d_mem := mem\<rparr>)
              | Some sub \<Rightarrow>
                  (case unsubscribe_filter env c sub reason (db\<lparr>d_mem := mem\<rparr>) of
                     (Inl e, db) \<Rightarrow> Some (Inl e, db)
                   | (Inr reason, db) \<Rightarrow>
                       if code_max \<le> length codes then Some (Inl Oob, db)
                       else if Suc (length codes) = code_max then
                         (case d_malloc db of (ok, db) \<Rightarrow>
                            if \<not> ok then Some (rc_fail MOSQ_ERR_NOMEM, db)
                            else unsubscribe_loop env c packet (codes @ [reason]) (2 * code_max) reason db)
                       else unsubscribe_loop env c packet (codes @ [reason]) code_max reason db)))
      else Some (Inr codes, db))"

declare unsubscribe_loop.simps [code]

definition handle__unsubscribe :: "acl_env \<Rightarrow> handler" where
  "handle__unsubscribe env c packet db =
     (if c_state (get_ctx c db) \<noteq> mosq_cs_active then (rc_fail MOSQ_ERR_PROTOCOL, db)
      else if c_protocol (get_ctx c db) \<noteq> mosq_p_mqtt31 \<and> p_command packet AND 0x0F \<noteq> 0x02
      then (rc_fail MOSQ_ERR_MALFORMED_PACKET, db)
      else case read_mid packet of
        (Inl e, packet) \<Rightarrow> (Inl e, db)
      | (Inr mid, packet) \<Rightarrow>
          (case props_or_malformed CMD_UNSUBSCRIBE c packet db of
             (Inl e, packet, db) \<Rightarrow> (Inl e, db)
           | (Inr _, packet, db) \<Rightarrow>
               if (c_protocol (get_ctx c db) = mosq_p_mqtt311 \<or> c_protocol (get_ctx c db) = mosq_p_mqtt5)
                  \<and> p_pos packet = p_remaining_length packet
               then (rc_fail MOSQ_ERR_MALFORMED_PACKET, db)
               else (case d_malloc db of
                 (False, db) \<Rightarrow> (rc_fail MOSQ_ERR_NOMEM, db)
               | (True, db) \<Rightarrow>
                   (case unsubscribe_loop env c packet [] 10 0 db of
                      None \<Rightarrow> (Inl Assert_fail, db)
                    | Some (Inl e, db) \<Rightarrow> (Inl e, db)
                    | Some (Inr codes, db) \<Rightarrow>
                        (let db = db\<lparr>d_persistence_changes := d_persistence_changes db + 1\<rparr>
                         in case d_send c (Unsuback mid codes) db of (rc, db) \<Rightarrow> (rc_res rc, db))))))"

end
