(* ===== verification/Handle_Publish.thy ===== *)
theory Handle_Publish
  imports Handle_Subs
begin

text \<open>
  \<open>src/handle_publish.c\<close> with what only it uses: topic aliases (\<open>lib/alias_mosq.c\<close>), the topics of a
  bridge (\<open>bridge__remap_topic_in\<close>), control topics (\<open>src/control.c\<close>) and the callbacks of plugins
  (\<open>plugin__handle_message\<close>), and \<open>db__messages_easy_queue\<close> of \<open>src/database.c\<close>. The callbacks are
  parameters: a callback gets the fields of the event and returns a code and the new fields.
\<close>

section \<open>Callbacks of plugins\<close>

text \<open>\<open>ev_replaced\<close>: the payload is a new buffer; only then its length is taken over.\<close>

record mosquitto_evt_message =
  ev_topic :: "string option"
  ev_payload :: "u8 list"
  ev_payloadlen :: u32
  ev_replaced :: bool
  ev_retain :: bool
  ev_properties :: "mqtt5__property list"

text \<open>A control callback returns a code and possibly a reason string.\<close>

record mosquitto__security_options =
  cb_message :: "(mosquitto \<Rightarrow> u8 \<Rightarrow> mosquitto_evt_message \<Rightarrow> mosq_err \<times> mosquitto_evt_message) list"
  cb_control :: "(string, mosquitto \<Rightarrow> mosquitto_msg_store \<Rightarrow> mosq_err \<times> u8 list option) ht"

text \<open>What the handlers take from outside: access control, callbacks, and the socket after a SUBACK.\<close>

record broker_env =
  e_acl :: acl_env
  e_idle :: "mosquitto_db \<Rightarrow> bool"
  e_per_listener_settings :: bool
  e_options :: mosquitto__security_options
  e_listener_options :: "mosquitto__listener \<Rightarrow> mosquitto__security_options"

section \<open>Topic aliases\<close>

definition alias__add :: "cptr \<Rightarrow> string \<Rightarrow> u16 \<Rightarrow> mosquitto_db \<Rightarrow> mosq_err \<times> mosquitto_db" where
  "alias__add c topic alias db =
     (case find_index (\<lambda>a. fst a = alias) (c_aliases (get_ctx c db)) of
        Some i \<Rightarrow>
          (case d_malloc db of (ok, db) \<Rightarrow>
             (if ok then MOSQ_ERR_SUCCESS else MOSQ_ERR_NOMEM,
              upd_ctx c (\<lambda>ctx. ctx\<lparr>c_aliases := (c_aliases ctx)[i := (alias, if ok then Some topic else None)]\<rparr>) db))
      | None \<Rightarrow>
          (case d_malloc db of
             (False, db) \<Rightarrow> (MOSQ_ERR_NOMEM, db)
           | (True, db) \<Rightarrow>
               (case d_malloc db of
                  (False, db) \<Rightarrow> (MOSQ_ERR_NOMEM, db)
                | (True, db) \<Rightarrow>
                    (MOSQ_ERR_SUCCESS, upd_ctx c (\<lambda>ctx. ctx\<lparr>c_aliases := c_aliases ctx @ [(alias, Some topic)]\<rparr>) db))))"

definition alias__find :: "cptr \<Rightarrow> u16 \<Rightarrow> mosquitto_db \<Rightarrow> string res \<times> mosquitto_db" where
  "alias__find c alias db =
     (case find (\<lambda>a. fst a = alias) (c_aliases (get_ctx c db)) of
        None \<Rightarrow> (rc_fail MOSQ_ERR_INVAL, db)
      | Some (_, None) \<Rightarrow> (Inl Null_deref, db)
      | Some (_, Some topic) \<Rightarrow>
          (case d_malloc db of (ok, db) \<Rightarrow> (if ok then Inr topic else rc_fail MOSQ_ERR_NOMEM, db)))"

definition alias__free_all :: "cptr \<Rightarrow> mosquitto_db \<Rightarrow> mosquitto_db" where
  "alias__free_all c = upd_ctx c (\<lambda>ctx. ctx\<lparr>c_aliases := []\<rparr>)"

section \<open>Topics of a bridge\<close>

text \<open>
  The pointer \<open>msg->topic\<close>: null, a string, or a string that was freed while the pointer stayed.
  Freeing a null pointer has no effect; freeing a string twice is a fault, and so is reading it.
\<close>

datatype string_ptr = Null_str | Live string | Freed

definition string_ptr :: "string option \<Rightarrow> string_ptr" where
  "string_ptr s = (case s of None \<Rightarrow> Null_str | Some s \<Rightarrow> Live s)"

definition str_of :: "string_ptr \<Rightarrow> string option res" where
  "str_of p = (case p of Null_str \<Rightarrow> Inr None | Live s \<Rightarrow> Inr (Some s) | Freed \<Rightarrow> Inl Oob)"

definition free_str :: "string_ptr \<Rightarrow> mosquitto_db \<Rightarrow> string_ptr \<times> mosquitto_db" where
  "free_str p db =
     (case p of Null_str \<Rightarrow> (Null_str, db) | Live s \<Rightarrow> (Freed, db) | Freed \<Rightarrow> (Freed, db\<lparr>d_fault := True\<rparr>))"

text \<open>
  Both replacements of the topic: a new string is allocated, the old one is freed; without memory
  the old one is freed as well and the pointer stays.
\<close>

definition replace_topic :: "string_ptr \<Rightarrow> string \<Rightarrow> mosquitto_db \<Rightarrow> unit res \<times> string_ptr \<times> mosquitto_db" where
  "replace_topic topic topic_temp db =
     (case d_malloc db of
        (False, db) \<Rightarrow> (case free_str topic db of (topic, db) \<Rightarrow> (rc_fail MOSQ_ERR_NOMEM, topic, db))
      | (True, db) \<Rightarrow> (case free_str topic db of (_, db) \<Rightarrow> (Inr (), Live topic_temp, db)))"

text \<open>A topic that matches: the remote prefix is taken away and the local prefix put in front.\<close>

definition map_topic_in ::
    "mosquitto__bridge_topic \<Rightarrow> string_ptr \<Rightarrow> mosquitto_db \<Rightarrow> unit res \<times> string_ptr \<times> mosquitto_db" where
  "map_topic_in cur_topic topic db =
     (case (case bt_remote_prefix cur_topic of
              None \<Rightarrow> (Inr (), topic, db)
            | Some prefix \<Rightarrow>
                (case str_of topic of
                   Inl e \<Rightarrow> (Inl e, topic, db)
                 | Inr None \<Rightarrow> (Inl Null_deref, topic, db)
                 | Inr (Some t) \<Rightarrow>
                     if take (length prefix) t = prefix then replace_topic topic (drop (length prefix) t) db
                     else (Inr (), topic, db))) of
        (Inl e, topic, db) \<Rightarrow> (Inl e, topic, db)
      | (Inr _, topic, db) \<Rightarrow>
          (case bt_local_prefix cur_topic of
             None \<Rightarrow> (Inr (), topic, db)
           | Some prefix \<Rightarrow>
               (case str_of topic of
                  Inl e \<Rightarrow> (Inl e, topic, db)
                | Inr None \<Rightarrow> (Inl Null_deref, topic, db)
                | Inr (Some t) \<Rightarrow> replace_topic topic (prefix @ t) db)))"

text \<open>The loop over the topics of the bridge; a failing match frees the topic and leaves the pointer.\<close>

primrec remap_in ::
    "mosquitto__bridge_topic list \<Rightarrow> string_ptr \<Rightarrow> mosquitto_db \<Rightarrow> unit res \<times> string_ptr \<times> mosquitto_db" where
  "remap_in [] topic db = (Inr (), topic, db)"
| "remap_in (cur_topic # topics) topic db =
     (if (bt_direction cur_topic = bd_both \<or> bt_direction cur_topic = bd_in)
         \<and> (bt_remote_prefix cur_topic \<noteq> None \<or> bt_local_prefix cur_topic \<noteq> None) then
        (case str_of topic of
           Inl e \<Rightarrow> (Inl e, topic, db)
         | Inr t \<Rightarrow>
             (case mosquitto_topic_matches_sub (bt_remote_topic cur_topic) t True of
                Inl (Rc rc) \<Rightarrow> (case free_str topic db of (topic, db) \<Rightarrow> (Inl (Rc rc), topic, db))
              | Inl e \<Rightarrow> (Inl e, topic, db)
              | Inr match \<Rightarrow> if match then map_topic_in cur_topic topic db else remap_in topics topic db))
      else remap_in topics topic db)"

definition bridge__remap_topic_in :: "cptr \<Rightarrow> string_ptr \<Rightarrow> mosquitto_db \<Rightarrow> unit res \<times> string_ptr \<times> mosquitto_db" where
  "bridge__remap_topic_in c topic db =
     (case c_bridge (get_ctx c db) of
        None \<Rightarrow> (Inr (), topic, db)
      | Some bridge \<Rightarrow> if b_topic_remapping bridge then remap_in (b_topics bridge) topic db else (Inr (), topic, db))"

section \<open>Control topics and plugins\<close>

text \<open>The reason string as a property list, with the allocations that it takes.\<close>

definition reason_property :: "u8 list \<Rightarrow> mosquitto_db \<Rightarrow> mqtt5__property list \<times> mosquitto_db" where
  "reason_property reason_string db =
     (case mosquitto_property_add_string (Some []) MQTT_PROP_REASON_STRING (Some reason_string) (d_mem db) of
        Inl (Rc MOSQ_ERR_MALFORMED_UTF8) \<Rightarrow> ([], db)
      | r \<Rightarrow>
          (case d_malloc db of (ok, db) \<Rightarrow>
             ((case r of Inl _ \<Rightarrow> [] | Inr ps \<Rightarrow> ps), if ok \<and> reason_string \<noteq> [] then snd (d_malloc db) else db)))"

definition control_ack :: "cptr \<Rightarrow> mosquitto_msg_store \<Rightarrow> mosq_err \<Rightarrow> mqtt5__property list \<Rightarrow> mosquitto_db \<Rightarrow> unit res \<times> mosquitto_db" where
  "control_ack c stored rc properties db =
     (if s_qos stored = 1 then
        (case send__puback c (s_source_mid stored) 0 properties db of (rc2, db) \<Rightarrow>
           (if rc2 \<noteq> MOSQ_ERR_SUCCESS then rc_fail MOSQ_ERR_NOMEM else rc_res rc, db))
      else if s_qos stored = 2 then
        (case send__pubrec c (s_source_mid stored) 0 properties db of (rc2, db) \<Rightarrow>
           (if rc2 \<noteq> MOSQ_ERR_SUCCESS then rc_fail MOSQ_ERR_NOMEM else rc_res rc, db))
      else (rc_res rc, db))"

definition control__process :: "broker_env \<Rightarrow> cptr \<Rightarrow> mosquitto_msg_store \<Rightarrow> mosquitto_db \<Rightarrow> unit res \<times> mosquitto_db" where
  "control__process env c stored db =
     (case (if e_per_listener_settings env then map_option (e_listener_options env) (c_listener (get_ctx c db))
            else Some (e_options env)) of
        None \<Rightarrow> (Inl Null_deref, db)
      | Some opts \<Rightarrow>
          (case (case s_topic stored of None \<Rightarrow> None | Some t \<Rightarrow> ht_find t (cb_control opts)) of
             None \<Rightarrow> control_ack c stored MOSQ_ERR_SUCCESS [] db
           | Some cb \<Rightarrow>
               (case cb (get_ctx c db) stored of (rc, reason_string) \<Rightarrow>
                 (case (case reason_string of
                          Some r \<Rightarrow> if rc \<noteq> MOSQ_ERR_SUCCESS \<and> c_protocol (get_ctx c db) = mosq_p_mqtt5
                                    then reason_property r db else ([], db)
                        | None \<Rightarrow> ([], db)) of
                    (properties, db) \<Rightarrow> control_ack c stored rc properties db))))"

primrec run_callbacks ::
    "(mosquitto \<Rightarrow> u8 \<Rightarrow> mosquitto_evt_message \<Rightarrow> mosq_err \<times> mosquitto_evt_message) list \<Rightarrow> mosquitto \<Rightarrow> u8 \<Rightarrow>
     mosquitto_evt_message \<Rightarrow> mosq_err \<times> mosquitto_evt_message" where
  "run_callbacks [] ctx qos ev = (MOSQ_ERR_SUCCESS, ev)"
| "run_callbacks (cb # cbs) ctx qos ev =
     (case cb ctx qos ev of (rc, ev) \<Rightarrow> if rc \<noteq> MOSQ_ERR_SUCCESS then (rc, ev) else run_callbacks cbs ctx qos ev)"

definition plugin__handle_message ::
    "broker_env \<Rightarrow> mosquitto \<Rightarrow> mosquitto_msg_store \<Rightarrow> mosq_err \<times> mosquitto_msg_store" where
  "plugin__handle_message env ctx stored =
     (case (if e_per_listener_settings env then map_option (e_listener_options env) (c_listener ctx)
            else Some (e_options env)) of
        None \<Rightarrow> (MOSQ_ERR_SUCCESS, stored)
      | Some opts \<Rightarrow>
          if cb_message opts = [] then (MOSQ_ERR_SUCCESS, stored)
          else
            (case run_callbacks (cb_message opts) ctx (s_qos stored)
                    \<lparr>ev_topic = s_topic stored, ev_payload = s_payload stored, ev_payloadlen = s_payloadlen stored,
                     ev_replaced = False, ev_retain = s_retain stored, ev_properties = s_properties stored\<rparr> of
               (rc, ev) \<Rightarrow>
                 (rc,
                  let stored = stored\<lparr>s_topic := ev_topic ev, s_retain := ev_retain ev, s_properties := ev_properties ev,
                                      s_payload := ev_payload ev\<rparr>
                  in if ev_replaced ev then stored\<lparr>s_payloadlen := ev_payloadlen ev\<rparr> else stored)))"

section \<open>PUBLISH\<close>

text \<open>QoS and retain flag of the header.\<close>

definition publish_flags :: "mosquitto \<Rightarrow> mosquitto_db \<Rightarrow> u8 \<Rightarrow> (u8 \<times> bool) res" where
  "publish_flags ctx db header =
     (let qos = drop_bit 1 (header AND 0x06); retain = header AND 0x01 \<noteq> 0
      in if qos = 3 then rc_fail MOSQ_ERR_MALFORMED_PACKET
         else if qos > c_max_qos ctx then rc_fail MOSQ_ERR_QOS_NOT_SUPPORTED
         else if retain \<and> \<not> retain_available (d_config db) then rc_fail MOSQ_ERR_RETAIN_NOT_SUPPORTED
         else Inr (qos, retain))"

text \<open>The properties that stay with the message, the topic alias and the expiry interval.\<close>

primrec publish_props ::
    "mqtt5__property list \<Rightarrow> mqtt5__property list \<times> int \<times> u32 \<Rightarrow> mqtt5__property list \<times> int \<times> u32" where
  "publish_props [] r = r"
| "publish_props (p # ps) r =
     publish_props ps
       (case r of (props, topic_alias, expiry) \<Rightarrow>
         if pr_identifier p \<in> set [MQTT_PROP_CONTENT_TYPE, MQTT_PROP_CORRELATION_DATA, MQTT_PROP_PAYLOAD_FORMAT_INDICATOR,
              MQTT_PROP_RESPONSE_TOPIC, MQTT_PROP_USER_PROPERTY]
         then (props @ [p], topic_alias, expiry)
         else if pr_identifier p = MQTT_PROP_TOPIC_ALIAS then (props, uint (pr_i16 p), expiry)
         else if pr_identifier p = MQTT_PROP_MESSAGE_EXPIRY_INTERVAL then (props, topic_alias, pr_i32 p)
         else r)"

text \<open>The topic after the alias.\<close>

definition publish_alias :: "cptr \<Rightarrow> string option \<Rightarrow> int \<Rightarrow> mosquitto_db \<Rightarrow> string option res \<times> mosquitto_db" where
  "publish_alias c topic topic_alias db =
     (if topic_alias = 0
         \<or> (case c_listener (get_ctx c db) of None \<Rightarrow> False | Some l \<Rightarrow> topic_alias > uint (ls_max_topic_alias l))
      then (rc_fail MOSQ_ERR_TOPIC_ALIAS_INVALID, db)
      else if topic_alias > 0 then
        (case topic of
           Some t \<Rightarrow> (case alias__add c t (word_of_int topic_alias) db of (rc, db) \<Rightarrow>
             (if rc \<noteq> MOSQ_ERR_SUCCESS then Inl (Rc rc) else Inr topic, db))
         | None \<Rightarrow> (case alias__find c (word_of_int topic_alias) db of
             (Inl (Rc _), db) \<Rightarrow> (rc_fail MOSQ_ERR_PROTOCOL, db)
           | (Inl e, db) \<Rightarrow> (Inl e, db)
           | (Inr t, db) \<Rightarrow> (Inr (Some t), db)))
      else (Inr topic, db))"

text \<open>
  The topic after the alias and the topics of the bridge. On every failure the handler calls
  \<open>db__msg_store_free\<close>, which frees the topic. (It does so at its other error returns as well; before
  \<open>bridge__remap_topic_in\<close> and after it succeeded the topic is null or alive.)
\<close>

definition publish_topic :: "cptr \<Rightarrow> string option \<Rightarrow> int \<Rightarrow> mosquitto_db \<Rightarrow> string res \<times> mosquitto_db" where
  "publish_topic c topic topic_alias db =
     (case publish_alias c topic topic_alias db of
        (Inl e, db) \<Rightarrow> (Inl e, db)
      | (Inr topic, db) \<Rightarrow>
          (case bridge__remap_topic_in c (string_ptr topic) db of
             (Inl (Rc rc), topic, db) \<Rightarrow> (Inl (Rc rc), snd (free_str topic db))
           | (Inl e, topic, db) \<Rightarrow> (Inl e, db)
           | (Inr _, topic, db) \<Rightarrow>
               (case str_of topic of
                  Inl e \<Rightarrow> (Inl e, db)
                | Inr t \<Rightarrow>
                    (case mosquitto_pub_topic_check t of
                       Inl (Rc _) \<Rightarrow> (rc_fail MOSQ_ERR_PROTOCOL, snd (free_str topic db))
                     | Inl e \<Rightarrow> (Inl e, db)
                     | Inr _ \<Rightarrow> (case t of None \<Rightarrow> (Inl Null_deref, db) | Some t \<Rightarrow> (Inr t, db))))))"

text \<open>\<open>process_bad_message\<close>.\<close>

definition publish_refused :: "cptr \<Rightarrow> mosquitto_msg_store \<Rightarrow> u8 \<Rightarrow> mosquitto_db \<Rightarrow> unit res \<times> mosquitto_db" where
  "publish_refused c msg reason_code db =
     (if s_qos msg = 0 then (Inr (), db)
      else if s_qos msg = 1 then
        (case send__puback c (s_source_mid msg) reason_code [] db of (rc, db) \<Rightarrow> (rc_res rc, db))
      else if s_qos msg = 2 then
        (case send__pubrec c (s_source_mid msg) reason_code [] db of (rc, db) \<Rightarrow> (rc_res rc, db))
      else (rc_fail MOSQ_ERR_NOMEM, db))"

text \<open>The \<open>switch(stored->qos)\<close>, for the message at \<open>stored\<close>; \<open>mid\<close> is the identifier of the packet.\<close>

definition publish_switch ::
    "acl_env \<Rightarrow> cptr \<Rightarrow> u16 \<Rightarrow> mptr \<Rightarrow> bool \<Rightarrow> mosquitto_db \<Rightarrow> unit res \<times> mosquitto_db" where
  "publish_switch env c mid stored dup db =
     (let db = touch stored db; store = stored_at stored db; ctx = get_ctx c db
      in case s_topic store of
           None \<Rightarrow> (Inl Null_deref, db)
         | Some topic \<Rightarrow>
             if s_qos store = 0 then
               (case sub__messages_queue env (c_id ctx) topic 0 (s_retain store) stored db of ((rc2, _), db) \<Rightarrow>
                  (if rc_positive rc2 then rc_fail MOSQ_ERR_NOMEM else Inr (), db))
             else if s_qos store = 1 then
               (case sub__messages_queue env (c_id ctx) topic 1 (s_retain store) stored
                       (util__decrement_receive_quota c db) of
                  ((rc2, _), db) \<Rightarrow>
                    if rc2 = MOSQ_ERR_SUCCESS \<or> c_protocol (get_ctx c db) \<noteq> mosq_p_mqtt5 then
                      (case send__puback c mid 0 [] db of (rc, db) \<Rightarrow>
                         (if rc \<noteq> MOSQ_ERR_SUCCESS then rc_fail MOSQ_ERR_NOMEM else Inr (), db))
                    else if rc2 = MOSQ_ERR_NO_SUBSCRIBERS then
                      (case send__puback c mid 16 [] db of (rc, db) \<Rightarrow>
                         (if rc \<noteq> MOSQ_ERR_SUCCESS then rc_fail MOSQ_ERR_NOMEM else Inr (), db))
                    else (rc_res rc2, db))
             else if s_qos store = 2 then
               (case (if \<not> dup then db__message_insert c (s_source_mid store) mosq_md_in 2 (s_retain store) stored [] False db
                      else (MOSQ_ERR_SUCCESS, db)) of
                  (res, db) \<Rightarrow>
                    if res = MOSQ_ERR_SUCCESS then
                      (case send__pubrec c (s_source_mid store) 0 [] db of (rc, db) \<Rightarrow>
                         (if rc \<noteq> MOSQ_ERR_SUCCESS then rc_fail MOSQ_ERR_NOMEM else Inr (), db))
                    else (if res = MOSQ_ERR_NOMEM then rc_fail MOSQ_ERR_NOMEM else Inr (), db))
             else (Inr (), db))"

text \<open>
  Whether the message that is already stored under the identifier is another one; \<open>None\<close> when
  \<open>strcmp\<close> gets a null pointer.
\<close>

definition reused_mid :: "mosquitto_msg_store \<Rightarrow> mosquitto_msg_store \<Rightarrow> bool option" where
  "reused_mid stored msg =
     (if s_qos stored \<noteq> s_qos msg \<or> s_payloadlen stored \<noteq> s_payloadlen msg then Some True
      else if s_topic stored = None \<or> s_topic msg = None then None
      else Some (s_topic stored \<noteq> s_topic msg
             \<or> take (unat (s_payloadlen msg)) (s_payload stored) \<noteq> take (unat (s_payloadlen msg)) (s_payload msg)))"

text \<open>A new message is put at an address that was never used.\<close>

definition publish_store ::
    "acl_env \<Rightarrow> cptr \<Rightarrow> mosquitto_msg_store \<Rightarrow> u32 \<Rightarrow> mosquitto_db \<Rightarrow> unit res \<times> mosquitto_db" where
  "publish_store env c msg expiry db =
     (if s_qos msg = 0 \<or> db__ready_for_flight c mosq_md_in (s_qos msg) db
         \<or> db__ready_for_queue c (s_qos msg) (md_of c mosq_md_in db) db then
        (let p = d_next db;
             db = db\<lparr>d_heap := (d_heap db)(p \<mapsto> msg), d_next := Suc p\<rparr>
         in case db__message_store (Some (get_ctx c db)) p expiry 0 mosq_mo_client db of (rc, db) \<Rightarrow>
              if rc \<noteq> MOSQ_ERR_SUCCESS then (rc_res rc, db)
              else case publish_switch env c (s_source_mid msg) p False db of (r, db) \<Rightarrow>
                (r, snd (db__message_write_queued_in c db)))
      else publish_refused c msg 151 db)"

definition publish_deliver ::
    "acl_env \<Rightarrow> cptr \<Rightarrow> mosquitto_msg_store \<Rightarrow> u32 \<Rightarrow> mosquitto_db \<Rightarrow> unit res \<times> mosquitto_db" where
  "publish_deliver env c msg expiry db =
     (case (if s_qos msg > 0 then db__message_store_find c (s_source_mid msg) db else None) of
        None \<Rightarrow> publish_store env c msg expiry db
      | Some p \<Rightarrow>
          (let db = touch p db
           in case reused_mid (stored_at p db) msg of
                None \<Rightarrow> (Inl Null_deref, db)
              | Some True \<Rightarrow>
                  publish_store env c msg expiry (snd (db__message_remove_incoming c (s_source_mid msg) db))
              | Some False \<Rightarrow>
                  (case publish_switch env c (s_source_mid msg) p True db of (r, db) \<Rightarrow>
                     (r, snd (db__message_write_queued_in c db)))))"

text \<open>From the payload on; \<open>msg\<close> has its topic, QoS, flags and the length of the payload.\<close>

definition publish_message ::
    "broker_env \<Rightarrow> cptr \<Rightarrow> mosquitto__packet \<Rightarrow> mosquitto_msg_store \<Rightarrow> u32 \<Rightarrow> mosquitto_db \<Rightarrow> unit res \<times> mosquitto_db" where
  "publish_message env c packet msg expiry db =
     (if s_payloadlen msg > 0 \<and> message_size_limit (d_config db) > 0 \<and> s_payloadlen msg > message_size_limit (d_config db)
      then publish_refused c msg 149 db
      else
        case (if s_payloadlen msg > 0 then
                (case d_malloc db of
                   (False, db) \<Rightarrow> (rc_fail MOSQ_ERR_NOMEM, db)
                 | (True, db) \<Rightarrow>
                     (case packet__read_bytes packet (s_payloadlen msg) of
                        (Inl e, packet) \<Rightarrow> (malformed e, db)
                      | (Inr payload, packet) \<Rightarrow> (Inr payload, db)))
              else (Inr [], db)) of
          (Inl e, db) \<Rightarrow> (Inl e, db)
        | (Inr payload, db) \<Rightarrow>
            let msg = msg\<lparr>s_payload := payload\<rparr>;
                rc = acl_check (e_acl env) (get_ctx c db) (s_topic msg) msg MOSQ_ACL_WRITE
            in if rc = MOSQ_ERR_ACL_DENIED then publish_refused c msg MQTT_RC_NOT_AUTHORIZED db
               else if rc \<noteq> MOSQ_ERR_SUCCESS then (Inl (Rc rc), db)
               else if (case s_topic msg of None \<Rightarrow> False | Some t \<Rightarrow> take 9 t = ''$CONTROL/'')
               then control__process env c msg db
               else
                 case plugin__handle_message env (get_ctx c db) msg of (rc, msg) \<Rightarrow>
                   if rc = MOSQ_ERR_ACL_DENIED then publish_refused c msg MQTT_RC_NOT_AUTHORIZED db
                   else if rc \<noteq> MOSQ_ERR_SUCCESS then (Inl (Rc rc), db)
                   else publish_deliver (e_acl env) c msg expiry db)"

text \<open>The packet identifier of a QoS 1 or 2 message.\<close>

definition publish_mid :: "u8 \<Rightarrow> mosquitto__packet \<Rightarrow> u16 res \<times> mosquitto__packet" where
  "publish_mid qos packet =
     (if qos > 0 then
        (case packet__read_uint16 packet of
           (Inl e, packet) \<Rightarrow> (malformed e, packet)
         | (Inr mid, packet) \<Rightarrow> if mid = 0 then (rc_fail MOSQ_ERR_PROTOCOL, packet) else (Inr mid, packet))
      else (Inr 0, packet))"

definition handle__publish :: "broker_env \<Rightarrow> handler" where
  "handle__publish env c packet db =
     (if c_state (get_ctx c db) \<noteq> mosq_cs_active then (rc_fail MOSQ_ERR_PROTOCOL, db)
      else case d_malloc db of
        (False, db) \<Rightarrow> (rc_fail MOSQ_ERR_NOMEM, db)
      | (True, db) \<Rightarrow>
          (case publish_flags (get_ctx c db) db (p_command packet) of
             Inl e \<Rightarrow> (Inl e, db)
           | Inr (qos, retain) \<Rightarrow>
               (case packet__read_string packet (d_mem db) of
                  (Inl e, packet, mem) \<Rightarrow> (malformed e, db\<lparr>d_mem := mem\<rparr>)
                | (Inr (str, slen), packet, mem) \<Rightarrow>
                    let db = db\<lparr>d_mem := mem\<rparr>
                    in if slen = 0 \<and> c_protocol (get_ctx c db) \<noteq> mosq_p_mqtt5 then (rc_fail MOSQ_ERR_MALFORMED_PACKET, db)
                       else (case publish_mid qos packet of
                         (Inl e, packet) \<Rightarrow> (Inl e, db)
                       | (Inr mid, packet) \<Rightarrow>
                           (case props_or_malformed CMD_PUBLISH c packet db of
                              (Inl e, packet, db) \<Rightarrow> (Inl e, db)
                            | (Inr properties, packet, db) \<Rightarrow>
                                (case publish_props properties ([], -1, 0) of (props, topic_alias, expiry) \<Rightarrow>
                                  (case publish_topic c (cstring str) topic_alias db of
                                     (Inl e, db) \<Rightarrow> (Inl e, db)
                                   | (Inr topic, db) \<Rightarrow>
                                       let payloadlen = p_remaining_length packet - p_pos packet;
                                           db = db\<lparr>d_pub_bytes_received := d_pub_bytes_received db + uint payloadlen\<rparr>
                                       in (case mount (get_ctx c db) topic db of
                                            (Inl e, db) \<Rightarrow> (Inl e, db)
                                          | (Inr topic, db) \<Rightarrow>
                                              publish_message env c packet
                                                (msg0\<lparr>s_topic := Some topic, s_qos := qos, s_retain := retain, s_source_mid := mid,
                                                      s_properties := props, s_payloadlen := payloadlen\<rparr>) expiry db))))))))"

section \<open>Messages of the broker\<close>

text \<open>\<open>context\<close> is null for the messages of the broker itself.\<close>

definition db__messages_easy_queue ::
    "acl_env \<Rightarrow> cptr option \<Rightarrow> string option \<Rightarrow> u8 \<Rightarrow> u8 list \<Rightarrow> bool \<Rightarrow> u32 \<Rightarrow> mqtt5__property list \<Rightarrow>
     mosquitto_db \<Rightarrow> mosq_err \<times> mosquitto_db" where
  "db__messages_easy_queue env context topic qos payload retain message_expiry_interval properties db =
     (case topic of
        None \<Rightarrow> (MOSQ_ERR_INVAL, db)
      | Some t \<Rightarrow>
          (case d_malloc db of
             (False, db) \<Rightarrow> (MOSQ_ERR_NOMEM, db)
           | (True, db) \<Rightarrow> (case d_malloc db of
               (False, db) \<Rightarrow> (MOSQ_ERR_INVAL, db)
             | (True, db) \<Rightarrow> (case d_malloc db of
                 (False, db) \<Rightarrow> (MOSQ_ERR_NOMEM, db)
               | (True, db) \<Rightarrow>
                   (let ctx = map_option (\<lambda>c. get_ctx c db) context;
                        source_id = (case ctx of None \<Rightarrow> [] | Some x \<Rightarrow> (case c_id x of None \<Rightarrow> [] | Some i \<Rightarrow> i));
                        p = d_next db;
                        r = (retain_available (d_config db) \<and> retain);
                        msg = msg0\<lparr>s_topic := Some t, s_qos := qos, s_retain := r, s_payloadlen := of_nat (length payload),
                                   s_payload := payload, s_properties := properties\<rparr>;
                        db = db\<lparr>d_heap := (d_heap db)(p \<mapsto> msg), d_next := Suc p\<rparr>
                    in case db__message_store ctx p message_expiry_interval 0
                              (if context = None then mosq_mo_broker else mosq_mo_client) db of
                         (rc, db) \<Rightarrow>
                           if rc \<noteq> MOSQ_ERR_SUCCESS then (MOSQ_ERR_NOMEM, db)
                           else case sub__messages_queue env (Some source_id) t qos r p db of ((rc, _), db) \<Rightarrow> (rc, db))))))"

end
