(* ===== verification/Handle_Packet.thy ===== *)
theory Handle_Packet
  imports Handle_Publish
begin

text \<open>
  \<open>handle__packet\<close> of \<open>src/read_handle.c\<close>, which passes a complete packet to its handler and says
  why it disconnects an MQTT 5 client, and \<open>db__open\<close> and \<open>db__close\<close> of \<open>src/database.c\<close>. The handlers
  of CONNECT, CONNACK, DISCONNECT and AUTH, which build and end a session, are the parameter
  \<open>session\<close>; restoring from a file is the parameter \<open>restore\<close>.
\<close>

section \<open>Dispatching\<close>

text \<open>The reason code that \<open>handle__packet\<close> disconnects with.\<close>

definition disconnect_reason :: "mosq_err \<Rightarrow> u8 option" where
  "disconnect_reason rc =
     (if rc = MOSQ_ERR_PROTOCOL then Some 130
      else if rc = MOSQ_ERR_MALFORMED_PACKET then Some 129
      else if rc = MOSQ_ERR_QOS_NOT_SUPPORTED then Some 155
      else if rc = MOSQ_ERR_RETAIN_NOT_SUPPORTED then Some 154
      else if rc = MOSQ_ERR_TOPIC_ALIAS_INVALID then Some 148
      else if rc = MOSQ_ERR_UNKNOWN \<or> rc = MOSQ_ERR_NOMEM then Some 128
      else None)"

definition or_disconnect :: "cptr \<Rightarrow> unit res \<times> mosquitto_db \<Rightarrow> unit res \<times> mosquitto_db" where
  "or_disconnect c r =
     (case r of
        (Inl (Rc rc), db) \<Rightarrow>
          (Inl (Rc rc),
           if c_protocol (get_ctx c db) = mosq_p_mqtt5
           then (case disconnect_reason rc of None \<Rightarrow> db | Some code \<Rightarrow> snd (d_send c (Disconnect code) db))
           else db)
      | r \<Rightarrow> r)"

definition handle__packet :: "(u8 \<Rightarrow> handler) \<Rightarrow> broker_env \<Rightarrow> handler" where
  "handle__packet session env c packet db =
     (let command = p_command packet AND 0xF0
      in if command = 0xC0 then handle__pingreq c packet db
         else if command = 0xD0 then handle__pingresp c packet db
         else if command = 0x40 then handle__pubackcomp ''PUBACK'' c packet db
         else if command = 0x70 then handle__pubackcomp ''PUBCOMP'' c packet db
         else if command = 0x30 then or_disconnect c (handle__publish env c packet db)
         else if command = 0x50 then handle__pubrec c packet db
         else if command = 0x60 then handle__pubrel (e_acl env) c packet db
         else if command = 0x80 then or_disconnect c (handle__subscribe (e_idle env) (e_acl env) c packet db)
         else if command = 0xA0 then or_disconnect c (handle__unsubscribe (e_acl env) c packet db)
         else if command = 0x90 then handle__suback c packet db
         else if command = 0xB0 then handle__unsuback c packet db
         else if command \<in> set [0x10, 0x20, 0xE0, 0xF0] then session command c packet db
         else or_disconnect c (rc_fail MOSQ_ERR_PROTOCOL, db))"

section \<open>Opening and closing the database\<close>

text \<open>The contexts, which \<open>db__open\<close> also resets, are set up with the state of the program.\<close>

definition db__open :: "(mosquitto_db \<Rightarrow> bool \<times> mosquitto_db) \<Rightarrow> mosquitto_db \<Rightarrow> mosq_err \<times> mosquitto_db" where
  "db__open restore db =
     (case sub__add_hier_entry (db\<lparr>d_last_db_id := 0, d_subs := []\<rparr>) of
        (None, db) \<Rightarrow> (MOSQ_ERR_NOMEM, db)
      | (Some e, db) \<Rightarrow>
          (case sub__add_hier_entry (db\<lparr>d_subs := ht_add [] e (d_subs db)\<rparr>) of
             (None, db) \<Rightarrow> (MOSQ_ERR_NOMEM, db)
           | (Some e, db) \<Rightarrow>
               (case retain__init (db\<lparr>d_subs := ht_add ''$SYS'' e (d_subs db)\<rparr>) of (_, db) \<Rightarrow>
                  (case restore db of (ok, db) \<Rightarrow> (if ok then MOSQ_ERR_SUCCESS else MOSQ_ERR_NOMEM, db)))))"

text \<open>Freeing the tree of subscriptions leaves nothing of it.\<close>

fun subhier_clean :: "(string, mosquitto__subhier) ht \<Rightarrow> (string, mosquitto__subhier) ht" where
  "subhier_clean [] = []"
| "subhier_clean ((t, peer) # peers) = subhier_clean peers"

definition db__close :: "mosquitto_db \<Rightarrow> mosq_err \<times> mosquitto_db" where
  "db__close db =
     (let db = db\<lparr>d_subs := subhier_clean (d_subs db)\<rparr>;
          db = (retain__clean (d_retains db) db)\<lparr>d_retains := []\<rparr>
      in (MOSQ_ERR_SUCCESS, db__msg_store_clean db))"

end
