(* ===== verification/Incoming.thy ===== *)
theory Incoming
  imports Subs
begin

text \<open>
  The queues of incoming messages: \<open>ins db\<close> are those of all clients. A publication, and what sends
  or acknowledges outgoing messages, leaves them alone, which is why a message that waits for its
  PUBREL is still there when it has been passed on.
\<close>

definition ins :: "mosquitto_db \<Rightarrow> cptr \<Rightarrow> mosquitto_msg_data" where
  "ins db = (\<lambda>c. c_msgs_in (get_ctx c db))"

named_theorems incoming

lemma ins_md: "md_of c mosq_md_in db = ins db c"
  by (simp add: ins_def md_of_def get_md_def)

lemma ins_same: "d_contexts db' = d_contexts db \<Longrightarrow> ins db' = ins db"
  by (simp add: ins_def get_ctx_def)

lemma ins_fields [incoming, simp]:
  "ins (db\<lparr>d_heap := x1\<rparr>) = ins db" "ins (db\<lparr>d_msg_store := x2\<rparr>) = ins db" "ins (db\<lparr>d_msg_store_count := x3\<rparr>) = ins db"
  "ins (db\<lparr>d_msg_store_bytes := x4\<rparr>) = ins db" "ins (db\<lparr>d_fault := x5\<rparr>) = ins db" "ins (db\<lparr>d_mem := x6\<rparr>) = ins db"
  "ins (db\<lparr>d_net := x7\<rparr>) = ins db" "ins (db\<lparr>d_sent := x8\<rparr>) = ins db" "ins (db\<lparr>d_subs := x9\<rparr>) = ins db"
  "ins (db\<lparr>d_retains := x10\<rparr>) = ins db" "ins (db\<lparr>d_persistence_changes := x11\<rparr>) = ins db"
  "ins (db\<lparr>d_retained_count := x12\<rparr>) = ins db" "ins (db\<lparr>d_msgs_dropped := x13\<rparr>) = ins db"
  by (simp_all add: ins_def get_ctx_def)

lemma ins_upd_ctx [incoming]: "(\<And>ctx. c_msgs_in (f ctx) = c_msgs_in ctx) \<Longrightarrow> ins (upd_ctx c f db) = ins db"
  by (auto simp: ins_def upd_ctx_def get_ctx_def)

lemma ins_upd_md [incoming]: "ins (upd_md c mosq_md_out f db) = ins db"
  by (simp add: upd_md_def ins_upd_ctx set_md_def)

section \<open>The store and the queues of outgoing messages\<close>

lemma ins_malloc: "d_malloc db = (ok, db') \<Longrightarrow> ins db' = ins db"
  by (auto simp: d_malloc_def split: prod.splits)

lemma ins_snd_malloc [incoming]: "ins (snd (d_malloc db)) = ins db"
  by (auto simp: d_malloc_def split: prod.splits)

lemma ins_send [incoming]: "ins (snd (d_send c ev db)) = ins db"
  by (simp add: d_send_def Let_def ins_upd_ctx split: list.split)

lemma ins_send_eq: "d_send c ev db = (rc, db') \<Longrightarrow> ins db' = ins db"
  using ins_send by (metis snd_conv)

lemma ins_store [incoming]: "ins (touch p db) = ins db" "ins (upd_store p g db) = ins db" "ins (db__msg_store_ref_inc p db) = ins db"
  "ins (db__msg_store_remove p db) = ins db"
  by (simp_all add: touch_def upd_store_def db__msg_store_ref_inc_def db__msg_store_remove_def db__msg_store_free_def split: option.split)

lemma ins_ref_dec [incoming]: "ins (snd (db__msg_store_ref_dec p db)) = ins db"
  by (simp add: db__msg_store_ref_dec_def Let_def ins_store split: option.split)

lemma ins_queue [incoming]: "ins (db__message_remove c mosq_md_out i db) = ins db" "ins (db__message_dequeue_first c mosq_md_out db) = ins db"
  "ins (upd_queued c mosq_md_out i g db) = ins db" "ins (upd_inflight c mosq_md_out i g db) = ins db"
  by (simp_all add: db__message_remove_def db__message_dequeue_first_def upd_queued_def upd_inflight_def Let_def
    ins_ref_dec ins_upd_md ins_store split: list.split)

lemma ins_quota [incoming]: "ins (util__increment_send_quota c db) = ins db" "ins (util__decrement_send_quota c db) = ins db"
  "ins (snd (mosquitto__mid_generate c db)) = ins db"
  by (simp_all add: util__increment_send_quota_def util__decrement_send_quota_def mosquitto__mid_generate_def Let_def
    ins_upd_md ins_upd_ctx)

lemma ins_single [incoming]: "ins (snd (db__message_write_inflight_out_single c i db)) = ins db"
proof -
  define msg where "msg = inflight (md_of c mosq_md_out db) ! i"
  define t where "t = touch (m_store msg) db"
  define store where "store = stored_at (m_store msg) t"
  have t: "ins t = ins db" by (simp add: t_def ins_store)
  have k: "ins (snd (case d_send c ev t of (rc, d) \<Rightarrow> if P rc then (x, f d) else if Q rc then (y, g d) else (z rc, d))) = ins db"
    "ins (snd (case d_send c ev t of (rc, d) \<Rightarrow> if P rc then (x, f d) else (z rc, d))) = ins db"
    if "\<And>d. ins (f d) = ins d" "\<And>d. ins (g d) = ins d" for ev P Q f g and x y :: "mosq_err \<times> bool" and z
    using that ins_send [of c ev t] t by (cases "d_send c ev t"; simp)+
  show ?thesis
  proof (cases "s_message_expiry_time store \<noteq> 0 \<and> d_now_real_s t > s_message_expiry_time store")
    case True
    then show ?thesis
      unfolding db__message_write_inflight_out_single_def Let_def msg_def [symmetric] t_def [symmetric] store_def [symmetric] if_P [OF True]
      by (simp add: ins_queue ins_quota t)
  next
    case False
    show ?thesis
      unfolding db__message_write_inflight_out_single_def Let_def msg_def [symmetric] t_def [symmetric] store_def [symmetric] if_not_P [OF False]
      by (cases "m_state msg") (simp_all only: mosquitto_msg_state.case snd_conv t k ins_queue)
  qed
qed

lemma ins_write_loop [incoming]: "ins (snd (write_inflight_loop n c i db)) = ins db"
proof (induction n arbitrary: i db)
  case (Suc n)
  obtain rc r db1 where s: "db__message_write_inflight_out_single c i db = ((rc, r), db1)" by (metis surj_pair)
  show ?case using ins_single [of c i db] Suc by (simp add: s)
qed simp

lemma ins_latest [incoming]: "ins (snd (db__message_write_inflight_out_latest c db)) = ins db"
proof -
  obtain rc r db1 where s: "db__message_write_inflight_out_single c 0 db = ((rc, r), db1)" by (metis surj_pair)
  then show ?thesis using ins_single [of c 0 db]
    by (simp add: db__message_write_inflight_out_latest_def Let_def ins_write_loop)
qed

lemma ins_queued_loop [incoming]: "ins (write_queued_out_loop n c db) = ins db"
  by (induction n arbitrary: db) (simp_all add: Let_def ins_queue)

lemma ins_queued_out [incoming]: "ins (snd (db__message_write_queued_out c db)) = ins db"
  by (simp add: db__message_write_queued_out_def ins_queued_loop)

lemma ins_insert_finish [incoming]: "ins (snd (insert_finish c mosq_md_out mqos update rc db)) = ins db"
proof -
  let ?f = "\<lambda>ctx. case c_bridge ctx of None \<Rightarrow> ctx
            | Some b \<Rightarrow> if b_lazy b \<and> \<not> c_connected ctx \<and> msg_count (c_msgs_out ctx) \<ge> b_threshold b
                       then ctx\<lparr>c_bridge := Some (b\<lparr>b_lazy_reconnect := True\<rparr>)\<rparr> else ctx"
  let ?db = "if mqos > 0 then util__decrement_send_quota c (upd_ctx c ?f db) else upd_ctx c ?f db"
  have 1: "ins ?db = ins db" by (simp add: ins_quota ins_upd_ctx split: option.split)
  obtain rc1 db2 where l: "db__message_write_inflight_out_latest c ?db = (rc1, db2)" by (rule prod.exhaust)
  then have 2: "ins db2 = ins db" using ins_latest [of c ?db] 1 by simp
  have "snd (insert_finish c mosq_md_out mqos update rc db) =
      (if update then if rc1 \<noteq> MOSQ_ERR_SUCCESS then db2 else snd (db__message_write_queued_out c db2) else ?db)"
    unfolding insert_finish_def Let_def using l by simp
  then show ?thesis using 1 2 by (simp add: ins_queued_out)
qed

lemma ins_insert [incoming]: "ins (snd (db__message_insert c mid mosq_md_out qos retain stored ps update db)) = ins db"
proof -
  have st: "ins (snd (insert_state c dir q d)) = ins d" for dir q d
    by (simp add: insert_state_def insert_drop_def Let_def ins_upd_ctx)
  have dest: "ins (snd (insert_dest_id c p d)) = ins d" for p d
    by (auto simp: insert_dest_id_def ins_malloc ins_store split: prod.split bool.split)
  have enq: "ins (insert_enqueue c mosq_md_out q m d) = ins d" for q m d
    by (simp add: insert_enqueue_def Let_def ins_upd_md)
  have commit: "ins (snd (insert_commit c mosq_md_out q r u m rc d)) = ins d" for q r u m rc d
  proof -
    let ?d = "insert_enqueue c mosq_md_out q m (db__msg_store_ref_inc (m_store m) d)"
    obtain ok d2 where d: "insert_dest_id c (m_store m) ?d = (ok, d2)" by (metis surj_pair)
    then have "ins d2 = ins d" using dest [of "m_store m" ?d] by (simp add: enq ins_store)
    then show ?thesis by (cases ok) (simp_all add: insert_commit_def Let_def d ins_insert_finish enq ins_store)
  qed
  let ?t = "touch stored db"
  obtain r db1 where s: "insert_state c mosq_md_out qos ?t = (r, db1)" by (metis surj_pair)
  have s1: "ins db1 = ins db" using st [of mosq_md_out qos ?t] by (simp add: s ins_store)
  show ?thesis
  proof (cases r)
    case (Inl a)
    then show ?thesis using s1 by (simp add: db__message_insert_def Let_def s ins_store)
  next
    case (Inr b)
    obtain stt rc where b: "b = (stt, rc)" by (metis surj_pair)
    let ?d = "if stt = mosq_ms_queued then db1\<lparr>d_persistence_changes := d_persistence_changes db1 + 1\<rparr> else db1"
    obtain ok db2 where m: "d_malloc ?d = (ok, db2)" by (metis surj_pair)
    have "ins db2 = ins ?d" by (rule ins_malloc [OF m])
    then have "ins db2 = ins db" using s1 by (simp split: if_splits)
    then show ?thesis using s1 m Inr b
      by (cases ok) (simp_all add: db__message_insert_def Let_def s ins_store commit)
  qed
qed

section \<open>A publication\<close>

lemma ins_subs_send [incoming]: "ins (snd (subs__send env leaf topic qos retain stored db)) = ins db"
proof -
  let ?c = "l_context leaf" and ?t = "touch stored db"
  have sp: "ins (snd (sub_id_property i d)) = ins d" for i d by (simp add: sub_id_property_def ins_snd_malloc)
  define q where "q = (if upgrade_outgoing_qos (d_config ?t) then l_qos leaf else if qos > l_qos leaf then l_qos leaf else qos)"
  obtain mid db1 where m: "(if q > 0 then mosquitto__mid_generate ?c ?t else (0, ?t)) = (mid, db1)" by (metis surj_pair)
  have m1: "ins db1 = ins db" using ins_quota(3) [of ?c ?t] m by (auto simp: ins_store split: if_splits)
  obtain ps db2 where p: "sub_id_property (l_identifier leaf) db1 = (ps, db2)" by (metis surj_pair)
  have p2: "ins db2 = ins db" using sp [of "l_identifier leaf" db1] p m1 by simp
  obtain rc db3 where i: "db__message_insert ?c mid mosq_md_out q
      (if l_retain_as_published leaf then retain else False) stored ps True db2 = (rc, db3)" by (metis surj_pair)
  have "ins db3 = ins db" using ins_insert [of ?c mid q _ stored ps True db2] i p2 by (metis snd_conv)
  then show ?thesis unfolding subs__send_def Let_def q_def [symmetric] m prod.case p i by (simp add: ins_store)
qed

lemma ins_shared: "ins (snd (snd (ht_iter (shared_step (\<lambda>leaf db. subs__send env leaf topic qos retain stored db)) sh s))) = ins (snd s)"
proof (induction sh arbitrary: s)
  case (Cons kv sh)
  have "ins (snd (snd (shared_step (\<lambda>leaf db. subs__send env leaf topic qos retain stored db) (snd kv) s))) = ins (snd s)"
    using ins_subs_send [of env _ topic qos retain stored "snd s"] by (auto simp: shared_step_def split: list.split prod.split) (metis snd_conv)
  then show ?case using Cons by (simp add: split_beta)
qed simp

lemma ins_subs_loop: "ins (snd (subs_loop (\<lambda>leaf db. subs__send env leaf topic qos retain stored db) src leaves rc db)) = ins db"
proof (induction leaves arbitrary: rc db)
  case (Cons l leaves)
  obtain rc2 db1 where s: "subs__send env l topic qos retain stored db = (rc2, db1)" by (metis surj_pair)
  then have "ins db1 = ins db" using ins_subs_send [of env l topic qos retain stored db] by simp
  then show ?case using Cons by (simp add: s)
qed simp

lemma ins_process: "ins (snd (subs__process env source_id topic qos retain stored b db)) = ins db"
proof -
  let ?send = "\<lambda>leaf db. subs__send env leaf topic qos retain stored db"
  obtain sh rc db1 where 1: "ht_iter (shared_step ?send) (h_shared b) (MOSQ_ERR_SUCCESS, db) = (sh, rc, db1)" by (metis surj_pair)
  then have "ins db1 = ins db" using ins_shared [of env topic qos retain stored "h_shared b" "(MOSQ_ERR_SUCCESS, db)"] by simp
  moreover obtain rc2 db2 where 2: "(case source_id of None \<Rightarrow> (rc, db1) | Some src \<Rightarrow> subs_loop ?send src (h_subs b) rc db1) = (rc2, db2)"
    by (rule prod.exhaust)
  moreover have "ins db2 = ins db1" using 2 ins_subs_loop [of env topic qos retain stored _ "h_subs b" rc db1]
    by (cases source_id) (auto, metis snd_conv)
  ultimately show ?thesis unfolding subs__process_def subs__shared_process_def Let_def 1 prod.case 2 by simp
qed

lemma search_keeps_state:
  assumes p: "\<And>b s. P s \<Longrightarrow> P (snd (process b s))"
  shows "P s \<Longrightarrow> P (snd (sub__search ts process n s))"
proof -
  have pr: "process b s = (x, s') \<Longrightarrow> P s \<Longrightarrow> P s'" for b s x s' using p [of s b] by simp
  have h: "sub_hash process f n s = (x, s') \<Longrightarrow> P s \<Longrightarrow> P s'" for f n s x s'
    by (auto simp: sub_hash_def Let_def split: option.splits if_splits prod.splits dest: pr)
  have b: "sub_branch process search e k f n s = (x, s') \<Longrightarrow> (\<And>b s x s'. search b s = (x, s') \<Longrightarrow> P s \<Longrightarrow> P s') \<Longrightarrow> P s \<Longrightarrow> P s'"
    for search e k f n s x s'
    by (auto simp: sub_branch_def Let_def split: option.splits sum.splits if_splits prod.splits dest!: pr) 
  have "sub__search ts process n s = (x, s') \<Longrightarrow> P s \<Longrightarrow> P s'" for x s'
  proof (induction ts arbitrary: n s x s')
    case Nil
    then show ?case using h by simp
  next
    case (Cons t ts)
    note bb = b [OF _ Cons.IH]
    show ?case using Cons.prems by (auto split: prod.splits sum.splits dest!: bb h)
  qed
  then show "P s \<Longrightarrow> P (snd (sub__search ts process n s))" by (metis surjective_pairing)
qed

lemma ins_retain_walk: "retain_walk ts (retain_assign topic stored) n db = (x, db') \<Longrightarrow> ins db' = ins db"
proof (induction ts arbitrary: n db x db')
  case Nil
  have "ins (snd (retain_assign topic stored old db)) = ins db" for old db
    by (simp add: retain_assign_def Let_def incoming split: option.split)
  then show ?case using Nil by (auto split: prod.splits) (metis snd_conv)
next
  case (Cons t ts)
  have "ins d' = ins d" if "retain__add_hier_entry t l d = (y, d')" for t l d d' y
    using that by (auto simp: retain__add_hier_entry_def ins_malloc split: prod.splits bool.splits dest!: ins_malloc)
  then show ?case using Cons.prems by (auto split: option.splits prod.splits dest!: Cons.IH)
qed

lemma ins_retain_store: "retain__store topic stored ts db = (rc, db') \<Longrightarrow> ins db' = ins db"
proof -
  have "ins d' = ins d" if "retain__add_hier_entry t l d = (y, d')" for t l d d' y
    using that by (auto simp: retain__add_hier_entry_def ins_malloc split: prod.splits bool.splits dest!: ins_malloc)
  then show "retain__store topic stored ts db = (rc, db') \<Longrightarrow> ins db' = ins db"
    by (auto simp: retain__store_def split: list.splits option.splits prod.splits dest!: ins_retain_walk)
qed

theorem ins_messages_queue: "ins (snd (sub__messages_queue env source_id topic qos retain stored db)) = ins db"
proof -
  let ?proc = "subs__process env source_id topic qos retain stored"
  have s: "ins (snd (sub__search fs ?proc h d)) = ins d" for fs h d
    by (rule search_keeps_state [where P = "\<lambda>s. ins s = ins d"]) (simp_all add: ins_process)
  obtain x mem where t: "sub__topic_tokenise topic (d_mem db) = (x, mem)" by (metis surj_pair)
  show ?thesis
  proof (cases x)
    case (Inl e)
    then show ?thesis by (cases e) (simp_all add: sub__messages_queue_def t)
  next
    case (Inr r)
    obtain ts g where r: "r = (ts, g)" by (metis surj_pair)
    define db1 where "db1 = db__msg_store_ref_inc stored (db\<lparr>d_mem := mem\<rparr>)"
    let ?fs = "topics_of ts"
    obtain rc2 db2 where 2: "(case ht_find (hd ?fs) (d_subs db1) of None \<Rightarrow> (MOSQ_ERR_SUCCESS, db1)
        | Some subhier \<Rightarrow> (case sub__search ?fs ?proc subhier db1 of
            ((rc, subhier), db) \<Rightarrow> (rc, db\<lparr>d_subs := ht_set (hd ?fs) subhier (d_subs db)\<rparr>))) = (rc2, db2)"
      by (rule prod.exhaust)
    have "ins db1 = ins db" by (simp add: db1_def ins_store)
    then have i2: "ins db2 = ins db" using 2 s [of ?fs _ db1]
      by (auto split: option.splits prod.splits) (metis snd_conv)
    obtain rc4 db4 where 4: "(if retain then (case retain__store topic stored ?fs db2 of
          (rc3, db) \<Rightarrow> (if rc3 \<noteq> MOSQ_ERR_SUCCESS then rc3 else rc2, db)) else (rc2, db2)) = (rc4, db4)"
      by (rule prod.exhaust)
    have i4: "ins db4 = ins db" using 4 i2 by (auto split: if_splits prod.splits dest!: ins_retain_store)
    have "sub__messages_queue env source_id topic qos retain stored db
        = (case db__msg_store_ref_dec stored db4 of (r, db) \<Rightarrow> ((rc4, r), db))"
      by (simp only: sub__messages_queue_def t Inr r prod.case sum.case Let_def db1_def [symmetric] 2 4)
    then show ?thesis using ins_ref_dec [of stored db4] i4 by (cases "db__msg_store_ref_dec stored db4") simp
  qed
qed

end
