(* ===== verification/Broker_Inv.thy ===== *)
theory Broker_Inv
  imports Subs_Queue Subs_Remove Packet_Safe Handle_Packet Incoming
begin

text \<open>
  The invariant that the handlers of packets keep: reference counts and counters, subscriptions
  with the references of their clients, and the contents of the stored messages. It is the
  invariant of a broker whose allocations succeed; a bridge that maps topics is excluded, since
  \<open>bridge__remap_topic_in\<close> breaks it.
\<close>

section \<open>Topics that can be published\<close>

definition good_topic :: "string \<Rightarrow> bool" where
  "good_topic t \<longleftrightarrow> t \<noteq> [] \<and> plain_levels (filed_levels t)"

lemma set_levels: "l \<in> set (levels s) \<Longrightarrow> set l \<subseteq> set s"
proof (induction s arbitrary: l)
  case (Cons c s)
  show ?case
  proof (cases "c = CHR ''/''")
    case True
    then show ?thesis using Cons by (auto simp: levels_slash)
  next
    case False
    obtain k ls where k: "levels s = k # ls" using levels_hd_tl [of s] by blast
    then have "l = c # k \<or> l \<in> set ls" using Cons.prems False by (simp add: levels_char)
    then show ?thesis using Cons.IH [of k] Cons.IH [of l] k by auto
  qed
qed simp

lemma filed_levels_subset: "set (filed_levels s) \<subseteq> insert [] (set (levels s))"
  by (auto simp: filed_levels_def dest: in_set_dropD)

lemma plain_topic: "(\<And>c. c \<in> set t \<Longrightarrow> \<not> is_wild c) \<Longrightarrow> t \<noteq> [] \<Longrightarrow> good_topic t"
proof -
  assume w: "\<And>c. c \<in> set t \<Longrightarrow> \<not> is_wild c" and ne: "t \<noteq> []"
  have "l \<noteq> ''+'' \<and> l \<noteq> ''#''" if "l \<in> set (filed_levels t)" for l
  proof -
    have "l = [] \<or> set l \<subseteq> set t" using that filed_levels_subset [of t] set_levels [of l t] by blast
    then show ?thesis using w [of "CHR ''+''"] w [of "CHR ''#''"] by (auto simp: is_wild_def)
  qed
  then show ?thesis using ne by (auto simp: good_topic_def plain_levels_def)
qed

section \<open>The leaves of the tree\<close>

text \<open>A property of all leaves of a tree.\<close>

definition all_leaves :: "(mosquitto__subleaf \<Rightarrow> bool) \<Rightarrow> mosquitto__subhier \<Rightarrow> bool" where
  "all_leaves P n \<longleftrightarrow> (\<forall>vs. (\<forall>l \<in> set (h_subs (the_node vs n)). P l) \<and> (\<forall>e \<in> set (h_shared (the_node vs n)). \<forall>l \<in> set (snd e). P l))"

lemma all_leaves_node:
  "all_leaves P n \<longleftrightarrow> (\<forall>l \<in> set (h_subs n). P l) \<and> (\<forall>e \<in> set (h_shared n). \<forall>l \<in> set (snd e). P l)
     \<and> (\<forall>t b. ht_find t (h_children n) = Some b \<longrightarrow> all_leaves P b)"
proof -
  have "(\<forall>vs. Q (the_node vs n)) \<longleftrightarrow> Q n \<and> (\<forall>t b vs. ht_find t (h_children n) = Some b \<longrightarrow> Q (the_node vs b))"
    if "Q no_hier" for Q
  proof
    assume q: "Q n \<and> (\<forall>t b vs. ht_find t (h_children n) = Some b \<longrightarrow> Q (the_node vs b))"
    show "\<forall>vs. Q (the_node vs n)"
    proof
      fix vs show "Q (the_node vs n)" using q that by (cases vs) (auto split: option.split)
    qed
  next
    assume q: "\<forall>vs. Q (the_node vs n)"
    then have "Q (the_node [] n)" by blast
    moreover have "Q (the_node vs b)" if "ht_find t (h_children n) = Some b" for t b vs
      using q [rule_format, of "t # vs"] that by simp
    ultimately show "Q n \<and> (\<forall>t b vs. ht_find t (h_children n) = Some b \<longrightarrow> Q (the_node vs b))" by simp
  qed
  from this [of "\<lambda>m. (\<forall>l \<in> set (h_subs m). P l) \<and> (\<forall>e \<in> set (h_shared m). \<forall>l \<in> set (snd e). P l)"]
  show ?thesis unfolding all_leaves_def by simp
qed

lemma all_leaves_child: "all_leaves P n \<Longrightarrow> ht_find t (h_children n) = Some b \<Longrightarrow> all_leaves P b"
  using all_leaves_node [of P n] by blast

lemma all_leaves_none [simp]: "all_leaves P no_hier"
  by (simp add: all_leaves_def)

lemma all_leaves_children:
  assumes "all_leaves P n" "\<And>t b. ht_find t ch = Some b \<Longrightarrow> all_leaves P b"
  shows "all_leaves P (Subhier (h_subs n) (h_shared n) ch)"
  using assms by (subst all_leaves_node) (simp add: all_leaves_node [of P n])

text \<open>
  What is known of a leaf: it belongs to a client of the broker, which accepts messages of QoS above 0
  when the leaf has one, and, with \<open>cap\<close>, its QoS is at most the maximum of the client.
\<close>

definition qos_inv :: "bool \<Rightarrow> cptr \<Rightarrow> u8 \<Rightarrow> mosquitto_db \<Rightarrow> bool" where
  "qos_inv cap c qos db \<longleftrightarrow> qos_ready c qos db \<and> (cap \<longrightarrow> qos \<le> c_max_qos (get_ctx c db))"

definition leaf_inv :: "bool \<Rightarrow> cptr list \<Rightarrow> mosquitto_db \<Rightarrow> mosquitto__subleaf \<Rightarrow> bool" where
  "leaf_inv cap cs db leaf \<longleftrightarrow> l_context leaf \<in> set cs \<and> qos_inv cap (l_context leaf) (l_qos leaf) db"

lemma leaf_inv_ready: "leaf_inv cap cs db l \<Longrightarrow> leaf_ready cs db l"
  by (simp add: leaf_inv_def qos_inv_def leaf_ready_def)

lemma leaf_inv_eq:
  "(\<And>c. c_max_qos (get_ctx c db') = c_max_qos (get_ctx c db)) \<Longrightarrow> leaf_inv cap cs db' = leaf_inv cap cs db"
  by (rule ext) (simp add: leaf_inv_def qos_inv_def qos_ready_def)

lemma all_leaves_mono: "all_leaves P n \<Longrightarrow> (\<And>l. P l \<Longrightarrow> Q l) \<Longrightarrow> all_leaves Q n"
  unfolding all_leaves_def by blast

lemma all_leaves_rotated:
  assumes "rotated n n'" "all_leaves P n"
  shows "all_leaves P n'"
  unfolding all_leaves_def
proof (intro allI conjI ballI)
  fix vs
  have a: "alike (own (the_node vs n)) (own (the_node vs n'))" using assms(1) by (simp add: rotated_def)
  have h: "\<forall>l \<in> set (h_subs (the_node vs n)). P l" "\<forall>e \<in> set (h_shared (the_node vs n)). \<forall>l \<in> set (snd e). P l"
    using assms(2) by (simp_all add: all_leaves_def)
  show "P l" if "l \<in> set (h_subs (the_node vs n'))" for l using that a h(1) by (simp add: alike_def own_select)
  fix e' l assume e': "e' \<in> set (h_shared (the_node vs n'))" and l: "l \<in> set (snd e')"
  have "list_all2 (\<lambda>e e'. fst e' = fst e \<and> mset (snd e') = mset (snd e)) (h_shared (the_node vs n)) (h_shared (the_node vs n'))"
    using a by (simp add: alike_def own_select)
  then obtain e where "e \<in> set (h_shared (the_node vs n))" "mset (snd e') = mset (snd e)" using e'
    unfolding list_all2_conv_all_nth in_set_conv_nth by metis
  then show "P l" using h(2) l by (metis set_mset_mset)
qed

section \<open>The invariant\<close>

text \<open>What is known of every stored message.\<close>

definition heap_ok :: "mosquitto_db \<Rightarrow> bool" where
  "heap_ok db \<longleftrightarrow> (\<forall>p s. d_heap db p = Some s \<longrightarrow> p < d_next db \<and> dest_ok p db \<and> (\<exists>t. s_topic s = Some t \<and> good_topic t))"

text \<open>A client whose mount point has no wildcards, without mapped topics, and whose aliases have topics.\<close>

definition ctx_ok :: "mosquitto \<Rightarrow> bool" where
  "ctx_ok ctx \<longleftrightarrow> (\<forall>a \<in> set (c_aliases ctx). snd a \<notin> {None, Some []})
   \<and> (case c_bridge ctx of None \<Rightarrow> True | Some b \<Rightarrow> \<not> b_topic_remapping b)
   \<and> (case c_listener ctx of None \<Rightarrow> True | Some l \<Rightarrow>
        (case ls_mount_point l of None \<Rightarrow> True | Some m \<Rightarrow> \<forall>x \<in> set m. \<not> is_wild x))"

text \<open>Clients that are connected or have a session have different identifiers.\<close>

definition ids_ok :: "cptr list \<Rightarrow> mosquitto_db \<Rightarrow> bool" where
  "ids_ok cs db \<longleftrightarrow> (\<forall>c \<in> set cs. \<forall>c' \<in> set cs. c_id (get_ctx c db) \<noteq> None \<longrightarrow>
     c_id (get_ctx c' db) = c_id (get_ctx c db) \<longrightarrow> c' = c)"

definition broker_inv :: "bool \<Rightarrow> cptr list \<Rightarrow> mptr multiset \<Rightarrow> mosquitto_db \<Rightarrow> bool" where
  "broker_inv cap cs E db \<longleftrightarrow> clients cs \<and> broker_ok cs (retained_refs db + E) db \<and> books db \<and> tree_ready cs db
   \<and> d_mem db = [] \<and> heap_ok db \<and> ids_ok cs db \<and> (\<forall>c \<in> set cs. ctx_ok (get_ctx c db))
   \<and> all_leaves (leaf_inv cap cs db) (roots db)"

lemma ctx_ok_core: "ctx_core ctx' = ctx_core ctx \<Longrightarrow> ctx_ok ctx \<Longrightarrow> ctx_ok ctx'"
proof -
  assume e: "ctx_core ctx' = ctx_core ctx" and c: "ctx_ok ctx"
  have b: "map_option (\<lambda>b. b\<lparr>b_lazy_reconnect := False\<rparr>) (c_bridge ctx') = map_option (\<lambda>b. b\<lparr>b_lazy_reconnect := False\<rparr>) (c_bridge ctx)"
    using e by (simp add: ctx_core_def)
  have "b_topic_remapping x = b_topic_remapping y" if "x\<lparr>b_lazy_reconnect := False\<rparr> = y\<lparr>b_lazy_reconnect := False\<rparr>" for x y
    using arg_cong [OF that, of b_topic_remapping] by simp
  then have "(case c_bridge ctx' of None \<Rightarrow> True | Some b \<Rightarrow> \<not> b_topic_remapping b)"
    using b c by (cases "c_bridge ctx'"; cases "c_bridge ctx") (auto simp: ctx_ok_def)
  then show ?thesis using e c by (simp add: ctx_ok_def ctx_core_def)
qed

lemma heap_ok_bcore:
  assumes "heap_ok db" "bcore db db'" "d_mem db = []"
  shows "heap_ok db'"
  unfolding heap_ok_def
proof (intro allI impI)
  fix p s' assume s': "d_heap db' p = Some s'"
  obtain s where s: "d_heap db p = Some s" "same_msg s s'" using assms(2) s' unfolding bcore_def by blast
  have d: "dest_ok p db" "p < d_next db" and t: "\<exists>t. s_topic s = Some t \<and> good_topic t"
    using assms(1) s(1) unfolding heap_ok_def by blast+
  have "dest_ok p db'" using d(1) assms(2,3) unfolding bcore_def dests_calm_def by blast
  moreover have "d_next db' = d_next db" using assms(2) by (simp add: bcore_def)
  ultimately show "p < d_next db' \<and> dest_ok p db' \<and> (\<exists>t. s_topic s' = Some t \<and> good_topic t)"
    using d(2) t same_msg_fields [OF s(2)] by simp
qed

lemma node_ready_alike:
  assumes "node_ready cs db q" "alike q q'" "\<And>c. ctx_core (get_ctx c db') = ctx_core (get_ctx c db)"
  shows "node_ready cs db' q'"
proof -
  have lr: "leaf_ready cs db' l = leaf_ready cs db l" for l
    using assms(3) [of "l_context l"] by (simp add: leaf_ready_def qos_ready_def ctx_core_def)
  have s: "\<exists>e \<in> set (snd q). set (snd e) = set (snd e')" if e': "e' \<in> set (snd q')" for e'
  proof -
    have "list_all2 (\<lambda>e e'. fst e' = fst e \<and> mset (snd e') = mset (snd e)) (snd q) (snd q')"
      using assms(2) by (simp add: alike_def)
    then obtain e where "e \<in> set (snd q)" "mset (snd e') = mset (snd e)" using e'
      unfolding list_all2_conv_all_nth in_set_conv_nth by metis
    then show ?thesis by (metis set_mset_mset)
  qed
  have ok: "shares_ok (snd q')" using alike_shares_ok assms by (simp add: node_ready_def)
  show ?thesis using assms(1,2) ok s unfolding node_ready_def lr by (metis alike_def)
qed

text \<open>What leaves the clients' settings and the trees alone, except for rotating shares.\<close>

lemma inv_rotated:
  assumes i: "broker_inv cap cs E db" and b: "broker_ok cs (retained_refs db' + E') db'"
    and k: "bcore db db'" and r: "rotated (roots db) (roots db')"
  shows "broker_inv cap cs E' db'"
proof -
  have c: "ctx_core (get_ctx c db') = ctx_core (get_ctx c db)" for c using k by (simp add: bcore_def)
  have sub: "c_subs (get_ctx c db') = c_subs (get_ctx c db)" "c_shared_subs (get_ctx c db') = c_shared_subs (get_ctx c db)" for c
    using c [of c] by (simp_all add: ctx_core_def)
  have bk0: "books db" using i by (simp add: broker_inv_def)
  have cnt: "d_subscription_count db' = d_subscription_count db" "d_shared_subscription_count db' = d_shared_subscription_count db"
    using k by (simp_all add: bcore_def)
  have bk: "books db'" by (rule books_rotated [OF bk0 r sub cnt])
  have mem: "d_mem db = []" using i by (simp add: broker_inv_def)
  have tr: "tree_ready cs db'"
    unfolding tree_ready_def
  proof
    fix vs
    have "node_ready cs db (own (the_node vs (roots db)))" using i by (simp add: broker_inv_def tree_ready_def)
    moreover have "alike (own (the_node vs (roots db))) (own (the_node vs (roots db')))" using r by (simp add: rotated_def)
    ultimately show "node_ready cs db' (own (the_node vs (roots db')))" using node_ready_alike c by blast
  qed
  have "heap_ok db'" using heap_ok_bcore [OF _ k mem] i by (simp add: broker_inv_def)
  moreover have "d_mem db' = []" using k mem by (simp add: bcore_def dests_calm_def)
  moreover have "\<forall>c \<in> set cs. ctx_ok (get_ctx c db')" using i ctx_ok_core [OF c] by (simp add: broker_inv_def)
  moreover have "c_id (get_ctx c db') = c_id (get_ctx c db)" for c using c [of c] by (simp add: ctx_core_def)
  then have "ids_ok cs db' = ids_ok cs db" by (simp add: ids_ok_def)
  moreover have "c_max_qos (get_ctx c db') = c_max_qos (get_ctx c db)" for c using c [of c] by (simp add: ctx_core_def)
  then have "leaf_inv cap cs db' = leaf_inv cap cs db" by (rule leaf_inv_eq)
  then have "all_leaves (leaf_inv cap cs db') (roots db')" using all_leaves_rotated [OF r] i by (simp add: broker_inv_def)
  ultimately show ?thesis using i b bk tr by (simp add: broker_inv_def)
qed

lemma inv_beff:
  assumes i: "broker_inv cap cs E db" and b: "broker_ok cs (retained_refs db + E') db'" and k: "beff db db'"
  shows "broker_inv cap cs E' db'"
proof (rule inv_rotated [OF i])
  show "broker_ok cs (retained_refs db' + E') db'" using b k by (simp add: retained_refs_def beff_def)
  show "bcore db db'" "rotated (roots db) (roots db')" using k by (simp_all add: beff_def roots_def)
qed

lemma inv_bgood:
  assumes i: "broker_inv cap cs E db" and g: "bgood cs (retained_refs db + E) db (retained_refs db + E') db'"
  shows "broker_inv cap cs E' db'"
proof -
  have "broker_ok cs (retained_refs db + E) db" using i by (simp add: broker_inv_def)
  from bgoodD [OF g this] show ?thesis using inv_beff [OF i] by blast
qed

lemma inv_good: "broker_inv cap cs E db \<Longrightarrow> c \<in> set cs \<Longrightarrow> good c db db' \<Longrightarrow> broker_inv cap cs E db'"
  by (rule inv_bgood, assumption, rule bgood_good) (simp_all add: broker_inv_def)

lemma inv_calm: "broker_inv cap cs E db \<Longrightarrow> c \<in> set cs \<Longrightarrow> calm c db db' \<Longrightarrow> broker_inv cap cs E db'"
  using inv_good calm_good by blast

section \<open>Subscribing and unsubscribing\<close>

text \<open>What works on subscriptions only changes the trees, the references of the clients and the counters.\<close>

definition conn :: "mosquitto \<Rightarrow> mosquitto" where
  "conn ctx = ctx\<lparr>c_subs := [], c_shared_subs := []\<rparr>"

definition side :: "mosquitto_db \<Rightarrow> mosquitto_db \<Rightarrow> bool" where
  "side db db' \<longleftrightarrow> d_heap db' = d_heap db \<and> d_next db' = d_next db \<and> d_msg_store db' = d_msg_store db
   \<and> d_msg_store_count db' = d_msg_store_count db \<and> d_msg_store_bytes db' = d_msg_store_bytes db
   \<and> d_fault db' = d_fault db \<and> d_config db' = d_config db \<and> d_retains db' = d_retains db \<and> d_mem db' = d_mem db
   \<and> (\<forall>c. conn (get_ctx c db') = conn (get_ctx c db))"

lemma side_refl [simp]: "side db db"
  by (simp add: side_def)

lemma side_trans: "side db db' \<Longrightarrow> side db' db'' \<Longrightarrow> side db db''"
  by (simp add: side_def)

lemma side_fields [simp]:
  "side db (db\<lparr>d_subs := t\<rparr>)" "side db (db\<lparr>d_subscription_count := n\<rparr>)" "side db (db\<lparr>d_shared_subscription_count := n\<rparr>)"
  by (simp_all add: side_def get_ctx_def)

lemma side_upd_ctx: "(\<And>ctx. conn (f ctx) = conn ctx) \<Longrightarrow> side db (upd_ctx c f db)"
  by (simp add: side_def ctx_simps) (simp add: upd_ctx_def)

lemma conn_fields:
  assumes "conn ctx' = conn ctx"
  shows "c_msgs_in ctx' = c_msgs_in ctx" "c_msgs_out ctx' = c_msgs_out ctx" "c_max_qos ctx' = c_max_qos ctx"
    "c_id ctx' = c_id ctx" "c_aliases ctx' = c_aliases ctx" "c_bridge ctx' = c_bridge ctx" "c_listener ctx' = c_listener ctx"
    "c_protocol ctx' = c_protocol ctx"
  using assms by (cases ctx, cases ctx', simp add: conn_def)+

lemma side_broker:
  assumes "side db db'" "broker_ok cs E db"
  shows "broker_ok cs E db'"
proof -
  have m: "md_of c dir db' = md_of c dir db" for c dir
    using assms(1) conn_fields(1,2) [of "get_ctx c db'" "get_ctx c db"] by (cases dir) (simp_all add: side_def md_of_def get_md_def)
  have h: "held c db' = held c db" for c by (simp add: held_def m)
  have k: "keys_of c db' = keys_of c db" for c by (auto simp: keys_of_def m)
  have o: "md_ok db' K md = md_ok db K md" for K md using assms(1) by (simp add: md_ok_def plen_def stored_at_def side_def)
  have "store_ok db' = store_ok db" using assms(1) by (simp add: store_ok_def rc_at_def plen_def stored_at_def side_def)
  then show ?thesis using assms by (simp add: broker_ok_def all_held_def client_ok_def h m k o rc_at_def side_def)
qed

lemma malloc_nil: "d_mem db = [] \<Longrightarrow> d_malloc db = (True, db)"
  by (simp add: d_malloc_def)

lemma tree_ready_leaves: "books db \<Longrightarrow> tree_ready cs db \<longleftrightarrow> all_leaves (leaf_ready cs db) (roots db)"
  using books_at_root [of db] by (auto simp: tree_ready_def node_ready_def all_leaves_def own_select)

lemma leaf_inv_side: "side db db' \<Longrightarrow> leaf_inv cap cs db' = leaf_inv cap cs db"
  by (rule leaf_inv_eq) (rule conn_fields(3), simp add: side_def)

lemma qos_inv_side: "side db db' \<Longrightarrow> qos_inv cap c qos db' = qos_inv cap c qos db"
  using conn_fields(3) [of "get_ctx c db'" "get_ctx c db"] by (simp add: qos_inv_def qos_ready_def side_def)

lemma ids_ok_side: "side db db' \<Longrightarrow> ids_ok cs db' = ids_ok cs db"
proof -
  assume "side db db'"
  then have "c_id (get_ctx c db') = c_id (get_ctx c db)" for c
    using conn_fields(4) [of "get_ctx c db'" "get_ctx c db"] by (simp add: side_def)
  then show ?thesis by (simp add: ids_ok_def)
qed

lemma leaf_all: "all_leaves P n \<Longrightarrow> l \<in> set (h_subs n) \<Longrightarrow> P l"
  "all_leaves P n \<Longrightarrow> ht_find s (h_shared n) = Some ls \<Longrightarrow> l \<in> set ls \<Longrightarrow> P l"
  by (simp_all add: all_leaves_node [of P n]) (metis ht_find_Some_in snd_conv)

text \<open>What happens at the node to which a filter leads.\<close>

lemma add_leaf_ready:
  assumes a: "sub__add_leaf c qos identifier options head db = ((rc, subs), db')" and m: "d_mem db = []"
    and c: "c \<in> set cs" "qos_inv cap c qos db" and i: "ids_ok cs db" and h: "\<forall>l \<in> set head. leaf_inv cap cs db l"
  shows "db' = db \<and> rc \<in> {MOSQ_ERR_SUCCESS, MOSQ_ERR_SUB_EXISTS} \<and> (\<forall>l \<in> set subs. leaf_inv cap cs db l)
    \<and> (rc = MOSQ_ERR_SUCCESS \<longrightarrow> subs \<noteq> [] \<and> butlast subs = head)"
proof (cases "find_index (\<lambda>leaf. c_id (get_ctx (l_context leaf) db) \<noteq> None \<and> c_id (get_ctx (l_context leaf) db) = c_id (get_ctx c db)) head")
  case None
  then show ?thesis using a h c by (auto simp: sub__add_leaf_def malloc_nil [OF m] leaf_inv_def)
next
  case (Some i')
  let ?l = "(head ! i')\<lparr>l_qos := qos, l_identifier := identifier\<rparr>"
  have i': "i' < length head" "c_id (get_ctx (l_context (head ! i')) db) \<noteq> None"
    "c_id (get_ctx (l_context (head ! i')) db) = c_id (get_ctx c db)" using find_index_Some [OF Some] by blast+
  have "leaf_inv cap cs db (head ! i')" using h i'(1) by simp
  then have "l_context (head ! i') = c" using i i' c(1) unfolding ids_ok_def leaf_inv_def by metis
  then have "leaf_inv cap cs db ?l" using c by (simp add: leaf_inv_def)
  moreover have "db' = db" "rc = MOSQ_ERR_SUB_EXISTS" "subs = head[i' := ?l]"
    using a Some by (simp_all add: sub__add_leaf_def Let_def)
  ultimately show ?thesis using h set_update_subset_insert [of head i' ?l] by auto
qed

lemma all_leaves_lists:
  assumes "all_leaves P n" "\<forall>l \<in> set subs. P l" "\<forall>e \<in> set sh. \<forall>l \<in> set (snd e). P l"
  shows "all_leaves P (Subhier subs sh (h_children n))"
  using assms by (subst all_leaves_node) (simp add: all_leaves_node [of P n])

lemma add_normal_ready:
  assumes a: "sub__add_normal c qos identifier options path n db = ((rc, m), db')" and mem: "d_mem db = []"
    and c: "c \<in> set cs" "qos_inv cap c qos db" and i: "ids_ok cs db" and h: "all_leaves (leaf_inv cap cs db) n"
  shows "side db db' \<and> rc \<noteq> MOSQ_ERR_NOMEM \<and> all_leaves (leaf_inv cap cs db) m"
proof -
  obtain rc1 subs db1 where l: "sub__add_leaf c qos identifier options (h_subs n) db = ((rc1, subs), db1)" by (metis surj_pair)
  have "\<forall>l \<in> set (h_subs n). leaf_inv cap cs db l" using leaf_all(1) [OF h] by blast
  note r = add_leaf_ready [OF l mem c i this]
  obtain ok db2 where f: "add_ref c path db = (ok, db2)" by (cases "add_ref c path db")
  have ok: "ok \<and> side db db2"
    using f by (auto simp: add_ref_def malloc_nil [OF mem] conn_def split: option.splits intro!: side_upd_ctx)
  have "\<forall>e \<in> set (h_shared n). \<forall>l \<in> set (snd e). leaf_inv cap cs db l" using h by (simp add: all_leaves_node [of _ n])
  then have al: "all_leaves (leaf_inv cap cs db) (Subhier subs (h_shared n) (h_children n))"
    using all_leaves_lists [OF h] r by blast
  have s2: "side db (db2\<lparr>d_subscription_count := k\<rparr>)" for k using ok side_trans side_fields(2) by blast
  show ?thesis using a r ok al s2 by (auto simp: sub__add_normal_def l f added_code_def split: if_splits)
qed

lemma shared_lists:
  assumes "\<forall>e \<in> set sh. \<forall>l \<in> set (snd e). P l" "\<forall>l \<in> set subs. P l"
  shows "\<forall>e \<in> set (ht_set s subs sh). \<forall>l \<in> set (snd e). P l" "\<forall>e \<in> set (ht_add s subs sh). \<forall>l \<in> set (snd e). P l"
    "\<forall>e \<in> set (ht_del s sh). \<forall>l \<in> set (snd e). P l"
proof -
  show "\<forall>e \<in> set (ht_set s subs sh). \<forall>l \<in> set (snd e). P l" using assms by (auto dest!: set_ht_set)
  show "\<forall>e \<in> set (ht_add s subs sh). \<forall>l \<in> set (snd e). P l" using assms by (auto simp: ht_add_def)
  show "\<forall>e \<in> set (ht_del s sh). \<forall>l \<in> set (snd e). P l" using assms(1) by (auto dest!: set_ht_del)
qed

lemma add_shared_ready:
  assumes a: "sub__add_shared c qos identifier options path name n db = ((rc, m), db')" and mem: "d_mem db = []"
    and c: "c \<in> set cs" "qos_inv cap c qos db" and i: "ids_ok cs db" and h: "all_leaves (leaf_inv cap cs db) n"
  shows "side db db' \<and> rc \<noteq> MOSQ_ERR_NOMEM \<and> all_leaves (leaf_inv cap cs db) m"
proof -
  define shared where "shared = (if ht_find name (h_shared n) \<noteq> None then h_shared n else ht_add name [] (h_shared n))"
  have e: "shared_entry name (h_shared n) db = (Some shared, db)"
    by (simp add: shared_entry_def shared_def malloc_nil [OF mem])
  have ln: "\<forall>e \<in> set (h_shared n). \<forall>l \<in> set (snd e). leaf_inv cap cs db l" and lh: "\<forall>l \<in> set (h_subs n). leaf_inv cap cs db l"
    using h by (simp_all add: all_leaves_node [of _ n])
  have ls: "\<forall>e \<in> set shared. \<forall>l \<in> set (snd e). leaf_inv cap cs db l"
    using ln shared_lists(2) [OF ln, of "[]" name] by (simp add: shared_def)
  define old where "old = the (ht_find name shared)"
  have "ht_find name shared \<noteq> None" by (auto simp: shared_def ht_find_add)
  then have "ht_find name shared = Some old" by (auto simp: old_def)
  then have lo: "\<forall>l \<in> set old. leaf_inv cap cs db l" using ls ht_find_Some_in by fastforce
  obtain rc1 subs db1 where l: "sub__add_leaf c qos identifier options old db = ((rc1, subs), db1)" by (metis surj_pair)
  note r = add_leaf_ready [OF l mem c i lo]
  obtain ok db2 where f: "add_shared_ref c path name db = (ok, db2)" by (cases "add_shared_ref c path name db")
  have ok: "ok \<and> side db db2"
    using f by (auto simp: add_shared_ref_def malloc_nil [OF mem] conn_def split: option.splits intro!: side_upd_ctx)
  have al: "all_leaves (leaf_inv cap cs db) (Subhier (h_subs n) (ht_set name subs shared) (h_children n))"
    using all_leaves_lists [OF h lh] shared_lists(1) [OF ls] r by blast
  have s2: "side db (db2\<lparr>d_shared_subscription_count := k\<rparr>)" for k using ok side_trans side_fields(3) by blast
  show ?thesis using a r ok al s2
    by (auto simp: sub__add_shared_def e old_def [symmetric] Let_def l f malloc_nil [OF mem] added_code_def split: if_splits)
qed

lemma add_at_ready:
  assumes a: "add_at c qos identifier options path sharename n db = ((rc, m), db')" and mem: "d_mem db = []"
    and c: "c \<in> set cs" "qos_inv cap c qos db" and i: "ids_ok cs db" and h: "all_leaves (leaf_inv cap cs db) n"
  shows "side db db' \<and> rc \<noteq> MOSQ_ERR_NOMEM \<and> all_leaves (leaf_inv cap cs db) m"
  using a add_normal_ready [OF _ mem c i h] add_shared_ready [OF _ mem c i h] h
  by (auto simp: add_at_def split: if_splits option.splits)

lemma sub_walk_ready:
  assumes add: "\<And>n rc m db'. all_leaves P n \<Longrightarrow> add n db = ((rc, m), db') \<Longrightarrow>
      side db db' \<and> rc \<noteq> MOSQ_ERR_NOMEM \<and> all_leaves P m"
    and mem: "d_mem db = []" 
  shows "sub_walk ts add n db = ((rc, m), db') \<Longrightarrow> all_leaves P n \<Longrightarrow> side db db' \<and> rc \<noteq> MOSQ_ERR_NOMEM \<and> all_leaves P m"
proof (induction ts arbitrary: n rc m db')
  case Nil
  then show ?case using add by simp
next
  case (Cons t ts)
  show ?case
  proof (cases "length t > 65535")
    case True
    then show ?thesis using Cons.prems by simp
  next
    case short: False
    define b where "b = (case ht_find t (h_children n) of None \<Rightarrow> no_hier | Some b \<Rightarrow> b)"
    have b: "all_leaves P b" using all_leaves_child [OF Cons.prems(2)] by (simp add: b_def split: option.split)
    obtain rc1 b1 db1 where w: "sub_walk ts add b db = ((rc1, b1), db1)" by (metis surj_pair)
    note r = Cons.IH [OF w b]
    have e: "sub__add_hier_entry db = (Some no_hier, db)" by (simp add: sub__add_hier_entry_def malloc_nil [OF mem])
    have m: "rc = rc1" "db' = db1" "m = Subhier (h_subs n) (h_shared n)
        (case ht_find t (h_children n) of None \<Rightarrow> ht_add t b1 (h_children n) | Some _ \<Rightarrow> ht_set t b1 (h_children n))"
      using Cons.prems(1) short w e by (auto simp: b_def Let_def split: option.splits)
    have "all_leaves P m" unfolding m(3)
    proof (rule all_leaves_children [OF Cons.prems(2)])
      fix t' b' assume "ht_find t' (case ht_find t (h_children n) of None \<Rightarrow> ht_add t b1 (h_children n) | Some _ \<Rightarrow> ht_set t b1 (h_children n)) = Some b'"
      then have "b' = b1 \<or> ht_find t' (h_children n) = Some b'" by (auto simp: ht_find_add ht_find_set split: option.splits if_splits)
      then show "all_leaves P b'" using r Cons.prems(2) by (auto simp: all_leaves_node [of P n])
    qed
    then show ?thesis using r m by simp
  qed
qed

lemma tokenise_nil: "d_mem db = [] \<Longrightarrow> sub__topic_tokenise sub (d_mem db) = (r, mem) \<Longrightarrow> db\<lparr>d_mem := mem\<rparr> = db"
  using tokenise_mem by fastforce

text \<open>The invariant after a change to the subscriptions.\<close>

lemma inv_side:
  assumes i: "broker_inv cap cs E db" and s: "side db db'" and b: "books db'"
    and l: "all_leaves (leaf_inv cap cs db) (roots db')"
  shows "broker_inv cap cs E db'"
proof -
  have l': "all_leaves (leaf_inv cap cs db') (roots db')" using l leaf_inv_side [OF s] by simp
  then have "all_leaves (leaf_ready cs db') (roots db')" by (rule all_leaves_mono) (rule leaf_inv_ready)
  then have "tree_ready cs db'" using tree_ready_leaves [OF b] by simp
  moreover have "broker_ok cs (retained_refs db' + E) db'"
    using side_broker [OF s] i s by (simp add: broker_inv_def retained_refs_def side_def)
  moreover have "heap_ok db'" using i s by (simp add: broker_inv_def heap_ok_def side_def dest_ok_def stored_at_def)
  moreover have "ctx_ok (get_ctx c db')" if "ctx_ok (get_ctx c db)" for c
    using that s conn_fields [of "get_ctx c db'" "get_ctx c db"] by (simp add: ctx_ok_def side_def)
  ultimately show ?thesis using i b s l' ids_ok_side [OF s] by (simp add: broker_inv_def side_def)
qed

lemma inv_leaves: "broker_inv cap cs E db \<Longrightarrow> all_leaves (leaf_inv cap cs db) (roots db)"
  by (simp add: broker_inv_def)

lemma inv_sub_add:
  assumes i: "broker_inv cap cs E db" and c: "c \<in> set cs" "qos_inv cap c qos db"
    and a: "sub__add c sub qos identifier options db = (rc, db')"
  shows "broker_inv cap cs E db' \<and> side db db'"
proof (cases "sub = []")
  case True
  then show ?thesis using a i by (auto simp: sub__add_def sub__topic_tokenise_def)
next
  case ne: False
  have mem: "d_mem db = []" and bk: "books db" and ids: "ids_ok cs db" using i by (simp_all add: broker_inv_def)
  obtain r mem' where t: "sub__topic_tokenise sub (d_mem db) = (r, mem')" by (cases "sub__topic_tokenise sub (d_mem db)")
  note db = tokenise_nil [OF mem t]
  show ?thesis
  proof (rule sub__topic_tokenise_cases [OF ne, of "d_mem db"], goal_cases)
    case 1
    then have "db' = db" using a t db by (simp add: sub__add_def)
    then show ?thesis using i by simp
  next
    case 2
    then have "db' = db" using a t db by (simp add: sub__add_def)
    then show ?thesis using i by simp
  next
    case (3 ts)
    then have tt: "sub__topic_tokenise sub (d_mem db) = (Inr (ts, share_group sub), mem')" using t by simp
    let ?add = "add_at c qos identifier options (sub_path sub) (share_group sub)"
    obtain rc1 n db1 where w: "sub_walk (sub_path sub) ?add (roots db) db = ((rc1, n), db1)" by (metis surj_pair)
    have e: "rc = rc1" "db' = db1\<lparr>d_subs := h_children n\<rparr>"
      using sub_add_walk [OF tt 3(2) _ _ w [unfolded sub_path_def]] db a by (simp_all add: filed_levels_def)
    have top: "n = Subhier [] [] (h_children n)" using sub_walk_top [OF w [unfolded sub_path_def]] .
    have rt: "roots db' = n" using roots_children [OF top] by (simp add: e)
    have r: "side db db1 \<and> rc1 \<noteq> MOSQ_ERR_NOMEM \<and> all_leaves (leaf_inv cap cs db) n"
      by (rule sub_walk_ready [OF add_at_ready [OF _ mem c ids] mem w inv_leaves [OF i]])
    have "books db'" using sub_add_ok [OF bk ne a] r e(1) by blast
    moreover have "side db db'" using r side_trans side_fields(1) e(2) by blast
    ultimately show ?thesis using inv_side [OF i] r rt by simp
  qed
qed

lemma removed_ready:
  assumes "sub__remove_normal c path n reason db = ((rc, m, reason'), db') \<or>
     sub__remove_shared c path n reason s db = ((rc, m, reason'), db')"
    and h: "all_leaves P n"
  shows "side db db' \<and> all_leaves P m"
proof -
  have l: "\<forall>e \<in> set (h_shared n). \<forall>l \<in> set (snd e). P l" "\<forall>l \<in> set (h_subs n). P l"
    using h by (simp_all add: all_leaves_node [of P n])
  have d: "set (del_at k xs) \<subseteq> set xs" for k and xs :: "mosquitto__subleaf list"
    by (auto simp: del_at_def dest: in_set_takeD in_set_dropD)
  have s1: "side db (upd_ctx c f (db\<lparr>d_subscription_count := k\<rparr>))" "side db (upd_ctx c f (db\<lparr>d_shared_subscription_count := k\<rparr>))"
    if "\<And>ctx. conn (f ctx) = conn ctx" for f k using that side_trans [OF _ side_upd_ctx [of f]] by simp_all
  from assms(1) show ?thesis
  proof
    assume "sub__remove_normal c path n reason db = ((rc, m, reason'), db')"
    moreover have "all_leaves P (Subhier (del_at k (h_subs n)) (h_shared n) (h_children n))" for k
      using all_leaves_lists [OF h _ l(1)] l(2) d by blast
    ultimately show ?thesis using h by (auto simp: sub__remove_normal_def Let_def conn_def split: option.splits intro!: s1)
  next
    assume r: "sub__remove_shared c path n reason s db = ((rc, m, reason'), db')"
    show ?thesis
    proof (cases "ht_find s (h_shared n)")
      case None
      then show ?thesis using r h by (simp add: sub__remove_shared_def)
    next
      case (Some xs)
      have "all_leaves P (Subhier (h_subs n) (if del_at k xs = [] then ht_del s (h_shared n)
          else ht_set s (del_at k xs) (h_shared n)) (h_children n))" for k
      proof (rule all_leaves_lists [OF h l(2)])
        have "\<forall>l \<in> set xs. P l" using leaf_all(2) [OF h Some] by blast
        then have "\<forall>l \<in> set (del_at k xs). P l" using d by blast
        note sl = shared_lists [OF l(1) this, of s]
        show "\<forall>e \<in> set (if del_at k xs = [] then ht_del s (h_shared n) else ht_set s (del_at k xs) (h_shared n)). \<forall>l \<in> set (snd e). P l"
        proof (cases "del_at k xs = []")
          case True
          show ?thesis unfolding if_P [OF True] by (rule sl(3))
        next
          case False
          show ?thesis unfolding if_not_P [OF False] by (rule sl(1))
        qed
      qed
      moreover have "side db (upd_ctx c (\<lambda>ctx. ctx\<lparr>c_shared_subs := drop_slot (path, s) (c_shared_subs ctx)\<rparr>)
          (db\<lparr>d_shared_subscription_count := d_shared_subscription_count db - 1\<rparr>))" by (rule s1) (simp add: conn_def)
      moreover have "m = n \<and> db' = db \<or> (\<exists>k. m = Subhier (h_subs n) (if del_at k xs = [] then ht_del s (h_shared n)
            else ht_set s (del_at k xs) (h_shared n)) (h_children n))
          \<and> db' = upd_ctx c (\<lambda>ctx. ctx\<lparr>c_shared_subs := drop_slot (path, s) (c_shared_subs ctx)\<rparr>)
          (db\<lparr>d_shared_subscription_count := d_shared_subscription_count db - 1\<rparr>)"
        using r Some unfolding sub__remove_shared_def Let_def by (auto split: option.splits)
      ultimately show ?thesis using h by (elim disjE exE conjE) simp_all
    qed
  qed
qed

lemma remove_recurse_ready:
  "sub__remove_recurse ts c path n reason sharename db = ((rc, n', reason'), db') \<Longrightarrow> hier_wf n \<Longrightarrow> all_leaves P n \<Longrightarrow>
   side db db' \<and> all_leaves P n'"
proof (induction ts arbitrary: n path rc n' reason' db')
  case Nil
  then show ?case using removed_ready [OF _ Nil(3), of c path reason db rc n' reason' db'] by (auto split: option.splits)
next
  case (Cons t ts)
  show ?case
  proof (cases "ht_find t (h_children n)")
    case None
    then show ?thesis using Cons.prems by simp
  next
    case (Some b)
    obtain rc1 b1 rs1 db1 where r: "sub__remove_recurse ts c (path @ [t]) b reason sharename db = ((rc1, b1, rs1), db1)" by (metis surj_pair)
    have wf: "sub_wf (h_children n)" using Cons.prems(2) by (simp add: hier_wf_def)
    have "all_leaves P b" using Cons.prems(3) Some by (simp add: all_leaves_node [of P n])
    note k = Cons.IH [OF r sub_wf_find [OF wf Some] this]
    have "ht_wf (h_children n)" using wf by (simp add: sub_wf_iff)
    have "all_leaves P (Subhier (h_subs n) (h_shared n)
        (if hier_empty b1 then ht_del t (h_children n) else ht_set t b1 (h_children n)))"
    proof (rule all_leaves_children [OF Cons.prems(3)])
      fix t' b' assume "ht_find t' (if hier_empty b1 then ht_del t (h_children n) else ht_set t b1 (h_children n)) = Some b'"
      then have "b' = b1 \<or> ht_find t' (h_children n) = Some b'"
        using \<open>ht_wf (h_children n)\<close> by (auto simp: ht_find_del ht_find_set split: if_splits)
      then show "all_leaves P b'" using k Cons.prems(3) by (auto simp: all_leaves_node [of P n])
    qed
    then show ?thesis using Cons.prems(1) Some r k by simp
  qed
qed

lemma inv_sub_remove:
  assumes i: "broker_inv cap cs E db" and r: "sub__remove c sub reason0 db = ((rc, reason), db')"
  shows "broker_inv cap cs E db' \<and> side db db'"
proof (cases "sub = []")
  case True
  then show ?thesis using r i by (auto simp: sub__remove_def sub__topic_tokenise_def)
next
  case ne: False
  have mem: "d_mem db = []" and bk: "books db" using i by (simp_all add: broker_inv_def)
  obtain x mem' where t: "sub__topic_tokenise sub (d_mem db) = (x, mem')" by (cases "sub__topic_tokenise sub (d_mem db)")
  note db = tokenise_nil [OF mem t]
  have bk': "books db'" using sub_remove_ok [OF bk ne r] by blast
  have hw: "hier_wf (roots db)" using bk by (simp add: books_defs roots_def)
  have "side db db' \<and> all_leaves (leaf_inv cap cs db) (roots db')"
  proof (rule sub__topic_tokenise_cases [OF ne, of "d_mem db"], goal_cases)
    case 1
    then show ?thesis using r t db inv_leaves [OF i] by (simp add: sub__remove_def)
  next
    case 2
    then show ?thesis using r t db inv_leaves [OF i] by (simp add: sub__remove_def)
  next
    case (3 ts)
    let ?root = "hd (filed_levels sub)"
    show ?thesis
    proof (cases "ht_find ?root (d_subs db)")
      case None
      then show ?thesis using 3 r t db inv_leaves [OF i] by (simp add: sub__remove_def Let_def)
    next
      case (Some h)
      obtain rc1 h1 rs1 db1 where w: "sub__remove_recurse (filed_levels sub) c [?root] h MQTT_RC_NO_SUBSCRIPTION_EXISTED
          (share_group sub) db = ((rc1, h1, rs1), db1)" by (metis surj_pair)
      have h: "hier_wf h" "all_leaves (leaf_inv cap cs db) h"
        using hw sub_wf_find [OF _ Some] all_leaves_child [OF inv_leaves [OF i], of ?root h] Some
      by (simp_all add: roots_def)
      note k = remove_recurse_ready [OF w h]
      have e: "db' = db1\<lparr>d_subs := ht_set ?root h1 (d_subs db1)\<rparr>"
        using r t 3 Some w db by (auto simp: sub__remove_def Let_def)
      have d1: "d_subs db1 = d_subs db" using remove_recurse_spec [OF w] removed_subs by auto
      have "all_leaves (leaf_inv cap cs db) (Subhier (h_subs (roots db)) (h_shared (roots db)) (ht_set ?root h1 (d_subs db)))"
      proof (rule all_leaves_children [OF inv_leaves [OF i]])
        fix t b assume "ht_find t (ht_set ?root h1 (d_subs db)) = Some b"
        then have "b = h1 \<or> ht_find t (h_children (roots db)) = Some b" by (auto simp: ht_find_set roots_def split: if_splits)
        then show "all_leaves (leaf_inv cap cs db) b" using k all_leaves_child [OF inv_leaves [OF i]] by blast
      qed
      then show ?thesis using k side_trans [OF conjunct1 [OF k] side_fields(1)] by (simp add: e d1 roots_def)
    qed
  qed
  then show ?thesis using inv_side [OF i _ bk'] by blast
qed

section \<open>Messages\<close>

lemma inv_retain_queue:
  assumes i: "broker_inv cap cs E db" and c: "c \<in> set cs" "qos_ready c sub_qos db"
  shows "broker_inv cap cs E (snd (retain__queue env c sub sub_qos ident db))
    \<and> bcore db (snd (retain__queue env c sub sub_qos ident db))"
proof (cases "sub = []")
  case True
  then show ?thesis using i by (simp add: retain__queue_def sub__topic_tokenise_def)
next
  case ne: False
  have b: "clients cs" "broker_ok cs (retained_refs db + E) db" using i by (simp_all add: broker_inv_def)
  note r = retain_queue_ok [OF b(1) c(1) b(2) c(2) ne, of env ident]
  then have "rotated (roots db) (roots (snd (retain__queue env c sub sub_qos ident db)))" by (simp add: roots_def)
  then show ?thesis using inv_rotated [OF i] r by blast
qed

lemma inv_heap: "broker_inv cap cs E db \<Longrightarrow> d_heap db p \<noteq> None \<Longrightarrow>
    p < d_next db \<and> dest_ok p db \<and> (\<exists>t. s_topic (stored_at p db) = Some t \<and> good_topic t)"
  by (auto simp: broker_inv_def heap_ok_def stored_at_def)

lemma inv_messages_queue:
  assumes i: "broker_inv cap cs E db" and l: "live stored db" and t: "good_topic topic"
    and q: "sub__messages_queue env source_id topic qos retain stored db = ((rc, r), db')"
  shows "broker_inv cap cs E db' \<and> bcore db db' \<and> ins db' = ins db"
proof -
  have b: "clients cs" "broker_ok cs (retained_refs db + E) db" "tree_ready cs db" "d_mem db = []"
    using i by (simp_all add: broker_inv_def)
  have "no_null stored db" using inv_heap [OF i, of stored] l b(4) by (simp add: no_null_def live_def)
  from messages_queue_ok [OF b(1,2) l this b(3) _ _ q] t
  have "broker_ok cs (retained_refs db' + E) db' \<and> bcore db db' \<and> rotated (roots db) (roots db')"
    by (simp add: good_topic_def)
  then show ?thesis using inv_rotated [OF i] ins_messages_queue [of env source_id topic qos retain stored db] q by simp
qed

text \<open>What a queue or the retained messages hold is alive.\<close>

lemma held_live:
  assumes i: "broker_inv cap cs E db" and c: "c \<in> set cs" and p: "p \<in># held c db"
  shows "live p db"
proof -
  have b: "broker_ok cs (retained_refs db + E) db" "distinct cs" using i by (simp_all add: broker_inv_def clients_def)
  then have "inv (keys_of c db) (all_held (remove1 c cs) db + (retained_refs db + E)) c db"
    using broker_ok_split [OF c] by (simp add: accounted_def)
  then show ?thesis by (rule liveI) (simp add: p)
qed

lemma inflight_held: "i < length (inflight (md_of c dir db)) \<Longrightarrow> m_store (inflight (md_of c dir db) ! i) \<in># held c db"
  using keys_of_inflight [of i c dir db] by (cases dir) (force simp: held_def md_held_def keys_of_def)+

text \<open>A null pointer comes back only when the message was freed.\<close>

lemma queue_freed:
  "sub__messages_queue env source_id topic qos retain stored db = ((rc, None), db') \<Longrightarrow> d_heap db' stored = None"
proof -
  have "db__msg_store_ref_dec p d = (None, d') \<Longrightarrow> d_heap d' p = None" for p d d'
    by (auto simp: db__msg_store_ref_dec_def Let_def db__msg_store_remove_def db__msg_store_free_def split: option.splits if_splits)
  then show "sub__messages_queue env source_id topic qos retain stored db = ((rc, None), db') \<Longrightarrow> d_heap db' stored = None"
    unfolding sub__messages_queue_def Let_def by (auto split: sum.splits prod.splits stop.splits)
qed

text \<open>A new message is stored.\<close>

lemma inv_message_store:
  assumes i: "broker_inv cap cs E db" and s: "s_ref_count s = 0" "s_topic s = Some t" "good_topic t"
    and st: "db__message_store src (d_next db) expiry 0 origin
      (db\<lparr>d_heap := (d_heap db)(d_next db \<mapsto> s), d_next := Suc (d_next db)\<rparr>) = (rc, db')"
  shows "rc = MOSQ_ERR_SUCCESS \<and> broker_inv cap cs E db' \<and> live (d_next db) db' \<and> d_contexts db' = d_contexts db
    \<and> s_topic (stored_at (d_next db) db') = Some t \<and> s_qos (stored_at (d_next db) db') = s_qos s
    \<and> s_source_mid (stored_at (d_next db) db') = s_source_mid s"
proof -
  let ?p = "d_next db"
  let ?db = "db\<lparr>d_next := Suc ?p\<rparr>" and ?db1 = "db\<lparr>d_heap := (d_heap db)(?p \<mapsto> s), d_next := Suc ?p\<rparr>"
  have free: "d_heap db ?p = None" using inv_heap [OF i, of ?p] less_irrefl by blast
  have mem: "d_mem db = []" and cs: "clients cs" using i by (simp_all add: broker_inv_def)
  obtain c where c: "c \<in> set cs" using clients_ex [OF cs] by blast
  have b0: "broker_ok cs (retained_refs db + E) ?db" using i
    by (simp add: broker_inv_def broker_ok_def all_held_def client_ok_def held_def md_of_def get_ctx_def keys_of_def
      md_ok_def store_ok_def rc_at_def plen_def stored_at_def)
  have e: "?db\<lparr>d_heap := (d_heap ?db)(?p \<mapsto> s)\<rparr> = ?db1" by (cases db) simp
  have "db' = snd (db__message_store src ?p expiry 0 origin (?db\<lparr>d_heap := (d_heap ?db)(?p \<mapsto> s)\<rparr>))"
    unfolding e by (simp only: st snd_conv)
  moreover have "broker_ok cs (retained_refs db + E) (snd (db__message_store src ?p expiry 0 origin (?db\<lparr>d_heap := (d_heap ?db)(?p \<mapsto> s)\<rparr>)))"
    by (rule broker_store [OF b0 c]) (use cs free s(1) in \<open>simp_all add: clients_def\<close>)
  ultimately have b: "broker_ok cs (retained_refs db + E) db'" by simp
  obtain s' where s': "rc = MOSQ_ERR_SUCCESS" "d_heap db' = (d_heap db)(?p \<mapsto> s')" "d_next db' = Suc ?p" "s_dest_ids s' = None"
      "s_topic s' = s_topic s" "s_qos s' = s_qos s" "s_source_mid s' = s_source_mid s"
      "?p \<in> set (d_msg_store db')" "d_contexts db' = d_contexts db" "d_mem db' = []" "d_subs db' = d_subs db" "d_retains db' = d_retains db"
      "d_subscription_count db' = d_subscription_count db" "d_shared_subscription_count db' = d_shared_subscription_count db"
    using st mem unfolding db__message_store_def
    by (simp add: touch_def malloc_nil Let_def upd_store_def db__msg_store_add_def split: if_splits) auto
  have g: "get_ctx c' db' = get_ctx c' db" for c' using s'(9) by (simp add: get_ctx_def)
  have "dest_ok ?p db'" using s'(2,4) by (simp add: dest_ok_def ids_of_def stored_at_def)
  moreover have "dest_ok q db' = dest_ok q db" if "q \<noteq> ?p" for q using s'(2) that by (simp add: dest_ok_def stored_at_def)
  ultimately have "heap_ok db'" using i s s' free unfolding heap_ok_def broker_inv_def
    by (auto simp: less_Suc_eq split: if_splits)
  moreover have "books db'" using i s' g unfolding broker_inv_def books_def bookkeep_def by (simp add: roots_def ref_count_def shared_ref_count_def)
  moreover have "tree_ready cs db'" using i s' g
    by (simp add: broker_inv_def tree_ready_def node_ready_def leaf_ready_def qos_ready_def roots_def)
  moreover have "leaf_inv cap cs db' = leaf_inv cap cs db" by (rule leaf_inv_eq) (simp add: g)
  then have "all_leaves (leaf_inv cap cs db') (roots db')" using i s' by (simp add: broker_inv_def roots_def)
  ultimately have "broker_inv cap cs E db'" using i b s' g by (simp add: broker_inv_def retained_refs_def ids_ok_def)
  then show ?thesis using s' s by (simp add: live_def stored_at_def)
qed

end
