(* ===== verification/Handlers_Ok.thy ===== *)
theory Handlers_Ok
  imports Broker_Inv
begin

text \<open>
  Every handler of packets keeps the invariant of the broker and returns a code, whatever the packet
  contains: the handlers of \<open>Handlers\<close> and \<open>Handle_Subs\<close>. A handler is described by the locale
  \<open>packet_handler\<close>, which each of them interprets.
\<close>

section \<open>The contract of a handler\<close>

definition kept :: "bool \<Rightarrow> cptr list \<Rightarrow> unit res \<times> mosquitto_db \<Rightarrow> bool" where
  "kept cap cs r \<longleftrightarrow> broker_inv cap cs {#} (snd r) \<and> returns (fst r)"

lemma kept_simps [simp]:
  "kept cap cs (Inr u, db) = broker_inv cap cs {#} db" "kept cap cs (Inl (Rc e), db) = broker_inv cap cs {#} db"
  "kept cap cs (rc_res rc, db) = broker_inv cap cs {#} db"
  by (auto simp: kept_def rc_res_def)

lemma kept_if: "kept cap cs (if b then x else y, db) \<longleftrightarrow> (if b then kept cap cs (x, db) else kept cap cs (y, db))"
  by simp

locale packet_handler =
  fixes handle :: handler
  assumes keeps: "broker_inv cap cs {#} db \<Longrightarrow> c \<in> set cs \<Longrightarrow> rd_wf p \<Longrightarrow> kept cap cs (handle c p db)"
begin

lemma disconnects:
  assumes "broker_inv cap cs {#} db" "c \<in> set cs" "rd_wf p"
  shows "kept cap cs (or_disconnect c (handle c p db))"
proof -
  obtain r db1 where h: "handle c p db = (r, db1)" by (rule prod.exhaust)
  have k: "broker_inv cap cs {#} db1" "returns r" using keeps [OF assms] by (simp_all add: kept_def h)
  have s: "broker_inv cap cs {#} (snd (d_send c ev db1))" for ev by (rule inv_calm [OF k(1) assms(2) calm_send])
  show ?thesis using k s by (auto simp: or_disconnect_def h returns_def split: sum.split stop.split option.split)
qed

lemma sequence:
  assumes "broker_inv cap cs {#} db" "\<And>c p. (c, p) \<in> set xs \<Longrightarrow> c \<in> set cs \<and> rd_wf p"
  shows "broker_inv cap cs {#} (fold (\<lambda>(c, p) db. snd (handle c p db)) xs db)"
  using assms
proof (induction xs arbitrary: db)
  case (Cons x xs)
  obtain c p where x: "x = (c, p)" by (rule prod.exhaust)
  then have "kept cap cs (handle c p db)" using keeps [OF Cons.prems(1)] Cons.prems(2) [of c p] by simp
  then have i: "broker_inv cap cs {#} (snd (handle c p db))" by (simp add: kept_def)
  have "c' \<in> set cs \<and> rd_wf p'" if "(c', p') \<in> set xs" for c' p'
    by (rule Cons.prems(2)) (simp add: that)
  from Cons.IH [OF i this] show ?case by (simp add: x)
qed simp

end

section \<open>Reading\<close>

lemma binary_nil: "packet__read_binary p [] = (r, p', mem) \<Longrightarrow> mem = []"
  by (auto simp: packet__read_binary_def split: prod.splits sum.splits if_splits)

lemma string_nil: "packet__read_string p [] = (r, p', mem) \<Longrightarrow> mem = []"
  by (auto simp: packet__read_string_def split: prod.splits sum.splits if_splits option.splits stop.splits dest: binary_nil)

lemma property_nil: "property__read p [] len = (r, p', mem) \<Longrightarrow> mem = []"
  by (auto simp: property__read_def on_ok_def no_alloc_def Let_def dest!: string_nil binary_nil
      split: prod.splits sum.splits option.splits mqtt5_property_type.splits)

lemma properties_nil: "property__read_loop p [] len ps = Some res \<Longrightarrow> snd (snd res) = []"
proof -
  assume r: "property__read_loop p [] len ps = Some res"
  have "([] :: mem) = [] \<longrightarrow> snd (snd res) = []"
  proof (rule property__read_loop.raw_induct [OF _ r, where P = "\<lambda>p mem len ps res. mem = [] \<longrightarrow> snd (snd res) = []"])
    fix loop and packet and mem :: mem and len ps res
    assume ih: "\<And>p mem len ps res. loop p mem len ps = Some res \<Longrightarrow> mem = [] \<longrightarrow> snd (snd res) = []"
      and l: "(if 0 < len then case malloc_ok mem of (ok, mem) \<Rightarrow>
               if \<not> ok then Some (rc_fail MOSQ_ERR_NOMEM, packet, mem)
               else (case property__read packet mem len of (Inl e, packet, mem) \<Rightarrow> Some (Inl e, packet, mem)
                  | (Inr (p, proplen), packet, mem) \<Rightarrow> loop packet mem proplen (ps @ [p]))
             else Some (Inr ps, packet, mem)) = Some res"
    obtain x p' mem' where x: "property__read packet [] len = (x, p', mem')" by (metis surj_pair)
    show "mem = [] \<longrightarrow> snd (snd res) = []"
      using l property_nil [OF x] x ih [of p' "[]" _ _ res] by (cases res) (auto split: if_splits sum.splits)
  qed
  then show "snd (snd res) = []" by simp
qed

lemma read_all_nil: "property__read_all command p [] = Some (r, p', mem) \<Longrightarrow> mem = []"
  by (auto simp: property__read_all_def split: prod.splits sum.splits option.splits dest!: properties_nil)

lemma read_props_ok:
  assumes "rd_wf p" "d_mem db = []" "read_props command p db = (r, p', db')"
  shows "db' = db \<and> rd_safe p r p'"
proof -
  obtain res where a: "property__read_all command p [] = Some res" "safe p res" using read_all_total [OF assms(1)] by blast
  obtain r1 p1 m1 where res: "res = (r1, p1, m1)" by (metis surj_pair)
  have "m1 = []" using read_all_nil a(1) res by simp
  then show ?thesis using assms(2,3) a res by (auto simp: read_props_def safe_def)
qed

lemma rd_safe_returns: "rd_safe p r p' \<Longrightarrow> returns r"
  by (auto simp: rd_safe_def returns_def)

lemma read_ack_ok:
  assumes p: "rd_wf p" and m: "d_mem db = []" and r: "read_ack command c p db = (r, db')"
  shows "db' = db \<and> returns r"
proof -
  obtain x p1 where 1: "packet__read_uint16 p = (x, p1)" by (rule prod.exhaust)
  obtain y p2 where 2: "packet__read_byte p1 = (y, p2)" by (rule prod.exhaust)
  obtain z p3 db3 where 3: "read_props command p2 db = (z, p3, db3)" by (metis surj_pair)
  note s1 = safe_uint16 [OF p 1]
  have p1: "rd_wf p1" by (rule rd_safe_wf [OF p s1])
  note s2 = safe_byte [OF p1 2]
  have p2: "rd_wf p2" by (rule rd_safe_wf [OF p1 s2])
  note s3 = read_props_ok [OF p2 m 3]
  show ?thesis using r rd_safe_returns [OF s1] rd_safe_returns [OF s2] s3 rd_safe_returns [of p2 z p3]
    by (auto simp: read_ack_def 1 2 3 returns_def split: sum.splits if_splits)
qed

lemma inv_mem: "broker_inv cap cs E db \<Longrightarrow> d_mem db = []"
  by (simp add: broker_inv_def)

lemma inv_send: "broker_inv cap cs E db \<Longrightarrow> c \<in> set cs \<Longrightarrow> d_send c ev db = (rc, db') \<Longrightarrow> broker_inv cap cs E db'"
  using inv_calm [OF _ _ calm_send [of c db ev]] by simp

lemma inv_sends:
  assumes "broker_inv cap cs E db" "c \<in> set cs"
  shows "send__puback c mid reason ps db = (rc, db') \<Longrightarrow> broker_inv cap cs E db'"
    "send__pubcomp c mid db = (rc, db') \<Longrightarrow> broker_inv cap cs E db'"
    "send__pubrec c mid reason ps db = (rc, db') \<Longrightarrow> broker_inv cap cs E db'"
    "send__pubrel c mid db = (rc, db') \<Longrightarrow> broker_inv cap cs E db'"
    "send__pingresp c db = (rc, db') \<Longrightarrow> broker_inv cap cs E db'"
  using inv_send [OF assms] inv_send [OF inv_calm [OF assms calm_quota(1)] assms(2)]
  by (auto simp: send__puback_def send__pubcomp_def send__pubrec_def send__pubrel_def send__pingresp_def split: if_splits)

section \<open>Acknowledgements and pings\<close>

interpretation pubackcomp: packet_handler "handle__pubackcomp type" for type
proof
  fix cap cs db c p assume i: "broker_inv cap cs {#} db" and c: "c \<in> set cs" and p: "rd_wf p"
  let ?db = "util__increment_send_quota c db"
  have i1: "broker_inv cap cs {#} ?db" by (rule inv_calm [OF i c calm_quota(2)])
  obtain r db2 where r: "read_ack CMD_PUBACK c p ?db = (r, db2)" by (rule prod.exhaust)
  note a = read_ack_ok [OF p inv_mem [OF i1] r]
  have "broker_inv cap cs {#} (snd (db__message_delete_outgoing c mid st q ?db))" for mid st q
    by (rule inv_good [OF i1 c good_delete_outgoing])
  then have d: "db__message_delete_outgoing c mid st q ?db = (rc, db3) \<Longrightarrow> broker_inv cap cs {#} db3" for mid st q rc db3
    by (metis snd_conv)
  show "kept cap cs (handle__pubackcomp type c p db)"
    using a i i1 r by (auto simp: handle__pubackcomp_def Let_def returns_def kept_if dest: d split: sum.split prod.split)
qed

interpretation pubrec: packet_handler handle__pubrec
proof
  fix cap cs db c p assume i: "broker_inv cap cs {#} db" and c: "c \<in> set cs" and p: "rd_wf p"
  obtain r db2 where r: "read_ack CMD_PUBREC c p db = (r, db2)" by (rule prod.exhaust)
  note a = read_ack_ok [OF p inv_mem [OF i] r]
  have "broker_inv cap cs {#} (snd (db__message_delete_outgoing c mid st q db))" for mid st q
    by (rule inv_good [OF i c good_delete_outgoing])
  then have d: "db__message_delete_outgoing c mid st q db = (rc, db3) \<Longrightarrow> broker_inv cap cs {#} db3" for mid st q rc db3
    by (metis snd_conv)
  have "broker_inv cap cs {#} (snd (db__message_update_outgoing c mid mosq_ms_wait_for_pubcomp 2 db))" for mid
    by (rule inv_good [OF i c good_update_outgoing])
  then have u: "db__message_update_outgoing c mid mosq_ms_wait_for_pubcomp 2 db = (rc, db3) \<Longrightarrow> broker_inv cap cs {#} db3" for mid rc db3
    by (metis snd_conv)
  show "kept cap cs (handle__pubrec c p db)"
    using a i r by (auto simp: handle__pubrec_def returns_def dest: d u inv_sends(4) [OF u c] split: sum.split prod.split)
qed

interpretation pingreq: packet_handler handle__pingreq
  by unfold_locales (auto simp: handle__pingreq_def dest: inv_sends(5) split: prod.split)

interpretation pingresp: packet_handler handle__pingresp
proof
  fix cap cs db c p assume i: "broker_inv cap cs {#} db" and c: "c \<in> set cs"
  have "calm c db (upd_ctx c (\<lambda>ctx. ctx\<lparr>c_ping_t := 0\<rparr>) db)"
    by (rule calm_upd_ctx) (simp add: ctx_core_def)
  then show "kept cap cs (handle__pingresp c p db)" using i inv_calm [OF i c] by (simp add: handle__pingresp_def)
qed

section \<open>PUBREL\<close>

lemma release_inflight_ok:
  "release_inflight_loop n env c mid i deleted db = (x, db') \<Longrightarrow> broker_inv cap cs {#} db \<Longrightarrow> c \<in> set cs \<Longrightarrow>
   i + n \<le> length (inflight (md_of c mosq_md_in db)) \<Longrightarrow> broker_inv cap cs {#} db'"
proof (induction n arbitrary: i deleted db)
  case (Suc n)
  note inv = Suc.prems(2) and c = Suc.prems(3)
  define tail where "tail = inflight (md_of c mosq_md_in db) ! i"
  have i: "i < length (inflight (md_of c mosq_md_in db))" using Suc.prems(4) by simp
  have held: "m_store tail \<in># held c db" unfolding tail_def by (rule inflight_held [OF i])
  have live: "live (m_store tail) db" by (rule held_live [OF inv c held])
  then have t: "touch (m_store tail) db = db" by (auto simp: touch_def live_def)
  let ?store = "stored_at (m_store tail) db"
  obtain topic where topic: "s_topic ?store = Some topic" "good_topic topic"
    using inv_heap [OF inv, of "m_store tail"] live by (auto simp: live_def)
  obtain rc st db1 where q: "sub__messages_queue env (s_source_id ?store) topic 2 (m_retain tail) (m_store tail) db = ((rc, st), db1)"
    by (metis surj_pair)
  have inv1: "broker_inv cap cs {#} db1" and ins: "ins db1 = ins db" using inv_messages_queue [OF inv live topic(2) q] by blast+
  have md1: "md_of c mosq_md_in db1 = md_of c mosq_md_in db" by (simp add: ins_md ins)
  have i1: "i < length (inflight (md_of c mosq_md_in db1))" using i md1 by simp
  have "live (m_store tail) db1" using held_live [OF inv1 c inflight_held [OF i1]] by (simp add: md1 tail_def)
  moreover have "d_heap db1 (m_store tail) = None" if "st = None" using queue_freed q unfolding that by blast
  ultimately have st: "st \<noteq> None" by (cases st) (simp_all add: live_def)
  let ?db2 = "db__message_remove c mosq_md_in i db1"
  have inv2: "broker_inv cap cs {#} ?db2" by (rule inv_good [OF inv1 c good_message_remove [OF i1]])
  have "inflight (md_of c mosq_md_in ?db2) = del_at i (inflight (md_of c mosq_md_in db))"
    using remove_lists(2) [of c mosq_md_in i db1] by (simp add: md1)
  then have l2: "i + n \<le> length (inflight (md_of c mosq_md_in ?db2))" using Suc.prems(4) i by (simp add: del_at_def)
  show ?case using Suc.prems(1) Suc.IH [OF _ inv c] Suc.IH [OF _ inv2 c l2] inv inv1 Suc.prems(4) st
    unfolding release_inflight_loop.simps Let_def tail_def [symmetric] t topic(1) option.case q prod.case
    by (auto split: if_splits)
qed simp

lemma queued_sent [simp]:
  "md_of c' dir (snd (d_send c ev db)) = md_of c' dir db" "md_of c' dir (snd (send__pubrec c mid 0 ps db)) = md_of c' dir db"
proof -
  have "md_of c' dir (upd_ctx c (\<lambda>ctx. ctx\<lparr>c_out_packet_count := n\<rparr>) d) = md_of c' dir d" for n d
    by (cases dir) (simp_all add: md_of_def get_md_def ctx_simps)
  then show "md_of c' dir (snd (d_send c ev db)) = md_of c' dir db" for ev
    by (cases dir) (simp_all add: d_send_def Let_def md_of_def get_md_def get_ctx_def split: list.split)
  then show "md_of c' dir (snd (send__pubrec c mid 0 ps db)) = md_of c' dir db" by (simp add: send__pubrec_def)
qed

lemma release_queued_ok:
  "broker_inv cap cs {#} db \<Longrightarrow> c \<in> set cs \<Longrightarrow> k + n \<le> length (queued (md_of c mosq_md_in db)) \<Longrightarrow>
   broker_inv cap cs {#} (release_queued_loop n k c msg_index db)"
proof (induction n arbitrary: k msg_index db)
  case (Suc n)
  note inv = Suc.prems(1) and c = Suc.prems(2)
  let ?db1 = "upd_queued c mosq_md_in k (\<lambda>m. m\<lparr>m_timestamp := d_now_s db\<rparr>) db"
  let ?tail = "queued (md_of c mosq_md_in ?db1) ! k"
  let ?db2 = "snd (send__pubrec c (m_mid ?tail) 0 [] ?db1)"
  let ?db3 = "upd_queued c mosq_md_in k (\<lambda>m. m\<lparr>m_state := mosq_ms_wait_for_pubrel\<rparr>) ?db2"
  let ?db4 = "db__message_dequeue_first c mosq_md_in ?db3"
  have u: "md_of c dir (upd_md c dir f d) = f (md_of c dir d)" for f dir d by (simp add: queue_simps)
  have ql: "length (queued (md_of c mosq_md_in (upd_queued c mosq_md_in j f d))) = length (queued (md_of c mosq_md_in d))"
    for j f d by (simp add: upd_queued_def u)
  have l1: "length (queued (md_of c mosq_md_in ?db1)) = length (queued (md_of c mosq_md_in db))" by (rule ql)
  have inv1: "broker_inv cap cs {#} ?db1" by (rule inv_calm [OF inv c calm_upd_queued]) simp
  obtain rc d2 where s: "send__pubrec c (m_mid ?tail) 0 [] ?db1 = (rc, d2)" by (rule prod.exhaust)
  have inv2: "broker_inv cap cs {#} ?db2" unfolding s snd_conv by (rule inv_sends(3) [OF inv1 c s])
  have l2: "length (queued (md_of c mosq_md_in ?db2)) = length (queued (md_of c mosq_md_in db))" using l1 by simp
  have inv3: "broker_inv cap cs {#} ?db3" by (rule inv_calm [OF inv2 c calm_upd_queued]) simp
  have l3: "length (queued (md_of c mosq_md_in ?db3)) = length (queued (md_of c mosq_md_in db))"
    by (simp only: ql l2)
  then have ne: "queued (md_of c mosq_md_in ?db3) \<noteq> []" using Suc.prems(3) by auto
  have inv4: "broker_inv cap cs {#} ?db4" by (rule inv_calm [OF inv3 c calm_dequeue_first [OF ne]])
  have "length (queued (md_of c mosq_md_in ?db4)) = length (queued (md_of c mosq_md_in ?db3)) - 1"
    using ne by (cases "queued (md_of c mosq_md_in ?db3)") (simp_all add: db__message_dequeue_first_def u)
  then have l4: "k + n \<le> length (queued (md_of c mosq_md_in ?db4))" using l3 Suc.prems(3) by simp
  have l1': "Suc k + n \<le> length (queued (md_of c mosq_md_in ?db1))" using l1 Suc.prems(3) by simp
  show ?case using inv Suc.IH [OF inv4 c l4, of "Suc msg_index"] Suc.IH [OF inv1 c l1', of "Suc msg_index"]
    unfolding release_queued_loop.simps Let_def by (auto split: if_splits)
qed simp

lemma release_incoming_ok:
  assumes i: "broker_inv cap cs {#} db" and c: "c \<in> set cs" and r: "db__message_release_incoming env c mid db = (rc, db')"
  shows "broker_inv cap cs {#} db'"
proof -
  let ?n = "length (inflight (md_of c mosq_md_in db))"
  obtain x db1 where l: "release_inflight_loop ?n env c mid 0 False db = (x, db1)" by (rule prod.exhaust)
  have i1: "broker_inv cap cs {#} db1" by (rule release_inflight_ok [OF l i c]) simp
  have "broker_inv cap cs {#} (release_queued_loop (length (queued (md_of c mosq_md_in db1))) 0 c ?n db1)"
    by (rule release_queued_ok [OF i1 c]) simp
  then show ?thesis using r i1 by (auto simp: db__message_release_incoming_def Let_def l split: sum.splits)
qed

interpretation pubrel: packet_handler "handle__pubrel env" for env
proof
  fix cap cs db c p assume i: "broker_inv cap cs {#} db" and c: "c \<in> set cs" and p: "rd_wf p"
  obtain r db2 where r: "read_ack CMD_PUBREL c p db = (r, db2)" by (rule prod.exhaust)
  note a = read_ack_ok [OF p inv_mem [OF i] r]
  show "kept cap cs (handle__pubrel env c p db)"
    using a i r by (auto simp: handle__pubrel_def returns_def
        dest: release_incoming_ok [OF i c] inv_sends(2) [OF release_incoming_ok [OF i c] c] split: sum.split prod.split)
qed

section \<open>What a bridge receives\<close>

lemma suback_loop_ok: "rd_wf p \<Longrightarrow> length (unread p) \<le> n \<Longrightarrow> returns (suback_loop n p)"
proof (induction n arbitrary: p)
  case 0
  then show ?case using length_unread [OF 0(1)] by (auto simp: rd_wf_def word_less_nat_alt)
next
  case (Suc n)
  obtain r p' where b: "packet__read_byte p = (r, p')" by (rule prod.exhaust)
  note s = safe_byte [OF Suc.prems(1) b]
  show ?case
  proof (cases r)
    case (Inl e)
    then show ?thesis using rd_safe_returns [OF s] by (auto simp: b returns_def)
  next
    case (Inr v)
    then have "unread p \<noteq> [] \<and> p' = adv p 1" using b Suc.prems(1) by (auto simp: read_byte split: list.splits)
    then have "rd_wf p'" "length (unread p') \<le> n" using Suc.prems by (auto simp: neq_Nil_conv)
    then show ?thesis using Suc.IH by (simp add: b Inr)
  qed
qed

lemma pos_diff: "rd_wf p \<Longrightarrow> unat (p_remaining_length p - p_pos p) = length (unread p)"
  by (simp add: length_unread unat_sub word_le_nat_alt rd_wf_def)

interpretation suback: packet_handler handle__suback
proof
  fix cap cs db c p assume i: "broker_inv cap cs {#} db" and c: "c \<in> set cs" and p: "rd_wf p"
  obtain x p1 where 1: "packet__read_uint16 p = (x, p1)" by (rule prod.exhaust)
  note s1 = safe_uint16 [OF p 1]
  have p1: "rd_wf p1" by (rule rd_safe_wf [OF p s1])
  obtain y p2 db2 where 2: "(if c_protocol (get_ctx c db) = mosq_p_mqtt5 then read_props CMD_SUBACK p1 db
      else (Inr [], p1, db)) = (y, p2, db2)" by (metis surj_pair)
  have s2: "db2 = db \<and> rd_safe p1 y p2" using read_props_ok [OF p1 inv_mem [OF i]] 2 by (auto simp: rd_safe_Inr split: if_splits)
  then have p2: "rd_wf p2" using rd_safe_wf [OF p1] by blast
  have "returns (suback_loop (unat (p_remaining_length p2 - p_pos p2)) p2)"
    by (rule suback_loop_ok [OF p2]) (simp add: pos_diff [OF p2])
  then show "kept cap cs (handle__suback c p db)"
    using i rd_safe_returns [OF s1] rd_safe_returns [OF conjunct2 [OF s2]] s2 malloc_nil [OF inv_mem [OF i]]
    unfolding handle__suback_def 1 prod.case 2 by (auto simp: kept_def returns_def split: sum.split)
qed

interpretation unsuback: packet_handler handle__unsuback
proof
  fix cap cs db c p assume i: "broker_inv cap cs {#} db" and c: "c \<in> set cs" and p: "rd_wf p"
  obtain x p1 where 1: "packet__read_uint16 p = (x, p1)" by (rule prod.exhaust)
  note s1 = safe_uint16 [OF p 1]
  have p1: "rd_wf p1" by (rule rd_safe_wf [OF p s1])
  obtain y p2 db2 where 2: "read_props CMD_UNSUBACK p1 db = (y, p2, db2)" by (metis surj_pair)
  note s2 = read_props_ok [OF p1 inv_mem [OF i] 2]
  show "kept cap cs (handle__unsuback c p db)"
    using i rd_safe_returns [OF s1] rd_safe_returns [OF conjunct2 [OF s2]] s2
    unfolding handle__unsuback_def 1 prod.case 2 by (auto simp: kept_def returns_def split: sum.split)
qed

end
