(* ===== verification/Subscribe_Ok.thy ===== *)
theory Subscribe_Ok
  imports Handlers_Ok
begin

text \<open>
  SUBSCRIBE and UNSUBSCRIBE keep the invariant, and their loops end: every round takes at least the
  two bytes of a length from the packet.
\<close>

section \<open>Filters\<close>

lemma cstring_no_nul: "cstring str = Some s \<Longrightarrow> CHR 0x00 \<notin> set s"
proof -
  assume "cstring str = Some s"
  then obtain bs :: "u8 list" where s: "s = map (\<lambda>b. char_of (unat b)) (takeWhile (\<lambda>b. b \<noteq> 0) bs)" by (auto simp: cstring_def)
  have ne: "char_of (unat b) \<noteq> CHR 0x00" if "b \<noteq> 0" for b :: u8
  proof
    assume "char_of (unat b) = CHR 0x00"
    then have "of_char (char_of (unat b) :: char) = (0 :: nat)" by simp
    moreover have "unat b < 256" using unsigned_less [of b, where 'a = nat] by simp
    ultimately show False using that by (simp add: unat_eq_0)
  qed
  show "CHR 0x00 \<notin> set s"
  proof
    assume "CHR 0x00 \<in> set s"
    then obtain b where b: "b \<in> set (takeWhile (\<lambda>b. b \<noteq> 0) bs)" "CHR 0x00 = char_of (unat b)" unfolding s by auto
    show False using set_takeWhileD [OF b(1)] ne [of b] b(2) by simp
  qed
qed

lemma returns_malformed: "returns r \<Longrightarrow> r = Inl e \<Longrightarrow> returns (malformed e)"
  by (auto simp: returns_def malformed_def split: stop.split)

lemma returns_Inl: "returns (Inl e :: 'a res) = returns (Inl e :: 'b res)"
  by (simp add: returns_def)

lemma sub_check_returns: "cstring str = Some s \<Longrightarrow> returns (mosquitto_sub_topic_check (Some s))"
  using sub_check_valid [OF cstring_no_nul] by simp

lemma string_advances:
  "rd_wf p \<Longrightarrow> packet__read_string p mem = (Inr x, p', m) \<Longrightarrow> rd_wf p' \<and> length (unread p') < length (unread p)"
  by (auto simp: read_string read_binary Let_def split: list.splits if_splits option.splits sum.splits prod.splits)

lemma unread_pos: "rd_wf p \<Longrightarrow> p_pos p < p_remaining_length p \<longleftrightarrow> unread p \<noteq> []"
proof -
  assume p: "rd_wf p"
  have "unread p \<noteq> [] \<longleftrightarrow> 0 < length (unread p)" by simp
  then show "p_pos p < p_remaining_length p \<longleftrightarrow> unread p \<noteq> []"
    using length_unread [OF p] unfolding word_less_nat_alt by linarith
qed

lemma options_ready:
  "subscribe_options (get_ctx c db) byte = Inr (qos, opts) \<Longrightarrow> qos_inv cap c qos db"
  "returns (subscribe_options (get_ctx c db) byte)"
proof -
  have "q \<le> 2 \<Longrightarrow> q' = (if q > m then m else q) \<Longrightarrow> q' \<le> 2 \<and> (q' = 0 \<or> m > 0) \<and> q' \<le> m" for q q' m :: u8
    by (auto simp: word_gt_0 not_less)
  then show "subscribe_options (get_ctx c db) byte = Inr (qos, opts) \<Longrightarrow> qos_inv cap c qos db"
    unfolding subscribe_options_def qos_inv_def qos_ready_def Let_def by (auto split: if_splits sum.splits prod.splits simp: not_less)
  show "returns (subscribe_options (get_ctx c db) byte)"
    unfolding subscribe_options_def Let_def by (auto split: if_splits sum.splits prod.splits)
qed

lemma mount_ok: "d_mem db = [] \<Longrightarrow> mount ctx sub db = (r, db') \<Longrightarrow> db' = db \<and> returns r"
  by (auto simp: mount_def malloc_nil split: option.splits)

lemma subscribe_allowed_ok:
  assumes i: "broker_inv cap cs {#} db" and c: "c \<in> set cs" "qos_inv cap c qos db"
    and r: "subscribe_allowed env c identifier sub (qos, options, rh) db = (r, db')"
  shows "broker_inv cap cs {#} db' \<and> returns r"
proof -
  obtain rc2 db1 where a: "sub__add c sub qos identifier options db = (rc2, db1)" by (rule prod.exhaust)
  have i1: "broker_inv cap cs {#} db1" and s: "side db db1" using inv_sub_add [OF i c a] by blast+
  have q1: "qos_inv cap c qos db1" using c(2) qos_inv_side [OF s] by simp
  have q: "broker_inv cap cs {#} db2" if "retain__queue env c sub qos ident db1 = (rc, db2)" for ident rc db2
    using inv_retain_queue [OF i1 c(1) conjunct1 [OF q1 [unfolded qos_inv_def]], of env sub ident] by (simp add: that)
  obtain rc3 db3 where 3: "retain__queue env c sub qos 0 db1 = (rc3, db3)" by (rule prod.exhaust)
  obtain rc4 db4 where 4: "retain__queue env c sub qos identifier db1 = (rc4, db4)" by (rule prod.exhaust)
  show ?thesis using r i1 q [OF 3] q [OF 4] unfolding subscribe_allowed_def a prod.case 3 4
    by (auto split: if_splits)
qed

lemma subscribe_filter_ok:
  assumes i: "broker_inv cap cs {#} db" and c: "c \<in> set cs" and p: "rd_wf p" and sub: "cstring str = Some sub"
    and f: "subscribe_filter env c identifier sub p db = (r, p', db')"
  shows "broker_inv cap cs {#} db' \<and> rd_safe p r p'"
proof -
  note mem = inv_mem [OF i]
  have rs: "rd_safe p (Inl e :: (u8 \<times> bool) res) q" if "returns (Inl e :: 'z res)" "rd_safe p x q" for e x q
    using that by (auto simp: rd_safe_def returns_def)
  have rs0: "rd_safe p (Inl e :: (u8 \<times> bool) res) p" if "returns (Inl e :: 'z res)" for e
    using rs [OF that rd_safe_Inr] .
  have rm: "returns (malformed e :: 'y res)" if "returns (Inl e :: 'z res)" for e
    using that by (auto simp: returns_def malformed_def)
  show ?thesis
  proof (cases "mosquitto_sub_topic_check (Some sub)")
    case (Inl e)
    then have "returns (Inl e :: unit res)" using sub_check_returns [OF sub] by simp
    then have "rd_safe p (malformed e :: (u8 \<times> bool) res) p" by (auto simp: returns_def malformed_def)
    then show ?thesis using f i by (simp add: subscribe_filter_def Inl)
  next
    case valid: (Inr u)
    obtain b p1 where b: "packet__read_byte p = (b, p1)" by (rule prod.exhaust)
    note s1 = safe_byte [OF p b]
    show ?thesis
    proof (cases b)
      case (Inl e)
      then have "rd_safe p (malformed e :: (u8 \<times> bool) res) p1" using s1 by (auto simp: rd_safe_def malformed_def)
      then show ?thesis using f i by (simp add: subscribe_filter_def valid b Inl)
    next
      case byte: (Inr byte)
      have s2: "rd_safe p x p1" if "returns x" for x :: "(u8 \<times> bool) res" using s1 that by (auto simp: rd_safe_def returns_def)
      show ?thesis
      proof (cases "subscribe_options (get_ctx c db) byte")
        case (Inl e)
        then have "returns (Inl e :: (u8 \<times> bool) res)" using options_ready(2) [of c db byte] by (simp add: returns_def)
        then show ?thesis using f i s2 by (simp add: subscribe_filter_def valid b byte Inl)
      next
        case (Inr qo)
        obtain qos options rh where qo: "qo = (qos, options, rh)" by (metis surj_pair)
        have q: "qos_inv cap c qos db" using options_ready(1) Inr qo by blast
        obtain m db1 where m: "mount (get_ctx c db) sub db = (m, db1)" by (rule prod.exhaust)
        have db1: "db1 = db" and m1: "returns m" using mount_ok [OF mem m] by simp_all
        note m = m [unfolded db1]
        show ?thesis
        proof (cases m)
          case (Inl e)
          then have "returns (Inl e :: (u8 \<times> bool) res)" using m1 by (simp add: returns_def)
          then show ?thesis using f i s2 by (simp add: subscribe_filter_def valid b byte \<open>subscribe_options _ _ = _\<close> qo m Inl)
        next
          case (Inr sub')
          define rc2 where "rc2 = acl_check env (get_ctx c db) (Some sub') (msg0\<lparr>s_qos := qos\<rparr>) MOSQ_ACL_SUBSCRIBE"
          obtain x db2 where x: "(if rc2 = MOSQ_ERR_SUCCESS then subscribe_allowed env c identifier sub' (qos, options, rh) db
              else (Inr False, db)) = (x, db2)" by (rule prod.exhaust)
          have i2: "broker_inv cap cs {#} db2 \<and> returns x"
            using x subscribe_allowed_ok [OF i c q] i by (auto split: if_splits)
          have "(r, p', db') = (if rc2 \<noteq> MOSQ_ERR_SUCCESS \<and> rc2 \<noteq> MOSQ_ERR_ACL_DENIED then (Inl (Rc rc2), p1, db)
              else case x of Inl e \<Rightarrow> (Inl e, p1, db2) | Inr failed \<Rightarrow>
                (Inr (if rc2 = MOSQ_ERR_SUCCESS then qos else denied_code (get_ctx c db2) qos, failed), p1, db2))"
            using f i2 malloc_nil [OF inv_mem [of cap cs "{#}" db2]]
            unfolding subscribe_filter_def valid b byte \<open>subscribe_options _ _ = _\<close> qo m Inr prod.case sum.case Let_def
              rc2_def [symmetric] x
            by (cases x; cases "rc2 = MOSQ_ERR_SUCCESS"; cases "rc2 = MOSQ_ERR_ACL_DENIED") auto
          then have "p' = p1 \<and> returns r \<and> broker_inv cap cs {#} db'" using i i2
            by (cases x; cases "rc2 = MOSQ_ERR_SUCCESS"; cases "rc2 = MOSQ_ERR_ACL_DENIED") (auto simp: returns_def)
          then show ?thesis using s2 by blast
        qed
      qed
    qed
  qed
qed

section \<open>The loop of SUBSCRIBE\<close>

lemma mem_same: "d_mem db = [] \<Longrightarrow> mem = [] \<Longrightarrow> db\<lparr>d_mem := mem\<rparr> = db"
  by simp

lemma subscribe_loop_ok:
  assumes "rd_wf p" "broker_inv cap cs {#} db" and c: "c \<in> set cs"
  shows "\<exists>r db'. subscribe_loop env c identifier p payload failed db = Some (r, db') \<and> broker_inv cap cs {#} db' \<and> returns r"
  using assms(1,2)
proof (induction "length (unread p)" arbitrary: p payload failed db rule: less_induct)
  case less
  note mem = inv_mem [OF less.prems(2)]
  show ?case
  proof (cases "p_pos p < p_remaining_length p")
    case False
    then show ?thesis using less.prems(2) by (simp add: subscribe_loop.simps)
  next
    case pos: True
    obtain x p1 m where s: "packet__read_string p [] = (x, p1, m)" by (metis surj_pair)
    note db = mem_same [OF mem string_nil [OF s]]
    show ?thesis
    proof (cases x)
      case (Inl e)
      then have "returns (malformed e :: (u8 list \<times> bool) res)"
        using safe_string [OF less.prems(1) s] by (auto simp: rd_safe_def malformed_def)
      then show ?thesis using less.prems(2) pos s Inl mem db by (simp add: subscribe_loop.simps)
    next
      case (Inr y)
      obtain str slen where y: "y = (str, slen)" by (rule prod.exhaust)
      note adv = string_advances [OF less.prems(1) s [unfolded Inr]]
      show ?thesis
      proof (cases "cstring str")
        case None
        then show ?thesis using less.hyps [OF conjunct2 [OF adv] conjunct1 [OF adv] less.prems(2)] pos s Inr y mem db
          by (subst subscribe_loop.simps) simp
      next
        case (Some sub)
        obtain r p2 db2 where f: "subscribe_filter env c identifier sub p1 db = (r, p2, db2)" by (metis surj_pair)
        note k = subscribe_filter_ok [OF less.prems(2) c conjunct1 [OF adv] Some f]
        show ?thesis
        proof (cases "slen = 0")
          case True
          then show ?thesis using less.prems(2) pos s Inr y mem db Some by (simp add: subscribe_loop.simps)
        next
          case ne: False
          show ?thesis
          proof (cases r)
            case (Inl e)
            then have "returns (Inl e :: (u8 list \<times> bool) res)" using k by (auto simp: rd_safe_def)
            then show ?thesis using k pos s \<open>x = Inr y\<close> y mem db Some ne f Inl by (simp add: subscribe_loop.simps)
          next
            case (Inr cf)
            obtain code fl where cf: "cf = (code, fl)" by (rule prod.exhaust)
            obtain j where j: "j \<le> length (unread p1)" "p2 = adv p1 j" using k by (auto simp: rd_safe_def)
            have p2: "rd_wf p2" using j conjunct1 [OF adv] by simp
            have shorter: "length (unread p2) < length (unread p)" using j conjunct1 [OF adv] conjunct2 [OF adv]
              by (simp add: less_imp_diff_less)
            from less.hyps [OF shorter p2 conjunct1 [OF k]] show ?thesis
              using pos s \<open>x = Inr y\<close> y mem db Some ne f Inr cf by (subst subscribe_loop.simps) simp
          qed
        qed
      qed
    qed
  qed
qed

lemma read_mid_ok: "rd_wf p \<Longrightarrow> read_mid p = (r, p') \<Longrightarrow> rd_safe p r p'"
proof -
  assume p: "rd_wf p" and r: "read_mid p = (r, p')"
  obtain x p1 where x: "packet__read_uint16 p = (x, p1)" by (rule prod.exhaust)
  from safe_uint16 [OF p x] show ?thesis using r by (auto simp: read_mid_def x rd_safe_def malformed_def split: sum.splits if_splits)
qed

lemma props_or_malformed_ok:
  assumes "rd_wf p" "d_mem db = []" "props_or_malformed command c p db = (r, p', db')"
  shows "db' = db \<and> rd_safe p r p'"
proof -
  obtain x p1 db1 where x: "read_props command p db = (x, p1, db1)" by (metis surj_pair)
  from read_props_ok [OF assms(1,2) x] show ?thesis using assms(3)
    by (auto simp: props_or_malformed_def x rd_safe_def malformed_def split: sum.splits if_splits intro: exI [of _ 0])
qed

lemma subscribe_reply_ok:
  assumes i: "broker_inv cap cs {#} db" and c: "c \<in> set cs"
  shows "kept cap cs (subscribe_reply idle c mid payload failed db)"
proof -
  obtain rc db1 where s: "d_send c (Suback mid payload) db = (rc, db1)" by (rule prod.exhaust)
  have i1: "broker_inv cap cs {#} db1" by (rule inv_send [OF i c s])
  let ?db = "db1\<lparr>d_persistence_changes := d_persistence_changes db1 + 1\<rparr>"
  have i2: "broker_inv cap cs {#} ?db" by (rule inv_calm [OF i1 c calm_fields]) simp_all
  obtain rc3 db3 where 3: "db__message_write_queued_out c ?db = (rc3, db3)" by (rule prod.exhaust)
  have i3: "broker_inv cap cs {#} db3" using inv_good [OF i2 c good_write_queued_out] 3 by simp
  obtain rc4 db4 where 4: "db__message_write_inflight_out_latest c db3 = (rc4, db4)" by (rule prod.exhaust)
  have i4: "broker_inv cap cs {#} db4" using inv_good [OF i3 c good_write_inflight_out_latest] 4 by simp
  show ?thesis using i2 i3 i4 unfolding subscribe_reply_def s prod.case Let_def 3 4 by simp
qed

interpretation subscribe: packet_handler "handle__subscribe idle env" for idle env
proof
  fix cap cs db c p assume i: "broker_inv cap cs {#} db" and c: "c \<in> set cs" and p: "rd_wf p"
  obtain x p1 where 1: "read_mid p = (x, p1)" by (rule prod.exhaust)
  note s1 = read_mid_ok [OF p 1]
  have p1: "rd_wf p1" by (rule rd_safe_wf [OF p s1])
  obtain y p2 db2 where 2: "props_or_malformed CMD_SUBSCRIBE c p1 db = (y, p2, db2)" by (metis surj_pair)
  note s2 = props_or_malformed_ok [OF p1 inv_mem [OF i] 2]
  have p2: "rd_wf p2" using rd_safe_wf [OF p1] s2 by blast
  have l: "\<exists>r db'. subscribe_loop env c k p2 [] False db = Some (r, db') \<and> broker_inv cap cs {#} db' \<and> returns r" for k
    by (rule subscribe_loop_ok [OF p2 i c])
  show "kept cap cs (handle__subscribe idle env c p db)"
  proof (cases "\<exists>mid ps. x = Inr mid \<and> y = Inr ps")
    case False
    then show ?thesis using i s2 rd_safe_returns [OF s1] rd_safe_returns [OF conjunct2 [OF s2]]
      unfolding handle__subscribe_def 1 prod.case 2 by (auto simp: kept_def returns_def split: sum.split)
  next
    case True
    then obtain mid ps where xy: "x = Inr mid" "y = Inr ps" by blast
    define sid where "sid = snd (mosquitto_property_read_varint ps MQTT_PROP_SUBSCRIPTION_IDENTIFIER False)"
    define k where "k = (case sid of None \<Rightarrow> 0 | Some i \<Rightarrow> i)"
    obtain r db3 where 3: "subscribe_loop env c k p2 [] False db = Some (r, db3)" "broker_inv cap cs {#} db3" "returns r" using l by blast
    show ?thesis
    proof (cases r)
      case (Inl e)
      then show ?thesis using i 3 s2 unfolding handle__subscribe_def 1 xy prod.case sum.case 2 sid_def [symmetric] k_def [symmetric] Let_def
        by (auto simp: kept_def returns_def)
    next
      case (Inr cf)
      obtain codes failed where cf: "cf = (codes, failed)" by (rule prod.exhaust)
      show ?thesis using i 3 s2 Inr cf subscribe_reply_ok [OF 3(2) c]
        unfolding handle__subscribe_def 1 xy prod.case sum.case 2 sid_def [symmetric] k_def [symmetric] Let_def by simp
    qed
  qed
qed

section \<open>UNSUBSCRIBE\<close>

lemma unsubscribe_filter_ok:
  assumes i: "broker_inv cap cs {#} db" and sub: "cstring str = Some sub"
    and f: "unsubscribe_filter env c sub reason db = (r, db')"
  shows "broker_inv cap cs {#} db' \<and> returns r"
proof -
  obtain rc rs db1 where rm: "sub__remove c sub reason db = ((rc, rs), db1)" by (metis surj_pair)
  have i1: "broker_inv cap cs {#} db1" using inv_sub_remove [OF i rm] by simp
  have "returns (malformed e :: u8 res)" if "mosquitto_sub_topic_check (Some sub) = Inl e" for e
    using sub_check_returns [OF sub] that by (auto simp: returns_def malformed_def)
  then show ?thesis using f i i1 unfolding unsubscribe_filter_def Let_def rm prod.case by (auto split: sum.splits if_splits)
qed

text \<open>The array of reason codes is never full when a code is written.\<close>

lemma unsubscribe_loop_ok:
  assumes "rd_wf p" "broker_inv cap cs {#} db" "length codes < code_max" and c: "c \<in> set cs"
  shows "\<exists>r db'. unsubscribe_loop env c p codes code_max reason db = Some (r, db') \<and> broker_inv cap cs {#} db' \<and> returns r"
  using assms(1-3)
proof (induction "length (unread p)" arbitrary: p codes code_max reason db rule: less_induct)
  case less
  note mem = inv_mem [OF less.prems(2)]
  show ?case
  proof (cases "p_pos p < p_remaining_length p")
    case False
    then show ?thesis using less.prems(2) by (simp add: unsubscribe_loop.simps)
  next
    case pos: True
    obtain x p1 m where s: "packet__read_string p [] = (x, p1, m)" by (metis surj_pair)
    note db = mem_same [OF mem string_nil [OF s]]
    show ?thesis
    proof (cases x)
      case (Inl e)
      then have "returns (malformed e :: u8 list res)"
        using safe_string [OF less.prems(1) s] by (auto simp: rd_safe_def malformed_def)
      then show ?thesis using less.prems(2) pos s Inl mem db by (simp add: unsubscribe_loop.simps)
    next
      case (Inr y)
      obtain str slen where y: "y = (str, slen)" by (rule prod.exhaust)
      note adv = string_advances [OF less.prems(1) s [unfolded Inr]]
      show ?thesis
      proof (cases "cstring str")
        case None
        then show ?thesis using less.prems(2) pos s Inr y mem db by (simp add: unsubscribe_loop.simps)
      next
        case (Some sub)
        obtain r db2 where f: "unsubscribe_filter env c sub reason db = (r, db2)" by (metis surj_pair)
        note k = unsubscribe_filter_ok [OF less.prems(2) Some f]
        show ?thesis
        proof (cases r)
          case (Inl e)
          then have "returns (Inl e :: u8 list res)" using k by (simp add: returns_def)
          then show ?thesis using k pos s \<open>x = Inr y\<close> y mem db Some f Inl by (simp add: unsubscribe_loop.simps)
        next
          case (Inr rs)
          note ih = less.hyps [OF conjunct2 [OF adv] conjunct1 [OF adv] conjunct1 [OF k]]
          note step = pos s \<open>x = Inr y\<close> y mem db Some f Inr malloc_nil [OF inv_mem [OF conjunct1 [OF k]]]
          show ?thesis
          proof (cases "Suc (length codes) = code_max")
            case True
            then have "length (codes @ [rs]) < 2 * code_max" by simp
            from ih [OF this, of rs] show ?thesis using step True by (subst unsubscribe_loop.simps) simp
          next
            case False
            then have "length (codes @ [rs]) < code_max" using less.prems(3) by simp
            from ih [OF this, of rs] show ?thesis using step False less.prems(3)
              by (subst unsubscribe_loop.simps) (simp add: not_le)
          qed
        qed
      qed
    qed
  qed
qed

interpretation unsubscribe: packet_handler "handle__unsubscribe env" for env
proof
  fix cap cs db c p assume i: "broker_inv cap cs {#} db" and c: "c \<in> set cs" and p: "rd_wf p"
  obtain x p1 where 1: "read_mid p = (x, p1)" by (rule prod.exhaust)
  note s1 = read_mid_ok [OF p 1]
  have p1: "rd_wf p1" by (rule rd_safe_wf [OF p s1])
  obtain y p2 db2 where 2: "props_or_malformed CMD_UNSUBSCRIBE c p1 db = (y, p2, db2)" by (metis surj_pair)
  note s2 = props_or_malformed_ok [OF p1 inv_mem [OF i] 2]
  have p2: "rd_wf p2" using rd_safe_wf [OF p1] s2 by blast
  obtain r db3 where l: "unsubscribe_loop env c p2 [] 10 0 db = Some (r, db3)" "broker_inv cap cs {#} db3" "returns r"
    using unsubscribe_loop_ok [OF p2 i _ c, where codes = "[]" and code_max = 10 and reason = 0 and env = env] by auto
  let ?db = "db3\<lparr>d_persistence_changes := d_persistence_changes db3 + 1\<rparr>"
  have i2: "broker_inv cap cs {#} ?db" by (rule inv_calm [OF l(2) c calm_fields]) simp_all
  have sent: "broker_inv cap cs {#} db'" if "d_send c ev ?db = (rc, db')" for ev rc db'
    by (rule inv_send [OF i2 c that])
  show "kept cap cs (handle__unsubscribe env c p db)"
    using i s2 l rd_safe_returns [OF s1] rd_safe_returns [OF conjunct2 [OF s2]]
    unfolding handle__unsubscribe_def 1 prod.case 2 Let_def
    by (cases x; cases y; cases r) (auto simp: malloc_nil [OF inv_mem [OF i]] kept_def returns_def rc_res_def dest: sent split: prod.split)
qed

end
