(* ===== verification/Publish_Ok.thy ===== *)
theory Publish_Ok
  imports Subscribe_Ok
begin

text \<open>
  PUBLISH keeps the invariant, and so does \<open>handle__packet\<close>: the callbacks of plugins must leave a
  topic to which a message can be published, and a listener must not have settings of its own
  (\<open>control__process\<close> follows the pointer to the listener, which a bridge does not have).
\<close>

section \<open>The topic\<close>

lemma enc_hd: "utf8_allowed c \<Longrightarrow> hd (utf8_enc c) \<noteq> 0"
proof -
  assume c: "utf8_allowed c"
  have z: "(of_nat n :: u8) \<noteq> 0" if "0 < n" "n < 256" for n
    using unat_small [OF that(2)] that(1) by auto
  have b: "0x1F < c" "c \<le> 0x10FFFF" using c by (simp_all add: utf8_allowed_def)
  have d: "c div 64 < 64" if "c < 0x800" using that by simp
  show ?thesis using b z [of c] z [of "0xC0 + c div 64"] z [of "0xE0 + c div 4096"] z [of "0xF0 + c div 262144"]
    by (auto simp: utf8_enc_def div_less_iff_less_mult)
qed

lemma topic_nonempty: "rd_wf p \<Longrightarrow> packet__read_string p mem = (Inr (str, n), p', m) \<Longrightarrow> cstring str \<noteq> Some []"
proof -
  assume p: "rd_wf p" and r: "packet__read_string p mem = (Inr (str, n), p', m)"
  show ?thesis
  proof (cases str)
    case None
    then show ?thesis by (simp add: cstring_def)
  next
    case (Some s)
    have rb: "packet__read_binary p mem = (Inr (Some s, n), p', m)" and u: "utf8_wf (butlast s)"
      using r Some by (auto simp: read_string [OF p] split: prod.splits sum.splits option.splits if_splits)
    obtain bs where s: "s = bs @ [0]" "length bs = unat n" "n \<noteq> 0" using read_binary_shape [OF p rb] by auto
    obtain cs where cs: "\<forall>c \<in> set cs. utf8_allowed c" "bs = concat (map utf8_enc cs)" using u s by (auto simp: utf8_wf_def)
    have "bs \<noteq> []" using s by (auto simp: unat_eq_0)
    then obtain c cs' where "cs = c # cs'" using cs(2) by (cases cs) auto
    then have "hd bs \<noteq> 0" using cs enc_hd [of c] by (cases "utf8_enc c") auto
    then show ?thesis using Some s \<open>bs \<noteq> []\<close> by (cases bs) (auto simp: cstring_def)
  qed
qed

lemma inv_aliases:
  assumes i: "broker_inv cap cs E db" and a: "\<forall>a \<in> set (f (c_aliases (get_ctx c db))). snd a \<notin> {None, Some []}"
  shows "broker_inv cap cs E (upd_ctx c (\<lambda>ctx. ctx\<lparr>c_aliases := f (c_aliases ctx)\<rparr>) db)" (is "broker_inv cap cs E ?db")
proof -
  have g: "get_ctx c' ?db = (if c' = c then (get_ctx c db)\<lparr>c_aliases := f (c_aliases (get_ctx c db))\<rparr> else get_ctx c' db)" for c'
    by (simp add: upd_ctx_def get_ctx_def)
  have d: "d_heap ?db = d_heap db" "d_fault ?db = d_fault db" "d_msg_store ?db = d_msg_store db"
    "d_msg_store_count ?db = d_msg_store_count db" "d_msg_store_bytes ?db = d_msg_store_bytes db" "d_mem ?db = d_mem db"
    "d_subs ?db = d_subs db" "d_retains ?db = d_retains db" "d_next ?db = d_next db" "d_config ?db = d_config db"
    "d_subscription_count ?db = d_subscription_count db" "d_shared_subscription_count ?db = d_shared_subscription_count db"
    by (simp_all add: upd_ctx_def)
  have m: "md_of c' dir ?db = md_of c' dir db" for c' dir by (cases dir) (simp_all add: md_of_def get_md_def g)
  have h: "held c' ?db = held c' db" "keys_of c' ?db = keys_of c' db" for c' by (auto simp: held_def keys_of_def m)
  have o: "md_ok ?db K md = md_ok db K md" for K md by (simp add: md_ok_def plen_def stored_at_def d)
  have "store_ok ?db = store_ok db" by (simp add: store_ok_def rc_at_def plen_def stored_at_def d)
  then have "broker_ok cs (retained_refs ?db + E) ?db" using i
    by (simp add: broker_inv_def broker_ok_def all_held_def client_ok_def h m o rc_at_def d retained_refs_def)
  moreover have "books ?db" using i d g
    unfolding broker_inv_def books_def bookkeep_def by (simp add: roots_def ref_count_def shared_ref_count_def)
  moreover have "c_max_qos (get_ctx c' ?db) = c_max_qos (get_ctx c' db)" for c' by (simp add: g)
  then have "tree_ready cs ?db" using i d(7)
    by (simp add: broker_inv_def tree_ready_def node_ready_def leaf_ready_def qos_ready_def roots_def)
  moreover have "heap_ok ?db" using i d by (simp add: broker_inv_def heap_ok_def dest_ok_def stored_at_def)
  moreover have "c_id (get_ctx c' ?db) = c_id (get_ctx c' db)" for c' by (simp add: g)
  then have "ids_ok cs ?db" using i by (simp add: broker_inv_def ids_ok_def)
  moreover have "ctx_ok (get_ctx c' ?db)" if "c' \<in> set cs" for c'
  proof -
    have "ctx_ok (get_ctx c' db)" using i that by (simp add: broker_inv_def)
    then show ?thesis using a by (cases "c' = c") (simp_all add: ctx_ok_def g)
  qed
  moreover have "leaf_inv cap cs ?db = leaf_inv cap cs db" by (rule leaf_inv_eq) (simp add: g)
  then have "all_leaves (leaf_inv cap cs ?db) (roots ?db)" using i d(7) by (simp add: broker_inv_def roots_def)
  ultimately show ?thesis using i d by (simp add: broker_inv_def)
qed

lemma inv_ctx: "broker_inv cap cs E db \<Longrightarrow> c \<in> set cs \<Longrightarrow> ctx_ok (get_ctx c db)"
  by (simp add: broker_inv_def)

text \<open>What the topic leaves as it was.\<close>

definition same_client :: "cptr \<Rightarrow> mosquitto_db \<Rightarrow> mosquitto_db \<Rightarrow> bool" where
  "same_client c db db' \<longleftrightarrow> c_max_qos (get_ctx c db') = c_max_qos (get_ctx c db)"

lemma alias_add_ok:
  assumes i: "broker_inv cap cs E db" and c: "c \<in> set cs" and t: "topic \<noteq> []" and a: "alias__add c topic n db = (rc, db')"
  shows "broker_inv cap cs E db' \<and> same_client c db db'"
proof -
  note m = malloc_nil [OF inv_mem [OF i]]
  have g: "same_client c db (upd_ctx c (\<lambda>ctx. ctx\<lparr>c_aliases := f (c_aliases ctx)\<rparr>) db)" for f
    by (simp add: upd_ctx_def get_ctx_def same_client_def)
  have al: "\<forall>a \<in> set (c_aliases (get_ctx c db)). snd a \<notin> {None, Some []}" using inv_ctx [OF i c] by (simp add: ctx_ok_def)
  have "\<forall>a \<in> set ((c_aliases (get_ctx c db))[j := (n, Some topic)]). snd a \<notin> {None, Some []}" for j
    using al t set_update_subset_insert [of "c_aliases (get_ctx c db)" j "(n, Some topic)"] by auto
  note u = inv_aliases [OF i, of "\<lambda>al. al[j := (n, Some topic)]" c for j, OF this]
  have w: "broker_inv cap cs E (upd_ctx c (\<lambda>ctx. ctx\<lparr>c_aliases := c_aliases ctx @ [(n, Some topic)]\<rparr>) db)"
    by (rule inv_aliases [OF i, of "\<lambda>al. al @ [(n, Some topic)]"]) (use al t in auto)
  show ?thesis using a u w g [of "\<lambda>al. al[j := (n, Some topic)]" for j] g [of "\<lambda>al. al @ [(n, Some topic)]"]
    by (auto simp: alias__add_def m split: option.splits)
qed

lemma publish_alias_ok:
  assumes i: "broker_inv cap cs E db" and c: "c \<in> set cs" and t: "topic \<noteq> Some []"
    and a: "publish_alias c topic topic_alias db = (r, db')"
  shows "broker_inv cap cs E db' \<and> same_client c db db' \<and> returns r \<and> r \<noteq> Inr (Some [])"
proof -
  note m = malloc_nil [OF inv_mem [OF i]]
  have al: "a \<in> set (c_aliases (get_ctx c db)) \<Longrightarrow> snd a \<notin> {None, Some []}" for a using inv_ctx [OF i c] by (simp add: ctx_ok_def)
  have r: "same_client c db db" by (simp add: same_client_def)
  show ?thesis
  proof (cases "topic_alias = 0 \<or> (case c_listener (get_ctx c db) of None \<Rightarrow> False | Some l \<Rightarrow> topic_alias > uint (ls_max_topic_alias l))
      \<or> \<not> topic_alias > 0")
    case True
    then show ?thesis using a i t r by (auto simp: publish_alias_def returns_def split: if_splits)
  next
    case pos: False
    show ?thesis
    proof (cases topic)
      case (Some s)
      obtain rc db1 where s: "alias__add c s (word_of_int topic_alias) db = (rc, db1)" by (rule prod.exhaust)
      have "s \<noteq> []" using t Some by simp
      from alias_add_ok [OF i c this s] show ?thesis using a pos t Some s by (auto simp: publish_alias_def returns_def split: if_splits)
    next
      case None
      show ?thesis
      proof (cases "find (\<lambda>a. fst a = word_of_int topic_alias) (c_aliases (get_ctx c db))")
        case None
        then show ?thesis using a pos \<open>topic = None\<close> i r by (auto simp: publish_alias_def alias__find_def returns_def split: if_splits)
      next
        case (Some e)
        then have "e \<in> set (c_aliases (get_ctx c db))" by (auto simp: find_Some_iff)
        from al [OF this] show ?thesis using a pos \<open>topic = None\<close> i r Some m
          by (cases e) (auto simp: publish_alias_def alias__find_def returns_def split: if_splits option.splits)
      qed
    qed
  qed
qed

lemma string_ptr_simps [simp]:
  "string_ptr None = Null_str" "string_ptr (Some s) = Live s" "str_of Null_str = Inr None" "str_of (Live s) = Inr (Some s)"
  "free_str Null_str db = (Null_str, db)" "free_str (Live s) db = (Freed, db)" "free_str Freed db = (Freed, db\<lparr>d_fault := True\<rparr>)"
  by (simp_all add: string_ptr_def str_of_def free_str_def)

lemma remap_ok: "ctx_ok (get_ctx c db) \<Longrightarrow> bridge__remap_topic_in c topic db = (Inr (), topic, db)"
  by (auto simp: bridge__remap_topic_in_def ctx_ok_def split: option.splits)

lemma publish_topic_ok:
  assumes i: "broker_inv cap cs E db" and c: "c \<in> set cs" and t: "topic \<noteq> Some []"
    and a: "publish_topic c topic topic_alias db = (r, db')"
  shows "broker_inv cap cs E db' \<and> same_client c db db' \<and> returns r \<and> (\<forall>s. r = Inr s \<longrightarrow> s \<noteq> [] \<and> (\<forall>x \<in> set s. \<not> is_wild x))"
proof -
  obtain x db1 where x: "publish_alias c topic topic_alias db = (x, db1)" by (rule prod.exhaust)
  note k = publish_alias_ok [OF i c t x]
  show ?thesis
  proof (cases x)
    case (Inl e)
    then show ?thesis using k a by (auto simp: publish_topic_def x returns_def)
  next
    case (Inr t')
    have b: "bridge__remap_topic_in c (string_ptr t') db1 = (Inr (), string_ptr t', db1)" by (rule remap_ok) (use k inv_ctx [OF _ c] in blast)
    show ?thesis
    proof (cases t')
      case None
      then show ?thesis using k a b by (auto simp: publish_topic_def x Inr mosquitto_pub_topic_check_def returns_def)
    next
      case (Some s)
      then have "s \<noteq> []" using k Inr by simp
      then show ?thesis using k a b by (auto simp: publish_topic_def x Inr Some pub_check_valid topic_valid_def returns_def split: if_splits)
    qed
  qed
qed

lemma mount_topic:
  assumes "ctx_ok ctx" "s \<noteq> []" "\<forall>x \<in> set s. \<not> is_wild x" "mount ctx s db = (Inr t, db')"
  shows "good_topic t"
proof (rule plain_topic)
  have "t = s \<or> (\<exists>m. t = m @ s \<and> (\<forall>x \<in> set m. \<not> is_wild x))"
    using assms(1,4) by (auto simp: mount_def ctx_ok_def split: option.splits prod.splits bool.splits)
  then show "\<not> is_wild x" if "x \<in> set t" for x using assms(3) that by auto
  show "t \<noteq> []" using \<open>t = s \<or> (\<exists>m. t = m @ s \<and> (\<forall>x \<in> set m. \<not> is_wild x))\<close> assms(2) by auto
qed

section \<open>Callbacks\<close>

definition callbacks_ok :: "mosquitto__security_options \<Rightarrow> bool" where
  "callbacks_ok opts \<longleftrightarrow> (\<forall>cb \<in> set (cb_message opts). \<forall>ctx qos ev t. ev_topic ev = Some t \<longrightarrow> good_topic t \<longrightarrow>
     (\<exists>t'. ev_topic (snd (cb ctx qos ev)) = Some t' \<and> good_topic t'))"

definition env_ok :: "broker_env \<Rightarrow> bool" where
  "env_ok env \<longleftrightarrow> \<not> e_per_listener_settings env \<and> callbacks_ok (e_options env)"

lemma run_callbacks_ok:
  assumes "\<forall>cb \<in> set cbs. \<forall>ctx qos ev t. ev_topic ev = Some t \<longrightarrow> good_topic t \<longrightarrow>
     (\<exists>t'. ev_topic (snd (cb ctx qos ev)) = Some t' \<and> good_topic t')"
  shows "ev_topic ev = Some t \<Longrightarrow> good_topic t \<Longrightarrow>
    \<exists>t'. ev_topic (snd (run_callbacks cbs ctx qos ev)) = Some t' \<and> good_topic t'"
  using assms
proof (induction cbs arbitrary: ev t)
  case (Cons cb cbs)
  obtain rc ev' where e: "cb ctx qos ev = (rc, ev')" by (rule prod.exhaust)
  obtain t' where "ev_topic (snd (cb ctx qos ev)) = Some t'" "good_topic t'" using Cons.prems by fastforce
  then show ?case using Cons.IH [of ev' t'] Cons.prems(3) by (simp add: e)
qed simp

lemma plugin_ok:
  assumes e: "env_ok env" and t: "s_topic s = Some t" "good_topic t" and p: "plugin__handle_message env ctx s = (rc, s')"
  shows "\<exists>t'. s_topic s' = Some t' \<and> good_topic t'"
    and "s_qos s' = s_qos s \<and> s_ref_count s' = s_ref_count s \<and> s_source_mid s' = s_source_mid s"
proof -
  let ?ev = "\<lparr>ev_topic = s_topic s, ev_payload = s_payload s, ev_payloadlen = s_payloadlen s,
    ev_replaced = False, ev_retain = s_retain s, ev_properties = s_properties s\<rparr>"
  obtain rc' ev where r: "run_callbacks (cb_message (e_options env)) ctx (s_qos s) ?ev = (rc', ev)" by (rule prod.exhaust)
  have "\<exists>t'. ev_topic (snd (run_callbacks (cb_message (e_options env)) ctx (s_qos s) ?ev)) = Some t' \<and> good_topic t'"
    by (rule run_callbacks_ok) (use e t in \<open>simp_all add: env_ok_def callbacks_ok_def\<close>)
  then have "\<exists>t'. ev_topic ev = Some t' \<and> good_topic t'" by (simp add: r)
  then show "\<exists>t'. s_topic s' = Some t' \<and> good_topic t'" using p e t r
    by (auto simp: plugin__handle_message_def env_ok_def Let_def split: if_splits)
  show "s_qos s' = s_qos s \<and> s_ref_count s' = s_ref_count s \<and> s_source_mid s' = s_source_mid s" using p e
    by (auto simp: plugin__handle_message_def env_ok_def Let_def split: if_splits prod.splits)
qed

lemma reason_ok: "d_mem db = [] \<Longrightarrow> snd (reason_property r db) = db"
  by (auto simp: reason_property_def malloc_nil split: sum.split stop.split mosq_err.split)

lemma control_ok:
  assumes i: "broker_inv cap cs {#} db" and c: "c \<in> set cs" and e: "env_ok env"
  shows "kept cap cs (control__process env c s db)"
proof -
  have a: "kept cap cs (control_ack c s rc ps db)" for rc ps
    using i by (auto simp: control_ack_def dest: inv_sends(1,3) [OF i c] split: prod.split)
  define f where "f rs = fst (reason_property rs db)" for rs
  have r: "reason_property rs db = (f rs, db)" for rs
    unfolding f_def by (rule prod_eqI) (simp_all add: reason_ok [OF inv_mem [OF i]])
  show ?thesis using e a by (auto simp: control__process_def env_ok_def r split: option.split prod.split)
qed

section \<open>Delivering\<close>

lemma refused_ok: "broker_inv cap cs {#} db \<Longrightarrow> c \<in> set cs \<Longrightarrow> kept cap cs (publish_refused c msg code db)"
  by (auto simp: publish_refused_def dest: inv_sends(1,3) split: prod.split)

lemma switch_ok:
  assumes i: "broker_inv cap cs {#} db" and c: "c \<in> set cs" and l: "live p db"
    and q: "dup \<or> s_qos (stored_at p db) \<noteq> 2 \<or> c_max_qos (get_ctx c db) > 0"
  shows "kept cap cs (publish_switch env c mid p dup db)"
proof -
  have t: "touch p db = db" using l by (auto simp: touch_def live_def)
  obtain topic where topic: "s_topic (stored_at p db) = Some topic" "good_topic topic"
    using inv_heap [OF i, of p] l by (auto simp: live_def)
  have d: "broker_inv cap cs {#} (util__decrement_receive_quota c db)" by (rule inv_calm [OF i c calm_quota(3)])
  have ld: "live p (util__decrement_receive_quota c db)"
    using l by (simp add: live_def util__decrement_receive_quota_def upd_md_def upd_ctx_def)
  have q0: "broker_inv cap cs {#} db'" if "sub__messages_queue env src topic qos retain p db = ((rc, st), db')" for src qos retain rc st db'
    using inv_messages_queue [OF i l topic(2) that] by blast
  have q1: "broker_inv cap cs {#} db'" if "sub__messages_queue env src topic qos retain p (util__decrement_receive_quota c db) = ((rc, st), db')"
    for src qos retain rc st db'
    using inv_messages_queue [OF d ld topic(2) that] by blast
  have ins: "broker_inv cap cs {#} db'" if "db__message_insert c m mosq_md_in 2 r p [] False db = (rc, db')" "\<not> dup" "s_qos (stored_at p db) = 2"
    for m r rc db'
  proof -
    have "good c db (snd (db__message_insert c m mosq_md_in 2 r p [] False db))"
      by (rule good_insert [OF l]) (use q that in \<open>auto simp: insert_duplicate_def\<close>)
    then show ?thesis using inv_good [OF i c] that(1) by simp
  qed
  consider "s_qos (stored_at p db) = 0" | "s_qos (stored_at p db) = 1" | "s_qos (stored_at p db) = 2"
    | "s_qos (stored_at p db) \<notin> {0, 1, 2}" by blast
  then show ?thesis
  proof cases
    case 1
    obtain rc st db' where "sub__messages_queue env (c_id (get_ctx c db)) topic 0 (s_retain (stored_at p db)) p db = ((rc, st), db')"
      by (metis surj_pair)
    with q0 [OF this] show ?thesis by (simp add: publish_switch_def Let_def t topic(1) 1)
  next
    case 2
    obtain rc st db' where s: "sub__messages_queue env (c_id (get_ctx c db)) topic 1 (s_retain (stored_at p db)) p
      (util__decrement_receive_quota c db) = ((rc, st), db')"
      by (metis surj_pair)
    obtain rca dba where a: "send__puback c mid 0 [] db' = (rca, dba)" by (rule prod.exhaust)
    obtain rcb dbb where b: "send__puback c mid 16 [] db' = (rcb, dbb)" by (rule prod.exhaust)
    show ?thesis using q1 [OF s] inv_sends(1) [OF q1 [OF s] c a] inv_sends(1) [OF q1 [OF s] c b]
      by (simp add: publish_switch_def Let_def t topic(1) 2 s a b)
  next
    case 3
    obtain rc db' where s: "(if \<not> dup then db__message_insert c (s_source_mid (stored_at p db)) mosq_md_in 2 (s_retain (stored_at p db)) p [] False db
       else (MOSQ_ERR_SUCCESS, db)) = (rc, db')" by (rule prod.exhaust)
    have i': "broker_inv cap cs {#} db'" using s ins i 3 by (auto split: if_splits)
    obtain rca dba where a: "send__pubrec c (s_source_mid (stored_at p db)) 0 [] db' = (rca, dba)" by (rule prod.exhaust)
    show ?thesis using i' inv_sends(3) [OF i' c a]
      unfolding publish_switch_def Let_def t topic(1) option.case 3 s prod.case a by simp
  next
    case 4
    then show ?thesis using i by (simp add: publish_switch_def Let_def t topic(1))
  qed
qed

lemma written_ok:
  assumes "kept cap cs (r, db)" "c \<in> set cs"
  shows "kept cap cs (r, snd (db__message_write_queued_in c db))"
  using assms inv_good [OF _ assms(2) good_write_queued_in, of cap "{#}" db] by (simp add: kept_def)

lemma store_ok':
  assumes i: "broker_inv cap cs {#} db" and c: "c \<in> set cs"
    and s: "s_ref_count msg = 0" "s_topic msg = Some t" "good_topic t" and q: "s_qos msg \<le> c_max_qos (get_ctx c db)"
  shows "kept cap cs (publish_store env c msg expiry db)"
proof (cases "s_qos msg = 0 \<or> db__ready_for_flight c mosq_md_in (s_qos msg) db
         \<or> db__ready_for_queue c (s_qos msg) (md_of c mosq_md_in db) db")
  case False
  then show ?thesis using refused_ok [OF i c] by (simp add: publish_store_def)
next
  case True
  let ?p = "d_next db" and ?db = "db\<lparr>d_heap := (d_heap db)(d_next db \<mapsto> msg), d_next := Suc (d_next db)\<rparr>"
  obtain rc db1 where st: "db__message_store (Some (get_ctx c ?db)) ?p expiry 0 mosq_mo_client ?db = (rc, db1)" by (rule prod.exhaust)
  note k = inv_message_store [OF i s st]
  have q': "s_qos (stored_at ?p db1) \<noteq> 2 \<or> c_max_qos (get_ctx c db1) > 0"
    using k q by (auto simp: get_ctx_def word_gt_0)
  obtain r db2 where w: "publish_switch env c (s_source_mid msg) ?p False db1 = (r, db2)" by (rule prod.exhaust)
  have "kept cap cs (r, db2)" using switch_ok [of cap cs db1 c ?p False] k c q' w by (metis (no_types, lifting))
  from written_ok [OF this c] show ?thesis using True k
    unfolding publish_store_def Let_def st prod.case w by simp
qed

lemma find_in: "find P xs = Some x \<Longrightarrow> x \<in> set xs"
  by (auto simp: find_Some_iff)

lemma store_found_live:
  assumes i: "broker_inv cap cs {#} db" and c: "c \<in> set cs" and f: "db__message_store_find c mid db = Some p"
  shows "live p db"
proof -
  have h: "m_store m \<in># held c db" if "m \<in> set (inflight (md_of c mosq_md_in db)) \<union> set (queued (md_of c mosq_md_in db))" for m
    using that by (auto simp: held_def md_held_def md_keys_kl key_def image_image)
  obtain m where "m \<in> set (inflight (md_of c mosq_md_in db)) \<union> set (queued (md_of c mosq_md_in db))" "p = m_store m"
    using f by (auto simp: db__message_store_find_def Let_def dest!: find_in split: option.splits)
  with h held_live [OF i c] show ?thesis by blast
qed

lemma removed_max_qos:
  assumes i: "broker_inv cap cs {#} db" and c: "c \<in> set cs" and g: "good c db db'"
  shows "c_max_qos (get_ctx c db') = c_max_qos (get_ctx c db)"
proof -
  have "broker_ok cs (retained_refs db + {#}) db" "clients cs" using i by (simp_all add: broker_inv_def)
  then have "bcore db db'" using bgood_good [OF _ c g] bgoodD by (fastforce simp: beff_def)
  then show ?thesis by (simp add: bcore_def ctx_core_def)
qed

lemma deliver_ok:
  assumes i: "broker_inv cap cs {#} db" and c: "c \<in> set cs"
    and s: "s_ref_count msg = 0" "s_topic msg = Some t" "good_topic t" and q: "s_qos msg \<le> c_max_qos (get_ctx c db)"
  shows "kept cap cs (publish_deliver env c msg expiry db)"
proof (cases "if s_qos msg > 0 then db__message_store_find c (s_source_mid msg) db else None")
  case None
  then show ?thesis using store_ok' [OF i c s q] by (simp add: publish_deliver_def)
next
  case (Some p)
  then have l: "live p db" using store_found_live [OF i c] by (auto split: if_splits)
  then have t: "touch p db = db" by (auto simp: touch_def live_def)
  let ?db = "snd (db__message_remove_incoming c (s_source_mid msg) db)"
  have i2: "broker_inv cap cs {#} ?db" by (rule inv_good [OF i c good_remove_incoming])
  have q2: "s_qos msg \<le> c_max_qos (get_ctx c ?db)" using q removed_max_qos [OF i c good_remove_incoming] by simp
  have r: "reused_mid (stored_at p db) msg \<noteq> None"
    using s(2) inv_heap [OF i, of p] l by (auto simp: reused_mid_def live_def)
  obtain r2 db2 where w: "publish_switch env c (s_source_mid msg) p True db = (r2, db2)" by (rule prod.exhaust)
  have "kept cap cs (r2, db2)" using switch_ok [OF i c l, of True env "s_source_mid msg"] w by simp
  from written_ok [OF this c] show ?thesis using r store_ok' [OF i2 c s q2]
    unfolding publish_deliver_def Some option.case Let_def t w prod.case by (auto split: option.split bool.split)
qed

section \<open>The handlers\<close>

lemma read_bytes_returns: "rd_wf p \<Longrightarrow> unat n < 268435456 \<Longrightarrow> packet__read_bytes p n = (r, p') \<Longrightarrow> returns r"
  by (auto simp: read_bytes split: if_splits)

lemma payload_length: "rd_wf p \<Longrightarrow> unat (p_remaining_length p - p_pos p) < 268435456"
  by (auto simp: unat_sub word_le_nat_alt rd_wf_def)

lemma message_ok:
  assumes i: "broker_inv cap cs {#} db" and c: "c \<in> set cs" and p: "rd_wf p" and e: "env_ok env"
    and s: "s_ref_count msg = 0" "s_topic msg = Some t" "good_topic t" and q: "s_qos msg \<le> c_max_qos (get_ctx c db)"
    and n: "unat (s_payloadlen msg) < 268435456"
  shows "kept cap cs (publish_message env c p msg expiry db)"
proof -
  note m = malloc_nil [OF inv_mem [OF i]]
  obtain b p' where b: "packet__read_bytes p (s_payloadlen msg) = (b, p')" by (rule prod.exhaust)
  obtain x where x: "(if s_payloadlen msg > 0 then
      (case d_malloc db of (False, db) \<Rightarrow> (rc_fail MOSQ_ERR_NOMEM, db)
       | (True, db) \<Rightarrow> (case packet__read_bytes p (s_payloadlen msg) of
           (Inl e, packet) \<Rightarrow> (malformed e, db) | (Inr payload, packet) \<Rightarrow> (Inr payload, db)))
      else (Inr [], db)) = (x, db)" "returns x"
    by (rule that [of "if s_payloadlen msg > 0 then (case b of Inl e \<Rightarrow> malformed e | Inr payload \<Rightarrow> Inr payload) else Inr []"])
      (use read_bytes_returns [OF p n b] in \<open>auto simp: b m returns_def malformed_def split: sum.split\<close>)
  have d: "kept cap cs (case plugin__handle_message env (get_ctx c db) (msg\<lparr>s_payload := y\<rparr>) of (rc, msg) \<Rightarrow>
       if rc = MOSQ_ERR_ACL_DENIED then publish_refused c msg MQTT_RC_NOT_AUTHORIZED db
       else if rc \<noteq> MOSQ_ERR_SUCCESS then (Inl (Rc rc), db) else publish_deliver (e_acl env) c msg expiry db)" for y
  proof -
    obtain rc msg' where p': "plugin__handle_message env (get_ctx c db) (msg\<lparr>s_payload := y\<rparr>) = (rc, msg')" by (rule prod.exhaust)
    have t': "s_topic (msg\<lparr>s_payload := y\<rparr>) = Some t" using s(2) by simp
    obtain t2 where "s_topic msg' = Some t2" "good_topic t2" using plugin_ok(1) [OF e t' s(3) p'] by blast
    then have "kept cap cs (publish_deliver (e_acl env) c msg' expiry db)"
      using plugin_ok(2) [OF e t' s(3) p'] s(1) q by (intro deliver_ok [OF i c]) simp_all
    then show ?thesis using refused_ok [OF i c, of msg'] i by (simp add: p')
  qed
  show ?thesis
  proof (cases x)
    case (Inl err)
    then show ?thesis using x(2) i refused_ok [OF i c] unfolding publish_message_def x(1) by (auto simp: kept_def returns_def)
  next
    case (Inr y)
    show ?thesis using i d [of y] refused_ok [OF i c] control_ok [OF i c e]
      unfolding publish_message_def x(1) Inr prod.case sum.case Let_def by simp
  qed
qed

lemma mid_ok: "rd_wf p \<Longrightarrow> publish_mid qos p = (r, p') \<Longrightarrow> rd_safe p r p'"
proof -
  assume p: "rd_wf p" and r: "publish_mid qos p = (r, p')"
  obtain x p1 where x: "packet__read_uint16 p = (x, p1)" by (rule prod.exhaust)
  from safe_uint16 [OF p x] show ?thesis using r
    by (auto simp: publish_mid_def x rd_safe_def malformed_def intro: exI [of _ 0] split: sum.splits if_splits)
qed

lemma flags_ok: "publish_flags ctx db h = Inr (qos, retain) \<Longrightarrow> qos \<le> c_max_qos ctx"
  "returns (publish_flags ctx db h)"
  by (auto simp: publish_flags_def Let_def not_less split: if_splits)

lemma publish_handler:
  assumes e: "env_ok env"
  shows "packet_handler (handle__publish env)"
proof
  fix cap cs db c p assume i: "broker_inv cap cs {#} db" and c: "c \<in> set cs" and p: "rd_wf p"
  note m = malloc_nil [OF inv_mem [OF i]]
  obtain str p1 mem where 1: "packet__read_string p [] = (str, p1, mem)" by (metis surj_pair)
  note db1 = mem_same [OF inv_mem [OF i] string_nil [OF 1]]
  note s1 = safe_string [OF p 1]
  have p1: "rd_wf p1" by (rule rd_safe_wf [OF p s1])
  show "kept cap cs (handle__publish env c p db)"
  proof (cases "\<exists>qos retain str' slen. c_state (get_ctx c db) = mosq_cs_active \<and>
      publish_flags (get_ctx c db) db (p_command p) = Inr (qos, retain) \<and> str = Inr (str', slen) \<and>
      \<not> (slen = 0 \<and> c_protocol (get_ctx c db) \<noteq> mosq_p_mqtt5)")
    case False
    then show ?thesis using i rd_safe_returns [OF s1] flags_ok(2) [of "get_ctx c db" db "p_command p"]
      unfolding handle__publish_def m bool.case prod.case inv_mem [OF i] 1 db1 Let_def
      by (auto simp: kept_def returns_def malformed_def split: sum.split)
  next
    case True
    then obtain qos retain str' slen where ok: "c_state (get_ctx c db) = mosq_cs_active"
      "publish_flags (get_ctx c db) db (p_command p) = Inr (qos, retain)" "str = Inr (str', slen)"
      "\<not> (slen = 0 \<and> c_protocol (get_ctx c db) \<noteq> mosq_p_mqtt5)" by blast
    obtain x p2 where 2: "publish_mid qos p1 = (x, p2)" by (rule prod.exhaust)
    note s2 = mid_ok [OF p1 2]
    have p2: "rd_wf p2" by (rule rd_safe_wf [OF p1 s2])
    obtain y p3 db3 where 3: "props_or_malformed CMD_PUBLISH c p2 db = (y, p3, db3)" by (metis surj_pair)
    note s3 = props_or_malformed_ok [OF p2 inv_mem [OF i] 3]
    have p3: "rd_wf p3" using rd_safe_wf [OF p2] s3 by blast
    have eq: "handle__publish env c p db = (case publish_mid qos p1 of
        (Inl e, packet) \<Rightarrow> (Inl e, db)
      | (Inr mid, packet) \<Rightarrow> (case props_or_malformed CMD_PUBLISH c packet db of
           (Inl e, packet, db) \<Rightarrow> (Inl e, db)
         | (Inr properties, packet, db) \<Rightarrow>
             (case publish_props properties ([], -1, 0) of (props, topic_alias, expiry) \<Rightarrow>
               (case publish_topic c (cstring str') topic_alias db of
                  (Inl e, db) \<Rightarrow> (Inl e, db)
                | (Inr topic, db) \<Rightarrow>
                    let payloadlen = p_remaining_length packet - p_pos packet;
                        db = db\<lparr>d_pub_bytes_received := d_pub_bytes_received db + uint payloadlen\<rparr>
                    in (case mount (get_ctx c db) topic db of
                         (Inl e, db) \<Rightarrow> (Inl e, db)
                       | (Inr topic, db) \<Rightarrow>
                           publish_message env c packet
                             (msg0\<lparr>s_topic := Some topic, s_qos := qos, s_retain := retain, s_source_mid := mid,
                                   s_properties := props, s_payloadlen := payloadlen\<rparr>) expiry db)))))"
      unfolding handle__publish_def m bool.case prod.case ok(2) sum.case inv_mem [OF i] 1 ok(3) Let_def db1 if_not_P [OF ok(4)]
      using ok(1) by simp
    show ?thesis
    proof (cases "\<exists>mid ps. x = Inr mid \<and> y = Inr ps")
      case False
      then show ?thesis using i s3 rd_safe_returns [OF s2] rd_safe_returns [OF conjunct2 [OF s3]]
        unfolding eq 2 prod.case 3 by (auto simp: kept_def returns_def split: sum.split)
    next
      case True
      then obtain mid ps where xy: "x = Inr mid" "y = Inr ps" by blast
      obtain props ta expiry where pp: "publish_props ps ([], -1, 0) = (props, ta, expiry)" by (metis surj_pair)
      obtain t db4 where 4: "publish_topic c (cstring str') ta db = (t, db4)" by (rule prod.exhaust)
      note s4 = publish_topic_ok [OF i c topic_nonempty [OF p 1 [unfolded ok(3)]] 4]
      have db3: "db3 = db" using s3 by simp
      show ?thesis
      proof (cases t)
        case (Inl err)
        then show ?thesis using s4 unfolding eq 2 prod.case xy sum.case 3 db3 pp 4 by (auto simp: kept_def returns_def)
      next
        case (Inr topic)
        let ?len = "p_remaining_length p3 - p_pos p3"
        let ?db5 = "db4\<lparr>d_pub_bytes_received := d_pub_bytes_received db4 + uint ?len\<rparr>"
        have i5: "broker_inv cap cs {#} ?db5" by (rule inv_calm [OF conjunct1 [OF s4] c calm_fields]) simp_all
        obtain t' db6 where 6: "mount (get_ctx c ?db5) topic ?db5 = (t', db6)" by (rule prod.exhaust)
        have s6: "db6 = ?db5 \<and> returns t'" by (rule mount_ok [OF inv_mem [OF i5] 6])
        show ?thesis
        proof (cases t')
          case (Inl err)
          then show ?thesis using s6 i5 unfolding eq 2 prod.case xy sum.case 3 db3 pp 4 Inr Let_def 6 by (auto simp: kept_def returns_def)
        next
          case (Inr topic')
          have g: "good_topic topic'" by (rule mount_topic [OF inv_ctx [OF i5 c] _ _ 6 [unfolded Inr]]) (use s4 \<open>t = Inr topic\<close> in auto)
          have q: "qos \<le> c_max_qos (get_ctx c ?db5)" using flags_ok(1) [OF ok(2)] s4 by (simp add: same_client_def get_ctx_def)
          have "kept cap cs (publish_message env c p3 (msg0\<lparr>s_topic := Some topic', s_qos := qos, s_retain := retain, s_source_mid := mid,
               s_properties := props, s_payloadlen := ?len\<rparr>) expiry ?db5)"
            by (rule message_ok [OF i5 c p3 e _ _ g]) (use q payload_length [OF p3] in \<open>simp_all add: msg0_def\<close>)
          then show ?thesis using s6 unfolding eq 2 prod.case xy sum.case 3 db3 pp 4 \<open>t = Inr topic\<close> Let_def 6 Inr by simp
        qed
      qed
    qed
  qed
qed

section \<open>Dispatching\<close>

lemma dispatch_handler:
  assumes e: "env_ok env" and s: "\<And>command. packet_handler (session command)"
  shows "packet_handler (handle__packet session env)"
proof
  fix cap cs db c p assume a: "broker_inv cap cs {#} db" "c \<in> set cs" "rd_wf p"
  have "kept cap cs (or_disconnect c (rc_fail MOSQ_ERR_PROTOCOL, db))"
    using a(1) inv_calm [OF a(1,2) calm_send] by (auto simp: or_disconnect_def kept_def returns_def split: option.split)
  then show "kept cap cs (handle__packet session env c p db)"
    using pingreq.keeps [OF a] pingresp.keeps [OF a] pubackcomp.keeps [OF a, of "''PUBACK''"] pubackcomp.keeps [OF a, of "''PUBCOMP''"]
      packet_handler.disconnects [OF publish_handler [OF e] a] pubrec.keeps [OF a] pubrel.keeps [OF a, of "e_acl env"]
      subscribe.disconnects [OF a, of "e_idle env" "e_acl env"] unsubscribe.disconnects [OF a, of "e_acl env"]
      suback.keeps [OF a] unsuback.keeps [OF a] packet_handler.keeps [OF s a, of "p_command p AND 0xF0"]
    unfolding handle__packet_def Let_def by (simp only: if_split) blast
qed

end
