(* ===== verification/Handlers_Props.thy ===== *)
theory Handlers_Props
  imports Publish_Ok Subs_Props Retain_Props
begin

text \<open>
  The properties of the handlers of packets: what any sequence of packets does to the broker, what
  SUBSCRIBE grants, that a message of QoS 2 is not distributed twice, and the failures that are left.
\<close>

section \<open>The broker after it was opened\<close>

text \<open>The state before \<open>db__open\<close>: no messages, no trees, and clients without subscriptions.\<close>

definition fresh :: "cptr list \<Rightarrow> mosquitto_db \<Rightarrow> bool" where
  "fresh cs db \<longleftrightarrow> clients cs \<and> broker_init db \<and> d_mem db = [] \<and> d_retains db = []
   \<and> d_subscription_count db = 0 \<and> d_shared_subscription_count db = 0
   \<and> (\<forall>c. c_subs (get_ctx c db) = [] \<and> c_shared_subs (get_ctx c db) = [])
   \<and> ids_ok cs db \<and> (\<forall>c \<in> set cs. ctx_ok (get_ctx c db))"

abbreviation "opened db \<equiv> snd (db__open (\<lambda>db. (True, db)) db)"

lemma opened_eq:
  assumes "d_mem db = []" "d_retains db = []"
  shows "opened db = db\<lparr>d_last_db_id := 0, d_subs := [([], Subhier [] [] []), (''$SYS'', Subhier [] [] [])],
    d_retains := [([], Retainhier None []), (''$SYS'', Retainhier None [])]\<rparr>"
  using assms by (cases db) (simp add: db__open_def sub__add_hier_entry_def d_malloc_def retain__init_def
      retain__add_hier_entry_def strlen16_def ht_add_def)

lemma open_inv:
  assumes f: "fresh cs db"
  shows "broker_inv cap cs {#} (opened db)"
proof -
  note e = opened_eq [of db]
  have m: "d_mem db = []" "d_retains db = []" using f by (simp_all add: fresh_def)
  have g: "get_ctx c (opened db) = get_ctx c db" for c by (simp add: e [OF m] get_ctx_def)
  have "broker_init (opened db)" using f by (simp add: e [OF m] fresh_def broker_init_def md_of_def get_ctx_def)
  then have "broker_ok cs {#} (opened db)" by (rule broker_init_ok)
  moreover have "retained_refs (opened db) = {#}" by (simp add: e [OF m] retained_refs_def)
  moreover have n: "own (the_node path (roots (opened db))) = ([], [])" for path
    by (cases path; cases "tl path") (simp_all add: e [OF m] roots_def)
  have "books (opened db)" using f n g
    by (simp add: books_defs ref_count_def shared_ref_count_def fresh_def) (simp add: e [OF m])
  moreover have "tree_ready cs (opened db)" by (simp add: tree_ready_def node_ready_def n)
  moreover have "heap_ok (opened db)" using f by (simp add: e [OF m] heap_ok_def fresh_def broker_init_def)
  moreover have "all_leaves (leaf_inv cap cs (opened db)) (roots (opened db))"
    unfolding all_leaves_def using n by (metis own_select fst_conv snd_conv empty_iff list.set(1))
  ultimately show ?thesis using f g by (simp add: broker_inv_def fresh_def ids_ok_def) (simp add: e [OF m])
qed

lemma empty_fresh: "fresh [0] empty_broker"
  using empty_broker_init
  by (simp add: fresh_def clients_def ids_ok_def ctx_ok_def get_ctx_def) (simp add: empty_broker_def new_client_def)

section \<open>Sequences of packets\<close>

text \<open>The packets that build or end a session.\<close>

definition session_packet :: "mosquitto__packet \<Rightarrow> bool" where
  "session_packet p \<longleftrightarrow> p_command p AND 0xF0 \<in> {0x10, 0x20, 0xE0, 0xF0}"

definition run_packets :: "(u8 \<Rightarrow> handler) \<Rightarrow> broker_env \<Rightarrow> (cptr \<times> mosquitto__packet) list \<Rightarrow> mosquitto_db \<Rightarrow> mosquitto_db" where
  "run_packets session env = fold (\<lambda>(c, p) db. snd (handle__packet session env c p db))"

lemma idle_handler: "packet_handler (\<lambda>c p db. (Inr (), db))"
  by unfold_locales simp

lemma dispatched_ok:
  assumes "env_ok env" "broker_inv cap cs {#} db" "c \<in> set cs" "rd_wf p" "\<not> session_packet p"
  shows "kept cap cs (handle__packet session env c p db)"
proof -
  have "handle__packet session env c p db = handle__packet (\<lambda>_ c p db. (Inr (), db)) env c p db"
    using assms(5) by (simp add: handle__packet_def session_packet_def Let_def)
  then show ?thesis using packet_handler.keeps [OF dispatch_handler [OF assms(1) idle_handler] assms(2-4)] by simp
qed

text \<open>A complete packet of a client in an established session: any type but CONNECT, CONNACK, DISCONNECT and AUTH.\<close>

definition admitted :: "cptr list \<Rightarrow> cptr \<times> mosquitto__packet \<Rightarrow> bool" where
  "admitted cs x \<longleftrightarrow> fst x \<in> set cs \<and> rd_wf (snd x) \<and> \<not> session_packet (snd x)"

lemma run_ok:
  assumes "env_ok env"
  shows "broker_inv cap cs {#} db \<Longrightarrow> list_all (admitted cs) xs \<Longrightarrow> broker_inv cap cs {#} (run_packets session env xs db)"
proof (induction xs arbitrary: db)
  case (Cons x xs)
  obtain c p where x: "x = (c, p)" by (rule prod.exhaust)
  have "kept cap cs (handle__packet session env c p db)"
    using dispatched_ok [OF assms Cons.prems(1)] Cons.prems(2) by (simp add: x admitted_def)
  then have "broker_inv cap cs {#} (snd (handle__packet session env c p db))" by (simp add: kept_def)
  from Cons.IH [OF this] Cons.prems(2) show ?case by (simp add: run_packets_def x)
qed (simp add: run_packets_def)

text \<open>Without callbacks of plugins, and with access to everything.\<close>

definition open_env :: broker_env where
  "open_env = \<lparr>e_acl = open_acl, e_idle = (\<lambda>_. True), e_per_listener_settings = False,
     e_options = \<lparr>cb_message = [], cb_control = []\<rparr>, e_listener_options = (\<lambda>_. \<lparr>cb_message = [], cb_control = []\<rparr>)\<rparr>"

lemma open_env_ok: "env_ok open_env"
  by (simp add: env_ok_def open_env_def callbacks_ok_def)

definition received :: "u8 \<Rightarrow> u32 \<Rightarrow> u8 list \<Rightarrow> mosquitto__packet" where
  "received command len bytes = packet0\<lparr>p_command := command, p_payload := bytes, p_remaining_length := len\<rparr>"

text \<open>SUBSCRIBE to \<open>a\<close> with QoS 1, and a PUBLISH of one byte to it with QoS 2.\<close>

definition sub_packet :: mosquitto__packet where
  "sub_packet = received 0x82 6 [0, 5, 0, 1, 97, 1]"

definition pub_packet :: mosquitto__packet where
  "pub_packet = received 0x34 6 [0, 1, 97, 0, 6, 120]"

lemma example_packets: "list_all (admitted [0]) [(0, sub_packet), (0, pub_packet)]"
  by (simp add: admitted_def sub_packet_def pub_packet_def received_def packet0_def rd_wf_def session_packet_def)

text \<open>
  C1: In established sessions, whatever complete packets of every type but CONNECT, CONNACK, DISCONNECT
  and AUTH the clients send, in any order and any number, the broker keeps its invariant: no freed
  message is touched, all reference counts and counters are exact, the subscriptions agree with the
  clients. Each handler comes back with a code and never runs outside of a packet, follows a null
  pointer or hits a failed assertion. The hypotheses leave out what is known to break this: a failed
  allocation (the invariant has \<open>d_mem db = []\<close>; \<open>alias_mosq.c:33\<close> and \<open>database.c:545\<close> are such
  failures), a bridge that maps topics (\<open>ctx_ok\<close> in the invariant; \<open>bridge_topic.c:207\<close>), settings per
  listener (\<open>env_ok\<close>; \<open>control.c:40\<close>), and a plugin that takes the topic of a message away (\<open>env_ok\<close>).
\<close>
theorem handle_packets_safe:
  assumes "env_ok env" "broker_inv cap cs {#} db" "list_all (admitted cs) xs"
  shows "broker_inv cap cs {#} (run_packets session env xs db) \<and> \<not> d_fault (run_packets session env xs db)
    \<and> (\<forall>ys c p zs. xs = ys @ (c, p) # zs \<longrightarrow> returns (fst (handle__packet session env c p (run_packets session env ys db))))"
proof -
  have "returns (fst (handle__packet session env c p (run_packets session env ys db)))" if "xs = ys @ (c, p) # zs" for ys c p zs
  proof -
    have "list_all (admitted cs) ys" "admitted cs (c, p)" using assms(3) that by simp_all
    then have "kept cap cs (handle__packet session env c p (run_packets session env ys db))"
      using dispatched_ok [OF assms(1) run_ok [OF assms(1,2)]] by (simp add: admitted_def)
    then show ?thesis by (simp add: kept_def)
  qed
  moreover have "\<not> d_fault (run_packets session env xs db)" using run_ok [OF assms] by (simp add: broker_inv_def broker_ok_def)
  ultimately show ?thesis using run_ok [OF assms] by blast
qed

theorem handle_packets_safe_witness:
  "let run = run_packets (\<lambda>_ c p db. (Inr (), db)) open_env
   in \<not> d_fault (run [(0, sub_packet), (0, pub_packet)] (opened empty_broker))
    \<and> returns (fst (handle__packet (\<lambda>_ c p db. (Inr (), db)) open_env 0 pub_packet (run [(0, sub_packet)] (opened empty_broker))))"
  using handle_packets_safe [OF open_env_ok open_inv [OF empty_fresh] example_packets, of True "\<lambda>_ c p db. (Inr (), db)"]
  by (auto simp: Let_def)

text \<open>All leaves of a node, those of the shared subscriptions included.\<close>

definition leaves_of :: "mosquitto__subhier \<Rightarrow> mosquitto__subleaf list" where
  "leaves_of n = h_subs n @ concat (map snd (h_shared n))"

text \<open>
  C7: After the broker was opened, and after packets as in the property before, every stored message
  has a topic, which is not empty and of which no level that is looked up is a wildcard, every
  leaf of the tree of subscriptions, shared or not, belongs to a client of the broker, and its QoS
  is at most 2 and at most the maximum QoS of that client, and every topic alias stands for a topic.
\<close>
theorem broker_well_typed:
  assumes "env_ok env" "fresh cs db" "list_all (admitted cs) xs"
  shows "let db' = run_packets session env xs (opened db) in
    (\<forall>p s. d_heap db' p = Some s \<longrightarrow> (\<exists>t. s_topic s = Some t \<and> t \<noteq> [] \<and> plain_levels (filed_levels t)))
    \<and> (\<forall>path. \<forall>leaf \<in> set (leaves_of (the_node path (roots db'))). l_context leaf \<in> set cs \<and> l_qos leaf \<le> 2
         \<and> l_qos leaf \<le> c_max_qos (get_ctx (l_context leaf) db'))
    \<and> (\<forall>c \<in> set cs. \<forall>a \<in> set (c_aliases (get_ctx c db')). \<exists>t. snd a = Some t \<and> t \<noteq> [])"
proof -
  let ?db = "run_packets session env xs (opened db)"
  have i: "broker_inv True cs {#} ?db" by (rule run_ok [OF assms(1) open_inv [OF assms(2)] assms(3)])
  have "\<exists>t. s_topic s = Some t \<and> t \<noteq> [] \<and> plain_levels (filed_levels t)" if "d_heap ?db p = Some s" for p s
  proof -
    have "\<exists>t. s_topic (stored_at p ?db) = Some t \<and> good_topic t" using inv_heap [OF i, of p] that by simp
    then show ?thesis by (simp add: stored_at_def that good_topic_def)
  qed
  moreover have "l_context leaf \<in> set cs \<and> l_qos leaf \<le> 2 \<and> l_qos leaf \<le> c_max_qos (get_ctx (l_context leaf) ?db)"
    if l: "leaf \<in> set (leaves_of (the_node path (roots ?db)))" for path leaf
  proof -
    have "all_leaves (leaf_inv True cs ?db) (roots ?db)" by (rule inv_leaves [OF i])
    then have "leaf_inv True cs ?db leaf" using l unfolding all_leaves_def leaves_of_def by auto
    then show ?thesis unfolding leaf_inv_def qos_inv_def qos_ready_def by auto
  qed
  moreover have "\<exists>t. snd a = Some t \<and> t \<noteq> []" if "c \<in> set cs" "a \<in> set (c_aliases (get_ctx c ?db))" for c a
    using inv_ctx [OF i that(1)] that(2) unfolding ctx_ok_def by (cases "snd a") auto
  ultimately show ?thesis unfolding Let_def by blast
qed

theorem broker_well_typed_witness:
  "let db' = run_packets (\<lambda>_ c p db. (Inr (), db)) open_env [(0, sub_packet), (0, pub_packet)] (opened empty_broker)
   in list_all (\<lambda>leaf. l_context leaf = 0 \<and> l_qos leaf \<le> 2 \<and> l_qos leaf \<le> c_max_qos (get_ctx (l_context leaf) db'))
        (leaves_of (the_node [[], [], ''a''] (roots db')))
    \<and> list_all (\<lambda>a. snd a \<noteq> None) (c_aliases (get_ctx 0 db'))"
  using broker_well_typed [OF open_env_ok empty_fresh example_packets, of "\<lambda>_ c p db. (Inr (), db)"]
  unfolding Let_def list_all_iff by (auto simp del: the_node_simps) metis

section \<open>What SUBSCRIBE grants\<close>

text \<open>A filter and its options as they stand in the packet, and the filter as a string.\<close>

definition filter_bytes :: "u8 list \<times> u8 \<Rightarrow> u8 list" where
  "filter_bytes f = be16 (of_nat (length (fst f))) @ fst f @ [snd f]"

definition text_of :: "u8 list \<Rightarrow> string" where
  "text_of bs = map (\<lambda>b. char_of (unat b)) bs"

definition encodable :: "u8 list \<times> u8 \<Rightarrow> bool" where
  "encodable f \<longleftrightarrow> utf8_wf (fst f) \<and> fst f \<noteq> [] \<and> length (fst f) < 65536"

text \<open>
  The reference: every filter gets its own answer, without a packet and without memory. A filter that
  is not valid, or options that are not, end the session; a filter that access control denies gets
  the code for that, any other is subscribed and gets the granted QoS.
\<close>

definition mounted :: "mosquitto \<Rightarrow> string \<Rightarrow> string" where
  "mounted ctx sub = (case c_listener ctx of None \<Rightarrow> sub | Some l \<Rightarrow> (case ls_mount_point l of None \<Rightarrow> sub | Some m \<Rightarrow> m @ sub))"

definition grant :: "acl_env \<Rightarrow> cptr \<Rightarrow> u32 \<Rightarrow> u8 list \<times> u8 \<Rightarrow> mosquitto_db \<Rightarrow> (u8 \<times> bool) res \<times> mosquitto_db" where
  "grant env c ident f db =
     (let ctx = get_ctx c db; sub = mounted ctx (text_of (fst f))
      in if \<not> sub_valid (text_of (fst f)) then (rc_fail MOSQ_ERR_MALFORMED_PACKET, db)
         else case subscribe_options ctx (snd f) of
           Inl e \<Rightarrow> (Inl e, db)
         | Inr (qos, opts) \<Rightarrow>
             let acl = acl_check env ctx (Some sub) (msg0\<lparr>s_qos := qos\<rparr>) MOSQ_ACL_SUBSCRIBE
             in if acl = MOSQ_ERR_SUCCESS
                then (case subscribe_allowed env c ident sub (qos, opts) db of
                        (Inl e, db) \<Rightarrow> (Inl e, db) | (Inr failed, db) \<Rightarrow> (Inr (qos, failed), db))
                else if acl = MOSQ_ERR_ACL_DENIED then (Inr (denied_code ctx qos, False), db)
                else (Inl (Rc acl), db))"

fun grant_all :: "acl_env \<Rightarrow> cptr \<Rightarrow> u32 \<Rightarrow> (u8 list \<times> u8) list \<Rightarrow> mosquitto_db \<Rightarrow> (u8 list \<times> bool) res \<times> mosquitto_db" where
  "grant_all env c ident [] db = (Inr ([], False), db)"
| "grant_all env c ident (f # fs) db =
     (case grant env c ident f db of
        (Inl e, db) \<Rightarrow> (Inl e, db)
      | (Inr (code, failed), db) \<Rightarrow>
          (case grant_all env c ident fs db of
             (Inl e, db) \<Rightarrow> (Inl e, db)
           | (Inr (codes, failed'), db) \<Rightarrow> (Inr (code # codes, failed \<or> failed'), db)))"

lemma enc_nonzero: "utf8_allowed c \<Longrightarrow> 0 \<notin> set (utf8_enc c)"
proof -
  assume c: "utf8_allowed c"
  have z: "0 \<noteq> (of_nat n :: u8)" if "0 < n" "n < 256" for n
    using unat_small [OF that(2)] that(1) by auto
  have b: "0x1F < c" "c \<le> 0x10FFFF" using c by (simp_all add: utf8_allowed_def)
  have m: "0 \<noteq> (of_nat (128 + x mod 64) :: u8)" for x 
    by (rule z) (use mod_less_divisor [of 64 x] in linarith)+
  show ?thesis using b z [of c] z [of "0xC0 + c div 64"] z [of "0xE0 + c div 4096"] z [of "0xF0 + c div 262144"]
      m [of c] m [of "c div 64"] m [of "c div 4096"]
    by (auto simp: utf8_enc_def div_less_iff_less_mult)
qed

lemma cstring_text: "utf8_wf bs \<Longrightarrow> cstring (Some (bs @ [0])) = Some (text_of bs)"
proof -
  assume "utf8_wf bs"
  then have "0 \<notin> set bs" using enc_nonzero by (force simp: utf8_wf_def)
  then have "takeWhile (\<lambda>b. b \<noteq> 0) (bs @ [0]) = bs" by (subst takeWhile_append2) auto
  then show ?thesis by (simp add: cstring_def text_of_def)
qed

lemma filter_grant:
  assumes i: "broker_inv cap cs {#} db" and c: "c \<in> set cs" and p: "rd_wf p" "unread p = byte # r" and e: "encodable (s, byte)"
    and f: "subscribe_filter env c ident (text_of s) p db = (x, p', db')"
  shows "(x, db') = grant env c ident (s, byte) db \<and> (\<forall>y. x = Inr y \<longrightarrow> p' = adv p 1)"
proof -
  have m: "d_mem db = []" by (rule inv_mem [OF i])
  have nul: "CHR 0x00 \<notin> set (text_of s)" by (rule cstring_no_nul [OF cstring_text]) (use e in \<open>simp add: encodable_def\<close>)
  have mt: "mount (get_ctx c db) (text_of s) db = (Inr (mounted (get_ctx c db) (text_of s)), db)"
    using malloc_nil [OF m] by (simp add: mount_def mounted_def split: option.split)
  note s = read_byte [OF p(1)] p(2) list.case prod.case sum.case mt
  show ?thesis
  proof (cases "sub_valid (text_of s)")
    case False
    then show ?thesis using f by (auto simp: subscribe_filter_def grant_def sub_check_valid [OF nul] malformed_def)
  next
    case True
    then have v: "mosquitto_sub_topic_check (Some (text_of s)) = Inr ()" by (simp add: sub_check_valid [OF nul])
    show ?thesis
    proof (cases "subscribe_options (get_ctx c db) byte")
      case (Inl e)
      then show ?thesis using f True by (simp add: subscribe_filter_def v s grant_def)
    next
      case (Inr qo)
      obtain qos opts rh where qo: "qo = (qos, opts, rh)" by (metis surj_pair)
      let ?sub = "mounted (get_ctx c db) (text_of s)"
      define acl where "acl = acl_check env (get_ctx c db) (Some ?sub) (msg0\<lparr>s_qos := qos\<rparr>) MOSQ_ACL_SUBSCRIBE"
      obtain y db1 where y: "subscribe_allowed env c ident ?sub (qos, opts, rh) db = (y, db1)" by (rule prod.exhaust)
      have "d_mem db1 = []" using subscribe_allowed_ok [OF i c options_ready(1) [OF Inr [unfolded qo]] y] inv_mem by blast
      note m1 = malloc_nil [OF this]
      show ?thesis using f True m1 malloc_nil [OF m]
        by (cases y) (auto simp: subscribe_filter_def v s Inr qo grant_def Let_def acl_def [symmetric] y split: if_splits)
    qed
  qed
qed

lemma loop_grants:
  "broker_inv cap cs {#} db \<Longrightarrow> c \<in> set cs \<Longrightarrow> rd_wf p \<Longrightarrow> unread p = concat (map filter_bytes fs) \<Longrightarrow> list_all encodable fs \<Longrightarrow>
   subscribe_loop env c ident p payload failed0 db =
     Some (case grant_all env c ident fs db of
       (Inl e, db') \<Rightarrow> (Inl e, db') | (Inr (codes, failed), db') \<Rightarrow> (Inr (payload @ codes, failed0 \<or> failed), db'))"
proof (induction fs arbitrary: p payload failed0 db)
  case Nil
  then show ?case by (simp add: subscribe_loop.simps unread_pos)
next
  case (Cons f fs)
  obtain bs byte where f: "f = (bs, byte)" by (rule prod.exhaust)
  note i = Cons.prems(1) and c = Cons.prems(2) and p = Cons.prems(3)
  have e: "encodable (bs, byte)" "utf8_wf bs" "bs \<noteq> []" "length bs < 65536" using Cons.prems(5) by (simp_all add: f encodable_def)
  have u: "unread p = be16 (of_nat (length bs)) @ bs @ (byte # concat (map filter_bytes fs))"
    using Cons.prems(4) filter_bytes_def [of f] by (simp add: f)
  then have pos: "p_pos p < p_remaining_length p" by (simp add: unread_pos [OF p] be16_def)
  define q where "q = adv p (2 + length bs)"
  have rs: "packet__read_string p [] = (Inr (Some (bs @ [0]), of_nat (length bs)), q, [])"
    using read_string_enc [OF p u e(4,2)] e(3) by (simp add: q_def)
  have q: "rd_wf q" "unread q = byte # concat (map filter_bytes fs)"
    using p u by (simp_all add: q_def be16_def)
  have n0: "(of_nat (length bs) :: u16) \<noteq> 0"
    using e(3,4) by (simp add: word_unat_eq_iff unat_of_nat take_bit_eq_mod)
  obtain x q' db1 where x: "subscribe_filter env c ident (text_of bs) q db = (x, q', db1)" by (metis surj_pair)
  note g = filter_grant [OF i c q e(1) x]
  have i1: "broker_inv cap cs {#} db1" using subscribe_filter_ok [OF i c q(1) cstring_text [OF e(2)] x] by simp
  have loop: "subscribe_loop env c ident p payload failed0 db = (case x of Inl e \<Rightarrow> Some (Inl e, db1)
      | Inr (code, fl) \<Rightarrow> subscribe_loop env c ident q' (payload @ [code]) (failed0 \<or> fl) db1)"
    using pos n0 mem_same [OF inv_mem [OF i]] unfolding subscribe_loop.simps [of env c ident p] inv_mem [OF i]
    by (simp add: rs cstring_text [OF e(2)] x split: sum.split)
  show ?case
  proof (cases x)
    case (Inl e)
    then show ?thesis using g loop by (simp add: f grant_all.simps(2) flip: g)
  next
    case (Inr y)
    obtain code fl where y: "y = (code, fl)" by (rule prod.exhaust)
    have q': "rd_wf q'" "unread q' = concat (map filter_bytes fs)" using g Inr q by simp_all
    have "grant env c ident f db = (Inr (code, fl), db1)" using g Inr y f by simp
    then show ?thesis using Cons.IH [OF i1 c q', of "payload @ [code]" "failed0 \<or> fl"] Cons.prems(5) loop Inr y
      by (auto split: prod.split sum.split)
  qed
qed

lemma grants_length: "grant_all env c ident fs db = (Inr (codes, failed), db') \<Longrightarrow> length codes = length fs"
  by (induction fs arbitrary: db codes failed db') (auto split: prod.splits sum.splits)

text \<open>
  C6: On a packet whose filters are properly encoded the loop of \<open>handle__subscribe\<close> ends and does what the
  reference does filter by filter, in their order: it ends with the same answer in the same state, and
  a successful answer has exactly one reason code for each filter.
\<close>
theorem subscribe_grants_each_filter:
  assumes "broker_inv cap cs {#} db" "c \<in> set cs" "rd_wf p" "unread p = concat (map filter_bytes fs)" "list_all encodable fs"
  shows "subscribe_loop env c ident p [] False db = Some (grant_all env c ident fs db)
    \<and> (\<forall>codes failed db'. grant_all env c ident fs db = (Inr (codes, failed), db') \<longrightarrow> length codes = length fs)"
proof -
  have "(case grant_all env c ident fs db of (Inl e, db') \<Rightarrow> (Inl e, db')
      | (Inr (codes, failed), db') \<Rightarrow> (Inr ([] @ codes, False \<or> failed), db')) = grant_all env c ident fs db"
    by (auto split: prod.split sum.split)
  then show ?thesis using loop_grants [OF assms, of env ident "[]" False] grants_length by metis
qed

lemma example_filters: "unread (adv sub_packet 2) = concat (map filter_bytes [([97], 1)]) \<and> list_all encodable [([97], 1)]"
proof -
  have "utf8_wf [97]" unfolding utf8_wf_def
    by (rule exI [of _ "[97]"]) (simp add: utf8_allowed_def utf8_enc_def)
  then show ?thesis
    by (simp add: unread_def adv_def sub_packet_def received_def packet0_def filter_bytes_def encodable_def be16_def)
qed

theorem subscribe_grants_each_filter_witness:
  "subscribe_loop open_acl 0 0 (adv sub_packet 2) [] False (opened empty_broker) =
     Some (grant_all open_acl 0 0 [([97], 1)] (opened empty_broker))"
proof -
  have "rd_wf (adv sub_packet 2)" by (simp add: rd_wf_def adv_def sub_packet_def received_def packet0_def)
  then show ?thesis
    using subscribe_grants_each_filter [OF open_inv [OF empty_fresh], of 0 "adv sub_packet 2" "[([97], 1)]" open_acl 0] example_filters
    by simp
qed

section \<open>Messages of QoS 2\<close>

text \<open>
  Nothing was sent on: the messages, the retained ones, and all outgoing queues are as they were, and
  what was sent are PUBRECs to the client itself, for the identifiers \<open>mids\<close>.
\<close>

abbreviation pubrecs :: "cptr \<Rightarrow> u16 list \<Rightarrow> (cptr \<times> packet_event) list" where
  "pubrecs c mids \<equiv> map (\<lambda>mid. (c, Pubrec mid 0 [])) mids"

definition undistributed :: "cptr \<Rightarrow> mosquitto_db \<Rightarrow> mosquitto_db \<Rightarrow> bool" where
  "undistributed c db db' \<longleftrightarrow> d_heap db' = d_heap db \<and> d_msg_store db' = d_msg_store db \<and> d_retains db' = d_retains db
   \<and> (\<forall>c. md_of c mosq_md_out db' = md_of c mosq_md_out db) \<and> (\<exists>mids. d_sent db' = d_sent db @ pubrecs c mids)"

lemma undistributed_refl [simp]: "undistributed c db db"
  by (simp add: undistributed_def)


lemma undistributed_fault [simp]: "undistributed c db (db\<lparr>d_fault := b\<rparr>)"
  by (simp add: undistributed_def md_of_def get_ctx_def)

lemma undistributed_in [simp]: "undistributed c db (upd_md c mosq_md_in f db)"
  unfolding undistributed_def upd_md_def by (auto simp: upd_ctx_def md_of_def get_md_def get_ctx_def set_md_def)












section \<open>A topic that is freed twice\<close>

text \<open>A topic of a bridge that is not mapped for incoming messages.\<close>

definition not_mapped_in :: "mosquitto__bridge_topic \<Rightarrow> bool" where
  "not_mapped_in bt \<longleftrightarrow> bt_direction bt \<notin> {bd_both, bd_in} \<or> bt_remote_prefix bt = None \<and> bt_local_prefix bt = None"

lemma remap_in_skips: "list_all not_mapped_in qs \<Longrightarrow> remap_in (qs @ ps) topic db = remap_in ps topic db"
  by (induction qs) (auto simp: not_mapped_in_def)

text \<open>The failing match frees the topic and leaves the pointer.\<close>

lemma remap_in_fails:
  assumes "\<not> not_mapped_in cur" "bt_remote_topic cur = Some (f # fs)" "f \<noteq> CHR ''$''" "is_wild w"
  shows "remap_in (cur # post) (Live (w # ws)) db = (rc_fail MOSQ_ERR_INVAL, Freed, db)"
proof -
  have "w \<noteq> CHR ''$''" using assms(4) by (auto simp: is_wild_def)
  then have "mosquitto_topic_matches_sub (Some (f # fs)) (Some (w # ws)) True = rc_fail MOSQ_ERR_INVAL"
    using assms(3,4) by (simp add: mosquitto_topic_matches_sub_def mosquitto_topic_matches_sub2_def char_at_def)
  then show ?thesis using assms(1,2) by (auto simp: not_mapped_in_def str_of_def free_str_def)
qed

lemma wildcard_publish_topic:
  assumes "c_bridge (get_ctx c db) = Some bridge" "b_topic_remapping bridge" "b_topics bridge = pre @ cur # post"
    and "list_all not_mapped_in pre" "\<not> not_mapped_in cur"
    and "bt_remote_topic cur = Some (f # fs)" "f \<noteq> CHR ''$''" "is_wild w"
  shows "publish_topic c (Some (w # ws)) (-1) db = (Inl (Rc MOSQ_ERR_INVAL), db\<lparr>d_fault := True\<rparr>)"
proof -
  have "remap_in (b_topics bridge) (Live (w # ws)) db = (rc_fail MOSQ_ERR_INVAL, Freed, db)"
    using remap_in_skips [OF assms(4)] remap_in_fails [OF assms(5-8)] assms(3) by simp
  moreover have "\<not> uint n < -1" for n :: u16 using unsigned_greater_eq [of n, where 'a = int] by linarith
  ultimately show ?thesis using assms(1,2)
    by (simp add: publish_topic_def publish_alias_def bridge__remap_topic_in_def string_ptr_def free_str_def split: option.split)
qed

text \<open>
  C21: On a bridge that maps topics \<open>handle__publish\<close> frees the topic of a message twice when it begins with
  a wildcard. The packet is any complete PUBLISH of QoS 0 without the retain flag, with a topic in
  proper UTF-8 whose first byte is \<open>+\<close> or \<open>#\<close> and with any payload; the client is a bridge that is
  connected and does not speak MQTT 5, the first of its topics that is mapped for incoming messages has a
  remote filter that does not begin with \<open>$\<close>, and no allocation fails. Then \<open>bridge__remap_topic_in\<close>
  frees the topic and leaves the pointer, and \<open>db__msg_store_free\<close>, called by the handler, frees it
  again: \<open>d_fault\<close> is set by the second of the two.
\<close>
theorem remap_failure_frees_twice:
  assumes "c_bridge (get_ctx c db) = Some bridge" "b_topic_remapping bridge" "b_topics bridge = pre @ cur # post"
    and "list_all not_mapped_in pre" "\<not> not_mapped_in cur"
    and "bt_remote_topic cur = Some (f # fs)" "f \<noteq> CHR ''$''"
    and "c_state (get_ctx c db) = mosq_cs_active" "c_protocol (get_ctx c db) \<noteq> mosq_p_mqtt5" "d_mem db = []"
    and "rd_wf packet" "p_command packet = 0x30" "unread packet = be16 (of_nat (length bs)) @ bs @ payload"
    and "bs = b # bs'" "b \<in> {0x2B, 0x23}" "utf8_wf bs" "length bs < 65536"
  shows "handle__publish env c packet db = (Inl (Rc MOSQ_ERR_INVAL), db\<lparr>d_fault := True\<rparr>)"
proof -
  have ne: "bs \<noteq> []" using assms(14) by simp
  have s: "packet__read_string packet [] = (Inr (Some (bs @ [0]), of_nat (length bs)), adv packet (2 + length bs), [])"
    using read_string_enc [OF assms(11,13,17,16)] ne by simp
  have n0: "(of_nat (length bs) :: u16) \<noteq> 0"
    using ne assms(17) by (simp add: word_unat_eq_iff unat_of_nat take_bit_eq_mod)
  have f: "publish_flags (get_ctx c db) db (p_command packet) = Inr (0, False)"
    by (simp add: publish_flags_def assms(12))
  have "char_of (43 :: nat) = CHR ''+''" "char_of (35 :: nat) = CHR ''#''" by code_simp+
  then have w: "is_wild (char_of (unat b))" using assms(15) by (auto simp: is_wild_def)
  have t: "publish_topic c (cstring (Some (bs @ [0]))) (-1) db = (Inl (Rc MOSQ_ERR_INVAL), db\<lparr>d_fault := True\<rparr>)"
    using wildcard_publish_topic [OF assms(1-7) w, of "text_of bs'"]
    unfolding cstring_text [OF assms(16)] by (simp add: text_of_def assms(14))
  have p: "props_or_malformed CMD_PUBLISH c q db = (Inr [], q, db)" for q
    using assms(9) by (simp add: props_or_malformed_def)
  show ?thesis using assms(8,10) n0 t
    by (simp add: handle__publish_def malloc_nil f s publish_mid_def mem_same [OF assms(10)] p Let_def)
qed

definition mapped_topic :: mosquitto__bridge_topic where
  "mapped_topic = \<lparr>bt_local_prefix = Some ''l/'', bt_remote_prefix = None, bt_local_topic = Some ''l/a'',
     bt_remote_topic = Some ''a'', bt_direction = bd_in\<rparr>"

definition bridged_broker :: mosquitto_db where
  "bridged_broker = upd_ctx 0 (\<lambda>ctx. ctx\<lparr>c_listener := None, c_protocol := mosq_p_mqtt311, c_bridge := Some \<lparr>b_lazy = False,
     b_clean_start = True, b_clean_start_local = True, b_threshold = 10, b_lazy_reconnect = False, b_topic_remapping = True,
     b_topics = [mapped_topic]\<rparr>\<rparr>) empty_broker"

text \<open>A PUBLISH of one byte to \<open>#\<close>.\<close>

definition wildcard_packet :: mosquitto__packet where
  "wildcard_packet = received 0x30 4 [0, 1, 35, 120]"

theorem remap_failure_frees_twice_witness:
  "handle__publish open_env 0 wildcard_packet bridged_broker = (Inl (Rc MOSQ_ERR_INVAL), bridged_broker\<lparr>d_fault := True\<rparr>)"
proof -
  obtain b where b: "c_bridge (get_ctx 0 bridged_broker) = Some b" "b_topic_remapping b" "b_topics b = [] @ mapped_topic # []"
    by (simp add: bridged_broker_def upd_ctx_def get_ctx_def)
  have s: "c_state (get_ctx 0 bridged_broker) = mosq_cs_active" "c_protocol (get_ctx 0 bridged_broker) \<noteq> mosq_p_mqtt5" "d_mem bridged_broker = []"
    by code_simp+
  have u: "utf8_wf [35]" unfolding utf8_wf_def by (rule exI [of _ "[35]"]) (simp add: utf8_allowed_def utf8_enc_def)
  show ?thesis
    by (rule remap_failure_frees_twice [OF b, of "CHR ''a''" "[]" wildcard_packet "[35]" "[120]" 35 "[]"])
      (simp_all add: s u mapped_topic_def not_mapped_in_def wildcard_packet_def received_def packet0_def rd_wf_def unread_def be16_def)
qed

end
