(* ===== verification/Spec2Isabelle.thy ===== *)
theory Spec2Isabelle
  imports Utf8 Topics Property_List Broker_Props Topic_Tok Subs_Props Packet_Props Handlers_Props
begin

text \<open>
  A verification of the core of the mosquitto MQTT broker, the C code of this repository under
  \<open>src/src/lib/mosquitto\<close>. The build that is modelled defines \<open>WITH_BROKER\<close>, \<open>WITH_BRIDGE\<close>,
  \<open>WITH_PERSISTENCE\<close> and \<open>WITH_SYS_TREE\<close>; TLS, websockets and threads are not compiled in. Function,
  field and constant names are those of the code, record fields with a prefix for their structure.

  \<^bold>\<open>The program.\<close> A packet is a buffer with a read position (\<open>lib/packet_datatypes.c\<close>); MQTT 5 packets
  carry property lists (\<open>lib/property_mosq.c\<close>). Topics and filters are checked (\<open>lib/util_topic.c\<close>,
  \<open>lib/utf8_mosq.c\<close>), cut into levels (\<open>src/topic_tok.c\<close>) and looked up in two trees: subscriptions
  (\<open>src/subs.c\<close>) and retained messages (\<open>src/retain.c\<close>). A publication is stored once, with a
  reference count, and queued at every client that gets it (\<open>src/database.c\<close>), where it is kept until
  it is acknowledged.

  \<^bold>\<open>Theories.\<close> Each theory begins with a text that says what it holds.
  \<^item> \<open>Mosq_Prelude\<close>: integer widths, return codes, outcomes of C functions, the allocator, hash tables.
  \<^item> \<open>Utf8\<close>, \<open>Topics\<close>, \<open>Topic_Tok\<close>: strings and topics. The checks and the match are compared with
    the levels of a topic, which are a plain list of strings.
  \<^item> \<open>Packet\<close>, \<open>Property\<close>, \<open>Property_List\<close>: the data types on the wire with their encodings
    (\<open>venc\<close>, \<open>prop_enc\<close>), and the property lists of the interface.
  \<^item> \<open>Broker_State\<close>, \<open>Database\<close>: \<open>struct mosquitto_db\<close> and \<open>src/database.c\<close>. \<open>Accounting\<close> is the
    invariant of one client, \<open>Queue_Ops\<close> and \<open>Session_Ops\<close> show that every operation keeps it,
    \<open>Broker_Steps\<close> puts the clients together as a transition system, \<open>Broker_Props\<close> has the properties.
  \<^item> \<open>Retain\<close>, \<open>Retain_Ok\<close>, \<open>Retain_Search\<close>, \<open>Retain_Props\<close>: the retained messages; \<open>Broker_Lift\<close>
    carries the invariant of the broker through code outside of \<open>src/database.c\<close>.
  \<^item> \<open>Subs\<close>: \<open>src/subs.c\<close>. \<open>Subs_Tree\<close> reads the tree as a map from paths to leaves, \<open>Subs_Ok\<close> is the
    invariant that the references of the clients, the leaves and the counters agree, \<open>Subs_Remove\<close> and
    \<open>Subs_Clean\<close> take subscriptions away, \<open>Subs_Search\<close> searches with any function at the nodes (locale
    \<open>node_process\<close>), \<open>Subs_Queue\<close> instantiates it with the sending of a message, \<open>Subs_Props\<close> has the
    properties.
  \<^item> \<open>Packet_IO\<close>: \<open>lib/packet_mosq.c\<close>, the queue of outgoing packets and the reading of incoming ones, on a
    connection (\<open>mosquitto_conn\<close>, the further fields of \<open>struct mosquitto\<close>). \<open>Packet_Write_Ok\<close> treats the
    queue as one stream of bytes, \<open>Send\<close> has the functions that build packets and \<open>Send_Ok\<close> the frames
    they append to the stream, \<open>Packet_Read_Ok\<close> puts frames together from the pieces that arrive,
    \<open>Packet_Safe\<close> bounds what any input can do, \<open>Packet_Props\<close> has the properties.
  \<^item> \<open>Handlers\<close>, \<open>Handle_Subs\<close>, \<open>Handle_Publish\<close>, \<open>Handle_Packet\<close>: what the broker does with a complete
    packet: acknowledgements and pings, SUBSCRIBE and UNSUBSCRIBE, PUBLISH with the topic aliases, and
    the dispatching, in which the parts above meet. \<open>Incoming\<close> and \<open>Broker_Inv\<close> join the invariants of
    the parts to one (\<open>broker_inv\<close>, with the flag \<open>cap\<close> also that no subscription has a QoS above the
    maximum of its client), \<open>Handlers_Ok\<close>, \<open>Subscribe_Ok\<close> and \<open>Publish_Ok\<close> show that every handler
    keeps it and returns a code (locale \<open>packet_handler\<close>), \<open>Handlers_Props\<close> has the properties.

  \<^bold>\<open>Conventions.\<close> Counters that are compared or wrap are machine words; lengths of queues, byte totals
  and times are integers. A C function that changes the state takes and returns it. What a function
  cannot survive (a failed \<open>assert\<close>, an access outside of a buffer, a null pointer, freed memory) is a
  value of its result or the field \<open>d_fault\<close>, so that its absence is a theorem. Where a pointer to a string
  is freed by two functions (\<open>handle__publish\<close> and the mapping of topics) the pointer has a state of its
  own, \<open>string_ptr\<close>, and freeing a freed string sets \<open>d_fault\<close>. The outcome of every
  allocation comes from a list (\<open>mem\<close>, \<open>d_mem\<close>), the outcome of every sent packet from \<open>d_net\<close>, and
  access control is a parameter (\<open>acl_env\<close>), since plugins decide it at run time. Loops over a list or
  a tree are structural; the loops of \<open>database.c\<close> that look at a queue while they change it count
  down its length, which bounds their steps.

  \<^bold>\<open>Not modelled.\<close> The C++ agent around the broker and the JSON library it uses; the client library and
  its tools, the programs under \<open>apps\<close>, tests and examples; sockets, TLS, websockets, threads, signals
  and the main loop; reading the configuration, logging and the \<open>$SYS\<close> tree; files of the persistence;
  plugins, passwords and the default access control; bridges beyond their fields in the queues and the
  mapping of the topics that they receive. CONNECT, CONNACK, DISCONNECT and AUTH, which set up and end a
  session through the network layer, are a parameter of \<open>handle__packet\<close>: the properties of sequences of
  packets are about the packets within sessions that exist. They suppose that a bridge does not map
  topics (with mapping, a topic can be freed twice, which is proved), that there are no settings per
  listener, that callbacks of plugins leave a topic to publish to, and that allocations succeed; the
  properties of the single parts treat their failure.

  \<^bold>\<open>Bounds.\<close> The tree of retained messages files a level under a key of \<open>(uint16_t)strlen\<close> bytes, which
  cuts levels of 65536 bytes and more; the model does the same (\<open>strlen16\<close>), and what is proved of retained
  messages is about topics with shorter levels (\<open>short\<close>). Strings of property lists are bounded in the
  same way by the length field of 16 bits, with the failing case proved. An incoming packet over the maximum
  size makes the reader send a DISCONNECT; that the reader is safe then rests on a well-formed outgoing
  queue (\<open>may_disconnect\<close>). An acknowledgement fills the window up to the place of the acknowledged
  message only counted, so that more messages than the maximum can be in flight, which is shown by example.
\<close>

end
